(* ===== verification/Prelude.thy ===== *)
theory Prelude
  imports Complex_Main "HOL-Library.Word" "HOL-Library.Log_Nat"
begin

text \<open>
  What every component shares: the machine types of the C sources, NUL-terminated strings,
  the narrowing integer conversions, IEEE floating point values (finite values are rationals,
  rounding is to nearest, ties to even), the allocator, and generic lemmas on lists and words.

  An allocator is the set of request sizes (in bytes) that \<open>malloc\<close>, \<open>calloc\<close> or \<open>realloc\<close>
  serves: \<open>mem n\<close> is True when a request of \<open>n\<close> bytes succeeds. Every function of the
  sources that allocates and can report failure takes the allocator as its first argument.
\<close>

named_theorems word_nat \<comment> \<open>bit operations on bytes and codepoints as arithmetic on \<open>nat\<close>\<close>

type_synonym byte = "8 word"
type_synonym bytes = "8 word list"
type_synonym u32 = "32 word"
type_synonym u64 = "64 word"
type_synonym allocator = "nat \<Rightarrow> bool"

unbundle bit_operations_syntax

subsection \<open>NUL-terminated strings\<close>

definition c_str :: "string \<Rightarrow> string" where
  "c_str s = takeWhile (\<lambda>c. c \<noteq> CHR 0x00) s"

lemma c_str_no_nul: "CHR 0x00 \<notin> set (c_str s)"
  by (auto simp: c_str_def dest: set_takeWhileD)

lemma c_str_id: "CHR 0x00 \<notin> set s \<Longrightarrow> c_str s = s"
  by (auto simp: c_str_def takeWhile_eq_all_conv)

lemma c_str_idem [simp]: "c_str (c_str s) = c_str s"
  by (simp add: c_str_id c_str_no_nul)

lemma c_str_Nil [simp]: "c_str [] = []"
  by (simp add: c_str_def)

lemma length_c_str: "length (c_str s) \<le> length s"
  by (simp add: c_str_def length_takeWhile_le)

text \<open>\<open>strdup\<close>: a copy of the bytes before the first NUL, or \<open>NULL\<close> when memory runs out.\<close>

definition c_strdup :: "allocator \<Rightarrow> string \<Rightarrow> string option" where
  "c_strdup mem s = (if mem (length (c_str s) + 1) then Some (c_str s) else None)"

lemma c_strdup_ok [simp]: "c_strdup (\<lambda>_. True) s = Some (c_str s)"
  by (simp add: c_strdup_def)

subsection \<open>C integers\<close>

definition INT_MAX :: int where "INT_MAX = 2147483647"
definition INT_MIN :: int where "INT_MIN = - 2147483648"

text \<open>The conversion \<open>(int)x\<close> of a wider integer keeps the low 32 bits.\<close>

definition c_int :: "int \<Rightarrow> int" where
  "c_int x = (x + 2147483648) mod 4294967296 - 2147483648"

lemma c_int_range: "INT_MIN \<le> c_int x \<and> c_int x \<le> INT_MAX"
  using pos_mod_bound [of 4294967296 "x + 2147483648"] pos_mod_sign [of 4294967296 "x + 2147483648"]
  by (simp add: c_int_def INT_MIN_def INT_MAX_def)

lemma c_int_id: "INT_MIN \<le> x \<Longrightarrow> x \<le> INT_MAX \<Longrightarrow> c_int x = x"
  by (simp add: c_int_def INT_MIN_def INT_MAX_def)

lemma c_int_signed_take_bit: "c_int x = signed_take_bit 31 x"
  by (simp add: c_int_def signed_take_bit_eq_take_bit_shift take_bit_eq_mod)

subsection \<open>Floating point values\<close>

datatype cfloat = Fin rat | PInf | NInf | NaN

fun cfloat_less :: "cfloat \<Rightarrow> cfloat \<Rightarrow> bool" where
  "cfloat_less (Fin x) (Fin y) = (x < y)"
| "cfloat_less (Fin x) PInf = True"
| "cfloat_less NInf (Fin y) = True"
| "cfloat_less NInf PInf = True"
| "cfloat_less _ _ = False"

fun cfloat_eq :: "cfloat \<Rightarrow> cfloat \<Rightarrow> bool" where
  "cfloat_eq (Fin x) (Fin y) = (x = y)"
| "cfloat_eq PInf PInf = True"
| "cfloat_eq NInf NInf = True"
| "cfloat_eq _ _ = False"

definition cfloat_le :: "cfloat \<Rightarrow> cfloat \<Rightarrow> bool" where
  "cfloat_le x y = (cfloat_less x y \<or> cfloat_eq x y)"

fun cfloat_isfinite :: "cfloat \<Rightarrow> bool" where
  "cfloat_isfinite (Fin _) = True"
| "cfloat_isfinite _ = False"

definition pow2 :: "int \<Rightarrow> rat" where
  "pow2 e = (if 0 \<le> e then 2 ^ nat e else 1 / 2 ^ nat (- e))"

definition rat_ilog2 :: "rat \<Rightarrow> int" where
  "rat_ilog2 x =
     (let (a, b) = quotient_of x;
          k = int (floorlog 2 (nat a)) - int (floorlog 2 (nat b))
      in if pow2 k \<le> x then k else k - 1)"

definition round_half_even :: "rat \<Rightarrow> int" where
  "round_half_even x =
     (let f = \<lfloor>x\<rfloor>; d = x - of_int f
      in if d < 1 / 2 then f else if d > 1 / 2 then f + 1 else if even f then f else f + 1)"

text \<open>Round a rational to the format with \<open>p\<close> significant bits and exponents in \<open>emin..emax\<close>.\<close>

definition ieee_round :: "int \<Rightarrow> int \<Rightarrow> int \<Rightarrow> rat \<Rightarrow> cfloat" where
  "ieee_round p emin emax x =
     (if x = 0 then Fin 0
      else let e = max (rat_ilog2 \<bar>x\<bar>) emin;
               ulp = pow2 (e - (p - 1));
               r = of_int (round_half_even (x / ulp)) * ulp
           in if pow2 (emax + 1) \<le> \<bar>r\<bar> then (if 0 < x then PInf else NInf) else Fin r)"

definition f32_round :: "rat \<Rightarrow> cfloat" where
  "f32_round = ieee_round 24 (- 126) 127"

definition f64_round :: "rat \<Rightarrow> cfloat" where
  "f64_round = ieee_round 53 (- 1022) 1023"

lemma pow2_pos: "0 < pow2 e"
  by (simp add: pow2_def)

lemma round_half_even_nonneg: "0 \<le> x \<Longrightarrow> 0 \<le> round_half_even x"
  by (auto simp: round_half_even_def Let_def)

lemma round_half_even_of_int [simp]: "round_half_even (of_int n) = n"
  by (simp add: round_half_even_def)

text \<open>Rounding keeps the sign: a value that is not negative never becomes negative.\<close>

lemma f32_round_nonneg: "0 \<le> x \<Longrightarrow> \<not> cfloat_less (f32_round x) (Fin 0)"
  by (auto simp: f32_round_def ieee_round_def Let_def not_less
      intro!: mult_nonneg_nonneg round_half_even_nonneg divide_nonneg_pos pow2_pos
      order.strict_implies_order [OF pow2_pos])

subsection \<open>Growable buffers\<close>

text \<open>The doubling loop \<open>while (cap < need) cap *= 2\<close> of every growable buffer of the sources.\<close>

function grow_cap :: "nat \<Rightarrow> nat \<Rightarrow> nat" where
  "grow_cap cap need = (if cap < need \<and> 0 < cap then grow_cap (cap * 2) need else cap)"
  by pat_completeness auto
termination
  by (relation "measure (\<lambda>(cap, need). need - cap)") auto

declare grow_cap.simps [simp del]

lemma grow_cap_ge: "0 < cap \<Longrightarrow> need \<le> grow_cap cap need"
  by (induction cap need rule: grow_cap.induct) (subst grow_cap.simps, auto)

lemma grow_cap_mono: "cap \<le> grow_cap cap need"
  by (induction cap need rule: grow_cap.induct) (subst grow_cap.simps, auto)

lemma grow_cap_lt: "0 < cap \<Longrightarrow> cap < need \<Longrightarrow> grow_cap cap need < 2 * need"
proof (induction cap need rule: grow_cap.induct)
  case (1 cap need)
  show ?case
  proof (cases "cap * 2 < need")
    case True
    with 1 show ?thesis by (subst grow_cap.simps) simp
  next
    case False
    with 1 show ?thesis by (subst grow_cap.simps, subst grow_cap.simps) auto
  qed
qed

subsection \<open>Lists\<close>

lemma take_append_drop_append: "k \<le> length xs \<Longrightarrow> take k (xs @ ys) @ drop k (xs @ ys) = xs @ ys"
  by simp

lemma foldl_append_concat: "foldl (\<lambda>acc x. acc @ f x) a xs = a @ concat (map f xs)"
  by (induction xs arbitrary: a) auto

lemma filter_index_Suc: "[0..<Suc n] = 0 # map Suc [0..<n]"
  by (simp add: map_Suc_upt upt_conv_Cons)

subsection \<open>Bit operations as arithmetic\<close>

lemma unat_and_mask [word_nat]:
  fixes w :: "'a::len word"
  shows "unat (w AND mask n) = unat w mod 2 ^ n"
  by (simp only: unsigned_take_bit_eq take_bit_nat_def flip: take_bit_eq_mask)

lemma and_not_mask_shift: "w AND NOT (mask n) = push_bit n (drop_bit n (w :: 'a::len word))"
  by (rule bit_word_eqI) (auto simp: bit_simps)

lemma unat_and_not_mask [word_nat]:
  fixes w :: "'a::len word"
  shows "unat (w AND NOT (mask n)) = unat w div 2 ^ n * 2 ^ n"
proof -
  have "unat w div 2 ^ n * 2 ^ n \<le> unat w"
    by (rule div_times_less_eq_dividend)
  also have "unat w < 2 ^ LENGTH('a)"
    by (rule unsigned_less)
  finally show ?thesis
    by (simp add: and_not_mask_shift unsigned_push_bit_eq unat_drop_bit_eq take_bit_nat_eq_self
        push_bit_nat_def drop_bit_nat_def)
qed

lemma unat_drop_bit [word_nat]: "unat (drop_bit n (v :: 'a::len word)) = unat v div 2 ^ n"
  by (simp only: unat_drop_bit_eq drop_bit_nat_def)

lemma unat_push_bit [word_nat]:
  "unat (push_bit n (w :: 'a::len word)) = unat w * 2 ^ n mod 2 ^ LENGTH('a)"
  by (simp add: unsigned_push_bit_eq take_bit_nat_def push_bit_nat_def)

lemma unat_byte_lt: "unat (a :: byte) < 256"
  using unsigned_less [of a, where 'a = nat] by simp

lemma unat_u32_lt: "unat (a :: u32) < 4294967296"
  using unsigned_less [of a, where 'a = nat] by simp

lemma unat_ucast_byte [word_nat]: "unat (ucast (a :: byte) :: u32) = unat a"
proof -
  have "unat a < 2 ^ 32"
    using unat_byte_lt [of a] by simp
  then show ?thesis
    by (simp add: unsigned_ucast_eq take_bit_nat_eq_self)
qed

lemma unat_ucast_to_byte [word_nat]: "unat (ucast (a :: u32) :: byte) = unat a mod 256"
  by (simp add: unsigned_ucast_eq take_bit_nat_def)

lemma nat_or_plus:
  fixes a b :: nat
  assumes "b < 2 ^ n"
  shows "push_bit n a OR b = a * 2 ^ n + b"
proof -
  have b: "take_bit n b = b"
    using assms by (simp add: take_bit_nat_eq_self)
  have "push_bit n a + take_bit n b = push_bit n a OR take_bit n b"
    by (rule disjunctive_add) (auto simp: bit_simps)
  then show ?thesis
    by (simp add: b push_bit_eq_mult)
qed

text \<open>Joining a high part and a disjoint low part with \<open>OR\<close> adds them.\<close>

lemma unat_or_disj:
  fixes x y :: "'a::len word"
  assumes "unat x = a * 2 ^ n" "unat y < 2 ^ n"
  shows "unat (x OR y) = a * 2 ^ n + unat y"
proof -
  have "unat (x OR y) = push_bit n a OR unat y"
    by (simp add: unsigned_or_eq assms push_bit_nat_def)
  with nat_or_plus [OF assms(2)] show ?thesis
    by simp
qed

lemma mask_lits:
  "(0x3F :: 'a::len word) = mask 6" "(0x1F :: 'a word) = mask 5" "(0x0F :: 'a word) = mask 4"
  "(0x07 :: 'a word) = mask 3" "(0xFF :: 'a word) = mask 8"
  by (simp_all add: mask_eq_exp_minus_1)

lemma not_mask_lits:
  "(0xE0 :: byte) = NOT (mask 5)" "(0xC0 :: byte) = NOT (mask 6)"
  "(0xF0 :: byte) = NOT (mask 4)" "(0xF8 :: byte) = NOT (mask 3)"
  by (simp_all add: mask_eq_exp_minus_1)

text \<open>The masks the sources apply, as remainders and multiples.\<close>

lemma unat_masks [word_nat]:
  "unat (w AND 0x3F :: 'a::len word) = unat w mod 64"
  "unat (w AND 0x1F :: 'a::len word) = unat w mod 32"
  "unat (w AND 0x0F :: 'a::len word) = unat w mod 16"
  "unat (w AND 0x07 :: 'a::len word) = unat w mod 8"
  "unat (w AND 0xFF :: 'a::len word) = unat w mod 256"
  unfolding mask_lits unat_and_mask by simp_all

lemma unat_high_masks [word_nat]:
  "unat (b AND 0xE0 :: byte) = unat b div 32 * 32"
  "unat (b AND 0xC0 :: byte) = unat b div 64 * 64"
  "unat (b AND 0xF0 :: byte) = unat b div 16 * 16"
  "unat (b AND 0xF8 :: byte) = unat b div 8 * 8"
  unfolding not_mask_lits unat_and_not_mask by simp_all

lemma word_of_nat_unat_mod:
  assumes "unat (b :: byte) = n mod 256"
  shows "word_of_nat n = b"
proof -
  have "unat (word_of_nat n :: byte) = unat b"
    by (simp add: assms unsigned_of_nat take_bit_nat_def)
  then show ?thesis
    by (rule unsigned_word_eqI)
qed

subsection \<open>Decimal output\<close>

text \<open>The conversions \<open>%d\<close>, \<open>%ld\<close> and \<open>%zu\<close> of \<open>snprintf\<close>.\<close>

function fmt_nat :: "nat \<Rightarrow> string" where
  "fmt_nat n = (if n < 10 then [char_of (48 + n)] else fmt_nat (n div 10) @ [char_of (48 + n mod 10)])"
  by pat_completeness auto
termination by (relation "measure id") auto

declare fmt_nat.simps [simp del]

definition fmt_int :: "int \<Rightarrow> string" where
  "fmt_int i = (if i < 0 then CHR ''-'' # fmt_nat (nat (- i)) else fmt_nat (nat i))"

end
