(* ===== verification/CoreTypes.thy ===== *)
theory CoreTypes
  imports Prelude
begin

text \<open>
  The shared data types of \<open>src/core/types.h\<close> and the functions of \<open>src/core/types.c\<close>: finish
  reasons, sampling and generation parameters, message content and its flattening to prompt
  text. A \<open>char *\<close> that may be \<open>NULL\<close> is a \<open>string option\<close>; a pointer with a count is a list.
  The \<open>_free\<close> functions of the file only release memory and have no counterpart here.
\<close>

subsection \<open>Finish reasons\<close>

datatype finish_reason =
  FINISH_STOP | FINISH_LENGTH | FINISH_TOOL_CALLS | FINISH_CONTENT_FILTER | FINISH_CANCELLED

definition finish_reason_str :: "finish_reason \<Rightarrow> string" where
  "finish_reason_str r = (case r of
     FINISH_STOP \<Rightarrow> ''stop''
   | FINISH_LENGTH \<Rightarrow> ''length''
   | FINISH_TOOL_CALLS \<Rightarrow> ''tool_calls''
   | FINISH_CONTENT_FILTER \<Rightarrow> ''content_filter''
   | FINISH_CANCELLED \<Rightarrow> ''cancelled'')"

definition finish_reason_wire_str :: "finish_reason \<Rightarrow> string" where
  "finish_reason_wire_str r =
     (if r = FINISH_CANCELLED then ''stop'' else finish_reason_str r)"

lemma finish_reason_str_inj: "finish_reason_str a = finish_reason_str b \<longleftrightarrow> a = b"
  by (cases a; cases b) (simp_all add: finish_reason_str_def)

lemma finish_reason_wire_str_not_cancelled: "finish_reason_wire_str r \<noteq> ''cancelled''"
  by (cases r) (simp_all add: finish_reason_wire_str_def finish_reason_str_def)

lemma c_str_finish_reason_wire [simp]:
  "c_str (finish_reason_wire_str r) = finish_reason_wire_str r"
  by (cases r) (simp_all add: finish_reason_wire_str_def finish_reason_str_def c_str_def)

subsection \<open>Sampling and generation parameters\<close>

record sampling_params =
  sp_temperature :: cfloat
  sp_top_p :: cfloat
  sp_top_k :: int
  sp_min_p :: cfloat
  sp_seed :: int

definition SAMPLING_PARAMS_DEFAULT :: sampling_params where
  "SAMPLING_PARAMS_DEFAULT = \<lparr>sp_temperature = Fin 1, sp_top_p = Fin 1, sp_top_k = -1,
     sp_min_p = Fin 0, sp_seed = -1\<rparr>"

definition sampling_params_validate :: "sampling_params \<Rightarrow> string + unit" where
  "sampling_params_validate p =
     (if cfloat_less (sp_temperature p) (Fin 0) then Inl ''temperature must be >= 0''
      else if cfloat_less (sp_top_p p) (Fin 0) \<or> cfloat_less (Fin 1) (sp_top_p p)
        then Inl ''top_p must be in [0, 1]''
      else if cfloat_less (sp_min_p p) (Fin 0) \<or> cfloat_less (Fin 1) (sp_min_p p)
        then Inl ''min_p must be in [0, 1]''
      else if sp_top_k p < -1 then Inl ''top_k must be >= -1''
      else Inr ())"

definition SAMPLING_SET_TEMPERATURE :: u32 where "SAMPLING_SET_TEMPERATURE = push_bit 0 1"
definition SAMPLING_SET_TOP_P :: u32 where "SAMPLING_SET_TOP_P = push_bit 1 1"
definition SAMPLING_SET_TOP_K :: u32 where "SAMPLING_SET_TOP_K = push_bit 2 1"
definition SAMPLING_SET_MIN_P :: u32 where "SAMPLING_SET_MIN_P = push_bit 3 1"
definition SAMPLING_SET_SEED :: u32 where "SAMPLING_SET_SEED = push_bit 4 1"

lemmas sampling_set_defs =
  SAMPLING_SET_TEMPERATURE_def SAMPLING_SET_TOP_P_def SAMPLING_SET_TOP_K_def
  SAMPLING_SET_MIN_P_def SAMPLING_SET_SEED_def

record gen_params =
  gp_sampling :: sampling_params
  gp_sampling_set :: u32
  gp_max_tokens :: int
  gp_n :: int
  gp_stream :: bool
  gp_logprobs :: bool
  gp_top_logprobs :: int
  gp_stop :: "string list"

subsection \<open>Roles, tool calls and message content\<close>

datatype role = ROLE_SYSTEM | ROLE_USER | ROLE_ASSISTANT | ROLE_TOOL

definition role_str :: "role \<Rightarrow> string" where
  "role_str r = (case r of ROLE_SYSTEM \<Rightarrow> ''system'' | ROLE_USER \<Rightarrow> ''user''
     | ROLE_ASSISTANT \<Rightarrow> ''assistant'' | ROLE_TOOL \<Rightarrow> ''tool'')"

record tool_call =
  tc_id :: "string option"
  tc_function_name :: "string option"
  tc_arguments :: "string option"

record content_part =
  cp_type :: "string option"
  cp_text :: "string option"
  cp_has_image_url :: bool
  cp_image_url :: "string option"

datatype content_kind = CONTENT_NONE | CONTENT_STRING | CONTENT_PARTS

record message_content =
  mc_kind :: content_kind
  mc_string :: "string option"
  mc_parts :: "content_part list"

definition content_part_is_text :: "content_part \<Rightarrow> bool" where
  "content_part_is_text p = (case (cp_type p, cp_text p) of
     (Some t, Some _) \<Rightarrow> c_str t = ''text''
   | _ \<Rightarrow> False)"

text \<open>The two passes over the parts: the size of the output, then the copies into it.\<close>

fun parts_total :: "content_part list \<Rightarrow> nat \<Rightarrow> nat" where
  "parts_total [] tot = tot"
| "parts_total (p # ps) tot =
     (if \<not> content_part_is_text p then parts_total ps tot
      else parts_total ps (tot + length (c_str (the (cp_text p)))))"

fun parts_copy :: "content_part list \<Rightarrow> string \<Rightarrow> string" where
  "parts_copy [] out = out"
| "parts_copy (p # ps) out =
     (if \<not> content_part_is_text p then parts_copy ps out
      else parts_copy ps (out @ c_str (the (cp_text p))))"

definition message_content_text :: "allocator \<Rightarrow> message_content option \<Rightarrow> string option" where
  "message_content_text mem c = (case c of
     None \<Rightarrow> None
   | Some c \<Rightarrow>
     (case mc_kind c of
       CONTENT_NONE \<Rightarrow> None
     | CONTENT_STRING \<Rightarrow>
         (case mc_string c of None \<Rightarrow> None | Some s \<Rightarrow> c_strdup mem s)
     | CONTENT_PARTS \<Rightarrow>
         (let tot = parts_total (mc_parts c) 0
          in if \<not> mem (tot + 1) then None else Some (parts_copy (mc_parts c) ''''))))"

record message =
  m_role :: role
  m_content :: message_content
  m_name :: "string option"
  m_tool_calls :: "tool_call list"
  m_tool_call_id :: "string option"

record function_def =
  fd_name :: "string option"
  fd_description :: "string option"
  fd_parameters_json :: "string option"

record tool =
  tool_type :: "string option"
  tool_function :: function_def

datatype tool_choice_kind =
  TOOL_CHOICE_UNSET | TOOL_CHOICE_AUTO | TOOL_CHOICE_NONE | TOOL_CHOICE_REQUIRED
| TOOL_CHOICE_FUNCTION

record tool_choice =
  tch_kind :: tool_choice_kind
  tch_function_name :: "string option"

datatype gen_err_kind = GEN_ERR_INTERNAL | GEN_ERR_CONTEXT_LENGTH

text \<open>A chunk is a tagged union of a token, the end of the stream and an error.\<close>

datatype chunk =
  CHUNK_TOKEN (tok_id: int) (tok_logprob: cfloat)
| CHUNK_DONE (chunk_done: finish_reason)
| CHUNK_ERROR (chunk_error_kind: gen_err_kind) (chunk_error: string)

record usage =
  u_prompt_tokens :: int
  u_completion_tokens :: int
  u_total_tokens :: int

subsection \<open>Flattening of message content\<close>

definition text_parts :: "content_part list \<Rightarrow> string list" where
  "text_parts ps = map (\<lambda>p. c_str (the (cp_text p))) (filter content_part_is_text ps)"

lemma parts_copy_eq: "parts_copy ps out = out @ concat (text_parts ps)"
  by (induction ps arbitrary: out) (auto simp: text_parts_def)

lemma parts_total_eq: "parts_total ps n = n + length (concat (text_parts ps))"
  by (induction ps arbitrary: n) (auto simp: text_parts_def)

subsection \<open>Properties\<close>

text \<open>The message text handed to the template is the text parts of the message, in order and
  complete: the second pass over the parts writes exactly the bytes the first pass counted, so the
  copies fill the allocated buffer and never overrun it.\<close>

theorem message_content_text_parts:
  assumes "mc_kind c = CONTENT_PARTS" "message_content_text mem (Some c) = Some t"
  shows "t = concat (text_parts (mc_parts c)) \<and> length t = parts_total (mc_parts c) 0 \<and>
    mem (length t + 1)"
  using assms
  by (auto simp: message_content_text_def parts_copy_eq parts_total_eq Let_def split: if_splits)

definition sample_parts :: message_content where
  "sample_parts = \<lparr>mc_kind = CONTENT_PARTS, mc_string = None, mc_parts =
     [\<lparr>cp_type = Some ''text'', cp_text = Some ''ab'', cp_has_image_url = False, cp_image_url = None\<rparr>,
      \<lparr>cp_type = Some ''image_url'', cp_text = Some ''x'', cp_has_image_url = True,
       cp_image_url = Some ''u''\<rparr>,
      \<lparr>cp_type = Some ''text'', cp_text = Some ''c'', cp_has_image_url = False,
       cp_image_url = None\<rparr>]\<rparr>"

lemma sample_parts_text:
  "mc_kind sample_parts = CONTENT_PARTS"
  "message_content_text (\<lambda>n. n \<le> 4) (Some sample_parts) = Some ''abc''"
  by code_simp+

theorem message_content_text_parts_witness:
  "concat (text_parts (mc_parts sample_parts)) = ''abc'' \<and> parts_total (mc_parts sample_parts) 0 = 3"
  using message_content_text_parts [OF sample_parts_text] by simp

text \<open>Sampling parameters pass validation exactly when none is out of range; a value that is
  not a number is in no range and passes, since every comparison with it is false.\<close>

theorem sampling_params_validate_ok:
  "sampling_params_validate p = Inr () \<longleftrightarrow>
     (sp_temperature p = NaN \<or> cfloat_le (Fin 0) (sp_temperature p)) \<and>
     (sp_top_p p = NaN \<or> cfloat_le (Fin 0) (sp_top_p p) \<and> cfloat_le (sp_top_p p) (Fin 1)) \<and>
     (sp_min_p p = NaN \<or> cfloat_le (Fin 0) (sp_min_p p) \<and> cfloat_le (sp_min_p p) (Fin 1)) \<and>
     -1 \<le> sp_top_k p"
  by (cases "sp_temperature p"; cases "sp_top_p p"; cases "sp_min_p p")
    (auto simp: sampling_params_validate_def cfloat_le_def)

end
