(* ===== verification/Json.thy ===== *)
theory Json
  imports CoreTypes
begin

text \<open>
  JSON documents as the sources see them through \<open>yyjson\<close>: a value type and the accessors and
  builder calls the sources use. A pointer that \<open>yyjson\<close> may return as \<open>NULL\<close> is an option.
  Object members are kept in document order with duplicates; a lookup returns the first match.
  Parsing text into a document and writing a document as text are \<open>yyjson\<close>'s own (vendored)
  code and appear as function parameters in the components that use them.
\<close>

datatype json =
  JNull | JBool bool | JInt int | JReal cfloat | JStr string
| JArr "json list" | JObj "(string \<times> json) list"

type_synonym jval = "json option"

subsection \<open>Type tests and getters\<close>

fun yyjson_is_null :: "jval \<Rightarrow> bool" where
  "yyjson_is_null (Some JNull) = True" | "yyjson_is_null _ = False"

fun yyjson_is_bool :: "jval \<Rightarrow> bool" where
  "yyjson_is_bool (Some (JBool _)) = True" | "yyjson_is_bool _ = False"

fun yyjson_is_int :: "jval \<Rightarrow> bool" where
  "yyjson_is_int (Some (JInt _)) = True" | "yyjson_is_int _ = False"

fun yyjson_is_num :: "jval \<Rightarrow> bool" where
  "yyjson_is_num (Some (JInt _)) = True"
| "yyjson_is_num (Some (JReal _)) = True"
| "yyjson_is_num _ = False"

fun yyjson_is_str :: "jval \<Rightarrow> bool" where
  "yyjson_is_str (Some (JStr _)) = True" | "yyjson_is_str _ = False"

fun yyjson_is_arr :: "jval \<Rightarrow> bool" where
  "yyjson_is_arr (Some (JArr _)) = True" | "yyjson_is_arr _ = False"

fun yyjson_is_obj :: "jval \<Rightarrow> bool" where
  "yyjson_is_obj (Some (JObj _)) = True" | "yyjson_is_obj _ = False"

fun yyjson_get_bool :: "jval \<Rightarrow> bool" where
  "yyjson_get_bool (Some (JBool b)) = b" | "yyjson_get_bool _ = False"

text \<open>An integer is read as its 64-bit pattern; 0 for other types.\<close>

fun yyjson_get_sint :: "jval \<Rightarrow> int" where
  "yyjson_get_sint (Some (JInt i)) = (i + 2 ^ 63) mod 2 ^ 64 - 2 ^ 63"
| "yyjson_get_sint _ = 0"

fun yyjson_get_num :: "jval \<Rightarrow> cfloat" where
  "yyjson_get_num (Some (JInt i)) = f64_round (of_int i)"
| "yyjson_get_num (Some (JReal r)) = r"
| "yyjson_get_num _ = Fin 0"

text \<open>The string of a value, up to its first NUL as every C reader sees it.\<close>

fun yyjson_get_str :: "jval \<Rightarrow> string option" where
  "yyjson_get_str (Some (JStr s)) = Some (c_str s)"
| "yyjson_get_str _ = None"

fun yyjson_arr_items :: "jval \<Rightarrow> json list" where
  "yyjson_arr_items (Some (JArr xs)) = xs"
| "yyjson_arr_items _ = []"

fun yyjson_obj_get :: "jval \<Rightarrow> string \<Rightarrow> jval" where
  "yyjson_obj_get (Some (JObj kvs)) k = map_of kvs k"
| "yyjson_obj_get _ k = None"

text \<open>The narrowing conversion \<open>(float)d\<close> of a double.\<close>

fun double_to_float :: "cfloat \<Rightarrow> cfloat" where
  "double_to_float (Fin x) = f32_round x"
| "double_to_float v = v"

subsection \<open>Building objects\<close>

text \<open>
  Adding a string member copies the C string; a \<open>NULL\<close> value adds nothing. Building calls
  append at the end, so an object is written below as the concatenation of its members.
\<close>

definition add_strcpy :: "string \<Rightarrow> string option \<Rightarrow> (string \<times> json) list" where
  "add_strcpy k v = (case v of None \<Rightarrow> [] | Some s \<Rightarrow> [(k, JStr (c_str s))])"

definition add_str :: "string \<Rightarrow> string \<Rightarrow> (string \<times> json) list" where
  "add_str k s = add_strcpy k (Some s)"

definition add_int :: "string \<Rightarrow> int \<Rightarrow> (string \<times> json) list" where
  "add_int k i = [(k, JInt i)]"

definition add_real :: "string \<Rightarrow> cfloat \<Rightarrow> (string \<times> json) list" where
  "add_real k r = [(k, JReal r)]"

definition add_null :: "string \<Rightarrow> (string \<times> json) list" where
  "add_null k = [(k, JNull)]"

definition add_val :: "string \<Rightarrow> json \<Rightarrow> (string \<times> json) list" where
  "add_val k v = [(k, v)]"

lemmas json_add_defs [simp] =
  add_strcpy_def add_str_def add_int_def add_real_def add_null_def add_val_def

subsection \<open>Facts\<close>

lemma yyjson_is_objE: "yyjson_is_obj v \<Longrightarrow> (\<And>kvs. v = Some (JObj kvs) \<Longrightarrow> P) \<Longrightarrow> P"
  by (cases v rule: yyjson_is_obj.cases) auto

lemma yyjson_is_strE: "yyjson_is_str v \<Longrightarrow> (\<And>s. v = Some (JStr s) \<Longrightarrow> P) \<Longrightarrow> P"
  by (cases v rule: yyjson_is_str.cases) auto

lemma yyjson_is_arrE: "yyjson_is_arr v \<Longrightarrow> (\<And>xs. v = Some (JArr xs) \<Longrightarrow> P) \<Longrightarrow> P"
  by (cases v rule: yyjson_is_arr.cases) auto

lemma yyjson_is_intE: "yyjson_is_int v \<Longrightarrow> (\<And>i. v = Some (JInt i) \<Longrightarrow> P) \<Longrightarrow> P"
  by (cases v rule: yyjson_is_int.cases) auto

lemma yyjson_get_sint_id:
  "- (2 ^ 63) \<le> i \<Longrightarrow> i < 2 ^ 63 \<Longrightarrow> yyjson_get_sint (Some (JInt i)) = i"
  by simp

end
