(* ===== verification/OpenAIParse.thy ===== *)
theory OpenAIParse
  imports Json
begin

text \<open>
  The request side of \<open>src/core/openai.c\<close>: parsing a JSON body into the chat completion,
  completion and embedding requests. A parser returns \<open>Inl\<close> of the error text the source
  stores in \<open>*err\<close>, or \<open>Inr\<close> of the request. Allocation requests carry the sizes of the
  LP64 layout, so that every out-of-memory branch is a branch of the model.
\<close>

abbreviation (input) sizeof_ptr :: nat where "sizeof_ptr \<equiv> 8"
abbreviation (input) sizeof_content_part :: nat where "sizeof_content_part \<equiv> 32"
abbreviation (input) sizeof_tool :: nat where "sizeof_tool \<equiv> 32"
abbreviation (input) sizeof_message :: nat where "sizeof_message \<equiv> 72"
abbreviation (input) sizeof_tool_call :: nat where "sizeof_tool_call \<equiv> 24"

subsection \<open>Shared parse helpers\<close>

definition dup_str :: "allocator \<Rightarrow> string option \<Rightarrow> string option" where
  "dup_str mem s = (case s of None \<Rightarrow> None | Some s \<Rightarrow> c_strdup mem s)"

definition json_str_dup :: "allocator \<Rightarrow> jval \<Rightarrow> string option" where
  "json_str_dup mem v = (case yyjson_get_str v of None \<Rightarrow> None | Some s \<Rightarrow> dup_str mem (Some s))"

fun dup_stop_items :: "allocator \<Rightarrow> json list \<Rightarrow> string + string list" where
  "dup_stop_items mem [] = Inr []"
| "dup_stop_items mem (x # xs) =
     (case json_str_dup mem (Some x) of
        None \<Rightarrow> Inl ''stop values must be strings''
      | Some s \<Rightarrow> (case dup_stop_items mem xs of Inl e \<Rightarrow> Inl e | Inr ss \<Rightarrow> Inr (s # ss)))"

definition parse_stop :: "allocator \<Rightarrow> jval \<Rightarrow> string + string list" where
  "parse_stop mem v =
     (if v = None then Inr []
      else if yyjson_is_str v then
        (if \<not> mem sizeof_ptr then Inl ''out of memory''
         else case dup_str mem (yyjson_get_str v) of
           None \<Rightarrow> Inl ''out of memory''
         | Some s \<Rightarrow> Inr [s])
      else if yyjson_is_arr v then
        (let n = length (yyjson_arr_items v)
         in if n = 0 then Inr []
            else if \<not> mem (n * sizeof_ptr) then Inl ''out of memory''
            else dup_stop_items mem (yyjson_arr_items v))
      else Inr [])"

definition role_from_str :: "string option \<Rightarrow> role option" where
  "role_from_str s = (case s of
     None \<Rightarrow> None
   | Some s \<Rightarrow>
     (if s = ''system'' then Some ROLE_SYSTEM
      else if s = ''user'' then Some ROLE_USER
      else if s = ''assistant'' then Some ROLE_ASSISTANT
      else if s = ''tool'' then Some ROLE_TOOL
      else None))"

definition parse_content_part :: "allocator \<Rightarrow> json \<Rightarrow> content_part" where
  "parse_content_part mem item =
     (let iu = yyjson_obj_get (Some item) ''image_url''
      in \<lparr>cp_type = json_str_dup mem (yyjson_obj_get (Some item) ''type''),
          cp_text = json_str_dup mem (yyjson_obj_get (Some item) ''text''),
          cp_has_image_url = yyjson_is_obj iu,
          cp_image_url = (if yyjson_is_obj iu
                          then json_str_dup mem (yyjson_obj_get iu ''url'') else None)\<rparr>)"

text \<open>\<open>None\<close> is the source's \<open>-1\<close>: a malformed value, or no memory for the parts.\<close>

definition parse_content :: "allocator \<Rightarrow> jval \<Rightarrow> message_content option" where
  "parse_content mem v =
     (if v = None \<or> yyjson_is_null v
        then Some \<lparr>mc_kind = CONTENT_NONE, mc_string = None, mc_parts = []\<rparr>
      else if yyjson_is_str v
        then Some \<lparr>mc_kind = CONTENT_STRING, mc_string = json_str_dup mem v, mc_parts = []\<rparr>
      else if yyjson_is_arr v then
        (let items = yyjson_arr_items v; n = length items
         in if n = 0 then Some \<lparr>mc_kind = CONTENT_PARTS, mc_string = None, mc_parts = []\<rparr>
            else if \<not> mem (n * sizeof_content_part) then None
            else Some \<lparr>mc_kind = CONTENT_PARTS, mc_string = None,
                       mc_parts = map (parse_content_part mem) items\<rparr>)
      else None)"

subsection \<open>Tools\<close>

text \<open>
  \<open>yyjson_val_write\<close> is the vendored writer; it is the parameter \<open>wr\<close>, \<open>None\<close> on failure.
\<close>

definition json_val_dup :: "(json \<Rightarrow> string option) \<Rightarrow> jval \<Rightarrow> string option" where
  "json_val_dup wr v = (case v of None \<Rightarrow> None | Some j \<Rightarrow> wr j)"

definition parse_tool :: "allocator \<Rightarrow> (json \<Rightarrow> string option) \<Rightarrow> json \<Rightarrow> tool" where
  "parse_tool mem wr t =
     (let fn = yyjson_obj_get (Some t) ''function''
      in \<lparr>tool_type = json_str_dup mem (yyjson_obj_get (Some t) ''type''),
          tool_function =
            (if yyjson_is_obj fn
             then \<lparr>fd_name = json_str_dup mem (yyjson_obj_get fn ''name''),
                   fd_description = json_str_dup mem (yyjson_obj_get fn ''description''),
                   fd_parameters_json = json_val_dup wr (yyjson_obj_get fn ''parameters'')\<rparr>
             else \<lparr>fd_name = None, fd_description = None, fd_parameters_json = None\<rparr>)\<rparr>)"

definition parse_tools ::
  "allocator \<Rightarrow> (json \<Rightarrow> string option) \<Rightarrow> jval \<Rightarrow> string + tool list" where
  "parse_tools mem wr tools =
     (if tools = None then Inr []
      else if \<not> yyjson_is_arr tools then Inl ''tools must be an array''
      else let n = length (yyjson_arr_items tools)
        in if n = 0 then Inr []
           else if \<not> mem (n * sizeof_tool) then Inl ''out of memory''
           else Inr (map (parse_tool mem wr) (yyjson_arr_items tools)))"

definition parse_tool_choice :: "allocator \<Rightarrow> jval \<Rightarrow> string + tool_choice" where
  "parse_tool_choice mem v =
     (if v = None then Inr \<lparr>tch_kind = TOOL_CHOICE_UNSET, tch_function_name = None\<rparr>
      else if yyjson_is_str v then
        (let s = the (yyjson_get_str v)
         in if s = ''auto'' then Inr \<lparr>tch_kind = TOOL_CHOICE_AUTO, tch_function_name = None\<rparr>
            else if s = ''none'' then Inr \<lparr>tch_kind = TOOL_CHOICE_NONE, tch_function_name = None\<rparr>
            else if s = ''required''
              then Inr \<lparr>tch_kind = TOOL_CHOICE_REQUIRED, tch_function_name = None\<rparr>
            else Inl ''invalid tool_choice'')
      else if yyjson_is_obj v then
        (let fn = yyjson_obj_get v ''function''
         in if \<not> yyjson_is_obj fn then Inl ''tool_choice object missing function''
            else case json_str_dup mem (yyjson_obj_get fn ''name'') of
              None \<Rightarrow> Inl ''tool_choice function missing name''
            | Some nm \<Rightarrow> Inr \<lparr>tch_kind = TOOL_CHOICE_FUNCTION, tch_function_name = Some nm\<rparr>)
      else Inr \<lparr>tch_kind = TOOL_CHOICE_UNSET, tch_function_name = None\<rparr>)"

subsection \<open>Messages\<close>

definition parse_tool_call :: "allocator \<Rightarrow> json \<Rightarrow> tool_call" where
  "parse_tool_call mem tc =
     (let fn = yyjson_obj_get (Some tc) ''function''
      in \<lparr>tc_id = json_str_dup mem (yyjson_obj_get (Some tc) ''id''),
          tc_function_name =
            (if yyjson_is_obj fn then json_str_dup mem (yyjson_obj_get fn ''name'') else None),
          tc_arguments =
            (if yyjson_is_obj fn then json_str_dup mem (yyjson_obj_get fn ''arguments'')
             else None)\<rparr>)"

definition parse_message :: "allocator \<Rightarrow> json \<Rightarrow> string + message" where
  "parse_message mem m =
     (case role_from_str (yyjson_get_str (yyjson_obj_get (Some m) ''role'')) of
        None \<Rightarrow> Inl ''invalid or missing message role''
      | Some r \<Rightarrow>
        (case parse_content mem (yyjson_obj_get (Some m) ''content'') of
           None \<Rightarrow> Inl ''invalid message content''
         | Some c \<Rightarrow>
           (let tcs = yyjson_arr_items (yyjson_obj_get (Some m) ''tool_calls'');
                tc_n = length tcs
            in if tc_n > 0 \<and> \<not> mem (tc_n * sizeof_tool_call) then Inl ''out of memory''
               else Inr \<lparr>m_role = r, m_content = c,
                         m_name = json_str_dup mem (yyjson_obj_get (Some m) ''name''),
                         m_tool_calls = map (parse_tool_call mem) tcs,
                         m_tool_call_id =
                           json_str_dup mem (yyjson_obj_get (Some m) ''tool_call_id'')\<rparr>)))"

fun parse_message_items :: "allocator \<Rightarrow> json list \<Rightarrow> string + message list" where
  "parse_message_items mem [] = Inr []"
| "parse_message_items mem (m # ms) =
     (case parse_message mem m of
        Inl e \<Rightarrow> Inl e
      | Inr x \<Rightarrow> (case parse_message_items mem ms of Inl e \<Rightarrow> Inl e | Inr xs \<Rightarrow> Inr (x # xs)))"

definition parse_messages :: "allocator \<Rightarrow> jval \<Rightarrow> string + message list" where
  "parse_messages mem msgs =
     (if \<not> yyjson_is_arr msgs then Inl ''missing required field: messages''
      else let n = length (yyjson_arr_items msgs)
        in if \<not> mem ((if n = 0 then 1 else n) * sizeof_message) then Inl ''out of memory''
           else parse_message_items mem (yyjson_arr_items msgs))"

subsection \<open>Sampling knobs\<close>

text \<open>
  \<open>top_k\<close> accepts a number with an integral value in the range of \<open>int\<close>; the source casts
  before it tests the range, which is undefined for other values and never accepted here.
\<close>

definition top_k_of_num :: "cfloat \<Rightarrow> int option" where
  "top_k_of_num d = (case d of
     Fin x \<Rightarrow> (if x = of_int \<lfloor>x\<rfloor> \<and> of_int INT_MIN \<le> x \<and> x \<le> of_int INT_MAX
               then Some \<lfloor>x\<rfloor> else None)
   | _ \<Rightarrow> None)"

definition set_temperature :: "jval \<Rightarrow> gen_params \<Rightarrow> gen_params" where
  "set_temperature v p =
     (if yyjson_is_num v
      then p\<lparr>gp_sampling := (gp_sampling p)\<lparr>sp_temperature := double_to_float (yyjson_get_num v)\<rparr>,
             gp_sampling_set := gp_sampling_set p OR SAMPLING_SET_TEMPERATURE\<rparr>
      else p)"

definition set_top_p :: "jval \<Rightarrow> gen_params \<Rightarrow> gen_params" where
  "set_top_p v p =
     (if yyjson_is_num v
      then p\<lparr>gp_sampling := (gp_sampling p)\<lparr>sp_top_p := double_to_float (yyjson_get_num v)\<rparr>,
             gp_sampling_set := gp_sampling_set p OR SAMPLING_SET_TOP_P\<rparr>
      else p)"

definition set_top_k :: "jval \<Rightarrow> gen_params \<Rightarrow> gen_params" where
  "set_top_k v p =
     (if yyjson_is_num v
      then (case top_k_of_num (yyjson_get_num v) of
              None \<Rightarrow> p
            | Some k \<Rightarrow> p\<lparr>gp_sampling := (gp_sampling p)\<lparr>sp_top_k := k\<rparr>,
                          gp_sampling_set := gp_sampling_set p OR SAMPLING_SET_TOP_K\<rparr>)
      else p)"

definition set_min_p :: "jval \<Rightarrow> gen_params \<Rightarrow> gen_params" where
  "set_min_p v p =
     (if yyjson_is_num v
      then p\<lparr>gp_sampling := (gp_sampling p)\<lparr>sp_min_p := double_to_float (yyjson_get_num v)\<rparr>,
             gp_sampling_set := gp_sampling_set p OR SAMPLING_SET_MIN_P\<rparr>
      else p)"

definition set_seed :: "jval \<Rightarrow> gen_params \<Rightarrow> gen_params" where
  "set_seed v p =
     (if yyjson_is_int v
      then p\<lparr>gp_sampling := (gp_sampling p)\<lparr>sp_seed := c_int (yyjson_get_sint v)\<rparr>,
             gp_sampling_set := gp_sampling_set p OR SAMPLING_SET_SEED\<rparr>
      else p)"

definition parse_sampling :: "gen_params \<Rightarrow> jval \<Rightarrow> gen_params" where
  "parse_sampling params rt =
     set_seed (yyjson_obj_get rt ''seed'')
       (set_min_p (yyjson_obj_get rt ''min_p'')
         (set_top_k (yyjson_obj_get rt ''top_k'')
           (set_top_p (yyjson_obj_get rt ''top_p'')
             (set_temperature (yyjson_obj_get rt ''temperature'') params))))"

definition gen_params_init :: gen_params where
  "gen_params_init = \<lparr>gp_sampling = SAMPLING_PARAMS_DEFAULT, gp_sampling_set = 0,
     gp_max_tokens = 0, gp_n = 1, gp_stream = False, gp_logprobs = False,
     gp_top_logprobs = 0, gp_stop = []\<rparr>"

subsection \<open>The chat completion request\<close>

record chat_completion_request =
  ccr_model :: "string option"
  ccr_messages :: "message list"
  ccr_params :: gen_params
  ccr_tools :: "tool list"
  ccr_tool_choice :: tool_choice
  ccr_include_usage :: bool

text \<open>The scalar generation fields, between the messages and \<open>stop\<close>.\<close>

definition parse_chat_scalars :: "jval \<Rightarrow> gen_params \<Rightarrow> string + gen_params" where
  "parse_chat_scalars rt p0 =
     (let p1 = parse_sampling p0 rt;
          mct = yyjson_obj_get rt ''max_completion_tokens'';
          mt = yyjson_obj_get rt ''max_tokens'';
          p2 = (if yyjson_is_int mct then p1\<lparr>gp_max_tokens := c_int (yyjson_get_sint mct)\<rparr>
                else if yyjson_is_int mt then p1\<lparr>gp_max_tokens := c_int (yyjson_get_sint mt)\<rparr>
                else p1);
          stream = yyjson_obj_get rt ''stream'';
          p3 = (if yyjson_is_bool stream then p2\<lparr>gp_stream := yyjson_get_bool stream\<rparr> else p2);
          lp = yyjson_obj_get rt ''logprobs'';
          p4 = (if yyjson_is_bool lp then p3\<lparr>gp_logprobs := yyjson_get_bool lp\<rparr> else p3);
          tlp = yyjson_obj_get rt ''top_logprobs''
      in if yyjson_is_int tlp then
           (let tlp_val = c_int (yyjson_get_sint tlp)
            in if tlp_val < 0 then Inl ''top_logprobs must be >= 0''
               else if tlp_val > 0 then Inl ''top_logprobs is not yet supported''
               else Inr (p4\<lparr>gp_top_logprobs := tlp_val\<rparr>))
         else Inr p4)"

definition parse_include_usage :: "jval \<Rightarrow> bool" where
  "parse_include_usage rt =
     (let so = yyjson_obj_get rt ''stream_options''; iu = yyjson_obj_get so ''include_usage''
      in yyjson_is_obj so \<and> yyjson_is_bool iu \<and> yyjson_get_bool iu)"

definition chat_completion_request_parse ::
  "allocator \<Rightarrow> (json \<Rightarrow> string option) \<Rightarrow> jval \<Rightarrow> string + chat_completion_request" where
  "chat_completion_request_parse mem wr rt =
     (if \<not> yyjson_is_obj rt then Inl ''request body must be a JSON object''
      else let model = yyjson_obj_get rt ''model''
      in if \<not> yyjson_is_str model then Inl ''missing required field: model''
      else case parse_messages mem (yyjson_obj_get rt ''messages'') of
        Inl e \<Rightarrow> Inl e
      | Inr msgs \<Rightarrow>
      (case parse_chat_scalars rt gen_params_init of
        Inl e \<Rightarrow> Inl e
      | Inr p \<Rightarrow>
      (case parse_stop mem (yyjson_obj_get rt ''stop'') of
        Inl e \<Rightarrow> Inl e
      | Inr stop \<Rightarrow>
      (case parse_tools mem wr (yyjson_obj_get rt ''tools'') of
        Inl e \<Rightarrow> Inl e
      | Inr tools \<Rightarrow>
      (case parse_tool_choice mem (yyjson_obj_get rt ''tool_choice'') of
        Inl e \<Rightarrow> Inl e
      | Inr tch \<Rightarrow>
        Inr \<lparr>ccr_model = json_str_dup mem model, ccr_messages = msgs,
             ccr_params = p\<lparr>gp_stop := stop\<rparr>, ccr_tools = tools, ccr_tool_choice = tch,
             ccr_include_usage = parse_include_usage rt\<rparr>)))))"

subsection \<open>The completion request\<close>

record completion_request =
  cr_model :: "string option"
  cr_prompt :: "string option"
  cr_params :: gen_params

definition completion_request_parse :: "allocator \<Rightarrow> jval \<Rightarrow> string + completion_request" where
  "completion_request_parse mem rt =
     (if \<not> yyjson_is_obj rt then Inl ''request body must be a JSON object''
      else let model = yyjson_obj_get rt ''model''
      in if \<not> yyjson_is_str model then Inl ''missing required field: model''
      else let prompt = yyjson_obj_get rt ''prompt''
      in if yyjson_is_arr prompt then Inl ''completion prompt array form not supported''
      else if \<not> yyjson_is_str prompt then Inl ''missing required field: prompt''
      else let p1 = parse_sampling gen_params_init rt;
               mt = yyjson_obj_get rt ''max_tokens'';
               p2 = (if yyjson_is_int mt then p1\<lparr>gp_max_tokens := c_int (yyjson_get_sint mt)\<rparr>
                     else p1);
               stream = yyjson_obj_get rt ''stream'';
               p3 = (if yyjson_is_bool stream then p2\<lparr>gp_stream := yyjson_get_bool stream\<rparr>
                     else p2);
               clp = yyjson_obj_get rt ''logprobs''
      in if yyjson_is_int clp \<and> yyjson_get_sint clp \<ge> 1
           then Inl ''logprobs is not supported on the completions endpoint''
      else case parse_stop mem (yyjson_obj_get rt ''stop'') of
        Inl e \<Rightarrow> Inl e
      | Inr stop \<Rightarrow> Inr \<lparr>cr_model = json_str_dup mem model, cr_prompt = json_str_dup mem prompt,
                       cr_params = p3\<lparr>gp_stop := stop\<rparr>\<rparr>)"

subsection \<open>The embedding request\<close>

record embedding_request =
  er_model :: "string option"
  er_input :: string
  er_encoding_format :: string

definition embedding_request_parse :: "allocator \<Rightarrow> jval \<Rightarrow> string + embedding_request" where
  "embedding_request_parse mem rt =
     (if \<not> yyjson_is_obj rt then Inl ''request body must be a JSON object''
      else let model = yyjson_obj_get rt ''model''
      in if \<not> yyjson_is_str model then Inl ''missing required field: model''
      else let inp = yyjson_obj_get rt ''input''
      in if yyjson_is_arr inp then Inl ''embedding input array form not supported''
      else if \<not> yyjson_is_str inp then Inl ''missing required field: input''
      else case json_str_dup mem inp of
        None \<Rightarrow> Inl ''out of memory''
      | Some i \<Rightarrow>
        (let ef = yyjson_obj_get rt ''encoding_format''
         in case (if yyjson_is_str ef then json_str_dup mem ef
                  else dup_str mem (Some ''float'')) of
              None \<Rightarrow> Inl ''out of memory''
            | Some f \<Rightarrow> Inr \<lparr>er_model = json_str_dup mem model, er_input = i,
                            er_encoding_format = f\<rparr>))"

subsection \<open>What an accepted chat request satisfies\<close>

lemma parse_message_items_Inr:
  "parse_message_items mem ms = Inr xs \<Longrightarrow>
   list_all2 (\<lambda>m x. parse_message mem m = Inr x) ms xs"
  by (induction ms arbitrary: xs) (auto split: sum.splits)

lemma parse_messages_Inr:
  assumes "parse_messages mem v = Inr xs"
  shows "\<exists>ms. v = Some (JArr ms) \<and> list_all2 (\<lambda>m x. parse_message mem m = Inr x) ms xs"
  using assms
  by (cases v rule: yyjson_is_arr.cases)
    (auto simp: parse_messages_def Let_def parse_message_items_Inr split: if_splits)

lemma parse_message_role:
  "parse_message mem m = Inr x \<Longrightarrow>
   role_from_str (yyjson_get_str (yyjson_obj_get (Some m) ''role'')) = Some (m_role x)"
  by (auto simp: parse_message_def Let_def split: option.splits if_splits)

lemma set_sampling_other [simp]:
  "gp_max_tokens (parse_sampling p rt) = gp_max_tokens p"
  "gp_n (parse_sampling p rt) = gp_n p"
  "gp_top_logprobs (parse_sampling p rt) = gp_top_logprobs p"
  "gp_stream (parse_sampling p rt) = gp_stream p"
  by (simp_all add: parse_sampling_def set_seed_def set_min_p_def set_top_k_def set_top_p_def
      set_temperature_def split: option.splits)

lemma parse_chat_scalars_Inr:
  assumes "parse_chat_scalars rt gen_params_init = Inr p"
  shows "gp_n p = 1" "gp_top_logprobs p = 0" "INT_MIN \<le> gp_max_tokens p" "gp_max_tokens p \<le> INT_MAX"
proof -
  have lits: "INT_MIN \<le> 0" "0 \<le> INT_MAX"
    by (simp_all add: INT_MIN_def INT_MAX_def)
  note [simp] = lits c_int_range [THEN conjunct1] c_int_range [THEN conjunct2]
  show "gp_n p = 1" "gp_top_logprobs p = 0" "INT_MIN \<le> gp_max_tokens p" "gp_max_tokens p \<le> INT_MAX"
    using assms unfolding parse_chat_scalars_def Let_def gen_params_init_def
    by (simp_all split: if_split_asm) (auto split: if_splits)?
qed

lemma chat_completion_request_parse_Inr:
  assumes "chat_completion_request_parse mem wr rt = Inr req"
  obtains md msgs p stop where
    "yyjson_obj_get rt ''model'' = Some (JStr md)"
    "parse_messages mem (yyjson_obj_get rt ''messages'') = Inr msgs"
    "parse_chat_scalars rt gen_params_init = Inr p"
    "parse_stop mem (yyjson_obj_get rt ''stop'') = Inr stop"
    "ccr_messages req = msgs" "ccr_params req = p\<lparr>gp_stop := stop\<rparr>"
  using assms
  by (auto simp: chat_completion_request_parse_def Let_def elim!: yyjson_is_strE
      split: if_splits sum.splits)

lemma dup_stop_items_Inr:
  "dup_stop_items mem xs = Inr ss \<Longrightarrow> list_all2 (\<lambda>x s. yyjson_get_str (Some x) = Some s) xs ss"
  by (induction xs arbitrary: ss)
    (auto simp: json_str_dup_def dup_str_def c_strdup_def
      split: sum.splits option.splits if_splits elim!: yyjson_get_str.elims)

text \<open>C1. Every accepted chat request is well formed: the body has a string \<open>model\<close> and an array
  \<open>messages\<close>, there is exactly one parsed message per array element, in order, each with the role
  its element names; \<open>n\<close> is 1 and no top log probabilities are asked for (both unsupported), and
  \<open>max_tokens\<close> fits a C \<open>int\<close>.\<close>

theorem chat_request_accepted:
  assumes "chat_completion_request_parse mem wr rt = Inr req"
  shows "\<exists>ms md. yyjson_obj_get rt ''messages'' = Some (JArr ms) \<and>
      yyjson_obj_get rt ''model'' = Some (JStr md) \<and>
      list_all2 (\<lambda>m x. role_from_str (yyjson_get_str (yyjson_obj_get (Some m) ''role''))
                         = Some (m_role x)) ms (ccr_messages req) \<and>
      gp_n (ccr_params req) = 1 \<and> gp_top_logprobs (ccr_params req) = 0 \<and>
      INT_MIN \<le> gp_max_tokens (ccr_params req) \<and> gp_max_tokens (ccr_params req) \<le> INT_MAX"
  using assms
proof (rule chat_completion_request_parse_Inr)
  fix md msgs p stop
  assume md: "yyjson_obj_get rt ''model'' = Some (JStr md)"
    and msgs: "parse_messages mem (yyjson_obj_get rt ''messages'') = Inr msgs"
    and p: "parse_chat_scalars rt gen_params_init = Inr p"
    and req: "ccr_messages req = msgs" "ccr_params req = p\<lparr>gp_stop := stop\<rparr>"
  from parse_messages_Inr [OF msgs] obtain ms where
    "yyjson_obj_get rt ''messages'' = Some (JArr ms)"
    "list_all2 (\<lambda>m x. parse_message mem m = Inr x) ms msgs" by blast
  then show ?thesis
    using md parse_chat_scalars_Inr [OF p] req
    by (auto elim!: list_all2_mono dest: parse_message_role)
qed

definition sample_chat_body :: jval where
  "sample_chat_body = Some (JObj [(''model'', JStr ''m''),
     (''messages'', JArr [JObj [(''role'', JStr ''user''), (''content'', JStr ''hi'')]]),
     (''temperature'', JInt 0), (''max_tokens'', JInt 16), (''stop'', JStr ''x'')])"

definition sample_chat_request :: chat_completion_request where
  "sample_chat_request = projr (chat_completion_request_parse (\<lambda>_. True) (\<lambda>_. None) sample_chat_body)"

lemma sample_chat_parse:
  "chat_completion_request_parse (\<lambda>_. True) (\<lambda>_. None) sample_chat_body = Inr sample_chat_request"
  by code_simp

theorem chat_request_accepted_witness:
  "INT_MIN \<le> gp_max_tokens (ccr_params sample_chat_request) \<and>
   gp_max_tokens (ccr_params sample_chat_request) = 16"
proof -
  have "gp_max_tokens (ccr_params sample_chat_request) = 16"
    by code_simp
  then show ?thesis
    using chat_request_accepted [OF sample_chat_parse] by blast
qed

end
