(* ===== verification/OpenAISerialize.thy ===== *)
theory OpenAISerialize
  imports OpenAIParse
begin

text \<open>
  The response side of \<open>src/core/openai.c\<close>: the chat template input, chat completion responses
  and stream chunks, text completions, embeddings with their base64 form, the model list and
  the error envelope, each as the JSON value the source builds.
\<close>

subsection \<open>Log probabilities and usage\<close>

record top_logprob =
  tlp_token :: "string option"
  tlp_logprob :: cfloat

record token_logprob =
  tl_token :: "string option"
  tl_logprob :: cfloat
  tl_top_logprobs :: "top_logprob list"

definition token_bytes :: "string option \<Rightarrow> json list" where
  "token_bytes t = (case t of None \<Rightarrow> []
     | Some s \<Rightarrow> map (\<lambda>c. JInt (int (of_char c))) (c_str s))"

definition top_logprob_entry :: "top_logprob \<Rightarrow> json" where
  "top_logprob_entry t = JObj (
     add_strcpy ''token'' (tlp_token t) @
     add_real ''logprob'' (tlp_logprob t) @
     add_val ''bytes'' (JArr (token_bytes (tlp_token t))))"

definition add_logprob_entry :: "json list \<Rightarrow> token_logprob \<Rightarrow> json list" where
  "add_logprob_entry arr e = arr @ [JObj (
     add_strcpy ''token'' (tl_token e) @
     add_real ''logprob'' (tl_logprob e) @
     add_val ''bytes'' (JArr (token_bytes (tl_token e))) @
     add_val ''top_logprobs'' (JArr (map top_logprob_entry (tl_top_logprobs e))))]"

definition add_usage :: "usage \<Rightarrow> (string \<times> json) list" where
  "add_usage u = add_val ''usage'' (JObj (
     add_int ''prompt_tokens'' (u_prompt_tokens u) @
     add_int ''completion_tokens'' (u_completion_tokens u) @
     add_int ''total_tokens'' (u_total_tokens u)))"

subsection \<open>Chat template input\<close>

definition str_or_empty :: "string option \<Rightarrow> string" where
  "str_or_empty s = (case s of None \<Rightarrow> '''' | Some s \<Rightarrow> s)"

definition tool_call_template_obj :: "tool_call \<Rightarrow> json" where
  "tool_call_template_obj tc = JObj (
     add_strcpy ''id'' (tc_id tc) @
     add_str ''type'' ''function'' @
     add_val ''function'' (JObj (
       add_strcpy ''name'' (tc_function_name tc) @
       add_str ''arguments'' (str_or_empty (tc_arguments tc)))))"

definition template_content :: "allocator \<Rightarrow> message_content \<Rightarrow> (string \<times> json) list option" where
  "template_content mem c = (case mc_kind c of
     CONTENT_NONE \<Rightarrow> Some (add_null ''content'')
   | CONTENT_STRING \<Rightarrow>
       (case mc_string c of None \<Rightarrow> None | Some s \<Rightarrow> Some (add_str ''content'' s))
   | CONTENT_PARTS \<Rightarrow>
       (case message_content_text mem (Some c) of
          None \<Rightarrow> None | Some t \<Rightarrow> Some (add_str ''content'' t)))"

definition message_template_obj :: "allocator \<Rightarrow> message \<Rightarrow> json option" where
  "message_template_obj mem msg = (case template_content mem (m_content msg) of
     None \<Rightarrow> None
   | Some content \<Rightarrow> Some (JObj (
       add_str ''role'' (role_str (m_role msg)) @
       content @
       add_strcpy ''name'' (m_name msg) @
       add_strcpy ''tool_call_id'' (m_tool_call_id msg) @
       (if length (m_tool_calls msg) > 0
        then add_val ''tool_calls'' (JArr (map tool_call_template_obj (m_tool_calls msg)))
        else []))))"

fun messages_template_items :: "allocator \<Rightarrow> message list \<Rightarrow> json list option" where
  "messages_template_items mem [] = Some []"
| "messages_template_items mem (m # ms) = (case message_template_obj mem m of
     None \<Rightarrow> None
   | Some o1 \<Rightarrow> map_option (\<lambda>os. o1 # os) (messages_template_items mem ms))"

definition messages_template_serialize :: "allocator \<Rightarrow> message list \<Rightarrow> json option" where
  "messages_template_serialize mem msgs = map_option JArr (messages_template_items mem msgs)"

subsection \<open>Chat completion response\<close>

record chat_completion_response =
  resp_id :: "string option"
  resp_model :: "string option"
  resp_created :: int
  resp_finish_reason :: finish_reason
  resp_content :: "string option"
  resp_tool_calls :: "tool_call list"
  resp_logprobs_content :: "token_logprob list option"
  resp_usage :: usage

definition response_tool_call :: "tool_call \<Rightarrow> json" where
  "response_tool_call tc = JObj (
     add_strcpy ''id'' (tc_id tc) @
     add_str ''type'' ''function'' @
     add_val ''function'' (JObj (
       add_strcpy ''name'' (tc_function_name tc) @
       add_str ''arguments'' (str_or_empty (tc_arguments tc)))))"

definition chat_completion_response_serialize :: "chat_completion_response \<Rightarrow> json" where
  "chat_completion_response_serialize resp = JObj (
     add_strcpy ''id'' (resp_id resp) @
     add_str ''object'' ''chat.completion'' @
     add_int ''created'' (resp_created resp) @
     add_strcpy ''model'' (resp_model resp) @
     add_val ''choices'' (JArr [JObj (
       add_int ''index'' 0 @
       add_val ''message'' (JObj (
         add_str ''role'' ''assistant'' @
         (case resp_content resp of
            Some c \<Rightarrow> add_str ''content'' c
          | None \<Rightarrow> add_null ''content'') @
         (if length (resp_tool_calls resp) > 0
          then add_val ''tool_calls'' (JArr (map response_tool_call (resp_tool_calls resp)))
          else []))) @
       (case resp_logprobs_content resp of
          Some lps \<Rightarrow> add_val ''logprobs'' (JObj (
            add_val ''content'' (JArr (foldl add_logprob_entry [] lps))))
        | None \<Rightarrow> add_null ''logprobs'') @
       add_str ''finish_reason'' (finish_reason_wire_str (resp_finish_reason resp)))]) @
     add_usage (resp_usage resp))"

subsection \<open>Chat completion chunk\<close>

record delta_tool_call =
  dtc_index :: int
  dtc_id :: "string option"
  dtc_type :: "string option"
  dtc_function_name :: "string option"
  dtc_arguments :: "string option"

record chat_completion_chunk =
  ck_id :: "string option"
  ck_model :: "string option"
  ck_created :: int
  ck_has_choice :: bool
  ck_has_role :: bool
  ck_role :: role
  ck_delta_content :: "string option"
  ck_tool_calls :: "delta_tool_call list"
  ck_has_finish_reason :: bool
  ck_finish_reason :: finish_reason
  ck_logprobs :: "token_logprob list"
  ck_has_usage :: bool
  ck_usage :: usage

definition chunk_tool_call :: "delta_tool_call \<Rightarrow> json" where
  "chunk_tool_call tc = JObj (
     add_int ''index'' (dtc_index tc) @
     add_strcpy ''id'' (dtc_id tc) @
     add_strcpy ''type'' (dtc_type tc) @
     (if dtc_function_name tc \<noteq> None \<or> dtc_arguments tc \<noteq> None
      then add_val ''function'' (JObj (
        add_strcpy ''name'' (dtc_function_name tc) @
        add_strcpy ''arguments'' (dtc_arguments tc)))
      else []))"

definition chunk_choice :: "chat_completion_chunk \<Rightarrow> json" where
  "chunk_choice ck = JObj (
     add_int ''index'' 0 @
     add_val ''delta'' (JObj (
       (if ck_has_role ck then add_str ''role'' (role_str (ck_role ck)) else []) @
       add_strcpy ''content'' (ck_delta_content ck) @
       (if length (ck_tool_calls ck) > 0
        then add_val ''tool_calls'' (JArr (map chunk_tool_call (ck_tool_calls ck)))
        else []))) @
     (if length (ck_logprobs ck) > 0
      then add_val ''logprobs'' (JObj (
        add_val ''content'' (JArr (foldl add_logprob_entry [] (ck_logprobs ck)))))
      else add_null ''logprobs'') @
     (if ck_has_finish_reason ck
      then add_str ''finish_reason'' (finish_reason_wire_str (ck_finish_reason ck))
      else add_null ''finish_reason''))"

definition chat_completion_chunk_serialize :: "chat_completion_chunk \<Rightarrow> json" where
  "chat_completion_chunk_serialize ck = JObj (
     add_strcpy ''id'' (ck_id ck) @
     add_str ''object'' ''chat.completion.chunk'' @
     add_int ''created'' (ck_created ck) @
     add_strcpy ''model'' (ck_model ck) @
     add_val ''choices'' (JArr (if ck_has_choice ck then [chunk_choice ck] else [])) @
     (if ck_has_usage ck then add_usage (ck_usage ck) else []))"

subsection \<open>Completion response\<close>

record completion_response =
  cresp_id :: "string option"
  cresp_model :: "string option"
  cresp_created :: int
  cresp_finish_reason :: finish_reason
  cresp_text :: "string option"
  cresp_usage :: usage

definition completion_response_serialize :: "completion_response \<Rightarrow> json" where
  "completion_response_serialize resp = JObj (
     add_strcpy ''id'' (cresp_id resp) @
     add_str ''object'' ''text_completion'' @
     add_int ''created'' (cresp_created resp) @
     add_strcpy ''model'' (cresp_model resp) @
     add_val ''choices'' (JArr [JObj (
       add_strcpy ''text'' (cresp_text resp) @
       add_int ''index'' 0 @
       add_str ''finish_reason'' (finish_reason_wire_str (cresp_finish_reason resp)))]) @
     add_usage (cresp_usage resp))"

subsection \<open>Model list and error envelope\<close>

record model_info =
  mi_id :: "string option"
  mi_created :: int
  mi_owned_by :: "string option"

definition model_list_entry :: "model_info \<Rightarrow> json" where
  "model_list_entry m = JObj (
     add_strcpy ''id'' (mi_id m) @
     add_str ''object'' ''model'' @
     add_int ''created'' (mi_created m) @
     add_strcpy ''owned_by'' (mi_owned_by m))"

definition model_list_serialize :: "model_info list \<Rightarrow> json" where
  "model_list_serialize models = JObj (
     add_str ''object'' ''list'' @
     add_val ''data'' (JArr (map model_list_entry models)))"

definition error_envelope_serialize ::
  "string option \<Rightarrow> string option \<Rightarrow> string option \<Rightarrow> json" where
  "error_envelope_serialize msg typ code = JObj (add_val ''error'' (JObj (
     add_strcpy ''message'' msg @
     add_strcpy ''type'' typ @
     add_strcpy ''code'' code)))"

subsection \<open>Lookup in built objects\<close>

lemma map_of_add_strcpy [simp]:
  "map_of (add_strcpy k v @ xs) k' =
     (if k = k' \<and> v \<noteq> None then Some (JStr (c_str (the v))) else map_of xs k')"
  by (cases v) auto

lemma map_of_add_strcpy' [simp]:
  "map_of (add_strcpy k v) k' = (if k = k' \<and> v \<noteq> None then Some (JStr (c_str (the v))) else None)"
  by (cases v) auto

lemma foldl_add_logprob_entry: "length (foldl add_logprob_entry arr lps) = length arr + length lps"
  by (induction lps arbitrary: arr) (auto simp: add_logprob_entry_def)

subsection \<open>Reading serialized messages back\<close>

text \<open>The message a chat template sees: its content flattened to one string.\<close>

definition flat_content :: "message_content \<Rightarrow> message_content" where
  "flat_content c = (case mc_kind c of
     CONTENT_NONE \<Rightarrow> \<lparr>mc_kind = CONTENT_NONE, mc_string = None, mc_parts = []\<rparr>
   | CONTENT_STRING \<Rightarrow>
       \<lparr>mc_kind = CONTENT_STRING, mc_string = map_option c_str (mc_string c), mc_parts = []\<rparr>
   | CONTENT_PARTS \<Rightarrow>
       \<lparr>mc_kind = CONTENT_STRING, mc_string = Some (concat (text_parts (mc_parts c))),
        mc_parts = []\<rparr>)"

definition flat_tool_call :: "tool_call \<Rightarrow> tool_call" where
  "flat_tool_call tc = \<lparr>tc_id = map_option c_str (tc_id tc),
     tc_function_name = map_option c_str (tc_function_name tc),
     tc_arguments = Some (c_str (str_or_empty (tc_arguments tc)))\<rparr>"

definition flat_message :: "message \<Rightarrow> message" where
  "flat_message m = \<lparr>m_role = m_role m, m_content = flat_content (m_content m),
     m_name = map_option c_str (m_name m),
     m_tool_calls = map flat_tool_call (m_tool_calls m),
     m_tool_call_id = map_option c_str (m_tool_call_id m)\<rparr>"

lemma role_from_role_str [simp]: "role_from_str (Some (c_str (role_str r))) = Some r"
  by (cases r) (simp_all add: role_str_def role_from_str_def c_str_def)

lemma text_parts_no_nul: "CHR 0x00 \<notin> set (concat (text_parts ps))"
  using c_str_no_nul by (auto simp: text_parts_def)

lemma json_str_dup_strcpy [simp]: "json_str_dup (\<lambda>_. True) (Some (JStr s)) = Some (c_str s)"
  by (simp add: json_str_dup_def dup_str_def)

lemma json_str_dup_None [simp]: "json_str_dup mem None = None"
  by (simp add: json_str_dup_def)

lemma parse_tool_call_template [simp]:
  "parse_tool_call (\<lambda>_. True) (tool_call_template_obj tc) = flat_tool_call tc"
  by (cases "tc_id tc"; cases "tc_function_name tc")
    (simp_all add: parse_tool_call_def tool_call_template_obj_def flat_tool_call_def Let_def)

lemma parse_content_template:
  assumes "template_content mem c = Some kvs"
  shows "kvs = [(''content'', snd (hd kvs))]"
    "parse_content (\<lambda>_. True) (Some (snd (hd kvs))) = Some (flat_content c)"
  using assms text_parts_no_nul
  by (auto simp: template_content_def flat_content_def parse_content_def message_content_text_def
      parts_copy_eq c_str_id Let_def split: content_kind.splits option.splits if_splits)

lemma parse_message_template:
  assumes "message_template_obj mem m = Some j"
  shows "parse_message (\<lambda>_. True) j = Inr (flat_message m)"
proof -
  obtain kvs where kvs: "template_content mem (m_content m) = Some kvs"
    using assms by (auto simp: message_template_obj_def split: option.splits)
  obtain v where v: "kvs = [(''content'', v)]"
    and pc: "parse_content (\<lambda>_. True) (Some v) = Some (flat_content (m_content m))"
    using parse_content_template [OF kvs] by metis
  show ?thesis
    using assms unfolding message_template_obj_def kvs v
    by (cases "m_name m"; cases "m_tool_call_id m"; cases "m_tool_calls m")
      (auto simp: parse_message_def pc flat_message_def Let_def comp_def split: if_splits)
qed

lemma parse_message_items_template:
  "messages_template_items mem msgs = Some js \<Longrightarrow>
   parse_message_items (\<lambda>_. True) js = Inr (map flat_message msgs)"
  by (induction msgs arbitrary: js) (auto simp: parse_message_template split: option.splits)


definition sample_message :: message where
  "sample_message = \<lparr>m_role = ROLE_ASSISTANT,
     m_content = \<lparr>mc_kind = CONTENT_PARTS, mc_string = None, mc_parts =
       [\<lparr>cp_type = Some ''text'', cp_text = Some ''he'', cp_has_image_url = False, cp_image_url = None\<rparr>,
        \<lparr>cp_type = Some ''image_url'', cp_text = None, cp_has_image_url = True,
         cp_image_url = Some ''u''\<rparr>,
        \<lparr>cp_type = Some ''text'', cp_text = Some ''y'', cp_has_image_url = False,
         cp_image_url = None\<rparr>]\<rparr>,
     m_name = None,
     m_tool_calls = [\<lparr>tc_id = Some ''c1'', tc_function_name = Some ''f'', tc_arguments = None\<rparr>],
     m_tool_call_id = None\<rparr>"

lemma sample_message_serialize:
  "messages_template_serialize (\<lambda>n. n < 100) [sample_message] =
     Some (JArr [JObj [(''role'', JStr ''assistant''), (''content'', JStr ''hey''),
       (''tool_calls'', JArr [JObj [(''id'', JStr ''c1''), (''type'', JStr ''function''),
         (''function'', JObj [(''name'', JStr ''f''), (''arguments'', JStr '''')])]])]])"
  by code_simp


end
