(* ===== verification/Base64.thy ===== *)
theory Base64
  imports OpenAISerialize
begin

text \<open>
  The base64 form of an embedding vector in \<open>src/core/openai.c\<close>: the encoder over 32-bit
  groups, the little-endian bytes of each float's bit pattern, and the embedding response.
  A decoder is the specification the encoder is checked against.
\<close>

definition b64_alphabet :: string where
  "b64_alphabet = ''ABCDEFGHIJKLMNOPQRSTUVWXYZabcdefghijklmnopqrstuvwxyz0123456789+/''"

definition b64_char :: "u32 \<Rightarrow> char" where
  "b64_char v = b64_alphabet ! unat (v AND 0x3F)"

fun base64_encode :: "bytes \<Rightarrow> string" where
  "base64_encode (a # b # c # rest) =
     (let v = push_bit 16 (ucast a) OR push_bit 8 (ucast b) OR ucast c
      in [b64_char (drop_bit 18 v), b64_char (drop_bit 12 v), b64_char (drop_bit 6 v), b64_char v]
         @ base64_encode rest)"
| "base64_encode [a] =
     (let v = push_bit 16 (ucast a)
      in [b64_char (drop_bit 18 v), b64_char (drop_bit 12 v), CHR ''='', CHR ''=''])"
| "base64_encode [a, b] =
     (let v = push_bit 16 (ucast a) OR push_bit 8 (ucast b)
      in [b64_char (drop_bit 18 v), b64_char (drop_bit 12 v), b64_char (drop_bit 6 v), CHR ''=''])"
| "base64_encode [] = []"

text \<open>The bytes of one float, least significant first, from its bit pattern.\<close>

definition float_le_bytes :: "u32 \<Rightarrow> bytes" where
  "float_le_bytes bits =
     [ucast (bits AND 0xFF), ucast (drop_bit 8 bits AND 0xFF),
      ucast (drop_bit 16 bits AND 0xFF), ucast (drop_bit 24 bits AND 0xFF)]"

record embedding_data =
  ed_index :: int
  ed_values :: "u32 list" \<comment> \<open>the bit patterns of the floats\<close>

definition add_embedding_base64 :: "allocator \<Rightarrow> embedding_data \<Rightarrow> (string \<times> json) list" where
  "add_embedding_base64 mem d =
     (let nbytes = length (ed_values d) * 4
      in if \<not> mem (if nbytes = 0 then 1 else nbytes) then []
         else let bs = concat (map float_le_bytes (ed_values d))
         in if \<not> mem (((nbytes + 2) div 3) * 4 + 1) then []
            else add_str ''embedding'' (base64_encode bs))"

record embedding_response =
  eresp_model :: "string option"
  eresp_data :: "embedding_data list"
  eresp_usage :: usage
  eresp_encoding_format :: "string option"

text \<open>\<open>rd\<close> reads a bit pattern as the value of a float.\<close>

definition embedding_entry :: "allocator \<Rightarrow> (u32 \<Rightarrow> cfloat) \<Rightarrow> bool \<Rightarrow> embedding_data \<Rightarrow> json" where
  "embedding_entry mem rd b64 d = JObj (
     add_str ''object'' ''embedding'' @
     add_int ''index'' (ed_index d) @
     (if b64 then add_embedding_base64 mem d
      else add_val ''embedding'' (JArr (map (\<lambda>v. JReal (rd v)) (ed_values d)))))"

definition embedding_response_serialize ::
  "allocator \<Rightarrow> (u32 \<Rightarrow> cfloat) \<Rightarrow> embedding_response \<Rightarrow> json" where
  "embedding_response_serialize mem rd resp =
     (let b64 = (case eresp_encoding_format resp of
                   None \<Rightarrow> False | Some f \<Rightarrow> c_str f = ''base64'')
      in JObj (
        add_str ''object'' ''list'' @
        add_val ''data'' (JArr (map (embedding_entry mem rd b64) (eresp_data resp))) @
        add_strcpy ''model'' (eresp_model resp) @
        add_usage (eresp_usage resp)))"

subsection \<open>Specification: decoding\<close>

definition b64_value :: "char \<Rightarrow> nat" where
  "b64_value c = length (takeWhile (\<lambda>x. x \<noteq> c) b64_alphabet)"

fun base64_decode :: "string \<Rightarrow> bytes" where
  "base64_decode (p # q # r # s # rest) =
     (let n = b64_value p * 262144 + b64_value q * 4096
      in if r = CHR ''='' then [word_of_nat (n div 65536)]
         else if s = CHR ''='' then
           (let m = n + b64_value r * 64 in [word_of_nat (m div 65536), word_of_nat (m div 256)])
         else (let m = n + b64_value r * 64 + b64_value s
               in [word_of_nat (m div 65536), word_of_nat (m div 256), word_of_nat m]
                  @ base64_decode rest))"
| "base64_decode _ = []"

lemma b64_alphabet_length: "length b64_alphabet = 64"
  by (simp add: b64_alphabet_def)

lemma b64_alphabet_distinct: "distinct b64_alphabet"
  by (simp add: b64_alphabet_def)

lemma takeWhile_neq_nth: "distinct xs \<Longrightarrow> n < length xs \<Longrightarrow> takeWhile (\<lambda>x. x \<noteq> xs ! n) xs = take n xs"
  by (rule takeWhile_eq_take_P_nth) (auto simp: nth_eq_iff_index_eq)

lemma b64_value_nth: "n < 64 \<Longrightarrow> b64_value (b64_alphabet ! n) = n"
  by (simp add: b64_value_def takeWhile_neq_nth b64_alphabet_distinct b64_alphabet_length)

lemma pad_not_in_alphabet: "CHR ''='' \<notin> set b64_alphabet"
  by (simp add: b64_alphabet_def)

lemma b64_no_pad:
  assumes "n < 64"
  shows "b64_alphabet ! n \<noteq> CHR ''=''"
proof -
  have "b64_alphabet ! n \<in> set b64_alphabet"
    by (rule nth_mem) (simp add: b64_alphabet_length assms)
  then show ?thesis
    using pad_not_in_alphabet by metis
qed

lemma b64_char_value: "b64_value (b64_char v) = unat v mod 64"
  by (simp add: b64_char_def unat_masks b64_value_nth)

lemma b64_char_not_pad: "b64_char v \<noteq> CHR ''=''"
  by (simp add: b64_char_def unat_masks b64_no_pad)

subsection \<open>The encoder's groups as numbers\<close>

lemma unat_group2:
  fixes a b :: byte
  shows "unat (push_bit 16 (ucast a) OR push_bit 8 (ucast b) :: u32) = unat a * 65536 + unat b * 256"
proof -
  have "unat (push_bit 16 (ucast a) OR push_bit 8 (ucast b) :: u32)
      = unat a * 2 ^ 16 + unat (push_bit 8 (ucast b) :: u32)"
    using unat_byte_lt [of a] unat_byte_lt [of b]
    by (intro unat_or_disj) (simp_all add: word_nat)
  then show ?thesis
    using unat_byte_lt [of b] by (simp add: word_nat)
qed

lemma unat_group3:
  fixes a b c :: byte
  shows "unat (push_bit 16 (ucast a) OR push_bit 8 (ucast b) OR ucast c :: u32)
    = unat a * 65536 + unat b * 256 + unat c"
proof -
  have "unat ((push_bit 16 (ucast a) OR push_bit 8 (ucast b)) OR ucast c :: u32)
      = (unat a * 256 + unat b) * 2 ^ 8 + unat (ucast c :: u32)"
    using unat_byte_lt [of c]
    by (intro unat_or_disj) (simp_all only: unat_group2, simp_all add: word_nat)
  then show ?thesis
    by (simp add: word_nat or.assoc)
qed

lemma unat_group1:
  fixes a :: byte
  shows "unat (push_bit 16 (ucast a) :: u32) = unat a * 65536"
  using unat_byte_lt [of a] by (simp add: word_nat)

text \<open>Decoding the four characters of a group, for any 24-bit value.\<close>

lemma b64_values:
  "b64_value (b64_char (drop_bit 18 v)) = unat v div 262144 mod 64"
  "b64_value (b64_char (drop_bit 12 v)) = unat v div 4096 mod 64"
  "b64_value (b64_char (drop_bit 6 v)) = unat v div 64 mod 64"
  by (simp_all only: b64_char_value unat_drop_bit) simp_all

lemma digits64_aux:
  fixes n :: nat
  assumes "n < 16777216"
  shows "n div 262144 mod 64 * 262144 + n div 4096 mod 64 * 4096 = n div 4096 * 4096"
    "n div 4096 * 4096 + n div 64 mod 64 * 64 = n div 64 * 64"
proof -
  have "n div 262144 < 64"
    using assms by (simp add: less_mult_imp_div_less)
  then have t: "n div 262144 mod 64 = n div 262144"
    by simp
  have "n div 4096 div 64 * 64 + n div 4096 mod 64 = n div 4096"
    by (rule div_mult_mod_eq)
  then show "n div 262144 mod 64 * 262144 + n div 4096 mod 64 * 4096 = n div 4096 * 4096"
    unfolding t div_mult2_eq [symmetric] by simp
  have "n div 64 div 64 * 64 + n div 64 mod 64 = n div 64"
    by (rule div_mult_mod_eq)
  then show "n div 4096 * 4096 + n div 64 mod 64 * 64 = n div 64 * 64"
    unfolding div_mult2_eq [symmetric] by simp
qed

lemma digits64:
  fixes n :: nat
  assumes "n < 16777216"
  shows "n div 262144 mod 64 * 262144 + n div 4096 mod 64 * 4096 + n div 64 mod 64 * 64 + n mod 64 = n"
  by (simp only: digits64_aux [OF assms] div_mult_mod_eq)

lemma decode_group3:
  assumes "unat v = n" "n < 16777216"
  shows "base64_decode ([b64_char (drop_bit 18 v), b64_char (drop_bit 12 v), b64_char (drop_bit 6 v),
      b64_char v] @ rest)
    = [word_of_nat (n div 65536), word_of_nat (n div 256), word_of_nat n] @ base64_decode rest"
  unfolding append.simps base64_decode.simps b64_values b64_char_not_pad b64_char_value [of v]
    assms(1) Let_def digits64 [OF assms(2)]
  by (simp only: b64_char_not_pad if_False append.simps)

lemma decode_group2:
  assumes "unat v = n" "n < 16777216" "n mod 64 = 0"
  shows "base64_decode [b64_char (drop_bit 18 v), b64_char (drop_bit 12 v), b64_char (drop_bit 6 v),
      CHR ''=''] = [word_of_nat (n div 65536), word_of_nat (n div 256)]"
proof -
  have "n div 262144 mod 64 * 262144 + n div 4096 mod 64 * 4096 + n div 64 mod 64 * 64 = n"
    using digits64 [OF assms(2)] assms(3) by linarith
  then show ?thesis
    by (simp only: base64_decode.simps b64_values b64_char_not_pad assms(1) Let_def if_False
        if_True refl)
qed

lemma decode_group1:
  assumes "unat v = n" "n < 16777216" "n mod 4096 = 0"
  shows "base64_decode [b64_char (drop_bit 18 v), b64_char (drop_bit 12 v), CHR ''='', CHR ''='']
    = [word_of_nat (n div 65536)]"
proof -
  have "n div 262144 mod 64 * 262144 + n div 4096 mod 64 * 4096 = n"
    using digits64_aux(1) [OF assms(2)] assms(3) div_mult_mod_eq [of n 4096] by linarith
  then show ?thesis
    by (simp only: base64_decode.simps b64_values b64_char_not_pad assms(1) Let_def if_False
        if_True refl)
qed

lemma base64_length: "length (base64_encode bs) = ((length bs + 2) div 3) * 4"
proof (induction bs rule: base64_encode.induct)
  case (1 a b c rest)
  have "(length (a # b # c # rest) + 2) div 3 = (length rest + 2) div 3 + 1"
    using div_add_self2 [of 3 "length rest + 2"] by (simp add: add.commute)
  with 1 show ?case
    unfolding base64_encode.simps Let_def by simp
qed (simp_all add: Let_def)

text \<open>The bytes of a group are recovered from its number.\<close>

lemma group_bytes:
  fixes a b c :: byte
  shows "word_of_nat ((unat a * 65536 + unat b * 256 + unat c) div 65536) = a"
    "word_of_nat ((unat a * 65536 + unat b * 256 + unat c) div 256) = b"
    "word_of_nat (unat a * 65536 + unat b * 256 + unat c) = c"
    "unat a * 65536 + unat b * 256 + unat c < 16777216"
proof -
  let ?n = "unat a * 65536 + unat b * 256 + unat c"
  have lt: "unat a < 256" "unat b < 256" "unat c < 256"
    by (rule unat_byte_lt)+
  have n: "?n = unat c + (unat b + unat a * 256) * 256"
    by simp
  have n256: "?n div 256 = unat b + unat a * 256"
    unfolding n by (subst div_mult_self1) (use lt in simp_all)
  have "?n div 65536 = ?n div 256 div 256"
    by (simp add: div_mult2_eq [symmetric])
  also have "\<dots> = unat a"
    unfolding n256 by (subst div_mult_self1) (use lt in simp_all)
  finally have n65536: "?n div 65536 = unat a" .
  show "word_of_nat (?n div 65536) = a" "word_of_nat (?n div 256) = b"
    unfolding n65536 n256 by (rule word_of_nat_unat_mod, use lt in simp)+
  have "?n mod 256 = unat c"
    unfolding n mod_mult_self1 using lt by simp
  then show "word_of_nat ?n = c"
    by (intro word_of_nat_unat_mod) (rule sym)
  show "?n < 16777216"
    using lt by linarith
qed

lemma base64_decode_encode_all: "base64_decode (base64_encode bs) = bs"
proof (induction bs rule: base64_encode.induct)
  case (1 a b c rest)
  note group = decode_group3 [OF unat_group3 group_bytes(4), unfolded append.simps]
  show ?case
    by (simp only: base64_encode.simps Let_def append.simps group group_bytes(1-3) 1 [OF refl])
next
  case (2 a)
  have a: "unat a * 65536 < 16777216" "unat a * 65536 mod 4096 = 0"
    using unat_byte_lt [of a] by simp_all
  have "word_of_nat (unat a * 65536 div 65536) = a"
    by (simp only: nonzero_mult_div_cancel_right) simp
  then show ?case
    by (simp only: base64_encode.simps Let_def decode_group1 [OF unat_group1 a])
next
  case (3 a b)
  have n: "unat a * 65536 + unat b * 256 < 16777216" "(unat a * 65536 + unat b * 256) mod 64 = 0"
    using unat_byte_lt [of a] unat_byte_lt [of b] by presburger+
  note bytes = group_bytes [of a b 0, unfolded unsigned_0 add_0_right]
  show ?case
    by (simp only: base64_encode.simps Let_def decode_group2 [OF unat_group2 n] bytes)
next
  case 4
  then show ?case by simp
qed

text \<open>C15. Base64 is lossless and fits its buffer: decoding the encoder's output gives the input bytes
  back, for every input, and the output has exactly the length \<open>((n + 2) / 3) * 4\<close> that the caller
  allocates (with one more byte for the terminator).\<close>

theorem base64_encode_correct:
  "base64_decode (base64_encode bs) = bs \<and> length (base64_encode bs) = ((length bs + 2) div 3) * 4"
  by (simp add: base64_decode_encode_all base64_length)

subsection \<open>Embedding vectors\<close>

text \<open>Reading little-endian 32-bit words.\<close>

fun le_words :: "bytes \<Rightarrow> u32 list" where
  "le_words (a # b # c # d # rest) =
     (ucast a OR push_bit 8 (ucast b) OR push_bit 16 (ucast c) OR push_bit 24 (ucast d)) # le_words rest"
| "le_words _ = []"

lemma le_word_bytes:
  "(ucast (ucast (w AND 0xFF) :: byte) OR push_bit 8 (ucast (ucast (drop_bit 8 w AND 0xFF) :: byte)) OR
    push_bit 16 (ucast (ucast (drop_bit 16 w AND 0xFF) :: byte)) OR
    push_bit 24 (ucast (ucast (drop_bit 24 w AND 0xFF) :: byte))) = (w :: u32)"
proof (rule bit_word_eqI)
  fix n :: nat
  assume "n < LENGTH(32)"
  then consider "n < 8" | "8 \<le> n" "n < 16" | "16 \<le> n" "n < 24" | "24 \<le> n" "n < 32"
    by fastforce
  then show "bit (ucast (ucast (w AND 0xFF) :: byte) OR
      push_bit 8 (ucast (ucast (drop_bit 8 w AND 0xFF) :: byte)) OR
      push_bit 16 (ucast (ucast (drop_bit 16 w AND 0xFF) :: byte)) OR
      push_bit 24 (ucast (ucast (drop_bit 24 w AND 0xFF) :: byte)) :: u32) n = bit w n"
    unfolding mask_lits by cases (simp_all add: bit_simps less_diff_conv2)
qed

lemma le_words_bytes: "le_words (concat (map float_le_bytes ws)) = ws"
  by (induction ws) (simp_all only: float_le_bytes_def concat.simps list.map append.simps
      le_words.simps le_word_bytes)

lemma base64_no_nul: "CHR 0x00 \<notin> set (base64_encode bs)"
proof -
  have "b64_char v \<in> set b64_alphabet" for v
    by (simp add: b64_char_def unat_masks b64_alphabet_length)
  moreover have "CHR 0x00 \<notin> set b64_alphabet"
    by (simp add: b64_alphabet_def)
  ultimately have "CHR 0x00 \<noteq> b64_char v" for v
    by metis
  then show ?thesis
    by (induction bs rule: base64_encode.induct) (simp_all add: Let_def)
qed

text \<open>C16. An embedding written as base64 keeps every bit: whenever the member is added to the response
  object it is one string, and decoding it and reading little-endian 32-bit words gives the bit
  patterns of the vector, in order.\<close>

theorem embedding_base64_lossless:
  assumes "add_embedding_base64 mem d = kvs" "kvs \<noteq> []"
  shows "\<exists>s. kvs = [(''embedding'', JStr s)] \<and> le_words (base64_decode s) = ed_values d"
proof -
  let ?bs = "concat (map float_le_bytes (ed_values d))"
  have "kvs = [(''embedding'', JStr (base64_encode ?bs))]"
    using assms by (auto simp: add_embedding_base64_def Let_def c_str_id base64_no_nul split: if_splits)
  then show ?thesis
    by (simp add: base64_decode_encode_all le_words_bytes)
qed

definition sample_embedding :: embedding_data where
  "sample_embedding = \<lparr>ed_index = 0, ed_values = [0x3F800000, 0xBF000000]\<rparr>"

lemma sample_embedding_base64:
  "add_embedding_base64 (\<lambda>n. n \<le> 16) sample_embedding = [(''embedding'', JStr ''AACAPwAAAL8='')]"
  by code_simp

theorem embedding_base64_lossless_witness:
  "le_words (base64_decode ''AACAPwAAAL8='') = [0x3F800000, 0xBF000000]"
  using embedding_base64_lossless [OF sample_embedding_base64] by (simp add: sample_embedding_def)

end
