(* ===== verification/Sampler.thy ===== *)
theory Sampler
  imports OpenAIParse
begin

text \<open>
  The pure part of \<open>src/engine/sampler.c\<close>: how a request's sampling knobs, the model's
  generation defaults and the built-in defaults combine. The filters of the file are calls of
  the \<open>mlx\<close> library on device arrays and are not modelled here.
\<close>

text \<open>The fields of \<open>model_config_t\<close> that hold sampling defaults of \<open>generation_config.json\<close>.\<close>

record gen_defaults =
  has_gen_temperature :: bool
  gen_temperature :: cfloat
  has_gen_top_p :: bool
  gen_top_p :: cfloat
  has_gen_top_k :: bool
  gen_top_k :: int

definition sampling_resolve ::
  "sampling_params \<Rightarrow> u32 \<Rightarrow> gen_defaults option \<Rightarrow> sampling_params" where
  "sampling_resolve req set_mask cfg =
     (let out0 = SAMPLING_PARAMS_DEFAULT;
          out1 = (if set_mask AND SAMPLING_SET_TEMPERATURE \<noteq> 0
                  then out0\<lparr>sp_temperature := sp_temperature req\<rparr>
                  else if cfg \<noteq> None \<and> has_gen_temperature (the cfg)
                  then out0\<lparr>sp_temperature := gen_temperature (the cfg)\<rparr> else out0);
          out2 = (if set_mask AND SAMPLING_SET_TOP_P \<noteq> 0
                  then out1\<lparr>sp_top_p := sp_top_p req\<rparr>
                  else if cfg \<noteq> None \<and> has_gen_top_p (the cfg)
                  then out1\<lparr>sp_top_p := gen_top_p (the cfg)\<rparr> else out1);
          out3 = (if set_mask AND SAMPLING_SET_TOP_K \<noteq> 0
                  then out2\<lparr>sp_top_k := sp_top_k req\<rparr>
                  else if cfg \<noteq> None \<and> has_gen_top_k (the cfg)
                  then out2\<lparr>sp_top_k := gen_top_k (the cfg)\<rparr> else out2);
          out4 = (if set_mask AND SAMPLING_SET_MIN_P \<noteq> 0
                  then out3\<lparr>sp_min_p := sp_min_p req\<rparr> else out3)
      in (if set_mask AND SAMPLING_SET_SEED \<noteq> 0
          then out4\<lparr>sp_seed := sp_seed req\<rparr> else out4))"

subsection \<open>Resolution field by field\<close>

lemma sampling_resolve_fields:
  "sp_temperature (sampling_resolve req m cfg) =
     (if m AND SAMPLING_SET_TEMPERATURE \<noteq> 0 then sp_temperature req
      else case cfg of Some c \<Rightarrow> if has_gen_temperature c then gen_temperature c else Fin 1
           | None \<Rightarrow> Fin 1)"
  "sp_top_p (sampling_resolve req m cfg) =
     (if m AND SAMPLING_SET_TOP_P \<noteq> 0 then sp_top_p req
      else case cfg of Some c \<Rightarrow> if has_gen_top_p c then gen_top_p c else Fin 1 | None \<Rightarrow> Fin 1)"
  "sp_top_k (sampling_resolve req m cfg) =
     (if m AND SAMPLING_SET_TOP_K \<noteq> 0 then sp_top_k req
      else case cfg of Some c \<Rightarrow> if has_gen_top_k c then gen_top_k c else -1 | None \<Rightarrow> -1)"
  "sp_min_p (sampling_resolve req m cfg) =
     (if m AND SAMPLING_SET_MIN_P \<noteq> 0 then sp_min_p req else Fin 0)"
  "sp_seed (sampling_resolve req m cfg) =
     (if m AND SAMPLING_SET_SEED \<noteq> 0 then sp_seed req else -1)"
  by (cases cfg; simp add: sampling_resolve_def Let_def SAMPLING_PARAMS_DEFAULT_def)+

text \<open>The set mask of a parsed body, bit by bit, and the values it vouches for.\<close>

lemma set_masks:
  "gp_sampling_set (set_temperature v p) = gp_sampling_set p OR (if yyjson_is_num v then 1 else 0)"
  "gp_sampling_set (set_top_p v p) = gp_sampling_set p OR (if yyjson_is_num v then 2 else 0)"
  "gp_sampling_set (set_top_k v p) = gp_sampling_set p OR
     (if yyjson_is_num v \<and> top_k_of_num (yyjson_get_num v) \<noteq> None then 4 else 0)"
  "gp_sampling_set (set_min_p v p) = gp_sampling_set p OR (if yyjson_is_num v then 8 else 0)"
  "gp_sampling_set (set_seed v p) = gp_sampling_set p OR (if yyjson_is_int v then 16 else 0)"
  by (auto simp: set_temperature_def set_top_p_def set_top_k_def set_min_p_def set_seed_def
      sampling_set_defs split: option.split)

lemma mask_bits:
  fixes c0 c1 c2 c3 c4 :: bool
  defines "m \<equiv> ((((0 OR (if c0 then 1 else 0)) OR (if c1 then 2 else 0)) OR (if c2 then 4 else 0))
    OR (if c3 then 8 else 0)) OR (if c4 then 16 else 0) :: u32"
  shows "m AND 1 \<noteq> 0 \<longleftrightarrow> c0" "m AND 2 \<noteq> 0 \<longleftrightarrow> c1" "m AND 4 \<noteq> 0 \<longleftrightarrow> c2" "m AND 8 \<noteq> 0 \<longleftrightarrow> c3"
    "m AND 16 \<noteq> 0 \<longleftrightarrow> c4"
  unfolding m_def by (cases c0; cases c1; cases c2; cases c3; cases c4; simp)+

lemma set_mask_parse:
  fixes rt :: jval
  defines "p \<equiv> parse_sampling gen_params_init rt"
  shows
    "gp_sampling_set p AND SAMPLING_SET_TEMPERATURE \<noteq> 0 \<longleftrightarrow> yyjson_is_num (yyjson_obj_get rt ''temperature'')"
    "gp_sampling_set p AND SAMPLING_SET_TOP_P \<noteq> 0 \<longleftrightarrow> yyjson_is_num (yyjson_obj_get rt ''top_p'')"
    "gp_sampling_set p AND SAMPLING_SET_TOP_K \<noteq> 0 \<longleftrightarrow>
       yyjson_is_num (yyjson_obj_get rt ''top_k'') \<and>
       top_k_of_num (yyjson_get_num (yyjson_obj_get rt ''top_k'')) \<noteq> None"
    "gp_sampling_set p AND SAMPLING_SET_MIN_P \<noteq> 0 \<longleftrightarrow> yyjson_is_num (yyjson_obj_get rt ''min_p'')"
    "gp_sampling_set p AND SAMPLING_SET_SEED \<noteq> 0 \<longleftrightarrow> yyjson_is_int (yyjson_obj_get rt ''seed'')"
proof -
  have init: "gp_sampling_set gen_params_init = 0"
    by (simp add: gen_params_init_def)
  have bits: "SAMPLING_SET_TEMPERATURE = 1" "SAMPLING_SET_TOP_P = 2" "SAMPLING_SET_TOP_K = 4"
    "SAMPLING_SET_MIN_P = 8" "SAMPLING_SET_SEED = 16"
    by (simp_all add: sampling_set_defs)
  show "gp_sampling_set p AND SAMPLING_SET_TEMPERATURE \<noteq> 0 \<longleftrightarrow> yyjson_is_num (yyjson_obj_get rt ''temperature'')"
    "gp_sampling_set p AND SAMPLING_SET_TOP_P \<noteq> 0 \<longleftrightarrow> yyjson_is_num (yyjson_obj_get rt ''top_p'')"
    "gp_sampling_set p AND SAMPLING_SET_TOP_K \<noteq> 0 \<longleftrightarrow>
       yyjson_is_num (yyjson_obj_get rt ''top_k'') \<and>
       top_k_of_num (yyjson_get_num (yyjson_obj_get rt ''top_k'')) \<noteq> None"
    "gp_sampling_set p AND SAMPLING_SET_MIN_P \<noteq> 0 \<longleftrightarrow> yyjson_is_num (yyjson_obj_get rt ''min_p'')"
    "gp_sampling_set p AND SAMPLING_SET_SEED \<noteq> 0 \<longleftrightarrow> yyjson_is_int (yyjson_obj_get rt ''seed'')"
    unfolding p_def parse_sampling_def set_masks init bits by (simp_all only: mask_bits)
qed

lemma parse_sampling_values:
  fixes rt :: jval
  defines "p \<equiv> gp_sampling (parse_sampling gen_params_init rt)"
  shows
    "yyjson_is_num (yyjson_obj_get rt ''temperature'') \<Longrightarrow>
       sp_temperature p = double_to_float (yyjson_get_num (yyjson_obj_get rt ''temperature''))"
    "yyjson_is_num (yyjson_obj_get rt ''top_p'') \<Longrightarrow>
       sp_top_p p = double_to_float (yyjson_get_num (yyjson_obj_get rt ''top_p''))"
    "yyjson_is_num (yyjson_obj_get rt ''top_k'') \<Longrightarrow>
       top_k_of_num (yyjson_get_num (yyjson_obj_get rt ''top_k'')) = Some k \<Longrightarrow> sp_top_k p = k"
    "yyjson_is_num (yyjson_obj_get rt ''min_p'') \<Longrightarrow>
       sp_min_p p = double_to_float (yyjson_get_num (yyjson_obj_get rt ''min_p''))"
    "yyjson_is_int (yyjson_obj_get rt ''seed'') \<Longrightarrow>
       sp_seed p = c_int (yyjson_get_sint (yyjson_obj_get rt ''seed''))"
  unfolding p_def
  by (simp_all add: parse_sampling_def set_temperature_def set_top_p_def set_top_k_def
      set_min_p_def set_seed_def split: option.split)

definition resolve_request :: "jval \<Rightarrow> gen_defaults option \<Rightarrow> sampling_params" where
  "resolve_request rt cfg =
     (let p = parse_sampling gen_params_init rt
      in sampling_resolve (gp_sampling p) (gp_sampling_set p) cfg)"

text \<open>C6. The sampling knobs a generation runs with follow the documented precedence: a number in
  the request body wins (a \<open>top_k\<close> only when it is an integral number in the range of \<open>int\<close>), then
  the model's generation defaults, then the built-in defaults; \<open>min_p\<close> and \<open>seed\<close> skip the
  model's tier.\<close>

theorem sampling_precedence:
  "sp_temperature (resolve_request rt cfg) =
     (if yyjson_is_num (yyjson_obj_get rt ''temperature'')
      then double_to_float (yyjson_get_num (yyjson_obj_get rt ''temperature''))
      else case cfg of Some c \<Rightarrow> if has_gen_temperature c then gen_temperature c else Fin 1
           | None \<Rightarrow> Fin 1) \<and>
   sp_top_p (resolve_request rt cfg) =
     (if yyjson_is_num (yyjson_obj_get rt ''top_p'')
      then double_to_float (yyjson_get_num (yyjson_obj_get rt ''top_p''))
      else case cfg of Some c \<Rightarrow> if has_gen_top_p c then gen_top_p c else Fin 1 | None \<Rightarrow> Fin 1) \<and>
   sp_top_k (resolve_request rt cfg) =
     (case (if yyjson_is_num (yyjson_obj_get rt ''top_k'')
            then top_k_of_num (yyjson_get_num (yyjson_obj_get rt ''top_k'')) else None) of
        Some k \<Rightarrow> k
      | None \<Rightarrow> (case cfg of Some c \<Rightarrow> if has_gen_top_k c then gen_top_k c else -1 | None \<Rightarrow> -1)) \<and>
   sp_min_p (resolve_request rt cfg) =
     (if yyjson_is_num (yyjson_obj_get rt ''min_p'')
      then double_to_float (yyjson_get_num (yyjson_obj_get rt ''min_p'')) else Fin 0) \<and>
   sp_seed (resolve_request rt cfg) =
     (if yyjson_is_int (yyjson_obj_get rt ''seed'')
      then c_int (yyjson_get_sint (yyjson_obj_get rt ''seed'')) else -1)"
  unfolding resolve_request_def Let_def sampling_resolve_fields set_mask_parse
  by (simp add: parse_sampling_values split: option.split)

end
