(* ===== verification/TokMap.thy ===== *)
theory TokMap
  imports Prelude
begin

text \<open>
  The hash tables of \<open>src/model/tok_map.c\<close>: open addressing with linear probing over a table
  whose capacity is a power of two, keyed by a byte string (\<open>str_u32_map\<close>) or by a pair of
  byte strings (\<open>merge_map\<close>). The two have the same code up to the key and the hash, so the
  model has one table with the key type and the hash as parameters. An entry whose pointer is
  \<open>NULL\<close> is \<open>None\<close>; a key pointer with its length is the byte string it points to. A probe
  loop that never stops is \<open>None\<close>: the probe sequence visits the \<open>cap\<close> slots in turn, so a
  loop that has not stopped after \<open>cap\<close> steps never stops.
\<close>

subsection \<open>Hashing\<close>

definition FNV_INIT :: u64 where "FNV_INIT = 0xcbf29ce484222325"
definition FNV_PRIME :: u64 where "FNV_PRIME = 0x100000001b3"

fun fnv1a_update :: "u64 \<Rightarrow> bytes \<Rightarrow> u64" where
  "fnv1a_update h [] = h"
| "fnv1a_update h (b # bs) = fnv1a_update ((h XOR ucast b) * FNV_PRIME) bs"

definition fnv1a :: "bytes \<Rightarrow> u64" where
  "fnv1a bs = fnv1a_update FNV_INIT bs"

definition merge_hash :: "bytes \<times> bytes \<Rightarrow> u64" where
  "merge_hash k = (case k of (l, r) \<Rightarrow>
     fnv1a_update ((fnv1a_update FNV_INIT l XOR 0xFF) * FNV_PRIME) r)"

definition next_pow2 :: "u32 \<Rightarrow> u32" where
  "next_pow2 v0 =
     (if v0 = 0 then 1
      else let v = v0 - 1;
               v = v OR drop_bit 1 v;
               v = v OR drop_bit 2 v;
               v = v OR drop_bit 4 v;
               v = v OR drop_bit 8 v;
               v = v OR drop_bit 16 v
           in v + 1)"

definition MAP_MAX_INITIAL_CAP :: u32 where "MAP_MAX_INITIAL_CAP = 1073741824"

subsection \<open>The table\<close>

record 'k oa_entry =
  e_key :: 'k
  e_hash :: u64
  e_val :: u32

record 'k oa_map =
  oa_entries :: "'k oa_entry option list"
  oa_cap :: u32
  oa_count :: u32

type_synonym str_u32_map = "bytes oa_map"
type_synonym merge_map = "(bytes \<times> bytes) oa_map"

text \<open>\<open>esz\<close> is the size of an entry: 32 bytes for \<open>str_u32_entry\<close>, 40 for \<open>merge_entry\<close>.\<close>

definition oa_init :: "allocator \<Rightarrow> nat \<Rightarrow> u32 \<Rightarrow> 'k oa_map option" where
  "oa_init mem esz initial_cap =
     (let initial_cap = (if MAP_MAX_INITIAL_CAP < initial_cap then MAP_MAX_INITIAL_CAP
                         else initial_cap);
          cap = next_pow2 (if initial_cap < 4 then 4 else initial_cap)
      in if mem (unat cap * esz)
         then Some \<lparr>oa_entries = replicate (unat cap) None, oa_cap = cap, oa_count = 0\<rparr>
         else None)"

datatype probe = Empty nat | Hit nat

fun oa_probe :: "nat \<Rightarrow> 'k oa_entry option list \<Rightarrow> u32 \<Rightarrow> u64 \<Rightarrow> 'k \<Rightarrow> u32 \<Rightarrow> probe option" where
  "oa_probe 0 es msk h key idx = None"
| "oa_probe (Suc f) es msk h key idx = (case es ! unat idx of
     None \<Rightarrow> Some (Empty (unat idx))
   | Some e \<Rightarrow>
       if e_hash e = h \<and> e_key e = key then Some (Hit (unat idx))
       else oa_probe f es msk h key ((idx + 1) AND msk))"

text \<open>The loop of a grow that looks for the free slot of one entry.\<close>

fun oa_free_slot :: "nat \<Rightarrow> 'k oa_entry option list \<Rightarrow> u32 \<Rightarrow> u32 \<Rightarrow> nat option" where
  "oa_free_slot 0 es msk idx = None"
| "oa_free_slot (Suc f) es msk idx = (case es ! unat idx of
     None \<Rightarrow> Some (unat idx)
   | Some _ \<Rightarrow> oa_free_slot f es msk ((idx + 1) AND msk))"

fun oa_rehash :: "u32 \<Rightarrow> 'k oa_entry option list \<Rightarrow> 'k oa_entry option list
    \<Rightarrow> 'k oa_entry option list option" where
  "oa_rehash msk [] new_es = Some new_es"
| "oa_rehash msk (None # es) new_es = oa_rehash msk es new_es"
| "oa_rehash msk (Some e # es) new_es =
     (case oa_free_slot (length new_es) new_es msk (ucast (e_hash e AND ucast msk)) of
        None \<Rightarrow> None
      | Some i \<Rightarrow> oa_rehash msk es (new_es[i := Some e]))"

text \<open>The result of a grow: whether it grew, and the table.\<close>

definition oa_grow :: "allocator \<Rightarrow> nat \<Rightarrow> 'k oa_map \<Rightarrow> (bool \<times> 'k oa_map) option" where
  "oa_grow mem esz m =
     (if oa_cap m > 0xFFFFFFFF div 2 then Some (False, m)
      else let new_cap = oa_cap m * 2
      in if \<not> mem (unat new_cap * esz) then Some (False, m)
      else (case oa_rehash (new_cap - 1) (oa_entries m) (replicate (unat new_cap) None) of
              None \<Rightarrow> None
            | Some es \<Rightarrow> Some (True, m\<lparr>oa_entries := es, oa_cap := new_cap\<rparr>)))"

definition oa_put_slot :: "('k \<Rightarrow> u64) \<Rightarrow> 'k oa_map \<Rightarrow> 'k \<Rightarrow> u32 \<Rightarrow> (bool \<times> 'k oa_map) option" where
  "oa_put_slot hash m key v =
     (let h = hash key; msk = oa_cap m - 1
      in case oa_probe (unat (oa_cap m)) (oa_entries m) msk h key (ucast (h AND ucast msk)) of
           None \<Rightarrow> None
         | Some (Empty i) \<Rightarrow>
             if oa_count m + 1 \<ge> oa_cap m then Some (False, m)
             else Some (True, m\<lparr>oa_entries := (oa_entries m)
                                  [i := Some \<lparr>e_key = key, e_hash = h, e_val = v\<rparr>],
                                oa_count := oa_count m + 1\<rparr>)
         | Some (Hit i) \<Rightarrow>
             Some (True, m\<lparr>oa_entries := (oa_entries m)
                             [i := Some ((the (oa_entries m ! i))\<lparr>e_val := v\<rparr>)]\<rparr>))"

definition oa_put ::
  "allocator \<Rightarrow> nat \<Rightarrow> ('k \<Rightarrow> u64) \<Rightarrow> 'k oa_map \<Rightarrow> 'k \<Rightarrow> u32 \<Rightarrow> (bool \<times> 'k oa_map) option" where
  "oa_put mem esz hash m key v =
     (if oa_count m * 4 \<ge> oa_cap m * 3
      then (case oa_grow mem esz m of
              None \<Rightarrow> None
            | Some (_, m1) \<Rightarrow> oa_put_slot hash m1 key v)
      else oa_put_slot hash m key v)"

definition oa_get :: "('k \<Rightarrow> u64) \<Rightarrow> 'k oa_map \<Rightarrow> 'k \<Rightarrow> u32 option option" where
  "oa_get hash m key =
     (let h = hash key; msk = oa_cap m - 1
      in case oa_probe (unat (oa_cap m)) (oa_entries m) msk h key (ucast (h AND ucast msk)) of
           None \<Rightarrow> None
         | Some (Empty i) \<Rightarrow> Some None
         | Some (Hit i) \<Rightarrow> Some (Some (e_val (the (oa_entries m ! i)))))"

definition str_u32_map_init :: "allocator \<Rightarrow> u32 \<Rightarrow> str_u32_map option" where
  "str_u32_map_init mem = oa_init mem 32"

definition str_u32_map_grow :: "allocator \<Rightarrow> str_u32_map \<Rightarrow> (bool \<times> str_u32_map) option" where
  "str_u32_map_grow mem = oa_grow mem 32"

definition str_u32_map_put ::
  "allocator \<Rightarrow> str_u32_map \<Rightarrow> bytes \<Rightarrow> u32 \<Rightarrow> (bool \<times> str_u32_map) option" where
  "str_u32_map_put mem = oa_put mem 32 fnv1a"

definition str_u32_map_get :: "str_u32_map \<Rightarrow> bytes \<Rightarrow> u32 option option" where
  "str_u32_map_get = oa_get fnv1a"

definition merge_map_init :: "allocator \<Rightarrow> u32 \<Rightarrow> merge_map option" where
  "merge_map_init mem = oa_init mem 40"

definition merge_map_grow :: "allocator \<Rightarrow> merge_map \<Rightarrow> (bool \<times> merge_map) option" where
  "merge_map_grow mem = oa_grow mem 40"

definition merge_map_put ::
  "allocator \<Rightarrow> merge_map \<Rightarrow> bytes \<times> bytes \<Rightarrow> u32 \<Rightarrow> (bool \<times> merge_map) option" where
  "merge_map_put mem = oa_put mem 40 merge_hash"

definition merge_map_get :: "merge_map \<Rightarrow> bytes \<times> bytes \<Rightarrow> u32 option option" where
  "merge_map_get = oa_get merge_hash"

subsection \<open>Powers of two\<close>

definition smear :: "nat \<Rightarrow> nat \<Rightarrow> u32 \<Rightarrow> bool" where
  "smear k m v \<longleftrightarrow> (\<forall>i\<le>k. k < i + m \<longrightarrow> bit v i) \<and> (\<forall>i>k. \<not> bit v i)"

lemma smear_step: "smear k m v \<Longrightarrow> n = m + m \<Longrightarrow> smear k n (v OR drop_bit m v)"
proof -
  assume s: "smear k m v" and n: "n = m + m"
  have "bit v i \<or> bit v (m + i)" if "i \<le> k" "k < i + (m + m)" for i
    using s that by (cases "k < i + m") (auto simp: smear_def add.commute add.left_commute)
  with s show ?thesis
    unfolding n by (auto simp: smear_def bit_or_iff bit_drop_bit_eq)
qed

lemma smear_top:
  assumes "w \<noteq> (0 :: u32)"
  obtains k where "smear k 1 w" "k < 32"
proof -
  let ?S = "{i. bit w i}"
  have fin: "finite ?S"
    by (rule finite_subset [of _ "{..<32}"]) (auto dest: bit_imp_le_length)
  have ne: "?S \<noteq> {}"
    using assms by (auto simp: bit_eq_iff)
  have top: "bit w (Max ?S)"
    using Max_in [OF fin ne] by simp
  have "i \<le> Max ?S" if "bit w i" for i
    using Max_ge [OF fin, of i] that by simp
  then have above: "\<forall>i>Max ?S. \<not> bit w i"
    by (metis not_le)
  have "\<forall>i\<le>Max ?S. Max ?S < i + 1 \<longrightarrow> bit w i"
    using top by (metis le_antisym less_Suc_eq_le Suc_eq_plus1)
  with above have "smear (Max ?S) 1 w"
    unfolding smear_def by blast
  moreover have "Max ?S < 32"
    using bit_imp_le_length [OF top] by simp
  ultimately show thesis
    by (rule that)
qed

lemma smear_full:
  assumes "smear k 32 v" "k < 32"
  shows "v = mask (k + 1)"
proof (rule bit_word_eqI)
  fix i :: nat
  assume "i < LENGTH(32)"
  then show "bit v i = bit (mask (k + 1) :: u32) i"
    using assms by (cases "i \<le> k") (simp_all add: smear_def bit_mask_iff)
qed

lemma next_pow2_mask:
  assumes "v \<noteq> 0" "v \<noteq> 1"
  obtains k where "smear k 1 (v - 1)" "k < 32" "next_pow2 v = mask (k + 1) + 1"
proof -
  have "v - 1 \<noteq> 0"
    using assms by simp
  then obtain k where k: "smear k 1 (v - 1)" "k < 32"
    by (rule smear_top)
  let ?v1 = "(v - 1) OR drop_bit 1 (v - 1)"
  let ?v2 = "?v1 OR drop_bit 2 ?v1"
  let ?v3 = "?v2 OR drop_bit 4 ?v2"
  let ?v4 = "?v3 OR drop_bit 8 ?v3"
  have "smear k 2 ?v1" by (rule smear_step [OF k(1)]) simp
  then have "smear k 4 ?v2" by (rule smear_step) simp
  then have "smear k 8 ?v3" by (rule smear_step) simp
  then have "smear k 16 ?v4" by (rule smear_step) simp
  then have "smear k 32 (?v4 OR drop_bit 16 ?v4)" by (rule smear_step) simp
  from smear_full [OF this k(2)] have "next_pow2 v = mask (k + 1) + 1"
    unfolding next_pow2_def Let_def using assms by (simp only: if_False)
  with k show thesis
    by (rule that)
qed

subsection \<open>Slots as numbers\<close>

lemma pow2_cap_mask:
  assumes "unat (cap :: u32) = 2 ^ j"
  shows "cap - 1 = mask j" "j < 32"
proof -
  have "(2::nat) ^ j < 2 ^ 32"
    using unat_u32_lt [of cap] assms by simp
  then show j: "j < 32"
    by (rule power_less_imp_less_exp [rotated]) simp
  have "cap = word_of_nat (unat cap)"
    by simp
  also have "\<dots> = 2 ^ j"
    by (simp only: assms of_nat_power of_nat_numeral)
  finally have "cap = 2 ^ j" .
  then show "cap - 1 = mask j"
    by (simp add: mask_eq_exp_minus_1)
qed

lemma home_slot:
  assumes "unat (cap :: u32) = 2 ^ j"
  shows "unat (ucast ((h :: u64) AND ucast (cap - 1)) :: u32) = unat h mod unat cap"
proof -
  have j: "j < 32"
    by (rule pow2_cap_mask [OF assms])
  have "ucast (mask j :: u32) = (mask j :: u64)"
    using j by (intro bit_word_eqI) (auto simp: bit_simps)
  then have "unat (ucast (h AND ucast (cap - 1)) :: u32) = (unat h mod 2 ^ j) mod 2 ^ 32"
    by (simp add: pow2_cap_mask [OF assms] unsigned_ucast_eq take_bit_nat_def unat_and_mask)
  moreover have "unat h mod 2 ^ j < 2 ^ 32"
    by (rule less_le_trans [of _ "2 ^ j"]) (simp, rule power_increasing, use j in simp_all)
  ultimately show ?thesis
    by (simp add: assms)
qed

lemma next_slot:
  assumes "unat (cap :: u32) = 2 ^ j"
  shows "unat (((idx :: u32) + 1) AND (cap - 1)) = (unat idx + 1) mod unat cap"
proof -
  have "j < 32"
    by (rule pow2_cap_mask [OF assms])
  then have dv: "(2::nat) ^ j dvd 2 ^ 32"
    by (intro le_imp_power_dvd) simp
  have "unat (idx + 1) mod 2 ^ j = (unat idx + 1) mod 2 ^ 32 mod 2 ^ j"
    by (simp add: unat_word_ariths)
  also have "\<dots> = (unat idx + 1) mod 2 ^ j"
    using dv by (rule mod_mod_cancel)
  finally show ?thesis
    by (simp only: pow2_cap_mask [OF assms] unat_and_mask assms)
qed

subsection \<open>Probing\<close>

definition oa_stop :: "'k oa_entry option list \<Rightarrow> u64 \<Rightarrow> 'k \<Rightarrow> nat \<Rightarrow> bool" where
  "oa_stop es h key i = (case es ! i of None \<Rightarrow> True | Some e \<Rightarrow> e_hash e = h \<and> e_key e = key)"

definition oa_result :: "'k oa_entry option list \<Rightarrow> nat \<Rightarrow> probe" where
  "oa_result es i = (case es ! i of None \<Rightarrow> Empty i | Some _ \<Rightarrow> Hit i)"

lemma oa_probe_first:
  assumes "unat cap = 2 ^ j"
  shows "d < f \<Longrightarrow> unat idx = a mod unat cap \<Longrightarrow> oa_stop es h key ((a + d) mod unat cap) \<Longrightarrow>
    \<forall>d'<d. \<not> oa_stop es h key ((a + d') mod unat cap) \<Longrightarrow>
    oa_probe f es (cap - 1) h key idx = Some (oa_result es ((a + d) mod unat cap))"
proof (induction f arbitrary: idx a d)
  case (Suc f)
  show ?case
  proof (cases d)
    case 0
    then show ?thesis
      using Suc.prems by (auto simp: oa_stop_def oa_result_def split: option.splits)
  next
    case (Suc d2)
    have "\<not> oa_stop es h key (unat idx)"
      using Suc.prems(2,4) Suc by force
    moreover have "oa_probe f es (cap - 1) h key ((idx + 1) AND (cap - 1))
        = Some (oa_result es ((a + 1 + d2) mod unat cap))"
    proof (rule Suc.IH)
      show "unat ((idx + 1) AND (cap - 1)) = (a + 1) mod unat cap"
        by (simp add: next_slot [OF assms] Suc.prems(2) mod_Suc_eq)
      show "\<forall>d'<d2. \<not> oa_stop es h key ((a + 1 + d') mod unat cap)"
        using Suc.prems(4) Suc by (metis Suc_less_eq add.assoc plus_1_eq_Suc)
    qed (use Suc.prems Suc in simp_all)
    ultimately show ?thesis
      using Suc by (auto simp: oa_stop_def split: option.splits)
  qed
qed simp

lemma oa_free_slot_first:
  assumes "unat cap = 2 ^ j"
  shows "d < f \<Longrightarrow> unat idx = a mod unat cap \<Longrightarrow> es ! ((a + d) mod unat cap) = None \<Longrightarrow>
    \<forall>d'<d. es ! ((a + d') mod unat cap) \<noteq> None \<Longrightarrow>
    oa_free_slot f es (cap - 1) idx = Some ((a + d) mod unat cap)"
proof (induction f arbitrary: idx a d)
  case (Suc f)
  show ?case
  proof (cases d)
    case 0
    then show ?thesis
      using Suc.prems by simp
  next
    case (Suc d2)
    have "es ! unat idx \<noteq> None"
      using Suc.prems(2,4) Suc by force
    moreover have "oa_free_slot f es (cap - 1) ((idx + 1) AND (cap - 1))
        = Some ((a + 1 + d2) mod unat cap)"
    proof (rule Suc.IH)
      show "unat ((idx + 1) AND (cap - 1)) = (a + 1) mod unat cap"
        by (simp add: next_slot [OF assms] Suc.prems(2) mod_Suc_eq)
      show "\<forall>d'<d2. es ! ((a + 1 + d') mod unat cap) \<noteq> None"
        using Suc.prems(4) Suc by (metis Suc_less_eq add.assoc plus_1_eq_Suc)
    qed (use Suc.prems Suc in simp_all)
    ultimately show ?thesis
      using Suc by auto
  qed
qed simp

text \<open>Every slot is on the circular walk from any home.\<close>

lemma circular_reach:
  assumes "i < (n :: nat)"
  obtains d where "d < n" "(a + d) mod n = i"
proof
  let ?d = "(i + (n - a mod n)) mod n"
  have "a mod n < n"
    using assms by simp
  then have "(a + ?d) mod n = (a mod n + (i + (n - a mod n))) mod n"
    by (simp only: mod_add_right_eq mod_add_left_eq)
  also have "a mod n + (i + (n - a mod n)) = i + n"
    using \<open>a mod n < n\<close> by linarith
  finally show "(a + ?d) mod n = i"
    using assms by simp
  show "?d < n"
    using assms by simp
qed

lemma first_on_walk:
  fixes i n a :: nat
  assumes "i < n" "P i"
  obtains d where "d < n" "P ((a + d) mod n)" "\<forall>d'<d. \<not> P ((a + d') mod n)"
proof -
  obtain d where d: "d < n" "(a + d) mod n = i"
    by (rule circular_reach [OF assms(1)])
  let ?Q = "\<lambda>d. P ((a + d) mod n)"
  have Q: "?Q d"
    using assms(2) d(2) by simp
  have "(LEAST d. ?Q d) < n"
    using Least_le [of ?Q, OF Q] d(1) by simp
  then show thesis
    using that [of "LEAST d. ?Q d"] LeastI [of ?Q, OF Q] not_less_Least [of _ ?Q] by blast
qed

subsection \<open>The table invariant and its map\<close>

definition reachable_slot :: "'k oa_entry option list \<Rightarrow> u64 \<Rightarrow> nat \<Rightarrow> bool" where
  "reachable_slot es h i \<longleftrightarrow> (\<exists>d<length es. (unat h + d) mod length es = i \<and>
     (\<forall>d'<d. es ! ((unat h + d') mod length es) \<noteq> None))"

definition oa_wf :: "('k \<Rightarrow> u64) \<Rightarrow> 'k oa_entry option list \<Rightarrow> bool" where
  "oa_wf hash es \<longleftrightarrow>
     (\<forall>i<length es. \<forall>e. es ! i = Some e \<longrightarrow>
        e_hash e = hash (e_key e) \<and> reachable_slot es (e_hash e) i) \<and>
     (\<forall>i<length es. \<forall>i'<length es. \<forall>e e'. es ! i = Some e \<longrightarrow> es ! i' = Some e' \<longrightarrow>
        e_key e = e_key e' \<longrightarrow> i = i')"

definition occupied :: "'k oa_entry option list \<Rightarrow> nat" where
  "occupied es = length (filter (\<lambda>x. x \<noteq> None) es)"

definition oa_inv :: "('k \<Rightarrow> u64) \<Rightarrow> 'k oa_map \<Rightarrow> bool" where
  "oa_inv hash m \<longleftrightarrow> (\<exists>j\<ge>2. unat (oa_cap m) = 2 ^ j) \<and>
     length (oa_entries m) = unat (oa_cap m) \<and> oa_wf hash (oa_entries m) \<and>
     occupied (oa_entries m) = unat (oa_count m) \<and> oa_count m < oa_cap m"

definition oa_items :: "'k oa_entry option list \<Rightarrow> ('k \<times> u32) list" where
  "oa_items es = concat (map (\<lambda>x. case x of None \<Rightarrow> [] | Some e \<Rightarrow> [(e_key e, e_val e)]) es)"

definition oa_abs :: "'k oa_map \<Rightarrow> 'k \<rightharpoonup> u32" where
  "oa_abs m = map_of (oa_items (oa_entries m))"

lemma oa_items_iff: "(k, v) \<in> set (oa_items es) \<longleftrightarrow> (\<exists>e. Some e \<in> set es \<and> e_key e = k \<and> e_val e = v)"
  by (fastforce simp: oa_items_def split: option.splits)

lemma oa_wf_key_unique:
  assumes "oa_wf hash es" "Some e \<in> set es" "Some e' \<in> set es" "e_key e = e_key e'"
  shows "e = e'"
  using assms unfolding oa_wf_def in_set_conv_nth by (metis option.inject)

lemma map_of_items:
  assumes "oa_wf hash es"
  shows "map_of (oa_items es) k = Some v \<longleftrightarrow> (\<exists>e. Some e \<in> set es \<and> e_key e = k \<and> e_val e = v)"
proof
  assume "map_of (oa_items es) k = Some v"
  then show "\<exists>e. Some e \<in> set es \<and> e_key e = k \<and> e_val e = v"
    by (auto simp: oa_items_iff dest: map_of_SomeD)
next
  assume e: "\<exists>e. Some e \<in> set es \<and> e_key e = k \<and> e_val e = v"
  then have "(k, v) \<in> set (oa_items es)"
    by (simp add: oa_items_iff)
  then obtain v' where v': "map_of (oa_items es) k = Some v'"
    by (metis weak_map_of_SomeI)
  then have "\<exists>e. Some e \<in> set es \<and> e_key e = k \<and> e_val e = v'"
    by (auto simp: oa_items_iff dest: map_of_SomeD)
  with e oa_wf_key_unique [OF assms] show "map_of (oa_items es) k = Some v"
    using v' by metis
qed

lemma map_of_items_None:
  assumes "\<nexists>e. Some e \<in> set es \<and> e_key e = k"
  shows "map_of (oa_items es) k = None"
  using assms by (auto simp: map_of_eq_None_iff oa_items_iff)

lemma map_of_items_cong:
  assumes "oa_wf hash es" "oa_wf hash' es'"
    "\<And>v. (\<exists>e. Some e \<in> set es \<and> e_key e = k \<and> e_val e = v)
        \<longleftrightarrow> (\<exists>e. Some e \<in> set es' \<and> e_key e = k \<and> e_val e = v)"
  shows "map_of (oa_items es) k = map_of (oa_items es') k"
proof -
  have "\<forall>v. map_of (oa_items es) k = Some v \<longleftrightarrow> map_of (oa_items es') k = Some v"
    by (simp only: map_of_items [OF assms(1)] map_of_items [OF assms(2)] assms(3) simp_thms)
  then show ?thesis
    by (metis not_Some_eq)
qed

lemma occupied_free_slot: "occupied es < length es \<Longrightarrow> \<exists>i<length es. es ! i = None"
proof (rule ccontr)
  assume lt: "occupied es < length es" and "\<not> (\<exists>i<length es. es ! i = None)"
  then have "filter (\<lambda>x. x \<noteq> None) es = es"
    by (auto simp: filter_id_conv in_set_conv_nth)
  with lt show False
    by (simp add: occupied_def)
qed

lemma occupied_insert:
  "i < length es \<Longrightarrow> es ! i = None \<Longrightarrow> occupied (es[i := Some e]) = Suc (occupied es)"
  by (induction es arbitrary: i) (auto simp: occupied_def nth_Cons split: nat.splits)

lemma occupied_update:
  "i < length es \<Longrightarrow> es ! i = Some e \<Longrightarrow> occupied (es[i := Some e']) = occupied es"
  by (induction es arbitrary: i) (auto simp: occupied_def nth_Cons split: nat.splits)

lemma occupied_Cons [simp]:
  "occupied [] = 0" "occupied (None # es) = occupied es"
  "occupied (Some e # es) = Suc (occupied es)"
  by (simp_all add: occupied_def)

lemma occupied_replicate [simp]: "occupied (replicate n None) = 0"
  by (simp add: occupied_def)

lemma reachable_slot_mono:
  assumes "reachable_slot es h i"
    "\<And>i. i < length es \<Longrightarrow> es ! i \<noteq> None \<Longrightarrow> es' ! i \<noteq> None" "length es' = length es"
  shows "reachable_slot es' h i"
proof -
  obtain d where d: "d < length es" "(unat h + d) mod length es = i"
    "\<forall>d'<d. es ! ((unat h + d') mod length es) \<noteq> None"
    using assms(1) by (auto simp: reachable_slot_def)
  have "es' ! ((unat h + d') mod length es) \<noteq> None" if "d' < d" for d'
    using assms(2) [of "(unat h + d') mod length es"] d that
    by (metis gr_zeroI less_nat_zero_code mod_less_divisor)
  with d show ?thesis
    unfolding reachable_slot_def assms(3) by blast
qed

lemma oa_wfD:
  assumes "oa_wf hash es" "i < length es" "es ! i = Some e"
  shows "e_hash e = hash (e_key e)" "reachable_slot es (e_hash e) i"
  using assms unfolding oa_wf_def by blast+

lemma oa_wf_inj:
  "oa_wf hash es \<Longrightarrow> i < length es \<Longrightarrow> i' < length es \<Longrightarrow> es ! i = Some e \<Longrightarrow> es ! i' = Some e' \<Longrightarrow>
   e_key e = e_key e' \<Longrightarrow> i = i'"
  unfolding oa_wf_def by blast

lemma oa_wfI:
  assumes "\<And>i e. i < length es \<Longrightarrow> es ! i = Some e \<Longrightarrow>
      e_hash e = hash (e_key e) \<and> reachable_slot es (e_hash e) i"
    "\<And>i i' e e'. i < length es \<Longrightarrow> i' < length es \<Longrightarrow> es ! i = Some e \<Longrightarrow> es ! i' = Some e' \<Longrightarrow>
      e_key e = e_key e' \<Longrightarrow> i = i'"
  shows "oa_wf hash es"
  using assms unfolding oa_wf_def by blast

lemma reachable_slot_set:
  assumes "reachable_slot es h i'" "i < length es"
  shows "reachable_slot (es[i := Some e]) h i'"
  using assms(1) by (rule reachable_slot_mono) (use assms(2) in \<open>auto simp: nth_list_update\<close>)

lemma oa_wf_insert:
  assumes wf: "oa_wf hash es" and i: "i < length es" "es ! i = None"
    and reach: "reachable_slot es (hash (e_key e)) i" and h: "e_hash e = hash (e_key e)"
    and new: "\<nexists>e'. Some e' \<in> set es \<and> e_key e' = e_key e"
  shows "oa_wf hash (es[i := Some e])"
proof (rule oa_wfI, unfold length_list_update)
  have key: "e_key e' \<noteq> e_key e" if "i' < length es" "es ! i' = Some e'" for i' e'
    using new that by (metis nth_mem)
  show "e_hash e' = hash (e_key e') \<and> reachable_slot (es[i := Some e]) (e_hash e') i'"
    if "i' < length es" "es[i := Some e] ! i' = Some e'" for i' e'
    using that oa_wfD [OF wf, of i' e'] reach h i(1)
    by (cases "i' = i") (simp_all add: reachable_slot_set)
  show "i' = i''"
    if "i' < length es" "i'' < length es" "es[i := Some e] ! i' = Some e1"
      "es[i := Some e] ! i'' = Some e2" "e_key e1 = e_key e2" for i' i'' e1 e2
    using that key [OF that(1)] key [OF that(2)] oa_wf_inj [OF wf that(1,2)]
    by (metis nth_list_update_eq nth_list_update_neq option.inject)
qed

lemma oa_wf_update:
  assumes wf: "oa_wf hash es" and i: "i < length es" "es ! i = Some e"
  shows "oa_wf hash (es[i := Some (e\<lparr>e_val := v\<rparr>)])"
proof (rule oa_wfI, unfold length_list_update)
  let ?es = "es[i := Some (e\<lparr>e_val := v\<rparr>)]"
  have old: "\<exists>e0. es ! i' = Some e0 \<and> e_key e0 = e_key e' \<and> e_hash e0 = e_hash e'"
    if "i' < length es" "?es ! i' = Some e'" for i' e'
    using that i by (cases "i' = i") auto
  show "e_hash e' = hash (e_key e') \<and> reachable_slot ?es (e_hash e') i'"
    if a: "i' < length es" "?es ! i' = Some e'" for i' e'
  proof -
    obtain e0 where "es ! i' = Some e0" "e_key e0 = e_key e'" "e_hash e0 = e_hash e'"
      using old [OF a] by blast
    then show ?thesis
      using oa_wfD [OF wf a(1)] reachable_slot_set [OF _ i(1)] by simp
  qed
  show "i' = i''"
    if a: "i' < length es" "i'' < length es" "?es ! i' = Some e1" "?es ! i'' = Some e2"
      "e_key e1 = e_key e2" for i' i'' e1 e2
  proof -
    obtain e3 e4 where "es ! i' = Some e3" "e_key e3 = e_key e1" "es ! i'' = Some e4"
      "e_key e4 = e_key e2"
      using old [OF a(1,3)] old [OF a(2,4)] by blast
    then show ?thesis
      using oa_wf_inj [OF wf a(1,2)] a(5) by simp
  qed
qed

lemma set_insert_slot:
  assumes "i < length es" "es ! i = None"
  shows "Some e' \<in> set (es[i := Some e]) \<longleftrightarrow> e' = e \<or> Some e' \<in> set es"
proof -
  have "Some e' \<in> set es \<Longrightarrow> Some e' \<in> set (es[i := Some e])"
    using assms unfolding in_set_conv_nth
    by (metis length_list_update nth_list_update_neq option.distinct(1))
  then show ?thesis
    using assms by (auto simp: set_update_memI dest!: set_update_subset_insert [THEN subsetD])
qed

lemma oa_inv_init:
  assumes "\<exists>j\<ge>2. unat cap = 2 ^ j"
  shows "oa_inv hash \<lparr>oa_entries = replicate (unat cap) None, oa_cap = cap, oa_count = 0\<rparr>"
  using assms by (auto simp: oa_inv_def oa_wf_def word_gt_0 unat_eq_0 [symmetric])

lemma oa_abs_init [simp]: "oa_abs \<lparr>oa_entries = replicate n None, oa_cap = cap, oa_count = c\<rparr> = Map.empty"
  by (rule ext) (auto simp: oa_abs_def map_of_eq_None_iff oa_items_iff)

text \<open>What a probe finds in a table with a free slot: the entry of the key, or the free slot
  where its entry belongs when there is none.\<close>

lemma oa_probe_spec:
  assumes cap: "unat cap = 2 ^ j" and len: "length es = unat cap" and wf: "oa_wf hash es"
    and free: "occupied es < length es"
  obtains (absent) i where "i < length es" "es ! i = None" "reachable_slot es (hash key) i"
      "\<nexists>e. Some e \<in> set es \<and> e_key e = key"
      "oa_probe (unat cap) es (cap - 1) (hash key) key (ucast (hash key AND ucast (cap - 1)))
        = Some (Empty i)"
  | (present) i e where "i < length es" "es ! i = Some e" "e_key e = key"
      "oa_probe (unat cap) es (cap - 1) (hash key) key (ucast (hash key AND ucast (cap - 1)))
        = Some (Hit i)"
proof -
  let ?h = "hash key" and ?n = "unat cap"
  let ?stop = "oa_stop es ?h key"
  obtain i0 where "i0 < ?n" "?stop i0"
    using occupied_free_slot [OF free] len by (auto simp: oa_stop_def)
  then obtain d where d: "d < ?n" "?stop ((unat ?h + d) mod ?n)"
    "\<forall>d'<d. \<not> ?stop ((unat ?h + d') mod ?n)"
    by (rule first_on_walk)
  let ?i = "(unat ?h + d) mod ?n"
  have il: "?i < length es"
    using d(1) len by (metis gr_implies_not0 mod_less_divisor not_gr_zero)
  have pr: "oa_probe ?n es (cap - 1) ?h key (ucast (?h AND ucast (cap - 1))) = Some (oa_result es ?i)"
    using d by (intro oa_probe_first [OF cap]) (simp_all add: home_slot [OF cap])
  have "es ! i \<noteq> None" if "\<not> ?stop i" for i
    using that by (auto simp: oa_stop_def split: option.splits)
  then have walk: "\<forall>d'<d. es ! ((unat ?h + d') mod length es) \<noteq> None"
    using d(3) len by simp
  show thesis
  proof (cases "es ! ?i")
    case (Some e)
    then have "e_key e = key"
      using d(2) by (simp add: oa_stop_def)
    with il Some pr show thesis
      by (intro present [of ?i e]) (simp_all add: oa_result_def)
  next
    case None
    have "e_key e \<noteq> key" if in_es: "Some e \<in> set es" for e
    proof
      assume k: "e_key e = key"
      obtain i' where i': "i' < length es" "es ! i' = Some e"
        using in_es by (metis in_set_conv_nth)
      have eh: "e_hash e = ?h"
        using oa_wfD [OF wf i'] k by simp
      obtain d'' where d'': "(unat ?h + d'') mod length es = i'"
        "\<forall>d'<d''. es ! ((unat ?h + d') mod length es) \<noteq> None"
        using oa_wfD(2) [OF wf i'] unfolding eh reachable_slot_def by blast
      have "?stop ((unat ?h + d'') mod ?n)"
        using d''(1) len i'(2) eh k by (simp add: oa_stop_def)
      with d(3) have "d \<le> d''"
        by (metis not_le)
      moreover have "\<not> d < d''"
        using d''(2) None len by metis
      ultimately show False
        using None d''(1) i'(2) len by simp
    qed
    then have "\<nexists>e. Some e \<in> set es \<and> e_key e = key"
      by blast
    moreover have "reachable_slot es ?h ?i"
      using d(1) len walk unfolding reachable_slot_def by metis
    ultimately show thesis
      using il None pr by (intro absent [of ?i]) (simp_all add: oa_result_def)
  qed
qed

lemma oa_invE:
  assumes "oa_inv hash m"
  obtains j where "2 \<le> j" "unat (oa_cap m) = 2 ^ j" "length (oa_entries m) = unat (oa_cap m)"
    "oa_wf hash (oa_entries m)" "occupied (oa_entries m) = unat (oa_count m)"
    "occupied (oa_entries m) < length (oa_entries m)"
  using assms by (auto simp: oa_inv_def word_less_nat_alt)

lemma oa_get_correct:
  assumes "oa_inv hash m"
  shows "oa_get hash m key = Some (oa_abs m key)"
  using assms
proof (rule oa_invE)
  fix j
  assume I: "unat (oa_cap m) = 2 ^ j" "length (oa_entries m) = unat (oa_cap m)"
    "oa_wf hash (oa_entries m)" "occupied (oa_entries m) < length (oa_entries m)"
  from I show ?thesis
  proof (cases rule: oa_probe_spec [where key = key])
    case (absent i)
    then show ?thesis
      by (simp add: oa_get_def Let_def oa_abs_def map_of_items_None)
  next
    case (present i e)
    then have "map_of (oa_items (oa_entries m)) key = Some (e_val e)"
      using map_of_items [OF I(3)] nth_mem by metis
    with present show ?thesis
      by (simp add: oa_get_def Let_def oa_abs_def)
  qed
qed

lemma unat_Suc_u32: "(c :: u32) < d \<Longrightarrow> unat (c + 1) = Suc (unat c)"
  using unat_u32_lt [of d] by (simp add: word_less_nat_alt unat_word_ariths)

lemma map_of_items_insert:
  assumes "oa_wf hash es" "oa_wf hash (es[i := Some e])" "i < length es" "es ! i = None"
    "\<nexists>e'. Some e' \<in> set es \<and> e_key e' = e_key e"
  shows "map_of (oa_items (es[i := Some e])) = (map_of (oa_items es))(e_key e \<mapsto> e_val e)"
proof
  fix k
  have "map_of (oa_items (es[i := Some e])) (e_key e) = Some (e_val e)"
    unfolding map_of_items [OF assms(2)] using set_insert_slot [OF assms(3,4)] by blast
  moreover have "map_of (oa_items (es[i := Some e])) k = map_of (oa_items es) k" if "k \<noteq> e_key e"
    using assms(1,2) by (rule_tac map_of_items_cong [rotated])
      (auto simp: set_insert_slot [OF assms(3,4)] that)
  ultimately show "map_of (oa_items (es[i := Some e])) k
      = ((map_of (oa_items es))(e_key e \<mapsto> e_val e)) k"
    by simp
qed

lemma set_update_slot:
  assumes "oa_wf hash es" "i < length es" "es ! i = Some e" "e_key e' = e_key e"
  shows "Some e1 \<in> set (es[i := Some e']) \<longleftrightarrow>
    e1 = e' \<or> (Some e1 \<in> set es \<and> e_key e1 \<noteq> e_key e)"
proof
  assume "Some e1 \<in> set (es[i := Some e'])"
  then obtain i1 where i1: "i1 < length es" "es[i := Some e'] ! i1 = Some e1"
    by (auto simp: in_set_conv_nth)
  show "e1 = e' \<or> (Some e1 \<in> set es \<and> e_key e1 \<noteq> e_key e)"
  proof (cases "i1 = i")
    case False
    then have "es ! i1 = Some e1"
      using i1 by simp
    with False show ?thesis
      using oa_wf_inj [OF assms(1) i1(1) assms(2) _ assms(3)] nth_mem [OF i1(1)] by metis
  qed (use i1 in simp)
next
  assume "e1 = e' \<or> (Some e1 \<in> set es \<and> e_key e1 \<noteq> e_key e)"
  then show "Some e1 \<in> set (es[i := Some e'])"
  proof
    assume "Some e1 \<in> set es \<and> e_key e1 \<noteq> e_key e"
    then obtain i1 where "i1 < length es" "es ! i1 = Some e1" "i1 \<noteq> i"
      using assms(3) by (metis in_set_conv_nth option.inject)
    then show ?thesis
      unfolding in_set_conv_nth by (metis length_list_update nth_list_update_neq)
  qed (use assms(2) set_update_memI in fast)
qed

lemma map_of_items_update:
  assumes "oa_wf hash es" "i < length es" "es ! i = Some e"
  shows "map_of (oa_items (es[i := Some (e\<lparr>e_val := v\<rparr>)])) = (map_of (oa_items es))(e_key e \<mapsto> v)"
proof
  fix k
  let ?es = "es[i := Some (e\<lparr>e_val := v\<rparr>)]"
  have wf: "oa_wf hash ?es"
    by (rule oa_wf_update [OF assms])
  have mem: "Some e1 \<in> set ?es \<longleftrightarrow> e1 = e\<lparr>e_val := v\<rparr> \<or> (Some e1 \<in> set es \<and> e_key e1 \<noteq> e_key e)"
    for e1
    by (rule set_update_slot [OF assms]) simp
  have "map_of (oa_items ?es) (e_key e) = Some v"
    unfolding map_of_items [OF wf] mem by (rule exI [of _ "e\<lparr>e_val := v\<rparr>"]) simp
  moreover have "map_of (oa_items ?es) k = map_of (oa_items es) k" if "k \<noteq> e_key e"
    using assms(1) wf by (rule_tac map_of_items_cong [rotated]) (auto simp: mem that)
  ultimately show "map_of (oa_items ?es) k = ((map_of (oa_items es))(e_key e \<mapsto> v)) k"
    by simp
qed

lemma oa_put_slot_correct:
  assumes "oa_inv hash m"
  shows "\<exists>b m'. oa_put_slot hash m key v = Some (b, m') \<and> oa_inv hash m' \<and>
     oa_abs m' = (if b then (oa_abs m)(key \<mapsto> v) else oa_abs m) \<and>
     (\<not> b \<longrightarrow> oa_abs m key = None \<and> oa_cap m \<le> oa_count m + 1)"
  using assms
proof (rule oa_invE)
  fix j
  assume j: "2 \<le> j" and I: "unat (oa_cap m) = 2 ^ j" "length (oa_entries m) = unat (oa_cap m)"
    "oa_wf hash (oa_entries m)" "occupied (oa_entries m) < length (oa_entries m)"
    and occ: "occupied (oa_entries m) = unat (oa_count m)"
  let ?es = "oa_entries m" and ?e = "\<lparr>e_key = key, e_hash = hash key, e_val = v\<rparr>"
  from I show ?thesis
  proof (cases rule: oa_probe_spec [where key = key])
    case (absent i)
    show ?thesis
    proof (cases "oa_cap m \<le> oa_count m + 1")
      case True
      then show ?thesis
        using absent assms
        by (intro exI [of _ False] exI [of _ m])
          (simp add: oa_put_slot_def Let_def oa_abs_def map_of_items_None)
    next
      case False
      have wf: "oa_wf hash (?es[i := Some ?e])"
        using absent by (intro oa_wf_insert [OF I(3)]) simp_all
      have "oa_inv hash (m\<lparr>oa_entries := ?es[i := Some ?e], oa_count := oa_count m + 1\<rparr>)"
        using j I wf occ absent False assms
        by (auto simp: oa_inv_def occupied_insert unat_Suc_u32 [of _ "oa_cap m"])
      with False absent show ?thesis
        using map_of_items_insert [OF I(3) wf absent(1,2)]
        by (intro exI [of _ True]) (simp add: oa_put_slot_def Let_def oa_abs_def)
    qed
  next
    case (present i e)
    have "oa_inv hash (m\<lparr>oa_entries := ?es[i := Some (e\<lparr>e_val := v\<rparr>)]\<rparr>)"
      using assms I present oa_wf_update [OF I(3) present(1,2), of v] occ
      by (auto simp: oa_inv_def occupied_update)
    with present show ?thesis
      using map_of_items_update [OF I(3) present(1,2), of v]
      by (intro exI [of _ True]) (simp add: oa_put_slot_def Let_def oa_abs_def)
  qed
qed

subsection \<open>Growing\<close>

definition keys_ok :: "('k \<Rightarrow> u64) \<Rightarrow> 'k oa_entry option list \<Rightarrow> bool" where
  "keys_ok hash es \<longleftrightarrow> (\<forall>e. Some e \<in> set es \<longrightarrow> e_hash e = hash (e_key e)) \<and>
     (\<forall>i<length es. \<forall>i'<length es. \<forall>e e'. es ! i = Some e \<longrightarrow> es ! i' = Some e' \<longrightarrow>
        e_key e = e_key e' \<longrightarrow> i = i')"

lemma oa_wf_keys_ok: "oa_wf hash es \<Longrightarrow> keys_ok hash es"
  unfolding oa_wf_def keys_ok_def in_set_conv_nth by blast

lemma keys_ok_hash: "keys_ok hash es \<Longrightarrow> Some e \<in> set es \<Longrightarrow> e_hash e = hash (e_key e)"
  unfolding keys_ok_def by blast

lemma keys_ok_Cons:
  assumes "keys_ok hash (x # es)"
  shows "keys_ok hash es"
    and "x = Some e \<Longrightarrow> e_hash e = hash (e_key e)"
    and "x = Some e \<Longrightarrow> Some e' \<in> set es \<Longrightarrow> e_key e' \<noteq> e_key e"
proof -
  have inj: "i = i'" if "i < length (x # es)" "i' < length (x # es)" "(x # es) ! i = Some e"
    "(x # es) ! i' = Some e'" "e_key e = e_key e'" for i i' e e'
    using assms that unfolding keys_ok_def by blast
  show "keys_ok hash es"
    unfolding keys_ok_def
  proof (intro conjI allI impI)
    show "i = i'" if "i < length es" "i' < length es" "es ! i = Some e" "es ! i' = Some e'"
      "e_key e = e_key e'" for i i' e e'
      using inj [of "Suc i" "Suc i'" e e'] that by simp
  qed (rule keys_ok_hash [OF assms], simp)
  show "x = Some e \<Longrightarrow> e_hash e = hash (e_key e)"
    by (rule keys_ok_hash [OF assms]) simp
  show "e_key e' \<noteq> e_key e" if x: "x = Some e" and in_es: "Some e' \<in> set es"
  proof -
    obtain i where "i < length es" "es ! i = Some e'"
      using in_es by (metis in_set_conv_nth)
    then show ?thesis
      using inj [of "Suc i" 0 e' e] x by auto
  qed
qed

lemma oa_rehash_correct:
  assumes cap: "unat cap = 2 ^ j"
  shows "keys_ok hash es \<Longrightarrow> oa_wf hash new \<Longrightarrow> length new = unat cap \<Longrightarrow>
    occupied new + occupied es < unat cap \<Longrightarrow>
    \<forall>e e'. Some e \<in> set new \<longrightarrow> Some e' \<in> set es \<longrightarrow> e_key e \<noteq> e_key e' \<Longrightarrow>
    \<exists>r. oa_rehash (cap - 1) es new = Some r \<and> oa_wf hash r \<and> length r = unat cap \<and>
      occupied r = occupied new + occupied es \<and>
      (\<forall>e. Some e \<in> set r \<longleftrightarrow> Some e \<in> set new \<or> Some e \<in> set es)"
proof (induction "cap - 1" es new rule: oa_rehash.induct)
  case (1 new_es)
  then show ?case
    by simp
next
  case (2 es new_es)
  then show ?case
    using keys_ok_Cons(1) [of hash None es] by simp
next
  case (3 e es new_es)
  note kc = keys_ok_Cons [OF 3(2)]
  have h: "e_hash e = hash (e_key e)"
    using kc(2) by simp
  have len: "length new_es = unat cap" and lt: "occupied new_es < unat cap"
    using 3(4,5) by simp_all
  obtain i0 where "i0 < unat cap" "new_es ! i0 = None"
    using occupied_free_slot [of new_es] lt len by auto
  then obtain d where d: "d < unat cap" "new_es ! ((unat (e_hash e) + d) mod unat cap) = None"
    "\<forall>d'<d. new_es ! ((unat (e_hash e) + d') mod unat cap) \<noteq> None"
    by (rule first_on_walk [where P = "\<lambda>i. new_es ! i = None"])
  let ?i = "(unat (e_hash e) + d) mod unat cap"
  have il: "?i < length new_es"
    using d(1) len by (metis gr_implies_not0 mod_less_divisor not_gr_zero)
  have slot: "oa_free_slot (length new_es) new_es (cap - 1) (ucast (e_hash e AND ucast (cap - 1)))
      = Some ?i"
    using d len by (intro oa_free_slot_first [OF cap]) (simp_all add: home_slot [OF cap])
  have "reachable_slot new_es (hash (e_key e)) ?i"
    using d len unfolding reachable_slot_def h by metis
  moreover have "\<nexists>e'. Some e' \<in> set new_es \<and> e_key e' = e_key e"
    using 3(6) by auto
  ultimately have wf: "oa_wf hash (new_es[?i := Some e])"
    using oa_wf_insert [OF 3(3) il d(2)] h by blast
  note set_i = set_insert_slot [OF il d(2), of _ e]
  have "\<exists>r. oa_rehash (cap - 1) es (new_es[?i := Some e]) = Some r \<and> oa_wf hash r \<and>
      length r = unat cap \<and>
      occupied r = occupied (new_es[?i := Some e]) + occupied es \<and>
      (\<forall>e'. Some e' \<in> set r \<longleftrightarrow> Some e' \<in> set (new_es[?i := Some e]) \<or> Some e' \<in> set es)"
  proof (rule 3(1) [OF slot kc(1) wf])
    show "occupied (new_es[?i := Some e]) + occupied es < unat cap"
      using 3(5) by (simp add: occupied_insert [OF il d(2)])
    show "\<forall>e1 e'. Some e1 \<in> set (new_es[?i := Some e]) \<longrightarrow> Some e' \<in> set es \<longrightarrow> e_key e1 \<noteq> e_key e'"
      using 3(6) kc(3) [OF refl] unfolding set_i by (metis list.set_intros(2))
  qed (simp add: len)
  then show ?case
    using slot by (auto simp: set_i occupied_insert [OF il d(2)])
qed

lemma oa_grow_correct:
  assumes "oa_inv hash m"
  shows "\<exists>b m'. oa_grow mem esz m = Some (b, m') \<and> oa_inv hash m' \<and> oa_abs m' = oa_abs m \<and>
     oa_count m' = oa_count m \<and> (if b then unat (oa_cap m') = 2 * unat (oa_cap m) else m' = m)"
  using assms
proof (rule oa_invE)
  fix j
  assume j: "2 \<le> j" and I: "unat (oa_cap m) = 2 ^ j" "length (oa_entries m) = unat (oa_cap m)"
    "oa_wf hash (oa_entries m)" "occupied (oa_entries m) < length (oa_entries m)"
    and occ: "occupied (oa_entries m) = unat (oa_count m)"
  show ?thesis
  proof (cases "oa_cap m > 0xFFFFFFFF div 2 \<or> \<not> mem (unat (oa_cap m * 2) * esz)")
    case True
    then show ?thesis
      using assms by (intro exI [of _ False] exI [of _ m]) (auto simp: oa_grow_def Let_def)
  next
    case False
    let ?cap = "oa_cap m * 2"
    have "unat (oa_cap m) \<le> 2147483647"
      using False by (simp add: word_le_nat_alt not_less)
    then have dbl: "unat ?cap = 2 * unat (oa_cap m)"
      by (simp add: unat_word_ariths)
    then have cap: "unat ?cap = 2 ^ Suc j"
      by (simp add: I(1))
    have wf0: "oa_wf hash (replicate (unat ?cap) None)"
      by (simp add: oa_wf_def)
    obtain r where r: "oa_rehash (?cap - 1) (oa_entries m) (replicate (unat ?cap) None) = Some r"
      "oa_wf hash r" "length r = unat ?cap" "occupied r = occupied (oa_entries m)"
      "\<forall>e. Some e \<in> set r \<longleftrightarrow> Some e \<in> set (oa_entries m)"
      using oa_rehash_correct [OF cap oa_wf_keys_ok [OF I(3)] wf0] I(2,4) dbl by auto
    let ?m = "m\<lparr>oa_entries := r, oa_cap := ?cap\<rparr>"
    have "oa_grow mem esz m = Some (True, ?m)"
      using False r(1) by (simp add: oa_grow_def Let_def)
    moreover have "\<exists>j\<ge>2. unat ?cap = 2 ^ j"
      using cap j by (intro exI [of _ "Suc j"]) simp
    then have "oa_inv hash ?m"
      using r occ I dbl by (simp add: oa_inv_def word_less_nat_alt)
    moreover have "oa_abs ?m = oa_abs m"
      using r(5) I(3) r(2) by (intro ext) (simp add: oa_abs_def, rule map_of_items_cong, simp_all)
    ultimately show ?thesis
      using dbl by (intro exI [of _ True] exI [of _ ?m]) simp
  qed
qed

lemma oa_put_correct:
  assumes "oa_inv hash m"
  shows "\<exists>b m'. oa_put mem esz hash m key v = Some (b, m') \<and> oa_inv hash m' \<and>
     oa_abs m' = (if b then (oa_abs m)(key \<mapsto> v) else oa_abs m) \<and>
     (\<not> b \<longrightarrow> oa_abs m key = None)"
proof (cases "oa_count m * 4 \<ge> oa_cap m * 3")
  case True
  obtain b1 m1 where g: "oa_grow mem esz m = Some (b1, m1)" "oa_inv hash m1" "oa_abs m1 = oa_abs m"
    using oa_grow_correct [OF assms, of mem esz] by blast
  with oa_put_slot_correct [OF g(2), of key v] True show ?thesis
    by (auto simp: oa_put_def)
next
  case False
  with oa_put_slot_correct [OF assms, of key v] show ?thesis
    by (auto simp: oa_put_def)
qed

lemma next_pow2_cap:
  assumes "4 \<le> v" "v \<le> MAP_MAX_INITIAL_CAP"
  shows "\<exists>j\<ge>2. j \<le> 30 \<and> unat (next_pow2 v) = 2 ^ j \<and> unat v \<le> 2 ^ j"
proof -
  have "unat v \<ge> 4" "unat v \<le> 1073741824"
    using assms by (simp_all add: word_le_nat_alt MAP_MAX_INITIAL_CAP_def)
  then have v: "v \<noteq> 0" "v \<noteq> 1" "unat (v - 1) = unat v - 1" "3 \<le> unat (v - 1)"
    "unat (v - 1) < 2 ^ 30"
    by (auto simp: unat_sub_if')
  obtain k where k: "smear k 1 (v - 1)" "k < 32" "next_pow2 v = mask (k + 1) + 1"
    using v(1,2) by (rule next_pow2_mask)
  have bit: "bit (v - 1) k"
    using k(1) by (simp add: smear_def)
  have "take_bit (k + 1) (v - 1) = v - 1"
    using k(1) by (intro bit_word_eqI) (auto simp: smear_def bit_take_bit_iff not_le [symmetric])
  then have up: "unat (v - 1) < 2 ^ (k + 1)"
    by (metis take_bit_nat_less_exp unsigned_take_bit_eq)
  have "odd (unat (v - 1) div 2 ^ k)"
    using bit k(2) by (simp flip: bit_iff_odd add: bit_unsigned_iff)
  then have "2 ^ k \<le> unat (v - 1)"
    by (metis div_less even_zero not_le)
  with v(5) have k29: "k < 30"
    by (metis order.strict_trans1 power_less_imp_less_exp one_less_numeral_iff semiring_norm(76))
  have "1 \<le> k"
    using up v(4) by (cases k) auto
  have "unat (mask (k + 1) + 1 :: u32) = 2 ^ (k + 1)"
  proof -
    have "(2::nat) ^ (k + 1) < 2 ^ 32"
      using k29 by (intro power_strict_increasing) simp_all
    moreover have "(mask (k + 1) + 1 :: u32) = word_of_nat (2 ^ (k + 1))"
      by (simp add: mask_eq_exp_minus_1)
    ultimately show ?thesis
      by (simp only: unsigned_of_nat) (simp add: take_bit_nat_eq_self)
  qed
  with k(3) \<open>1 \<le> k\<close> k29 up v(3) \<open>unat v \<ge> 4\<close> show ?thesis
    by (intro exI [of _ "k + 1"]) simp
qed

lemma oa_init_correct:
  assumes "oa_init mem esz hint = Some m"
  shows "oa_inv hash m" "oa_abs m = Map.empty" "oa_count m = 0"
proof -
  let ?h = "if MAP_MAX_INITIAL_CAP < hint then MAP_MAX_INITIAL_CAP else hint"
  let ?v = "if ?h < 4 then 4 else ?h"
  have "4 \<le> ?v" "?v \<le> MAP_MAX_INITIAL_CAP"
    by (auto simp: MAP_MAX_INITIAL_CAP_def not_less)
  then have "\<exists>j\<ge>2. unat (next_pow2 ?v) = 2 ^ j"
    using next_pow2_cap by blast
  moreover have "m = \<lparr>oa_entries = replicate (unat (next_pow2 ?v)) None, oa_cap = next_pow2 ?v,
      oa_count = 0\<rparr>"
    using assms by (auto simp: oa_init_def Let_def split: if_splits)
  ultimately show "oa_inv hash m" "oa_abs m = Map.empty" "oa_count m = 0"
    by (simp_all only: oa_inv_init oa_abs_init oa_map.simps)
qed

subsection \<open>The interface of the tables\<close>

text \<open>What the tokenizer relies on: probes return, a stored key is read back, and a refused insert
  changes no lookup. \<open>abs\<close> is the finite map a table stands for.\<close>

locale kv_store =
  fixes inv :: "'m \<Rightarrow> bool"
    and abs :: "'m \<Rightarrow> 'k \<Rightarrow> 'v option"
    and get :: "'m \<Rightarrow> 'k \<Rightarrow> 'v option option"
    and put :: "'m \<Rightarrow> 'k \<Rightarrow> 'v \<Rightarrow> (bool \<times> 'm) option"
  assumes get_law: "inv m \<Longrightarrow> get m k = Some (abs m k)"
    and put_law: "inv m \<Longrightarrow> \<exists>b m'. put m k v = Some (b, m') \<and> inv m' \<and>
      abs m' = (if b then (abs m)(k \<mapsto> v) else abs m) \<and> (\<not> b \<longrightarrow> abs m k = None)"

text \<open>Storing a list of bindings, giving up at the first refusal, as the loaders do.\<close>

fun kv_put_all ::
  "('m \<Rightarrow> 'k \<Rightarrow> 'v \<Rightarrow> (bool \<times> 'm) option) \<Rightarrow> 'm \<Rightarrow> ('k \<times> 'v) list \<Rightarrow> (bool \<times> 'm) option" where
  "kv_put_all put m [] = Some (True, m)"
| "kv_put_all put m ((k, v) # kvs) = (case put m k v of
     None \<Rightarrow> None
   | Some (b, m') \<Rightarrow> if b then kv_put_all put m' kvs else Some (False, m'))"

context kv_store
begin

lemma put_get:
  assumes "inv m" "put m k v = Some (b, m')"
  shows "inv m'" "get m' k' = (if b \<and> k' = k then Some (Some v) else get m k')"
  using put_law [OF assms(1), of k v] get_law assms by auto

lemma put_all:
  "inv m \<Longrightarrow> \<exists>b m'. kv_put_all put m kvs = Some (b, m') \<and> inv m' \<and>
     (b \<longrightarrow> abs m' = abs m ++ map_of (rev kvs))"
proof (induction kvs arbitrary: m)
  case Nil
  then show ?case
    by (intro exI [of _ True] exI [of _ m]) simp
next
  case (Cons kv kvs)
  obtain k v where kv: "kv = (k, v)"
    by (cases kv)
  obtain b m1 where p: "put m k v = Some (b, m1)" "inv m1"
    "abs m1 = (if b then (abs m)(k \<mapsto> v) else abs m)"
    using put_law [OF Cons.prems] by blast
  obtain b2 m2 where "kv_put_all put m1 kvs = Some (b2, m2)" "inv m2"
    "b2 \<longrightarrow> abs m2 = abs m1 ++ map_of (rev kvs)"
    using Cons.IH [OF p(2)] by blast
  with p kv show ?case
    by (cases b) (auto simp: map_add_assoc [symmetric] map_add_def fun_eq_iff split: option.splits)
qed

lemma get_after_put_all:
  assumes "inv m" "kv_put_all put m kvs = Some (True, m')"
  shows "inv m'" "get m' k = Some (case map_of (rev kvs) k of None \<Rightarrow> abs m k | Some v \<Rightarrow> Some v)"
  using put_all [OF assms(1), of kvs] assms get_law [of m' k]
  by (auto simp: map_add_def)

lemma get_returns: "inv m \<Longrightarrow> get m k \<noteq> None"
  by (simp add: get_law)

lemma put_returns: "inv m \<Longrightarrow> put m k v \<noteq> None"
  using put_law [of m k v] by auto

lemma refused_put:
  assumes "inv m" "put m k v = Some (False, m')"
  shows "get m k = Some None" "get m' k' = get m k'"
  using put_law [OF assms(1), of k v] assms get_law by auto

end

interpretation str_kv: kv_store "oa_inv fnv1a" oa_abs str_u32_map_get "str_u32_map_put mem" for mem
  by unfold_locales
    (simp_all add: str_u32_map_get_def str_u32_map_put_def oa_get_correct oa_put_correct)

interpretation merge_kv: kv_store "oa_inv merge_hash" oa_abs merge_map_get "merge_map_put mem" for mem
  by unfold_locales
    (simp_all add: merge_map_get_def merge_map_put_def oa_get_correct oa_put_correct)

text \<open>The lookups of a table after \<open>_init\<close> and a list of puts.\<close>

lemma merge_map_loaded:
  assumes "merge_map_init mem hint = Some m" "kv_put_all (merge_map_put mem) m kvs = Some (True, m')"
  shows "merge_map_get m' k = Some (map_of (rev kvs) k)"
proof -
  have "oa_inv merge_hash m" "oa_abs m = Map.empty"
    using assms(1) by (auto simp: merge_map_init_def oa_init_correct)
  then show ?thesis
    using merge_kv.get_after_put_all(2) [OF _ assms(2), of k] by (simp split: option.splits)
qed

lemma str_u32_map_loaded:
  assumes "str_u32_map_init mem hint = Some m" "kv_put_all (str_u32_map_put mem) m kvs = Some (True, m')"
  shows "str_u32_map_get m' k = Some (map_of (rev kvs) k)"
proof -
  have "oa_inv fnv1a m" "oa_abs m = Map.empty"
    using assms(1) by (auto simp: str_u32_map_init_def oa_init_correct)
  then show ?thesis
    using str_kv.get_after_put_all(2) [OF _ assms(2), of k] by (simp split: option.splits)
qed

subsection \<open>Properties\<close>

text \<open>The tables a program can hold: made by \<open>_init\<close> and changed by \<open>_put\<close>, whatever memory does.\<close>

inductive str_u32_map_reach :: "str_u32_map \<Rightarrow> bool" where
  init: "str_u32_map_init mem hint = Some m \<Longrightarrow> str_u32_map_reach m"
| put: "str_u32_map_reach m \<Longrightarrow> str_u32_map_put mem m k v = Some (b, m') \<Longrightarrow> str_u32_map_reach m'"

inductive merge_map_reach :: "merge_map \<Rightarrow> bool" where
  init: "merge_map_init mem hint = Some m \<Longrightarrow> merge_map_reach m"
| put: "merge_map_reach m \<Longrightarrow> merge_map_put mem m k v = Some (b, m') \<Longrightarrow> merge_map_reach m'"

lemma str_u32_map_reach_inv: "str_u32_map_reach m \<Longrightarrow> oa_inv fnv1a m"
  by (induction rule: str_u32_map_reach.induct)
    (auto simp: str_u32_map_init_def oa_init_correct dest: str_kv.put_get)

lemma merge_map_reach_inv: "merge_map_reach m \<Longrightarrow> oa_inv merge_hash m"
  by (induction rule: merge_map_reach.induct)
    (auto simp: merge_map_init_def oa_init_correct dest: merge_kv.put_get)

lemma str_u32_map_reach_put_all:
  "str_u32_map_reach m \<Longrightarrow> kv_put_all (str_u32_map_put mem) m kvs = Some (b, m') \<Longrightarrow> str_u32_map_reach m'"
proof (induction kvs arbitrary: m)
  case (Cons kv kvs)
  obtain k v where kv: "kv = (k, v)" by (cases kv)
  with Cons.prems(2) obtain b1 m1 where p: "str_u32_map_put mem m k v = Some (b1, m1)"
    by (auto split: option.splits)
  note r = str_u32_map_reach.put [OF Cons.prems(1) p]
  show ?case
    using Cons.prems(2) Cons.IH [OF r] r by (cases b1) (simp_all add: kv p)
qed simp

lemma merge_map_reach_put_all:
  "merge_map_reach m \<Longrightarrow> kv_put_all (merge_map_put mem) m kvs = Some (b, m') \<Longrightarrow> merge_map_reach m'"
proof (induction kvs arbitrary: m)
  case (Cons kv kvs)
  obtain k v where kv: "kv = (k, v)" by (cases kv)
  with Cons.prems(2) obtain b1 m1 where p: "merge_map_put mem m k v = Some (b1, m1)"
    by (auto split: option.splits)
  note r = merge_map_reach.put [OF Cons.prems(1) p]
  show ?case
    using Cons.prems(2) Cons.IH [OF r] r by (cases b1) (simp_all add: kv p)
qed simp

text \<open>What a table that can occur answers.\<close>

lemma str_u32_map_get_abs: "str_u32_map_reach m \<Longrightarrow> str_u32_map_get m k = Some (oa_abs m k)"
  by (rule str_kv.get_law [OF str_u32_map_reach_inv])

lemma merge_map_get_abs: "merge_map_reach m \<Longrightarrow> merge_map_get m k = Some (oa_abs m k)"
  by (rule merge_kv.get_law [OF merge_map_reach_inv])

text \<open>C4. Every probe loop of the string table stops: on any table a program can hold, a lookup and
  a store return for every key, whatever the hash values and however often memory ran out.\<close>

theorem str_u32_map_probes_terminate:
  assumes "str_u32_map_reach m"
  shows "str_u32_map_get m k \<noteq> None \<and> str_u32_map_put mem m k v \<noteq> None"
  using str_kv.get_returns str_kv.put_returns str_u32_map_reach_inv [OF assms] by blast

text \<open>C3. A store into the string table changes exactly the lookup of its key: after a successful
  put the key reads back the stored value and every other key reads as before, also when the table
  was rehashed; a refused put changes no lookup and happens only for a key that is not present.\<close>

theorem str_u32_map_put_get:
  assumes "str_u32_map_reach m" "str_u32_map_put mem m k v = Some (b, m')"
  shows "str_u32_map_get m' k' = (if b \<and> k' = k then Some (Some v) else str_u32_map_get m k') \<and>
    (\<not> b \<longrightarrow> str_u32_map_get m k = Some None)"
  using str_kv.put_get(2) [OF str_u32_map_reach_inv [OF assms(1)] assms(2)]
    str_kv.refused_put(1) [OF str_u32_map_reach_inv [OF assms(1)], of mem k v m'] assms(2)
  by auto

text \<open>C5. Loading a merge table: after \<open>_init\<close> and a list of successful puts, the rank of a pair is
  the one put last for that pair, and pairs never put are absent.\<close>

theorem merge_map_load:
  assumes "merge_map_init mem hint = Some m" "kv_put_all (merge_map_put mem) m kvs = Some (True, m')"
  shows "merge_map_get m' k = Some (map_of (rev kvs) k)"
  by (rule merge_map_loaded [OF assms])

text \<open>Concrete tables for the witnesses: three puts into a table of four slots, the last after a grow
  that found no memory.\<close>

definition sample_map0 :: str_u32_map where
  "sample_map0 = the (str_u32_map_init (\<lambda>_. True) 4)"

definition sample_map1 :: str_u32_map where
  "sample_map1 = snd (the (str_u32_map_put (\<lambda>_. False) sample_map0 [104, 105] 7))"

lemma sample_map_steps:
  "str_u32_map_init (\<lambda>_. True) 4 = Some sample_map0"
  "str_u32_map_put (\<lambda>_. False) sample_map0 [104, 105] 7 = Some (True, sample_map1)"
  by code_simp+

lemma sample_map1_reach: "str_u32_map_reach sample_map1"
  by (rule str_u32_map_reach.put [OF str_u32_map_reach.init [OF sample_map_steps(1)] sample_map_steps(2)])

theorem str_u32_map_probes_terminate_witness:
  "str_u32_map_get sample_map1 [104] \<noteq> None \<and> str_u32_map_put (\<lambda>_. False) sample_map1 [] 1 \<noteq> None"
  using str_u32_map_probes_terminate [OF sample_map1_reach] by blast

theorem str_u32_map_put_get_witness:
  "str_u32_map_get sample_map1 [104, 105] = Some (Some 7) \<and>
   str_u32_map_get sample_map1 [9] = str_u32_map_get sample_map0 [9]"
  using str_u32_map_put_get [OF str_u32_map_reach.init [OF sample_map_steps(1)] sample_map_steps(2)]
  by simp

definition sample_merges :: merge_map where
  "sample_merges = the (merge_map_init (\<lambda>_. True) 0)"

definition sample_merges_list :: "((bytes \<times> bytes) \<times> u32) list" where
  "sample_merges_list = [(([97], [98]), 0), (([97, 98], [99]), 1), (([97], [98]), 5), (([98], [99]), 2)]"

definition sample_merges_loaded :: merge_map where
  "sample_merges_loaded = snd (the (kv_put_all (merge_map_put (\<lambda>_. True)) sample_merges sample_merges_list))"

lemma sample_merges_steps:
  "merge_map_init (\<lambda>_. True) 0 = Some sample_merges"
  "kv_put_all (merge_map_put (\<lambda>_. True)) sample_merges sample_merges_list
     = Some (True, sample_merges_loaded)"
  by code_simp+

theorem merge_map_load_witness:
  "merge_map_get sample_merges_loaded ([97], [98]) = Some (Some 5) \<and>
   merge_map_get sample_merges_loaded ([97], [99]) = Some None"
  using merge_map_load [OF sample_merges_steps] by (simp add: sample_merges_list_def)

end
