(* ===== verification/StreamChan.thy ===== *)
theory StreamChan
  imports CoreTypes
begin

text \<open>
  The per-request token channel of \<open>src/engine/engine.c\<close>: a ring buffer of chunks under one
  mutex, with cancellation, reference counting and a push callback. Every operation holds the
  mutex, so an operation is one atomic step of the model, taken in the state in which its wait
  ends. \<open>None\<close> is the result of an operation that waits in the given state: the C code blocks on
  the condition variable there. The positions and lengths are C \<open>int\<close>s that stay below
  \<open>2 * cap\<close>; the model uses \<open>nat\<close>.
\<close>

record stream =
  s_buf :: "chunk list"
  s_cap :: nat
  s_len :: nat
  s_read_pos :: nat
  s_cancelled :: bool
  s_refcount :: nat
  s_on_push :: bool \<comment> \<open>a callback is installed\<close>
  s_notified :: nat \<comment> \<open>how often the callback ran\<close>

definition zero_chunk :: chunk where
  "zero_chunk = CHUNK_TOKEN 0 (Fin 0)"

text \<open>\<open>sizeof(stream_t)\<close> and \<open>sizeof(chunk_t)\<close> on LP64 are parameters of the request sizes.\<close>

definition stream_create :: "allocator \<Rightarrow> nat \<Rightarrow> nat \<Rightarrow> int \<Rightarrow> stream option" where
  "stream_create mem sizeof_stream sizeof_chunk capacity =
     (if capacity \<le> 0 then None
      else if \<not> mem sizeof_stream then None
      else if \<not> mem (nat capacity * sizeof_chunk) then None
      else Some \<lparr>s_buf = replicate (nat capacity) zero_chunk, s_cap = nat capacity, s_len = 0,
                 s_read_pos = 0, s_cancelled = False, s_refcount = 1, s_on_push = False,
                 s_notified = 0\<rparr>)"

definition stream_retain :: "stream \<Rightarrow> stream" where
  "stream_retain s = s\<lparr>s_refcount := s_refcount s + 1\<rparr>"

text \<open>\<open>None\<close>: the last reference is gone and the stream is freed.\<close>

definition stream_release :: "stream option \<Rightarrow> stream option" where
  "stream_release s = (case s of
     None \<Rightarrow> None
   | Some s \<Rightarrow> if s_refcount s = 1 then None else Some (s\<lparr>s_refcount := s_refcount s - 1\<rparr>))"

definition stream_notify :: "stream \<Rightarrow> stream" where
  "stream_notify s = (if s_on_push s then s\<lparr>s_notified := s_notified s + 1\<rparr> else s)"

definition stream_push :: "stream \<Rightarrow> chunk \<Rightarrow> (bool \<times> stream) option" where
  "stream_push s c =
     (if s_len s = s_cap s \<and> \<not> s_cancelled s then None
      else if s_cancelled s then Some (False, s)
      else let write_pos = (s_read_pos s + s_len s) mod s_cap s
           in Some (True, stream_notify
                (s\<lparr>s_buf := (s_buf s)[write_pos := c], s_len := s_len s + 1\<rparr>)))"

definition stream_next :: "stream \<Rightarrow> int \<Rightarrow> (chunk option \<times> stream) option" where
  "stream_next s timeout_ms =
     (if timeout_ms < 0 \<and> s_len s = 0 \<and> \<not> s_cancelled s then None
      else if s_len s = 0 then Some (None, s)
      else Some (Some (s_buf s ! s_read_pos s),
                 s\<lparr>s_read_pos := (s_read_pos s + 1) mod s_cap s, s_len := s_len s - 1\<rparr>))"

definition stream_cancel :: "stream \<Rightarrow> stream" where
  "stream_cancel s = s\<lparr>s_cancelled := True\<rparr>"

definition stream_set_notify :: "stream \<Rightarrow> bool \<Rightarrow> stream" where
  "stream_set_notify s cb = s\<lparr>s_on_push := cb\<rparr>"

definition stream_sole_owner :: "stream \<Rightarrow> bool" where
  "stream_sole_owner s = (s_refcount s = 1)"

definition stream_push_error_kind ::
  "allocator \<Rightarrow> stream \<Rightarrow> string \<Rightarrow> gen_err_kind \<Rightarrow> (bool \<times> stream) option" where
  "stream_push_error_kind mem s msg kind = (case c_strdup mem msg of
     None \<Rightarrow> Some (False, s)
   | Some dup \<Rightarrow> stream_push s (CHUNK_ERROR kind dup))"

definition stream_push_error :: "allocator \<Rightarrow> stream \<Rightarrow> string \<Rightarrow> (bool \<times> stream) option" where
  "stream_push_error mem s msg = stream_push_error_kind mem s msg GEN_ERR_INTERNAL"

definition stream_finish_cancelled :: "stream \<Rightarrow> stream" where
  "stream_finish_cancelled s =
     (let s1 = (if s_len s < s_cap s
                then s\<lparr>s_buf := (s_buf s)[(s_read_pos s + s_len s) mod s_cap s :=
                                          CHUNK_DONE FINISH_CANCELLED],
                       s_len := s_len s + 1\<rparr>
                else s\<lparr>s_buf := (s_buf s)[(s_read_pos s + s_len s - 1) mod s_cap s :=
                                          CHUNK_DONE FINISH_CANCELLED]\<rparr>)
      in stream_notify (s1\<lparr>s_cancelled := True\<rparr>))"

subsection \<open>Invariant and contents\<close>

definition stream_inv :: "stream \<Rightarrow> bool" where
  "stream_inv s \<longleftrightarrow> length (s_buf s) = s_cap s \<and> 0 < s_cap s \<and> s_len s \<le> s_cap s \<and>
     s_read_pos s < s_cap s"

definition stream_abs :: "stream \<Rightarrow> chunk list" where
  "stream_abs s = map (\<lambda>i. s_buf s ! ((s_read_pos s + i) mod s_cap s)) [0..<s_len s]"

lemma length_stream_abs [simp]: "length (stream_abs s) = s_len s"
  by (simp add: stream_abs_def)

lemma stream_notify_simps [simp]:
  "stream_inv (stream_notify s) = stream_inv s" "stream_abs (stream_notify s) = stream_abs s"
  "s_cancelled (stream_notify s) = s_cancelled s" "s_cap (stream_notify s) = s_cap s"
  "s_len (stream_notify s) = s_len s"
  by (simp_all add: stream_notify_def stream_inv_def stream_abs_def)

lemma stream_inv_cancel [simp]:
  "stream_inv (s\<lparr>s_cancelled := b\<rparr>) = stream_inv s" "stream_abs (s\<lparr>s_cancelled := b\<rparr>) = stream_abs s"
  by (simp_all add: stream_inv_def stream_abs_def)

text \<open>Distinct offsets of the buffer are distinct slots.\<close>

lemma ring_slot_neq:
  fixes r i j n :: nat
  assumes "i < j" "j < n"
  shows "(r + i) mod n \<noteq> (r + j) mod n"
proof
  assume "(r + i) mod n = (r + j) mod n"
  then have "(j - i) mod n = 0"
    using assms mod_eq_dvd_iff_nat [of "r + i" "r + j" n] by simp
  with assms show False
    by simp
qed

lemma stream_write_end:
  fixes c :: chunk
  assumes "stream_inv s" "s_len s < s_cap s"
  defines "s' \<equiv> s\<lparr>s_buf := (s_buf s)[(s_read_pos s + s_len s) mod s_cap s := c], s_len := s_len s + 1\<rparr>"
  shows "stream_inv s'" "stream_abs s' = stream_abs s @ [c]"
proof -
  show "stream_inv s'"
    using assms by (simp add: stream_inv_def)
  let ?n = "s_cap s" and ?r = "s_read_pos s"
  have "(s_buf s)[(?r + s_len s) mod ?n := c] ! ((?r + i) mod ?n) = s_buf s ! ((?r + i) mod ?n)"
    if "i < s_len s" for i
    using ring_slot_neq [OF that assms(2)] nth_list_update_neq by metis
  moreover have "(s_buf s)[(?r + s_len s) mod ?n := c] ! ((?r + s_len s) mod ?n) = c"
    using assms(1) by (simp add: stream_inv_def)
  ultimately show "stream_abs s' = stream_abs s @ [c]"
    by (simp add: stream_abs_def s'_def)
qed

lemma stream_write_last:
  fixes c :: chunk
  assumes "stream_inv s" "s_len s = Suc k"
  defines "s' \<equiv> s\<lparr>s_buf := (s_buf s)[(s_read_pos s + s_len s - 1) mod s_cap s := c]\<rparr>"
  shows "stream_inv s'" "stream_abs s' = butlast (stream_abs s) @ [c]"
proof -
  show "stream_inv s'"
    using assms by (simp add: stream_inv_def)
  let ?n = "s_cap s" and ?r = "s_read_pos s"
  have k: "k < ?n"
    using assms by (simp add: stream_inv_def)
  have "(s_buf s)[(?r + k) mod ?n := c] ! ((?r + i) mod ?n) = s_buf s ! ((?r + i) mod ?n)"
    if "i < k" for i
    using ring_slot_neq [OF that k] nth_list_update_neq by metis
  moreover have "(s_buf s)[(?r + k) mod ?n := c] ! ((?r + k) mod ?n) = c"
    using assms(1) by (simp add: stream_inv_def)
  ultimately show "stream_abs s' = butlast (stream_abs s) @ [c]"
    using assms(2) by (simp add: stream_abs_def s'_def)
qed

lemma stream_read_front:
  assumes "stream_inv s" "s_len s \<noteq> 0"
  defines "s' \<equiv> s\<lparr>s_read_pos := (s_read_pos s + 1) mod s_cap s, s_len := s_len s - 1\<rparr>"
  shows "stream_inv s'" "stream_abs s = s_buf s ! s_read_pos s # stream_abs s'"
proof -
  show "stream_inv s'"
    using assms by (auto simp: stream_inv_def s'_def)
  obtain k where k: "s_len s = Suc k"
    using assms(2) by (cases "s_len s") auto
  have "stream_abs s = s_buf s ! (s_read_pos s mod s_cap s) #
      map (\<lambda>i. s_buf s ! ((s_read_pos s + Suc i) mod s_cap s)) [0..<k]"
    by (simp add: stream_abs_def k filter_index_Suc del: upt_Suc)
  also have "s_read_pos s mod s_cap s = s_read_pos s"
    using assms(1) by (simp add: stream_inv_def)
  finally show "stream_abs s = s_buf s ! s_read_pos s # stream_abs s'"
    by (simp add: stream_abs_def s'_def k mod_simps)
qed

lemma stream_create_abs:
  assumes "stream_create mem a b n = Some s"
  shows "stream_inv s" "stream_abs s = []" "s_cap s = nat n" "\<not> s_cancelled s" "s_refcount s = 1"
  using assms by (auto simp: stream_create_def stream_inv_def stream_abs_def split: if_splits)

lemma stream_push_cases:
  assumes "stream_inv s"
  shows "s_cancelled s \<Longrightarrow> stream_push s c = Some (False, s)"
    and "\<not> s_cancelled s \<Longrightarrow> s_len s = s_cap s \<Longrightarrow> stream_push s c = None"
    and "\<not> s_cancelled s \<Longrightarrow> s_len s < s_cap s \<Longrightarrow> \<exists>s'. stream_push s c = Some (True, s') \<and>
      stream_inv s' \<and> stream_abs s' = stream_abs s @ [c] \<and> s_cap s' = s_cap s \<and> \<not> s_cancelled s'"
  using assms stream_write_end [OF assms, of c] by (simp_all add: stream_push_def Let_def)

lemma stream_next_cases:
  assumes "stream_inv s"
  shows "stream_abs s = c # cs \<Longrightarrow> \<exists>s'. stream_next s t = Some (Some c, s') \<and> stream_inv s' \<and>
      stream_abs s' = cs \<and> s_cap s' = s_cap s \<and> s_cancelled s' = s_cancelled s"
    and "stream_abs s = [] \<Longrightarrow> s_cancelled s \<or> 0 \<le> t \<Longrightarrow> stream_next s t = Some (None, s)"
    and "stream_abs s = [] \<Longrightarrow> \<not> s_cancelled s \<Longrightarrow> t < 0 \<Longrightarrow> stream_next s t = None"
proof -
  have len: "s_len s = length (stream_abs s)"
    by simp
  show "\<exists>s'. stream_next s t = Some (Some c, s') \<and> stream_inv s' \<and> stream_abs s' = cs \<and>
      s_cap s' = s_cap s \<and> s_cancelled s' = s_cancelled s" if "stream_abs s = c # cs"
  proof -
    have "s_len s \<noteq> 0"
      using that len by (simp del: length_stream_abs)
    with stream_read_front [OF assms this] that show ?thesis
      by (simp add: stream_next_def)
  qed
  show "stream_abs s = [] \<Longrightarrow> s_cancelled s \<or> 0 \<le> t \<Longrightarrow> stream_next s t = Some (None, s)"
    using len by (auto simp: stream_next_def simp del: length_stream_abs)
  show "stream_abs s = [] \<Longrightarrow> \<not> s_cancelled s \<Longrightarrow> t < 0 \<Longrightarrow> stream_next s t = None"
    using len by (simp add: stream_next_def del: length_stream_abs)
qed

lemma stream_finish_cancelled_abs:
  assumes "stream_inv s"
  shows "stream_inv (stream_finish_cancelled s)" "s_cancelled (stream_finish_cancelled s)"
    "s_cap (stream_finish_cancelled s) = s_cap s"
    "stream_abs (stream_finish_cancelled s) =
       (if s_len s < s_cap s then stream_abs s else butlast (stream_abs s)) @ [CHUNK_DONE FINISH_CANCELLED]"
proof -
  have "s_len s = s_cap s \<Longrightarrow> \<exists>k. s_len s = Suc k"
    using assms gr0_implies_Suc [of "s_cap s"] by (simp add: stream_inv_def)
  moreover have "s_len s \<le> s_cap s"
    using assms by (simp add: stream_inv_def)
  ultimately show "stream_inv (stream_finish_cancelled s)"
    "stream_abs (stream_finish_cancelled s) =
       (if s_len s < s_cap s then stream_abs s else butlast (stream_abs s)) @ [CHUNK_DONE FINISH_CANCELLED]"
    using stream_write_end [OF assms, of "CHUNK_DONE FINISH_CANCELLED"]
      stream_write_last [OF assms, of _ "CHUNK_DONE FINISH_CANCELLED"]
    by (auto simp: stream_finish_cancelled_def Let_def)
qed (simp_all add: stream_finish_cancelled_def Let_def)

subsection \<open>The queue contract\<close>

text \<open>What the engine and the HTTP side rely on: a bounded first-in first-out queue whose \<open>push\<close>
  waits when it is full, and which refuses every push once it is closed.\<close>

locale bounded_queue =
  fixes inv :: "'s \<Rightarrow> bool"
    and items :: "'s \<Rightarrow> 'c list"
    and cap :: "'s \<Rightarrow> nat"
    and closed :: "'s \<Rightarrow> bool"
    and push :: "'s \<Rightarrow> 'c \<Rightarrow> (bool \<times> 's) option"
    and pop :: "'s \<Rightarrow> ('c option \<times> 's) option"
    and close :: "'s \<Rightarrow> 's"
  assumes bounded: "inv s \<Longrightarrow> length (items s) \<le> cap s"
    and push_closed: "inv s \<Longrightarrow> closed s \<Longrightarrow> push s c = Some (False, s)"
    and push_full: "inv s \<Longrightarrow> \<not> closed s \<Longrightarrow> length (items s) = cap s \<Longrightarrow> push s c = None"
    and push_room: "inv s \<Longrightarrow> \<not> closed s \<Longrightarrow> length (items s) < cap s \<Longrightarrow>
      \<exists>s'. push s c = Some (True, s') \<and> inv s' \<and> items s' = items s @ [c] \<and> cap s' = cap s \<and>
        \<not> closed s'"
    and pop_item: "inv s \<Longrightarrow> items s = c # cs \<Longrightarrow>
      \<exists>s'. pop s = Some (Some c, s') \<and> inv s' \<and> items s' = cs \<and> cap s' = cap s \<and> closed s' = closed s"
    and pop_empty: "inv s \<Longrightarrow> items s = [] \<Longrightarrow> pop s = (if closed s then Some (None, s) else None)"
    and close: "inv s \<Longrightarrow> inv (close s) \<and> items (close s) = items s \<and> cap (close s) = cap s \<and>
      closed (close s)"

datatype 'c queue_op = Push 'c | Pop | Close

text \<open>A run of operations, each taken only when it does not wait, with the items accepted and the
  items delivered.\<close>

inductive queue_run ::
  "('s \<Rightarrow> 'c \<Rightarrow> (bool \<times> 's) option) \<Rightarrow> ('s \<Rightarrow> ('c option \<times> 's) option) \<Rightarrow> ('s \<Rightarrow> 's) \<Rightarrow>
   's \<Rightarrow> 'c queue_op list \<Rightarrow> 'c list \<Rightarrow> 'c list \<Rightarrow> 's \<Rightarrow> bool"
  for push pop close s0 where
  start: "queue_run push pop close s0 [] [] [] s0"
| accepted: "queue_run push pop close s0 ops ins outs s \<Longrightarrow> push s c = Some (True, s') \<Longrightarrow>
    queue_run push pop close s0 (ops @ [Push c]) (ins @ [c]) outs s'"
| refused: "queue_run push pop close s0 ops ins outs s \<Longrightarrow> push s c = Some (False, s') \<Longrightarrow>
    queue_run push pop close s0 (ops @ [Push c]) ins outs s'"
| delivered: "queue_run push pop close s0 ops ins outs s \<Longrightarrow> pop s = Some (Some c, s') \<Longrightarrow>
    queue_run push pop close s0 (ops @ [Pop]) ins (outs @ [c]) s'"
| nothing: "queue_run push pop close s0 ops ins outs s \<Longrightarrow> pop s = Some (None, s') \<Longrightarrow>
    queue_run push pop close s0 (ops @ [Pop]) ins outs s'"
| closing: "queue_run push pop close s0 ops ins outs s \<Longrightarrow>
    queue_run push pop close s0 (ops @ [Close]) ins outs (close s)"

context bounded_queue
begin

lemma push_result:
  assumes "inv s" "push s c = Some (b, s')"
  shows "inv s' \<and> items s' = (if b then items s @ [c] else items s) \<and> cap s' = cap s \<and>
    closed s' = closed s \<and> (b \<longleftrightarrow> \<not> closed s)"
proof (cases "closed s")
  case True
  then show ?thesis
    using push_closed [OF assms(1)] assms by simp
next
  case False
  then have "length (items s) \<noteq> cap s"
    using push_full [OF assms(1)] assms(2) by force
  with bounded [OF assms(1)] push_room [OF assms(1) False, of c] assms(2) False show ?thesis
    by auto
qed

lemma pop_result:
  assumes "inv s" "pop s = Some (r, s')"
  shows "inv s' \<and> cap s' = cap s \<and> closed s' = closed s \<and>
    items s = (case r of None \<Rightarrow> [] | Some c \<Rightarrow> [c]) @ items s' \<and> (r = None \<longrightarrow> s' = s)"
proof (cases "items s")
  case Nil
  then show ?thesis
    using pop_empty [OF assms(1)] assms by (auto split: if_splits)
next
  case (Cons c cs)
  then show ?thesis
    using pop_item [OF assms(1)] assms(2) by fastforce
qed

text \<open>First in, first out: what was accepted is what was delivered followed by what is queued.\<close>

lemma run_fifo:
  assumes "queue_run push pop close s0 ops ins outs s" "inv s0"
  shows "inv s \<and> items s0 @ ins = outs @ items s \<and> length (items s) \<le> cap s0 \<and> cap s = cap s0"
proof -
  have "inv s \<and> items s0 @ ins = outs @ items s \<and> cap s = cap s0"
    using assms
  proof (induction rule: queue_run.induct)
    case (accepted ops ins outs s c s')
    then show ?case
      using push_result [of s c True s'] by simp
  next
    case (refused ops ins outs s c s')
    then show ?case
      using push_result [of s c False s'] by simp
  next
    case (delivered ops ins outs s c s')
    then show ?case
      using pop_result [of s "Some c" s'] by simp
  next
    case (nothing ops ins outs s s')
    then have "s' = s"
      using pop_result [of s None s'] by blast
    then show ?case
      using nothing.IH nothing.prems by simp
  next
    case (closing ops ins outs s)
    then show ?case
      using close [of s] by simp
  qed simp
  then show ?thesis
    using bounded [of s] by simp
qed

end

interpretation sq: bounded_queue stream_inv stream_abs s_cap s_cancelled stream_push
  "\<lambda>s. stream_next s (-1)" stream_cancel
proof unfold_locales
  show "stream_inv s \<Longrightarrow> stream_abs s = c # cs \<Longrightarrow>
      \<exists>s'. stream_next s (-1) = Some (Some c, s') \<and> stream_inv s' \<and> stream_abs s' = cs \<and>
        s_cap s' = s_cap s \<and> s_cancelled s' = s_cancelled s" for s c cs
    by (rule stream_next_cases(1))
  show "stream_inv s \<Longrightarrow> length (stream_abs s) \<le> s_cap s" for s
    by (simp add: stream_inv_def)
qed (simp_all add: stream_push_cases stream_next_cases(2,3) stream_cancel_def)

subsection \<open>Properties\<close>

text \<open>C9. The ring buffer is a bounded first-in first-out queue: in every run of pushes, blocking
  reads and cancellations on a fresh stream, the chunks accepted are exactly the chunks delivered
  followed by the chunks still buffered, in order, and never more than the capacity is buffered.\<close>

theorem stream_fifo:
  assumes "stream_create mem a b n = Some s0"
    "queue_run stream_push (\<lambda>s. stream_next s (-1)) stream_cancel s0 ops ins outs s"
  shows "ins = outs @ stream_abs s \<and> s_len s \<le> nat n"
  using sq.run_fifo [OF assms(2) stream_create_abs(1) [OF assms(1)]] stream_create_abs [OF assms(1)]
  by simp

definition sample_stream :: stream where
  "sample_stream = the (stream_create (\<lambda>_. True) 128 24 2)"

definition sample_stream1 :: stream where
  "sample_stream1 = snd (the (stream_push sample_stream (CHUNK_TOKEN 7 (Fin 0))))"

definition sample_stream2 :: stream where
  "sample_stream2 = snd (the (stream_push sample_stream1 (CHUNK_DONE FINISH_STOP)))"

definition sample_stream3 :: stream where
  "sample_stream3 = snd (the (stream_next sample_stream2 (-1)))"

lemma sample_stream_steps:
  "stream_create (\<lambda>_. True) 128 24 2 = Some sample_stream"
  "stream_push sample_stream (CHUNK_TOKEN 7 (Fin 0)) = Some (True, sample_stream1)"
  "stream_push sample_stream1 (CHUNK_DONE FINISH_STOP) = Some (True, sample_stream2)"
  "stream_next sample_stream2 (-1) = Some (Some (CHUNK_TOKEN 7 (Fin 0)), sample_stream3)"
  by code_simp+

lemma sample_stream_run:
  "queue_run stream_push (\<lambda>s. stream_next s (-1)) stream_cancel sample_stream
     [Push (CHUNK_TOKEN 7 (Fin 0)), Push (CHUNK_DONE FINISH_STOP), Pop]
     [CHUNK_TOKEN 7 (Fin 0), CHUNK_DONE FINISH_STOP] [CHUNK_TOKEN 7 (Fin 0)] sample_stream3"
proof -
  let ?run = "queue_run stream_push (\<lambda>s. stream_next s (-1)) stream_cancel sample_stream"
  have "?run [] [] [] sample_stream"
    by (rule queue_run.start)
  then have "?run ([] @ [Push (CHUNK_TOKEN 7 (Fin 0))]) ([] @ [CHUNK_TOKEN 7 (Fin 0)]) [] sample_stream1"
    by (rule queue_run.accepted) (rule sample_stream_steps)
  then have "?run (([] @ [Push (CHUNK_TOKEN 7 (Fin 0))]) @ [Push (CHUNK_DONE FINISH_STOP)])
      (([] @ [CHUNK_TOKEN 7 (Fin 0)]) @ [CHUNK_DONE FINISH_STOP]) [] sample_stream2"
    by (rule queue_run.accepted) (rule sample_stream_steps)
  then have "?run ((([] @ [Push (CHUNK_TOKEN 7 (Fin 0))]) @ [Push (CHUNK_DONE FINISH_STOP)]) @ [Pop])
      (([] @ [CHUNK_TOKEN 7 (Fin 0)]) @ [CHUNK_DONE FINISH_STOP]) ([] @ [CHUNK_TOKEN 7 (Fin 0)])
      sample_stream3"
    by (rule queue_run.delivered) (rule sample_stream_steps)
  then show ?thesis
    by simp
qed

theorem stream_fifo_witness: "stream_abs sample_stream3 = [CHUNK_DONE FINISH_STOP]"
  using stream_fifo [OF sample_stream_steps(1) sample_stream_run] by simp

text \<open>Reading a stream until it reports the end, as a consumer does; \<open>None\<close> when a read would wait.\<close>

fun stream_drain :: "nat \<Rightarrow> stream \<Rightarrow> chunk list option" where
  "stream_drain 0 s = None"
| "stream_drain (Suc n) s = (case stream_next s (-1) of
     None \<Rightarrow> None
   | Some (None, s') \<Rightarrow> Some []
   | Some (Some c, s') \<Rightarrow> map_option (\<lambda>cs. c # cs) (stream_drain n s'))"

lemma stream_drain_closed:
  "stream_inv s \<Longrightarrow> s_cancelled s \<Longrightarrow> s_len s < n \<Longrightarrow> stream_drain n s = Some (stream_abs s)"
proof (induction n arbitrary: s)
  case (Suc n)
  show ?case
  proof (cases "stream_abs s")
    case Nil
    then show ?thesis
      using stream_next_cases(2) [OF Suc.prems(1) Nil, of "-1"] Suc.prems(2) by simp
  next
    case (Cons c cs)
    obtain s' where s': "stream_next s (-1) = Some (Some c, s')" "stream_inv s'" "stream_abs s' = cs"
      "s_cancelled s'"
      using stream_next_cases(1) [OF Suc.prems(1) Cons, of "-1"] Suc.prems(2) by auto
    have "s_len s' < n"
      using Suc.prems(3) Cons s'(3) by (metis Suc_less_eq length_Cons length_stream_abs)
    with s' Suc.IH [of s'] Cons show ?thesis
      by simp
  qed
qed simp

text \<open>C10. A cancelled generation still ends the stream: after \<open>stream_finish_cancelled\<close> a blocking
  reader never waits; it gets the buffered chunks (all of them, or all but the newest when the
  buffer was full), then the chunk DONE with reason cancelled, then the end of the stream, and no
  push is accepted any more.\<close>

theorem stream_finish_cancelled_terminates:
  assumes "stream_inv s"
  shows "stream_drain (s_cap s + 1) (stream_finish_cancelled s) =
      Some ((if s_len s < s_cap s then stream_abs s else butlast (stream_abs s)) @
            [CHUNK_DONE FINISH_CANCELLED]) \<and>
    stream_push (stream_finish_cancelled s) c = Some (False, stream_finish_cancelled s)"
proof -
  note fin = stream_finish_cancelled_abs [OF assms]
  have "s_len (stream_finish_cancelled s) < s_cap s + 1"
    using fin(1,3) by (simp add: stream_inv_def)
  then show ?thesis
    using stream_drain_closed [OF fin(1,2)] fin(4) stream_push_cases(1) [OF fin(1,2)]
    by (simp del: stream_drain.simps)
qed

theorem stream_finish_cancelled_terminates_witness:
  "stream_drain 3 (stream_finish_cancelled sample_stream2)
     = Some [CHUNK_TOKEN 7 (Fin 0), CHUNK_DONE FINISH_CANCELLED]"
proof -
  have "stream_inv sample_stream2" "s_cap sample_stream2 = 2" "s_len sample_stream2 = 2"
    "stream_abs sample_stream2 = [CHUNK_TOKEN 7 (Fin 0), CHUNK_DONE FINISH_STOP]"
    by (simp add: stream_inv_def, code_simp, code_simp+)
  then show ?thesis
    using stream_finish_cancelled_terminates [of sample_stream2] by simp
qed

end
