(* ===== verification/Generate.thy ===== *)
theory Generate
  imports StreamChan Sampler
begin

text \<open>
  The generate handlers of \<open>src/engine/engine.c\<close>: the stub echo path and the real path (chunked
  prefill, seed, pipelined decode). They run on the engine thread while a consumer reads and may
  cancel the same stream and while another thread may set the shutdown flag. The world says what
  the others do: \<open>w_env w t\<close> is the list of consumer operations that happen before the engine's
  access number \<open>t\<close>, and \<open>w_shutdown w t\<close> is the flag's value at that access. A channel is the
  stream with the chunks the consumer has read so far. A push that still waits after the
  consumer's operations waits for good; the handler's result is then \<open>None\<close>.

  Device arrays and the model's forward pass (\<open>mlx\<close>, \<open>src/engine/forward.c\<close>) are the record of
  operations \<open>mlx_ops\<close>; each may fail. The hooks of the real path are test instrumentation: they
  only let time pass between the two polls of a site.
\<close>

subsection \<open>Channel and world\<close>

record chan =
  ch_stream :: stream
  ch_out :: "chunk list"

datatype consumer_op = C_next | C_cancel

definition consumer_step :: "consumer_op \<Rightarrow> chan \<Rightarrow> chan" where
  "consumer_step op c = (case op of
     C_next \<Rightarrow> (case stream_next (ch_stream c) 0 of
       Some (Some x, s') \<Rightarrow> c\<lparr>ch_stream := s', ch_out := ch_out c @ [x]\<rparr>
     | _ \<Rightarrow> c)
   | C_cancel \<Rightarrow> c\<lparr>ch_stream := stream_cancel (ch_stream c)\<rparr>)"

record world =
  w_env :: "nat \<Rightarrow> consumer_op list"
  w_shutdown :: "nat \<Rightarrow> bool"

type_synonym gstate = "nat \<times> chan" \<comment> \<open>accesses so far, channel\<close>

definition advance :: "world \<Rightarrow> gstate \<Rightarrow> chan" where
  "advance w st = fold consumer_step (w_env w (fst st)) (snd st)"

definition gen_push :: "world \<Rightarrow> chunk \<Rightarrow> gstate \<Rightarrow> (bool \<times> gstate) option" where
  "gen_push w x st =
     (let c = advance w st
      in case stream_push (ch_stream c) x of
           None \<Rightarrow> None
         | Some (b, s') \<Rightarrow> Some (b, (fst st + 1, c\<lparr>ch_stream := s'\<rparr>)))"

definition gen_finish :: "world \<Rightarrow> gstate \<Rightarrow> gstate" where
  "gen_finish w st =
     (let c = advance w st
      in (fst st + 1, c\<lparr>ch_stream := stream_finish_cancelled (ch_stream c)\<rparr>))"

text \<open>Reading the shutdown flag, and reading it together with the stream's cancellation flag.\<close>

definition poll_shutdown :: "world \<Rightarrow> gstate \<Rightarrow> bool \<times> gstate" where
  "poll_shutdown w st = (w_shutdown w (fst st), (fst st + 1, advance w st))"

definition poll_stop :: "world \<Rightarrow> gstate \<Rightarrow> bool \<times> gstate" where
  "poll_stop w st =
     (let c = advance w st
      in (w_shutdown w (fst st) \<or> s_cancelled (ch_stream c), (fst st + 1, c)))"

subsection \<open>Failing a generation\<close>

definition push_error_kind ::
  "allocator \<Rightarrow> world \<Rightarrow> string \<Rightarrow> gen_err_kind \<Rightarrow> gstate \<Rightarrow> (bool \<times> gstate) option" where
  "push_error_kind mem w msg kind st = (case c_strdup mem msg of
     None \<Rightarrow> Some (False, st)
   | Some dup \<Rightarrow> gen_push w (CHUNK_ERROR kind dup) st)"

definition generate_fail ::
  "allocator \<Rightarrow> world \<Rightarrow> string \<Rightarrow> gen_err_kind \<Rightarrow> gstate \<Rightarrow> gstate option" where
  "generate_fail mem w msg kind st = (case push_error_kind mem w msg kind st of
     None \<Rightarrow> None
   | Some (ok1, st1) \<Rightarrow>
     (case (if ok1 then gen_push w (CHUNK_DONE FINISH_STOP) st1 else Some (False, st1)) of
        None \<Rightarrow> None
      | Some (ok, st2) \<Rightarrow>
          if \<not> ok then
            (let (sd, st3) = poll_shutdown w st2
             in Some (if sd then gen_finish w st3 else st3))
          else Some st2))"

definition push_done :: "world \<Rightarrow> finish_reason \<Rightarrow> gstate \<Rightarrow> gstate option" where
  "push_done w r st = (case gen_push w (CHUNK_DONE r) st of
     None \<Rightarrow> None
   | Some (ok, st') \<Rightarrow> Some (if ok then st' else gen_finish w st'))"

subsection \<open>The stub path\<close>

record generate_cmd =
  g_params :: gen_params
  g_token_ids :: "int list"

definition stub_logprob :: "bool \<Rightarrow> nat \<Rightarrow> cfloat" where
  "stub_logprob want_lp i =
     (if want_lp then (case f32_round (of_nat (i + 1)) of
                         Fin x \<Rightarrow> f32_round (- (1 / 4) * x) | v \<Rightarrow> NInf)
      else Fin 0)"

text \<open>The result is the state and whether the loop was aborted.\<close>

fun stub_loop :: "world \<Rightarrow> bool \<Rightarrow> nat \<Rightarrow> int list \<Rightarrow> gstate \<Rightarrow> (bool \<times> gstate) option" where
  "stub_loop w want_lp i [] st = Some (False, st)"
| "stub_loop w want_lp i (tok # toks) st =
     (let (sd, st1) = poll_shutdown w st
      in if sd then Some (True, gen_finish w st1)
         else case gen_push w (CHUNK_TOKEN tok (stub_logprob want_lp i)) st1 of
           None \<Rightarrow> None
         | Some (ok, st2) \<Rightarrow>
             if \<not> ok then Some (True, gen_finish w st2)
             else stub_loop w want_lp (i + 1) toks st2)"

definition handle_generate_stub :: "world \<Rightarrow> generate_cmd \<Rightarrow> gstate \<Rightarrow> gstate option" where
  "handle_generate_stub w cmd st =
     (let cnt = int (length (g_token_ids cmd));
          mx = gp_max_tokens (g_params cmd);
          limit = (if cnt < mx then cnt else mx);
          truncated = limit < cnt
      in case stub_loop w (gp_logprobs (g_params cmd)) 0 (take (nat limit) (g_token_ids cmd)) st of
           None \<Rightarrow> None
         | Some (aborted, st1) \<Rightarrow>
             if \<not> aborted
             then push_done w (if truncated then FINISH_LENGTH else FINISH_STOP) st1
             else Some st1)"

subsection \<open>The real path\<close>

record ('kv, 'ids, 'lg, 'rng, 'sub, 'tok, 'lp) mlx_ops =
  x_key_init :: "int \<Rightarrow> 'rng option"
  x_key_next :: "'rng \<Rightarrow> ('sub \<times> 'rng) option"
  x_kvcache_init :: "int \<Rightarrow> 'kv option"
  x_make_ids :: "int list \<Rightarrow> 'ids"
  x_forward :: "'ids \<Rightarrow> 'kv \<Rightarrow> bool \<Rightarrow> ('lg \<times> 'kv) option"
  x_sample :: "'lg \<Rightarrow> sampling_params \<Rightarrow> 'sub \<Rightarrow> bool \<Rightarrow> ('tok \<times> 'lp) option"
  x_reshape :: "'tok \<Rightarrow> 'ids option"
  x_async_eval :: "'tok \<Rightarrow> 'lg option \<Rightarrow> 'lp option \<Rightarrow> bool"
  x_item_int32 :: "'tok \<Rightarrow> int option"
  x_item_float32 :: "'lp \<Rightarrow> cfloat option"

record model_cfg =
  cfg_gen :: gen_defaults
  cfg_max_position_embeddings :: int
  cfg_num_hidden_layers :: int
  cfg_eos_token_ids :: "u32 list"

definition MLXD_PREFILL_CHUNK :: nat where "MLXD_PREFILL_CHUNK = 512"

definition token_is_eos :: "model_cfg \<Rightarrow> int \<Rightarrow> bool" where
  "token_is_eos cfg tok = list_ex (\<lambda>e. sint e = tok) (cfg_eos_token_ids cfg)"

text \<open>Both handlers end in one of these ways; \<open>G_next\<close> goes on to the next part of the function.\<close>

datatype 'a gen_flow = G_done gstate | G_next 'a gstate

definition gen_stop_cancelled :: "world \<Rightarrow> gstate \<Rightarrow> 'a gen_flow option" where
  "gen_stop_cancelled w st = Some (G_done (gen_finish w st))"

definition gen_stop_fail :: "allocator \<Rightarrow> world \<Rightarrow> string \<Rightarrow> gstate \<Rightarrow> 'a gen_flow option" where
  "gen_stop_fail mem w msg st = map_option G_done (generate_fail mem w msg GEN_ERR_INTERNAL st)"

text \<open>A poll site: poll, run the hook, poll again.\<close>

definition poll_site :: "world \<Rightarrow> gstate \<Rightarrow> bool \<times> gstate" where
  "poll_site w st =
     (let (stop1, st1) = poll_stop w st
      in if stop1 then (True, st1) else poll_stop w st1)"

function prefill_loop ::
  "allocator \<Rightarrow> world \<Rightarrow> ('kv, 'ids, 'lg, 'rng, 'sub, 'tok, 'lp) mlx_ops \<Rightarrow> int list \<Rightarrow> nat \<Rightarrow> nat
    \<Rightarrow> 'kv \<Rightarrow> gstate \<Rightarrow> 'kv gen_flow option" where
  "prefill_loop mem w x ids prefix_end pos kv st =
     (if \<not> pos < prefix_end then Some (G_next kv st)
      else let (stop, st1) = poll_site w st
      in if stop then gen_stop_cancelled w st1
      else let chunk_end = min (pos + MLXD_PREFILL_CHUNK) prefix_end
      in case x_forward x (x_make_ids x (take (chunk_end - pos) (drop pos ids))) kv False of
           None \<Rightarrow> gen_stop_fail mem w ''prefill forward failed'' st1
         | Some (_, kv') \<Rightarrow> prefill_loop mem w x ids prefix_end chunk_end kv' st1)"
  by pat_completeness auto
termination
  by (relation "measure (\<lambda>(mem, w, x, ids, prefix_end, pos, kv, st). prefix_end - pos)")
    (auto simp: MLXD_PREFILL_CHUNK_def)

declare prefill_loop.simps [simp del]

text \<open>One decode step after its poll site, up to the chunk it wants to send: the token, or
  \<open>None\<close> for the end of sequence; with the state for the next step when there is one.\<close>

definition decode_sample ::
  "allocator \<Rightarrow> world \<Rightarrow> ('kv, 'ids, 'lg, 'rng, 'sub, 'tok, 'lp) mlx_ops \<Rightarrow> sampling_params \<Rightarrow> bool
    \<Rightarrow> bool \<Rightarrow> 'kv \<Rightarrow> 'lg \<Rightarrow> 'rng \<Rightarrow> gstate
    \<Rightarrow> (int \<times> cfloat \<times> ('lg \<times> 'kv) option \<times> 'rng) gen_flow option" where
  "decode_sample mem w x sp want_lp go_on kv lg rng st =
     (case x_key_next x rng of
        None \<Rightarrow> gen_stop_fail mem w ''sampler key_next failed'' st
      | Some (sub, rng') \<Rightarrow>
     (case x_sample x lg sp sub want_lp of
        None \<Rightarrow> gen_stop_fail mem w ''sampler sample failed'' st
      | Some (tok, lp) \<Rightarrow>
     (case (if \<not> go_on then Inr None
            else case x_reshape x tok of
              None \<Rightarrow> Inl ''token reshape failed''
            | Some ids \<Rightarrow> (case x_forward x ids kv True of
                None \<Rightarrow> Inl ''decode forward failed''
              | Some nx \<Rightarrow> Inr (Some nx))) of
        Inl msg \<Rightarrow> gen_stop_fail mem w msg st
      | Inr nxt \<Rightarrow>
     (if \<not> x_async_eval x tok (map_option fst nxt) (if want_lp then Some lp else None)
      then gen_stop_fail mem w ''async_eval failed'' st
      else case x_item_int32 x tok of
        None \<Rightarrow> gen_stop_fail mem w ''token materialize failed'' st
      | Some tid \<Rightarrow>
     (case (if want_lp then x_item_float32 x lp else Some (Fin 0)) of
        None \<Rightarrow> gen_stop_fail mem w ''logprob materialize failed'' st
      | Some v \<Rightarrow> Some (G_next (tid, v, nxt, rng') st))))))"

function decode_loop ::
  "allocator \<Rightarrow> world \<Rightarrow> ('kv, 'ids, 'lg, 'rng, 'sub, 'tok, 'lp) mlx_ops \<Rightarrow> model_cfg
    \<Rightarrow> sampling_params \<Rightarrow> bool \<Rightarrow> nat \<Rightarrow> nat \<Rightarrow> 'kv \<Rightarrow> 'lg \<Rightarrow> 'rng \<Rightarrow> gstate \<Rightarrow> gstate option" where
  "decode_loop mem w x cfg sp want_lp max_new emitted kv lg rng st =
     (if \<not> emitted < max_new then Some st
      else let (stop, st1) = poll_site w st
      in if stop then Some (gen_finish w st1)
      else case decode_sample mem w x sp want_lp (emitted + 1 < max_new) kv lg rng st1 of
        None \<Rightarrow> None
      | Some (G_done st2) \<Rightarrow> Some st2
      | Some (G_next (tid, v, nxt, rng') st2) \<Rightarrow>
          if token_is_eos cfg tid then push_done w FINISH_STOP st2
          else case gen_push w (CHUNK_TOKEN tid v) st2 of
            None \<Rightarrow> None
          | Some (ok, st3) \<Rightarrow>
              if \<not> ok then Some (gen_finish w st3)
              else if emitted + 1 = max_new then push_done w FINISH_LENGTH st3
              else (case nxt of
                  None \<Rightarrow> Some st3
                | Some (lg', kv') \<Rightarrow>
                    decode_loop mem w x cfg sp want_lp max_new (emitted + 1) kv' lg' rng' st3))"
  by pat_completeness auto
termination
  by (relation "measure (\<lambda>(mem, w, x, cfg, sp, want_lp, max_new, emitted, kv, lg, rng, st).
      max_new - emitted)") auto

declare decode_loop.simps [simp del]

definition context_length_msg :: "int \<Rightarrow> int \<Rightarrow> string" where
  "context_length_msg n mx = ''prompt token count '' @ fmt_int n @
     '' exceeds max_position_embeddings '' @ fmt_int mx"

definition handle_generate_real ::
  "allocator \<Rightarrow> world \<Rightarrow> ('kv, 'ids, 'lg, 'rng, 'sub, 'tok, 'lp) mlx_ops \<Rightarrow> model_cfg
    \<Rightarrow> generate_cmd \<Rightarrow> gstate \<Rightarrow> gstate option" where
  "handle_generate_real mem w x cfg cmd st =
     (let ids = g_token_ids cmd; n = length ids;
          max_new = gp_max_tokens (g_params cmd);
          sp = sampling_resolve (gp_sampling (g_params cmd)) (gp_sampling_set (g_params cmd))
                 (Some (cfg_gen cfg));
          want_lp = gp_logprobs (g_params cmd)
      in case x_key_init x (sp_seed sp) of
        None \<Rightarrow> generate_fail mem w ''sampler key init failed'' GEN_ERR_INTERNAL st
      | Some rng \<Rightarrow>
      if int n > cfg_max_position_embeddings cfg then
        generate_fail mem w (context_length_msg (int n) (cfg_max_position_embeddings cfg))
          GEN_ERR_CONTEXT_LENGTH st
      else if n = 0 \<or> max_new \<le> 0 then push_done w FINISH_STOP st
      else (case x_kvcache_init x (cfg_num_hidden_layers cfg) of
        None \<Rightarrow> generate_fail mem w ''kvcache init failed'' GEN_ERR_INTERNAL st
      | Some kv0 \<Rightarrow>
      (case prefill_loop mem w x ids (n - 1) 0 kv0 st of
        None \<Rightarrow> None
      | Some (G_done st1) \<Rightarrow> Some st1
      | Some (G_next kv st1) \<Rightarrow>
        (let (stop, st2) = poll_site w st1
         in if stop then Some (gen_finish w st2)
         else case x_forward x (x_make_ids x [last ids]) kv True of
             None \<Rightarrow> generate_fail mem w ''seed forward failed'' GEN_ERR_INTERNAL st2
           | Some (lg, kv') \<Rightarrow>
               decode_loop mem w x cfg sp want_lp (nat max_new) 0 kv' lg rng st2))))"

subsection \<open>What the consumer sees\<close>

text \<open>All chunks of a channel: those read and those still buffered.\<close>

definition chan_all :: "chan \<Rightarrow> chunk list" where
  "chan_all c = ch_out c @ stream_abs (ch_stream c)"

definition chan_inv :: "chan \<Rightarrow> bool" where
  "chan_inv c = stream_inv (ch_stream c)"

lemma consumer_step_spec:
  assumes "chan_inv c"
  shows "chan_inv (consumer_step op c) \<and> chan_all (consumer_step op c) = chan_all c \<and>
    (s_cancelled (ch_stream c) \<longrightarrow> s_cancelled (ch_stream (consumer_step op c)))"
proof (cases op)
  case C_next
  show ?thesis
  proof (cases "stream_abs (ch_stream c)")
    case Nil
    then show ?thesis
      using assms C_next stream_next_cases(2) [of "ch_stream c" 0]
      by (simp add: chan_inv_def consumer_step_def)
  next
    case (Cons x xs)
    then show ?thesis
      using assms C_next stream_next_cases(1) [of "ch_stream c" x xs 0]
      by (auto simp: chan_inv_def consumer_step_def chan_all_def)
  qed
next
  case C_cancel
  then show ?thesis
    using assms by (simp add: chan_inv_def consumer_step_def chan_all_def stream_cancel_def)
qed

lemma fold_consumer_step:
  "chan_inv c \<Longrightarrow> chan_inv (fold consumer_step ops c) \<and> chan_all (fold consumer_step ops c) = chan_all c \<and>
    (s_cancelled (ch_stream c) \<longrightarrow> s_cancelled (ch_stream (fold consumer_step ops c)))"
  by (induction ops arbitrary: c) (simp, use consumer_step_spec in fastforce)

lemma advance_spec:
  assumes "chan_inv (snd st)"
  shows "chan_inv (advance w st)" "chan_all (advance w st) = chan_all (snd st)"
    "s_cancelled (ch_stream (snd st)) \<Longrightarrow> s_cancelled (ch_stream (advance w st))"
  using fold_consumer_step [OF assms] by (simp_all add: advance_def)

lemma gen_push_spec:
  assumes "chan_inv (snd st)" "gen_push w x st = Some (b, st')"
  shows "chan_inv (snd st') \<and> chan_all (snd st') = (if b then chan_all (snd st) @ [x] else chan_all (snd st)) \<and>
    (\<not> b \<longrightarrow> s_cancelled (ch_stream (snd st')))"
proof -
  note adv = advance_spec [OF assms(1), of w]
  obtain s' where s': "stream_push (ch_stream (advance w st)) x = Some (b, s')"
    "snd st' = (advance w st)\<lparr>ch_stream := s'\<rparr>"
    using assms(2) by (auto simp: gen_push_def Let_def split: option.splits)
  have "stream_inv (ch_stream (advance w st))"
    using adv(1) by (simp add: chan_inv_def)
  from sq.push_result [OF this s'(1)] show ?thesis
    using s'(2) adv(2) by (auto simp: chan_inv_def chan_all_def)
qed

lemma gen_finish_spec:
  assumes "chan_inv (snd st)"
  shows "chan_inv (snd (gen_finish w st)) \<and> s_cancelled (ch_stream (snd (gen_finish w st))) \<and>
    (chan_all (snd (gen_finish w st)) = chan_all (snd st) @ [CHUNK_DONE FINISH_CANCELLED] \<or>
     chan_all (snd (gen_finish w st)) = butlast (chan_all (snd st)) @ [CHUNK_DONE FINISH_CANCELLED])"
proof -
  note adv = advance_spec [OF assms(1), of w]
  let ?s = "ch_stream (advance w st)"
  have inv: "stream_inv ?s"
    using adv(1) by (simp add: chan_inv_def)
  have "s_len ?s < s_cap ?s \<or> stream_abs ?s \<noteq> []"
    using inv length_stream_abs [of ?s] by (fastforce simp: stream_inv_def simp del: length_stream_abs)
  then have "s_len ?s < s_cap ?s \<or>
      ch_out (advance w st) @ butlast (stream_abs ?s) = butlast (chan_all (snd st))"
    unfolding adv(2) [symmetric] by (auto simp: chan_all_def butlast_append)
  then show ?thesis
    using stream_finish_cancelled_abs [OF inv] adv(2)
    by (auto simp: gen_finish_def Let_def chan_inv_def chan_all_def)
qed

lemma poll_shutdown_spec:
  assumes "chan_inv (snd st)" "poll_shutdown w st = (b, st')"
  shows "chan_inv (snd st') \<and> chan_all (snd st') = chan_all (snd st) \<and>
    (s_cancelled (ch_stream (snd st)) \<longrightarrow> s_cancelled (ch_stream (snd st')))"
  using advance_spec [OF assms(1), of w] assms(2) by (auto simp: poll_shutdown_def)

lemma poll_stop_spec:
  assumes "chan_inv (snd st)" "poll_stop w st = (b, st')"
  shows "chan_inv (snd st') \<and> chan_all (snd st') = chan_all (snd st)"
  using advance_spec [OF assms(1), of w] assms(2) by (auto simp: poll_stop_def Let_def)

lemma poll_site_spec:
  assumes "chan_inv (snd st)" "poll_site w st = (b, st')"
  shows "chan_inv (snd st') \<and> chan_all (snd st') = chan_all (snd st)"
proof -
  obtain b1 st1 where p1: "poll_stop w st = (b1, st1)"
    by (cases "poll_stop w st")
  from poll_stop_spec [OF assms(1) p1] show ?thesis
    using assms(2) p1 poll_stop_spec [of st1 w] by (auto simp: poll_site_def split: if_splits)
qed

subsection \<open>The shape of a generation\<close>

definition is_token :: "chunk \<Rightarrow> bool" where
  "is_token c = (case c of CHUNK_TOKEN _ _ \<Rightarrow> True | _ \<Rightarrow> False)"

text \<open>What a finished generation sent: some tokens, then an end; the reader is told the end by a
  DONE chunk or by the stream being cancelled.\<close>

definition gen_end :: "chunk list \<Rightarrow> bool" where
  "gen_end e \<longleftrightarrow> e = [] \<or> (\<exists>r. e = [CHUNK_DONE r]) \<or> (\<exists>k m. e = [CHUNK_ERROR k m]) \<or>
     (\<exists>k m r. e = [CHUNK_ERROR k m, CHUNK_DONE r])"

definition gen_shape :: "chunk list \<Rightarrow> chunk list \<Rightarrow> bool" where
  "gen_shape pre all \<longleftrightarrow> (\<exists>pre' e. all = pre' @ e \<and> (pre' = pre \<or> pre' = butlast pre) \<and> gen_end e)"

definition ends_done :: "chunk list \<Rightarrow> bool" where
  "ends_done xs \<longleftrightarrow> (\<exists>ys r. xs = ys @ [CHUNK_DONE r])"

text \<open>\<open>lost\<close> says that an error message of the engine cannot be copied: then, and only then, the end may
  be missing, and nothing follows the tokens.\<close>

definition gen_ended :: "bool \<Rightarrow> chunk list \<Rightarrow> gstate \<Rightarrow> bool" where
  "gen_ended lost pre st \<longleftrightarrow> chan_inv (snd st) \<and> gen_shape pre (chan_all (snd st)) \<and>
     (ends_done (chan_all (snd st)) \<or> s_cancelled (ch_stream (snd st)) \<or>
      lost \<and> chan_all (snd st) = pre)"

lemma gen_shapeI:
  "gen_end e \<Longrightarrow> gen_shape pre (pre @ e)" "gen_end e \<Longrightarrow> gen_shape pre (butlast pre @ e)"
  unfolding gen_shape_def by blast+

lemma ends_done_snoc [simp]: "ends_done (xs @ [CHUNK_DONE r])"
  unfolding ends_done_def by blast

lemma gen_end_simps [simp]:
  "gen_end []" "gen_end [CHUNK_DONE r]" "gen_end [CHUNK_ERROR k m]"
  "gen_end [CHUNK_ERROR k m, CHUNK_DONE r]"
  by (simp_all add: gen_end_def)

lemma gen_finish_ended:
  assumes "chan_inv (snd st)" "chan_all (snd st) = pre"
  shows "gen_ended lost pre (gen_finish w st)"
  using gen_finish_spec [OF assms(1), of w] assms(2)
    gen_shapeI [of "[CHUNK_DONE FINISH_CANCELLED]" pre]
  by (auto simp: gen_ended_def)

lemma push_done_ended:
  assumes "chan_inv (snd st)" "chan_all (snd st) = pre" "push_done w r st = Some st'"
  shows "gen_ended lost pre st'"
proof -
  obtain ok st1 where p: "gen_push w (CHUNK_DONE r) st = Some (ok, st1)"
    "st' = (if ok then st1 else gen_finish w st1)"
    using assms(3) by (auto simp: push_done_def split: option.splits)
  from gen_push_spec [OF assms(1) p(1)] show ?thesis
    using p(2) assms(2) gen_finish_ended [of st1 pre _ w] gen_shapeI(1) [of "[CHUNK_DONE r]" pre]
    by (auto simp: gen_ended_def)
qed

text \<open>A failure is reported, or the generation cancelled, unless the copy of the message fails while
  the server is not shutting down.\<close>

lemma generate_fail_no_copy:
  assumes inv: "chan_inv (snd st)" "chan_all (snd st) = pre" and dup: "c_strdup mem msg = None"
    and res: "generate_fail mem w msg kind st = Some st'"
  shows "if w_shutdown w (fst st) then gen_ended False pre st'
    else chan_inv (snd st') \<and> chan_all (snd st') = pre \<and> snd st' = advance w st"
proof -
  obtain sd st3 where p3: "poll_shutdown w st = (sd, st3)"
    by (cases "poll_shutdown w st")
  have s3: "chan_inv (snd st3)" "chan_all (snd st3) = pre" "sd = w_shutdown w (fst st)"
    "snd st3 = advance w st"
    using poll_shutdown_spec [OF inv(1) p3] inv(2) p3 by (auto simp: poll_shutdown_def)
  have "st' = (if sd then gen_finish w st3 else st3)"
    using res p3 by (simp add: generate_fail_def push_error_kind_def dup)
  then show ?thesis
    using s3 gen_finish_ended [OF s3(1,2)] by simp
qed

lemma generate_fail_ended:
  assumes inv: "chan_inv (snd st)" "chan_all (snd st) = pre" and mem: "c_strdup mem msg = None \<Longrightarrow> lost"
    and res: "generate_fail mem w msg kind st = Some st'"
  shows "gen_ended lost pre st'"
proof (cases "c_strdup mem msg")
  case None
  have "gen_ended False pre st' \<Longrightarrow> gen_ended lost pre st'" "gen_shape pre pre"
    using gen_shapeI(1) [of "[]" pre] by (auto simp: gen_ended_def)
  then show ?thesis
    using generate_fail_no_copy [OF inv None res] mem [OF None] by (auto simp: gen_ended_def split: if_splits)
next
  case (Some str)
  then have dup: "c_strdup mem msg = Some (c_str msg)"
    by (auto simp: c_strdup_def split: if_splits)
  let ?err = "CHUNK_ERROR kind (c_str msg)"
  obtain ok1 st1 where p1: "gen_push w ?err st = Some (ok1, st1)"
    using res by (auto simp: generate_fail_def push_error_kind_def dup split: option.splits)
  note s1 = gen_push_spec [OF inv(1) p1]
  define r2 where "r2 = (if ok1 then gen_push w (CHUNK_DONE FINISH_STOP) st1 else Some (False, st1))"
  have res2: "(case r2 of None \<Rightarrow> None | Some (ok, st2) \<Rightarrow>
      if \<not> ok then (let (sd, st3) = poll_shutdown w st2 in Some (if sd then gen_finish w st3 else st3))
      else Some st2) = Some st'"
    using res by (simp add: generate_fail_def push_error_kind_def dup p1 r2_def)
  then obtain ok st2 where p2: "r2 = Some (ok, st2)"
    by (auto split: option.splits)
  have st': "st' = (if ok then st2 else let (sd, st3) = poll_shutdown w st2
      in if sd then gen_finish w st3 else st3)"
    using res2 p2 by (cases "poll_shutdown w st2") (auto simp: Let_def split: if_splits)
  have s2: "chan_inv (snd st2) \<and> (ok \<longrightarrow> chan_all (snd st2) = pre @ [?err, CHUNK_DONE FINISH_STOP]) \<and>
      (\<not> ok \<longrightarrow> s_cancelled (ch_stream (snd st2)) \<and>
        chan_all (snd st2) = pre @ (if ok1 then [?err] else []))"
    using s1 p2 inv(2) gen_push_spec [of st1 w "CHUNK_DONE FINISH_STOP" ok st2]
    by (cases ok1) (auto simp: r2_def)
  show ?thesis
  proof (cases ok)
    case True
    have "ends_done (pre @ [?err, CHUNK_DONE FINISH_STOP])"
      using ends_done_snoc [of "pre @ [?err]"] by simp
    with True s2 st' show ?thesis
      using gen_shapeI(1) [of "[?err, CHUNK_DONE FINISH_STOP]" pre] by (simp add: gen_ended_def)
  next
    case False
    obtain sd st3 where p3: "poll_shutdown w st2 = (sd, st3)"
      by (cases "poll_shutdown w st2")
    have s3: "chan_inv (snd st3)" "chan_all (snd st3) = pre @ (if ok1 then [?err] else [])"
      "s_cancelled (ch_stream (snd st3))"
      using poll_shutdown_spec [OF _ p3] s2 False by auto
    show ?thesis
    proof (cases sd)
      case True
      have "gen_shape pre (chan_all (snd (gen_finish w st3)))"
        using gen_finish_spec [OF s3(1), of w] s3(2) gen_shapeI [of _ pre]
        by (cases ok1) (auto simp: butlast_append)
      with True False show ?thesis
        using gen_finish_spec [OF s3(1), of w] st' p3 by (simp add: gen_ended_def)
    next
      case shut: False
      with False show ?thesis
        using s3 st' p3 gen_shapeI(1) [of "if ok1 then [?err] else []" pre]
        by (simp add: gen_ended_def split: if_splits)
    qed
  qed
qed

lemma gen_ended_Nil: "gen_ended lost pre st \<Longrightarrow> chan_inv (snd st)"
  by (simp add: gen_ended_def)

text \<open>Pushing one token extends what the consumer sees by it.\<close>

lemma gen_push_token:
  assumes "chan_inv (snd st)" "chan_all (snd st) = pre" "gen_push w x st = Some (ok, st')"
  shows "ok \<Longrightarrow> chan_inv (snd st') \<and> chan_all (snd st') = pre @ [x]"
    and "\<not> ok \<Longrightarrow> gen_ended lost pre (gen_finish w st')"
  using gen_push_spec [OF assms(1,3)] assms(2) gen_finish_ended [of st' pre _ w] by auto

subsection \<open>The stub path sends a prefix of the prompt\<close>

fun stub_tokens :: "bool \<Rightarrow> nat \<Rightarrow> int list \<Rightarrow> chunk list" where
  "stub_tokens lp i [] = []"
| "stub_tokens lp i (t # ts) = CHUNK_TOKEN t (stub_logprob lp i) # stub_tokens lp (i + 1) ts"

lemma length_stub_tokens [simp]: "length (stub_tokens lp i ts) = length ts"
  by (induction ts arbitrary: i) auto

lemma stub_tokens_snoc:
  "stub_tokens lp i (ts @ [t]) = stub_tokens lp i ts @ [CHUNK_TOKEN t (stub_logprob lp (i + length ts))]"
  by (induction ts arbitrary: i) auto

lemma stub_loop_spec:
  "chan_inv (snd st) \<Longrightarrow> chan_all (snd st) = stub_tokens lp 0 sent \<Longrightarrow> i = length sent \<Longrightarrow>
   stub_loop w lp i toks st = Some (aborted, st') \<Longrightarrow>
   (\<not> aborted \<longrightarrow> chan_inv (snd st') \<and> chan_all (snd st') = stub_tokens lp 0 (sent @ toks)) \<and>
   (aborted \<longrightarrow> (\<exists>k. gen_ended False (stub_tokens lp 0 (take k (sent @ toks))) st'))"
proof (induction toks arbitrary: i sent st)
  case Nil
  then show ?case
    by auto
next
  case (Cons tok toks)
  obtain sd st1 where p1: "poll_shutdown w st = (sd, st1)"
    by (cases "poll_shutdown w st")
  have s1: "chan_inv (snd st1)" "chan_all (snd st1) = stub_tokens lp 0 sent"
    using poll_shutdown_spec [OF Cons.prems(1) p1] Cons.prems(2) by auto
  have pre: "stub_tokens lp 0 sent = stub_tokens lp 0 (take (length sent) (sent @ tok # toks))"
    by simp
  show ?case
  proof (cases sd)
    case True
    then have "aborted" "st' = gen_finish w st1"
      using Cons.prems(4) p1 by auto
    with gen_finish_ended [OF s1, of _ w] pre show ?thesis
      by metis
  next
    case False
    obtain ok st2 where p2: "gen_push w (CHUNK_TOKEN tok (stub_logprob lp i)) st1 = Some (ok, st2)"
      using Cons.prems(4) p1 False by (auto split: option.splits)
    note tk = gen_push_token [OF s1 p2]
    show ?thesis
    proof (cases ok)
      case True
      have "stub_loop w lp (i + 1) toks st2 = Some (aborted, st')"
        using Cons.prems(4) p1 False p2 True by simp
      moreover have "chan_all (snd st2) = stub_tokens lp 0 (sent @ [tok])"
        using tk(1) True Cons.prems(3) by (simp add: stub_tokens_snoc)
      ultimately show ?thesis
        using Cons.IH [of st2 "sent @ [tok]" "i + 1"] tk(1) True Cons.prems(3) by simp
    next
      case refused: False
      then have "aborted" "st' = gen_finish w st2"
        using Cons.prems(4) p1 False p2 by auto
      with tk(2) [OF refused] pre show ?thesis
        by metis
    qed
  qed
qed

lemma handle_generate_stub_spec:
  assumes "chan_inv (snd st)" "chan_all (snd st) = []" "handle_generate_stub w cmd st = Some st'"
  shows "\<exists>k \<le> nat (min (int (length (g_token_ids cmd))) (gp_max_tokens (g_params cmd))).
    gen_ended False (stub_tokens (gp_logprobs (g_params cmd)) 0 (take k (g_token_ids cmd))) st'"
proof -
  let ?lp = "gp_logprobs (g_params cmd)" and ?ids = "g_token_ids cmd"
  let ?l = "nat (min (int (length ?ids)) (gp_max_tokens (g_params cmd)))"
  have lim: "nat (if int (length ?ids) < gp_max_tokens (g_params cmd) then int (length ?ids)
      else gp_max_tokens (g_params cmd)) = ?l"
    by simp
  obtain aborted st1 where p: "stub_loop w ?lp 0 (take ?l ?ids) st = Some (aborted, st1)"
    using assms(3) unfolding handle_generate_stub_def Let_def lim by (auto split: option.splits)
  have sp: "(\<not> aborted \<longrightarrow> chan_inv (snd st1) \<and> chan_all (snd st1) = stub_tokens ?lp 0 (take ?l ?ids)) \<and>
      (aborted \<longrightarrow> (\<exists>k. gen_ended False (stub_tokens ?lp 0 (take k (take ?l ?ids))) st1))"
    using stub_loop_spec [OF assms(1) _ _ p, of "[]"] assms(2) by simp
  show ?thesis
  proof (cases aborted)
    case True
    then have "st' = st1"
      using assms(3) p unfolding handle_generate_stub_def Let_def lim by simp
    moreover obtain k where "gen_ended False (stub_tokens ?lp 0 (take k (take ?l ?ids))) st1"
      using sp True by blast
    ultimately show ?thesis
      by (intro exI [of _ "min k ?l"]) (simp add: min.commute)
  next
    case False
    then obtain r where "push_done w r st1 = Some st'"
      using assms(3) p unfolding handle_generate_stub_def Let_def lim by (auto split: if_splits)
    then have "gen_ended False (stub_tokens ?lp 0 (take ?l ?ids)) st'"
      using push_done_ended sp False by blast
    then show ?thesis
      by blast
  qed
qed

subsection \<open>The real path sends tokens and then ends\<close>

text \<open>What the failing steps of the real path are reported with.\<close>

definition gen_fail_msgs :: "string set" where
  "gen_fail_msgs = {''sampler key init failed'', ''kvcache init failed'', ''prefill forward failed'',
     ''seed forward failed'', ''sampler key_next failed'', ''sampler sample failed'', ''token reshape failed'',
     ''decode forward failed'', ''async_eval failed'', ''token materialize failed'',
     ''logprob materialize failed''}"

lemma decode_msgs:
  "''sampler key_next failed'' \<in> gen_fail_msgs" "''sampler sample failed'' \<in> gen_fail_msgs"
  "''token reshape failed'' \<in> gen_fail_msgs" "''decode forward failed'' \<in> gen_fail_msgs"
  "''async_eval failed'' \<in> gen_fail_msgs" "''token materialize failed'' \<in> gen_fail_msgs"
  "''logprob materialize failed'' \<in> gen_fail_msgs"
  by (simp_all add: gen_fail_msgs_def)

definition flow_ok :: "bool \<Rightarrow> chunk list \<Rightarrow> 'a gen_flow \<Rightarrow> bool" where
  "flow_ok lost pre f = (case f of
     G_done st \<Rightarrow> gen_ended lost pre st
   | G_next _ st \<Rightarrow> chan_inv (snd st) \<and> chan_all (snd st) = pre)"

lemma gen_stop_ok:
  assumes "chan_inv (snd st)" "chan_all (snd st) = pre"
  shows "gen_stop_cancelled w st = Some f \<Longrightarrow> flow_ok lost pre f"
    and "(c_strdup mem msg = None \<Longrightarrow> lost) \<Longrightarrow> gen_stop_fail mem w msg st = Some f \<Longrightarrow> flow_ok lost pre f"
proof -
  show "gen_stop_cancelled w st = Some f \<Longrightarrow> flow_ok lost pre f"
    using gen_finish_ended [OF assms, of _ w] by (auto simp: gen_stop_cancelled_def flow_ok_def)
  assume mem: "c_strdup mem msg = None \<Longrightarrow> lost" and f: "gen_stop_fail mem w msg st = Some f"
  then obtain st' where "generate_fail mem w msg GEN_ERR_INTERNAL st = Some st'" "f = G_done st'"
    by (auto simp: gen_stop_fail_def)
  then show "flow_ok lost pre f"
    using generate_fail_ended [where mem = mem and msg = msg, OF assms mem] by (simp add: flow_ok_def)
qed

lemma prefill_loop_ok:
  "\<forall>msg\<in>gen_fail_msgs. c_strdup mem msg = None \<longrightarrow> lost \<Longrightarrow> chan_inv (snd st) \<Longrightarrow> chan_all (snd st) = pre \<Longrightarrow>
    prefill_loop mem w x ids pe pos kv st = Some f \<Longrightarrow> flow_ok lost pre f"
proof (induction mem w x ids pe pos kv st rule: prefill_loop.induct)
  case (1 mem w x ids pe pos kv st)
  note mem = 1(2) and prems = 1(3-5)
  show ?case
  proof (cases "pos < pe")
    case False
    then show ?thesis
      using prems by (subst (asm) prefill_loop.simps) (auto simp: flow_ok_def)
  next
    case True
    obtain stop st1 where p: "poll_site w st = (stop, st1)"
      by (cases "poll_site w st")
    have s1: "chan_inv (snd st1)" "chan_all (snd st1) = pre"
      using poll_site_spec [OF prems(1) p] prems(2) by auto
    show ?thesis
    proof (cases stop)
      case True
      then have "gen_stop_cancelled w st1 = Some f"
        using prems(3) \<open>pos < pe\<close> p by (subst (asm) prefill_loop.simps) simp
      then show ?thesis
        by (rule gen_stop_ok(1) [OF s1])
    next
      case False
      let ?ce = "min (pos + MLXD_PREFILL_CHUNK) pe"
      show ?thesis
      proof (cases "x_forward x (x_make_ids x (take (?ce - pos) (drop pos ids))) kv False")
        case None
        then have "gen_stop_fail mem w ''prefill forward failed'' st1 = Some f"
          using prems(3) True False p by (subst (asm) prefill_loop.simps) (simp add: Let_def)
        then show ?thesis
          by (rule gen_stop_ok(2) [OF s1, rotated]) (use mem in \<open>simp_all add: gen_fail_msgs_def\<close>)
      next
        case (Some r)
        obtain lg kv' where r: "r = (lg, kv')"
          by (cases r)
        then have "prefill_loop mem w x ids pe ?ce kv' st1 = Some f"
          using prems(3) True False p Some by (subst (asm) prefill_loop.simps) (simp add: Let_def)
        then show ?thesis
          using 1(1) [OF _ refl p [symmetric] _ refl _ _ mem s1] True False Some r by simp
      qed
    qed
  qed
qed

lemma decode_sample_ok:
  assumes mem: "\<forall>msg\<in>gen_fail_msgs. c_strdup mem msg = None \<longrightarrow> lost" and st: "chan_inv (snd st)" "chan_all (snd st) = pre"
    and res: "decode_sample mem w x sp want_lp go_on kv lg rng st = Some f"
  shows "flow_ok lost pre f" and "f = G_next (tid, v, nxt, rng') st' \<Longrightarrow> go_on = (nxt \<noteq> None)"
proof -
  have "(\<exists>msg\<in>gen_fail_msgs. gen_stop_fail mem w msg st = Some f) \<or>
      (\<exists>tid v nxt rng'. f = G_next (tid, v, nxt, rng') st \<and> go_on = (nxt \<noteq> None))"
    using res unfolding decode_sample_def
    by (auto split: option.splits sum.splits if_splits prod.splits) (metis decode_msgs)+
  then consider msg where "gen_stop_fail mem w msg st = Some f" "msg \<in> gen_fail_msgs"
    | tid' v' nxt' rng2 where "f = G_next (tid', v', nxt', rng2) st" "go_on = (nxt' \<noteq> None)"
    by blast
  then show "flow_ok lost pre f" "f = G_next (tid, v, nxt, rng') st' \<Longrightarrow> go_on = (nxt \<noteq> None)"
  proof (atomize (full), cases)
    case 1
    have "flow_ok lost pre f"
      by (rule gen_stop_ok(2) [OF st _ 1(1)]) (use mem 1(2) in blast)
    then show "flow_ok lost pre f \<and> (f = G_next (tid, v, nxt, rng') st' \<longrightarrow> go_on = (nxt \<noteq> None))"
      using 1 by (auto simp: gen_stop_fail_def)
  next
    case 2
    then show "flow_ok lost pre f \<and> (f = G_next (tid, v, nxt, rng') st' \<longrightarrow> go_on = (nxt \<noteq> None))"
      using st by (simp add: flow_ok_def)
  qed
qed

lemma decode_loop_ok:
  "\<forall>msg\<in>gen_fail_msgs. c_strdup mem msg = None \<longrightarrow> lost \<Longrightarrow> chan_inv (snd st) \<Longrightarrow> chan_all (snd st) = pre \<Longrightarrow> \<forall>c\<in>set pre. is_token c \<Longrightarrow>
    length pre = emitted \<Longrightarrow> emitted < max_new \<Longrightarrow>
    decode_loop mem w x cfg sp want_lp max_new emitted kv lg rng st = Some st' \<Longrightarrow>
    \<exists>toks. gen_ended lost toks st' \<and> (\<forall>c\<in>set toks. is_token c) \<and> length toks \<le> max_new"
proof (induction mem w x cfg sp want_lp max_new emitted kv lg rng st arbitrary: pre
    rule: decode_loop.induct)
  case (1 mem w x cfg sp want_lp max_new emitted kv lg rng st)
  note mem = 1(2) and prems = 1(3-7) and res = 1(8)
  have here: "gen_ended lost pre st' \<Longrightarrow> ?case"
    using prems by (intro exI [of _ pre]) simp
  obtain stop st1 where p: "poll_site w st = (stop, st1)"
    by (cases "poll_site w st")
  have s1: "chan_inv (snd st1)" "chan_all (snd st1) = pre"
    using poll_site_spec [OF prems(1) p] prems(2) by auto
  show ?case
  proof (cases stop)
    case True
    then have "st' = gen_finish w st1"
      using res p prems(5) by (subst (asm) decode_loop.simps) simp
    then show ?thesis
      using here gen_finish_ended [OF s1] by simp
  next
    case False
    let ?ds = "decode_sample mem w x sp want_lp (emitted + 1 < max_new) kv lg rng st1"
    obtain f where f: "?ds = Some f"
      using res p prems(5) False by (subst (asm) decode_loop.simps) (auto split: option.splits)
    note fok = decode_sample_ok [OF mem s1 f]
    show ?thesis
    proof (cases f)
      case (G_done st2)
      then have "st' = st2"
        using res p prems(5) False f by (subst (asm) decode_loop.simps) simp
      then show ?thesis
        using here fok(1) G_done by (simp add: flow_ok_def)
    next
      case (G_next r st2)
      obtain tid v nxt rng' where r: "r = (tid, v, nxt, rng')"
        by (cases r)
      have s2: "chan_inv (snd st2)" "chan_all (snd st2) = pre"
        using fok(1) G_next by (simp_all add: flow_ok_def)
      have body: "(if token_is_eos cfg tid then push_done w FINISH_STOP st2
          else case gen_push w (CHUNK_TOKEN tid v) st2 of
            None \<Rightarrow> None
          | Some (ok, st3) \<Rightarrow>
              if \<not> ok then Some (gen_finish w st3)
              else if emitted + 1 = max_new then push_done w FINISH_LENGTH st3
              else (case nxt of
                  None \<Rightarrow> Some st3
                | Some (lg', kv') \<Rightarrow>
                    decode_loop mem w x cfg sp want_lp max_new (emitted + 1) kv' lg' rng' st3)) = Some st'"
        using res p prems(5) False f G_next r by (subst (asm) decode_loop.simps) simp
      show ?thesis
      proof (cases "token_is_eos cfg tid")
        case True
        then show ?thesis
          using here push_done_ended [OF s2] body by simp
      next
        case noteos: False
        obtain ok st3 where p3: "gen_push w (CHUNK_TOKEN tid v) st2 = Some (ok, st3)"
          using body noteos by (auto split: option.splits)
        note tk = gen_push_token [OF s2 p3]
        show ?thesis
        proof (cases ok)
          case refused: False
          then show ?thesis
            using here tk(2) body noteos p3 by simp
        next
          case pushed: True
          let ?pre = "pre @ [CHUNK_TOKEN tid v]"
          have s3: "chan_inv (snd st3)" "chan_all (snd st3) = ?pre"
            using tk(1) [OF pushed] by auto
          have toks: "\<forall>c\<in>set ?pre. is_token c" "length ?pre = emitted + 1"
            using prems by (auto simp: is_token_def)
          show ?thesis
          proof (cases "emitted + 1 = max_new")
            case True
            then have "gen_ended lost ?pre st'"
              using push_done_ended [OF s3] body noteos p3 pushed by simp
            then show ?thesis
              using toks True by (intro exI [of _ ?pre]) simp
          next
            case notlast: False
            then have lt: "emitted + 1 < max_new"
              using prems(5) by simp
            then obtain lg' kv' where nxt: "nxt = Some (lg', kv')"
              using fok(2) [of tid v nxt rng' st2] G_next r by auto
            have "decode_loop mem w x cfg sp want_lp max_new (emitted + 1) kv' lg' rng' st3 = Some st'"
              using body noteos p3 pushed notlast nxt by simp
            with 1(1) [OF _ refl p [symmetric] False f G_next r [unfolded nxt, symmetric] refl refl noteos p3 refl _ notlast refl refl mem s3 toks lt]
            show ?thesis
              using prems(5) pushed by simp
          qed
        qed
      qed
    qed
  qed
qed

lemma handle_generate_real_spec:
  assumes mem: "\<forall>msg\<in>gen_fail_msgs. c_strdup mem msg = None \<longrightarrow> lost"
      "c_strdup mem (context_length_msg (int (length (g_token_ids cmd))) (cfg_max_position_embeddings cfg)) = None
        \<Longrightarrow> lost"
    and st: "chan_inv (snd st)" "chan_all (snd st) = []"
    and res: "handle_generate_real mem w x cfg cmd st = Some st'"
  shows "\<exists>toks. gen_ended lost toks st' \<and> (\<forall>c\<in>set toks. is_token c) \<and>
    length toks \<le> nat (gp_max_tokens (g_params cmd))"
proof -
  let ?n = "length (g_token_ids cmd)" and ?mx = "gp_max_tokens (g_params cmd)"
  let ?sp = "sampling_resolve (gp_sampling (g_params cmd)) (gp_sampling_set (g_params cmd))
    (Some (cfg_gen cfg))"
  have nil: "gen_ended lost [] st' \<Longrightarrow> ?thesis"
    by (intro exI [of _ "[]"]) simp
  have msgs: "''sampler key init failed'' \<in> gen_fail_msgs" "''kvcache init failed'' \<in> gen_fail_msgs"
    "''seed forward failed'' \<in> gen_fail_msgs"
    by (simp_all add: gen_fail_msgs_def)
  have fail: "(c_strdup mem msg = None \<Longrightarrow> lost) \<Longrightarrow> generate_fail mem w msg kind st2 = Some st' \<Longrightarrow>
      chan_inv (snd st2) \<Longrightarrow> chan_all (snd st2) = [] \<Longrightarrow> ?thesis" for msg kind st2
    by (rule nil, rule generate_fail_ended [where mem = mem and msg = msg]) auto
  show ?thesis
  proof (cases "x_key_init x (sp_seed ?sp)")
    case None
    then have "generate_fail mem w ''sampler key init failed'' GEN_ERR_INTERNAL st = Some st'"
      using res by (simp add: handle_generate_real_def Let_def)
    then show ?thesis
      using fail [OF mem(1) [THEN bspec, OF msgs(1), THEN mp]] st by blast
  next
    case (Some rng)
    note res1 = res [unfolded handle_generate_real_def Let_def Some option.case]
    consider "int ?n > cfg_max_position_embeddings cfg"
      | "\<not> int ?n > cfg_max_position_embeddings cfg" "?n = 0 \<or> ?mx \<le> 0"
      | "\<not> int ?n > cfg_max_position_embeddings cfg" "\<not> (?n = 0 \<or> ?mx \<le> 0)"
      by blast
    then show ?thesis
    proof cases
      case 1
      with res1 have "generate_fail mem w (context_length_msg (int ?n) (cfg_max_position_embeddings cfg))
          GEN_ERR_CONTEXT_LENGTH st = Some st'"
        by simp
      then show ?thesis
        using fail [OF mem(2)] st by blast
    next
      case 2
      then have "push_done w FINISH_STOP st = Some st'"
        using res1 by simp
      then show ?thesis
        using nil push_done_ended [OF st] by blast
    next
      case 3
      note res2 = res1 [simplified 3 if_False if_True]
      show ?thesis
      proof (cases "x_kvcache_init x (cfg_num_hidden_layers cfg)")
        case None
        with res2 have "generate_fail mem w ''kvcache init failed'' GEN_ERR_INTERNAL st = Some st'"
          by simp
        then show ?thesis
          using fail [OF mem(1) [THEN bspec, OF msgs(2), THEN mp]] st by blast
      next
        case (Some kv0)
        then obtain f where f: "prefill_loop mem w x (g_token_ids cmd) (?n - 1) 0 kv0 st = Some f"
          using res2 by (auto split: option.splits)
        have fok: "flow_ok lost [] f"
          by (rule prefill_loop_ok [OF mem(1) st f])
        show ?thesis
        proof (cases f)
          case (G_done st1)
          then show ?thesis
            using res2 Some f fok nil by (simp add: flow_ok_def)
        next
          case (G_next kv st1)
          obtain stop st2 where p: "poll_site w st1 = (stop, st2)"
            by (cases "poll_site w st1")
          have s2: "chan_inv (snd st2)" "chan_all (snd st2) = []"
            using fok G_next poll_site_spec [OF _ p] by (simp_all add: flow_ok_def)
          show ?thesis
          proof (cases stop)
            case True
            then have "st' = gen_finish w st2"
              using res2 Some f G_next p by simp
            then show ?thesis
              using nil gen_finish_ended [OF s2] by simp
          next
            case False
            show ?thesis
            proof (cases "x_forward x (x_make_ids x [last (g_token_ids cmd)]) kv True")
              case None
              with res2 Some f G_next p False
              have "generate_fail mem w ''seed forward failed'' GEN_ERR_INTERNAL st2 = Some st'"
                by simp
              then show ?thesis
                using fail [OF mem(1) [THEN bspec, OF msgs(3), THEN mp]] s2 by blast
            next
              case seed: (Some r)
              obtain lg kv' where r: "r = (lg, kv')"
                by (cases r)
              have "decode_loop mem w x cfg ?sp (gp_logprobs (g_params cmd)) (nat ?mx) 0 kv' lg rng st2
                  = Some st'"
                using res2 Some f G_next p False seed r by simp
              from decode_loop_ok [OF mem(1) s2 _ _ _ this] show ?thesis
                using 3(2) by simp
            qed
          qed
        qed
      qed
    qed
  qed
qed

subsection \<open>The handlers return while the consumer is alive\<close>

definition consumer_live :: "world \<Rightarrow> bool" where
  "consumer_live w \<longleftrightarrow> (\<forall>t. w_env w t \<noteq> [])"

definition has_room :: "chan \<Rightarrow> bool" where
  "has_room c \<longleftrightarrow> s_len (ch_stream c) < s_cap (ch_stream c) \<or> s_cancelled (ch_stream c)"

lemma consumer_step_room: "chan_inv c \<Longrightarrow> has_room (consumer_step op c)"
  by (auto simp: chan_inv_def has_room_def consumer_step_def stream_next_def stream_cancel_def
      stream_inv_def split: consumer_op.splits option.splits if_splits)

lemma fold_consumer_room:
  "chan_inv c \<Longrightarrow> has_room c \<or> ops \<noteq> [] \<Longrightarrow> has_room (fold consumer_step ops c)"
  by (induction ops arbitrary: c) (auto simp: consumer_step_room consumer_step_spec)

lemma gen_push_returns:
  assumes "consumer_live w" "chan_inv (snd st)"
  shows "\<exists>b st'. gen_push w x st = Some (b, st')"
proof -
  have "has_room (advance w st)" "chan_inv (advance w st)"
    using assms fold_consumer_room advance_spec by (auto simp: advance_def consumer_live_def)
  then show ?thesis
    using stream_push_cases [of "ch_stream (advance w st)" x]
    by (cases "s_cancelled (ch_stream (advance w st))")
      (auto simp: gen_push_def Let_def has_room_def chan_inv_def)
qed

lemma gen_finish_inv: "chan_inv (snd st) \<Longrightarrow> chan_inv (snd (gen_finish w st))"
  using gen_finish_spec by blast

lemma gen_finish_pair: "chan_inv (snd st) \<Longrightarrow> \<exists>a b. gen_finish w st = (a, b) \<and> chan_inv b"
  by (metis gen_finish_inv prod.collapse)

lemma push_done_returns:
  "consumer_live w \<Longrightarrow> chan_inv (snd st) \<Longrightarrow> \<exists>st'. push_done w r st = Some st'"
  using gen_push_returns [of w st "CHUNK_DONE r"] by (auto simp: push_done_def)

lemma generate_fail_returns:
  assumes "consumer_live w" "chan_inv (snd st)"
  shows "\<exists>st'. generate_fail mem w msg kind st = Some st'"
proof -
  have "\<exists>ok1 st1. push_error_kind mem w msg kind st = Some (ok1, st1) \<and> chan_inv (snd st1)"
  proof (cases "c_strdup mem msg")
    case None
    then show ?thesis
      using assms(2) by (intro exI [of _ False] exI [of _ st]) (simp add: push_error_kind_def)
  next
    case (Some dup)
    obtain ok1 st1 where "gen_push w (CHUNK_ERROR kind dup) st = Some (ok1, st1)"
      using gen_push_returns [OF assms] by blast
    with gen_push_spec [OF assms(2) this] Some show ?thesis
      by (intro exI [of _ ok1] exI [of _ st1]) (simp add: push_error_kind_def)
  qed
  then obtain ok1 st1 where p: "push_error_kind mem w msg kind st = Some (ok1, st1)" "chan_inv (snd st1)"
    by blast
  with gen_push_returns [OF assms(1) p(2), of "CHUNK_DONE FINISH_STOP"] show ?thesis
    by (cases ok1) (auto simp: generate_fail_def split: prod.splits)
qed

lemma stub_loop_returns:
  "consumer_live w \<Longrightarrow> chan_inv (snd st) \<Longrightarrow>
   \<exists>b st'. stub_loop w lp i toks st = Some (b, st') \<and> chan_inv (snd st')"
proof (induction toks arbitrary: i st)
  case Nil
  then show ?case
    by (intro exI [of _ False] exI [of _ st]) simp
next
  case (Cons tok toks)
  obtain sd st1 where p1: "poll_shutdown w st = (sd, st1)"
    by (cases "poll_shutdown w st")
  have s1: "chan_inv (snd st1)"
    using poll_shutdown_spec [OF Cons.prems(2) p1] by simp
  obtain ok st2 where p2: "gen_push w (CHUNK_TOKEN tok (stub_logprob lp i)) st1 = Some (ok, st2)"
    using gen_push_returns [OF Cons.prems(1) s1] by blast
  have "chan_inv (snd st2)"
    using gen_push_spec [OF s1 p2] by simp
  with Cons.IH [OF Cons.prems(1) this, of "i + 1"] p1 p2 s1 show ?case
    by (auto simp: gen_finish_pair)
qed

lemma prefill_loop_returns:
  "consumer_live w \<Longrightarrow> chan_inv (snd st) \<Longrightarrow>
   \<exists>f. prefill_loop mem w x ids pe pos kv st = Some f \<and> (\<forall>kv' st'. f = G_next kv' st' \<longrightarrow> chan_inv (snd st'))"
proof (induction mem w x ids pe pos kv st rule: prefill_loop.induct)
  case (1 mem w x ids pe pos kv st)
  obtain stop st1 where p: "poll_site w st = (stop, st1)"
    by (cases "poll_site w st")
  have s1: "chan_inv (snd st1)"
    using poll_site_spec [OF 1(3) p] by simp
  obtain stf where fl: "generate_fail mem w ''prefill forward failed'' GEN_ERR_INTERNAL st1 = Some stf"
    using generate_fail_returns [OF 1(2) s1] by blast
  let ?fw = "x_forward x (x_make_ids x (take (min (pos + MLXD_PREFILL_CHUNK) pe - pos) (drop pos ids)))
    kv False"
  show ?case
  proof (cases ?fw)
    case None
    then show ?thesis
      using p fl 1(3) by (subst prefill_loop.simps)
        (auto simp: Let_def gen_stop_cancelled_def gen_stop_fail_def)
  next
    case (Some r)
    obtain lg kv' where r: "r = (lg, kv')"
      by (cases r)
    have "\<exists>f. prefill_loop mem w x ids pe (min (pos + MLXD_PREFILL_CHUNK) pe) kv' st1 = Some f \<and>
        (\<forall>kv' st'. f = G_next kv' st' \<longrightarrow> chan_inv (snd st'))" if "pos < pe" "\<not> stop"
      using 1(1) [OF _ refl p [symmetric] _ refl Some r [symmetric] 1(2) s1] that by simp
    then show ?thesis
      using p Some r 1(3) by (subst prefill_loop.simps) (auto simp: Let_def gen_stop_cancelled_def)
  qed
qed

lemma decode_sample_returns:
  assumes "consumer_live w" "chan_inv (snd st)"
  shows "\<exists>f. decode_sample mem w x sp want_lp go_on kv lg rng st = Some f \<and>
    (\<forall>r st'. f = G_next r st' \<longrightarrow> chan_inv (snd st'))"
proof -
  have "(\<exists>msg. decode_sample mem w x sp want_lp go_on kv lg rng st = gen_stop_fail mem w msg st) \<or>
      (\<exists>r. decode_sample mem w x sp want_lp go_on kv lg rng st = Some (G_next r st))"
    unfolding decode_sample_def
    by (simp split: option.split sum.split prod.split) blast
  then consider msg where "decode_sample mem w x sp want_lp go_on kv lg rng st = gen_stop_fail mem w msg st"
    | r where "decode_sample mem w x sp want_lp go_on kv lg rng st = Some (G_next r st)"
    by blast
  then show ?thesis
  proof cases
    case 1
    obtain st' where "generate_fail mem w msg GEN_ERR_INTERNAL st = Some st'"
      using generate_fail_returns [OF assms] by blast
    with 1 show ?thesis
      by (simp add: gen_stop_fail_def)
  next
    case 2
    then show ?thesis
      using assms(2) by auto
  qed
qed

lemma decode_loop_returns:
  "consumer_live w \<Longrightarrow> chan_inv (snd st) \<Longrightarrow>
   \<exists>st'. decode_loop mem w x cfg sp want_lp max_new emitted kv lg rng st = Some st'"
proof (induction mem w x cfg sp want_lp max_new emitted kv lg rng st rule: decode_loop.induct)
  case (1 mem w x cfg sp want_lp max_new emitted kv lg rng st)
  obtain stop st1 where p: "poll_site w st = (stop, st1)"
    by (cases "poll_site w st")
  have s1: "chan_inv (snd st1)"
    using poll_site_spec [OF 1(3) p] by simp
  obtain f where f: "decode_sample mem w x sp want_lp (emitted + 1 < max_new) kv lg rng st1 = Some f"
    "\<forall>r st'. f = G_next r st' \<longrightarrow> chan_inv (snd st')"
    using decode_sample_returns [OF 1(2) s1, of mem x sp want_lp "emitted + 1 < max_new" kv lg rng]
    by blast
  show ?case
  proof (cases f)
    case (G_done st2)
    then show ?thesis
      using p f by (subst decode_loop.simps) simp
  next
    case (G_next r st2)
    obtain tid v nxt rng' where r: "r = (tid, v, nxt, rng')"
      by (cases r)
    have s2: "chan_inv (snd st2)"
      using f(2) G_next by blast
    obtain ok st3 where p3: "gen_push w (CHUNK_TOKEN tid v) st2 = Some (ok, st3)"
      using gen_push_returns [OF 1(2) s2] by blast
    have s3: "chan_inv (snd st3)"
      using gen_push_spec [OF s2 p3] by simp
    obtain stop' len' where pd: "push_done w FINISH_STOP st2 = Some stop'"
      "push_done w FINISH_LENGTH st3 = Some len'"
      using push_done_returns [OF 1(2) s2] push_done_returns [OF 1(2) s3] by blast
    have "\<exists>st'. decode_loop mem w x cfg sp want_lp max_new (emitted + 1) kv' lg' rng' st3 = Some st'"
      if "emitted < max_new" "\<not> stop" "\<not> token_is_eos cfg tid" "ok" "emitted + 1 \<noteq> max_new"
        "nxt = Some (lg', kv')" for lg' kv'
      using 1(1) [OF _ refl p [symmetric] that(2) f(1) G_next r [symmetric] refl refl that(3) p3 refl _
          that(5,6) refl 1(2) s3] that by simp
    then show ?thesis
      using p f(1) G_next r p3 pd by (subst decode_loop.simps) (auto split: option.split)
  qed
qed

lemma handle_generate_stub_returns:
  assumes "consumer_live w" "chan_inv (snd st)"
  shows "\<exists>st'. handle_generate_stub w cmd st = Some st'"
proof -
  let ?lim = "if int (length (g_token_ids cmd)) < gp_max_tokens (g_params cmd)
    then int (length (g_token_ids cmd)) else gp_max_tokens (g_params cmd)"
  obtain b st1 where "stub_loop w (gp_logprobs (g_params cmd)) 0 (take (nat ?lim) (g_token_ids cmd)) st
      = Some (b, st1)" "chan_inv (snd st1)"
    using stub_loop_returns [OF assms] by blast
  then show ?thesis
    using push_done_returns [OF assms(1)] unfolding handle_generate_stub_def Let_def by auto
qed

lemma handle_generate_real_returns:
  assumes "consumer_live w" "chan_inv (snd st)"
  shows "\<exists>st'. handle_generate_real mem w x cfg cmd st = Some st'"
proof -
  note fl = generate_fail_returns [OF assms(1)]
  have seed: "\<exists>st'. (let (stop, st2) = poll_site w st1
         in if stop then Some (gen_finish w st2)
         else case x_forward x ids kv True of
             None \<Rightarrow> generate_fail mem w ''seed forward failed'' GEN_ERR_INTERNAL st2
           | Some (lg, kv') \<Rightarrow> decode_loop mem w x cfg sp lp mx 0 kv' lg rng st2) = Some st'"
    if "chan_inv (snd st1)" for st1 ids kv sp lp mx rng
  proof -
    obtain stop st2 where p: "poll_site w st1 = (stop, st2)"
      by (cases "poll_site w st1")
    have s2: "chan_inv (snd st2)"
      using poll_site_spec [OF that p] by simp
    obtain stf where "generate_fail mem w ''seed forward failed'' GEN_ERR_INTERNAL st2 = Some stf"
      using fl [OF s2] by blast
    with p show ?thesis
      using decode_loop_returns [OF assms(1) s2, of mem x cfg sp lp mx 0 _ _ rng]
      by (simp split: option.split)
  qed
  have pre: "\<exists>st'. (case prefill_loop mem w x (g_token_ids cmd) (length (g_token_ids cmd) - 1) 0 kv0 st of
        None \<Rightarrow> None
      | Some (G_done st1) \<Rightarrow> Some st1
      | Some (G_next kv st1) \<Rightarrow>
        (let (stop, st2) = poll_site w st1
         in if stop then Some (gen_finish w st2)
         else case x_forward x (x_make_ids x [last (g_token_ids cmd)]) kv True of
             None \<Rightarrow> generate_fail mem w ''seed forward failed'' GEN_ERR_INTERNAL st2
           | Some (lg, kv') \<Rightarrow> decode_loop mem w x cfg sp lp mx 0 kv' lg rng st2)) = Some st'"
    for kv0 sp lp mx rng
  proof -
    obtain f where f: "prefill_loop mem w x (g_token_ids cmd) (length (g_token_ids cmd) - 1) 0 kv0 st
        = Some f" "\<forall>kv' st'. f = G_next kv' st' \<longrightarrow> chan_inv (snd st')"
      using prefill_loop_returns [OF assms, of mem x "g_token_ids cmd" "length (g_token_ids cmd) - 1" 0 kv0]
      by blast
    show ?thesis
    proof (cases f)
      case (G_next kv st1)
      then have "chan_inv (snd st1)"
        using f(2) by blast
      from seed [OF this, where ids = "x_make_ids x [last (g_token_ids cmd)]" and kv = kv
          and sp = sp and lp = lp and mx = mx and rng = rng] show ?thesis
        using f(1) G_next by simp
    qed (use f in simp)
  qed
  show ?thesis
    using fl [OF assms(2)] push_done_returns [OF assms] pre
    unfolding handle_generate_real_def Let_def by (simp split: option.split)
qed

subsection \<open>Properties\<close>

definition gen_start :: "stream \<Rightarrow> gstate" where
  "gen_start s = (0, \<lparr>ch_stream = s, ch_out = []\<rparr>)"

lemma gen_start_fresh:
  assumes "stream_create mem a b n = Some s"
  shows "chan_inv (snd (gen_start s))" "chan_all (snd (gen_start s)) = []"
  using stream_create_abs [OF assms] by (simp_all add: gen_start_def chan_inv_def chan_all_def)

lemma gen_ended_split:
  assumes "gen_ended lost pre st"
  obtains pre' e where "chan_all (snd st) = pre' @ e" "pre' = pre \<or> pre' = butlast pre" "gen_end e"
    "ends_done (chan_all (snd st)) \<or> s_cancelled (ch_stream (snd st)) \<or> lost \<and> e = []"
proof (cases "lost \<and> chan_all (snd st) = pre")
  case True
  then show ?thesis
    using that [of pre "[]"] by simp
next
  case False
  then show ?thesis
    using assms that by (auto simp: gen_ended_def gen_shape_def)
qed

text \<open>The messages a real generation can report.\<close>

definition gen_msgs :: "model_cfg \<Rightarrow> generate_cmd \<Rightarrow> string set" where
  "gen_msgs cfg cmd = insert
     (context_length_msg (int (length (g_token_ids cmd))) (cfg_max_position_embeddings cfg)) gen_fail_msgs"

text \<open>C7. A generation on a real model sends at most \<open>max_tokens\<close> tokens and then ends: for every
  allocator, whatever the device operations return, whatever the consumer reads and whenever it
  cancels or the server shuts down, the chunks on the stream are tokens only, followed by at most one
  error and at most one DONE; and either the last chunk is DONE, or the stream is cancelled, or (the
  only case in which the reader is not told the end) one of the engine's own error messages could not
  be copied, and then nothing at all follows the tokens. Whenever those few messages can be copied, the
  reader is told the end.\<close>

theorem generate_real_shape:
  assumes "stream_create mem0 a b n = Some s"
    "handle_generate_real mem w x cfg cmd (gen_start s) = Some st'"
  shows "\<exists>toks e. chan_all (snd st') = toks @ e \<and> (\<forall>c\<in>set toks. is_token c) \<and>
      length toks \<le> nat (gp_max_tokens (g_params cmd)) \<and> gen_end e \<and>
      (ends_done (chan_all (snd st')) \<or> s_cancelled (ch_stream (snd st')) \<or>
       e = [] \<and> (\<exists>msg\<in>gen_msgs cfg cmd. c_strdup mem msg = None))"
proof -
  let ?lost = "\<exists>msg\<in>gen_msgs cfg cmd. c_strdup mem msg = None"
  have "\<forall>msg\<in>gen_fail_msgs. c_strdup mem msg = None \<longrightarrow> ?lost"
    by (auto simp: gen_msgs_def)
  then obtain toks where t: "gen_ended ?lost toks st'" "\<forall>c\<in>set toks. is_token c"
    "length toks \<le> nat (gp_max_tokens (g_params cmd))"
    using handle_generate_real_spec [of mem ?lost, OF _ _ gen_start_fresh [OF assms(1)] assms(2)]
    by (auto simp: gen_msgs_def)
  obtain pre' e where pe: "chan_all (snd st') = pre' @ e" "pre' = toks \<or> pre' = butlast toks" "gen_end e"
    "ends_done (chan_all (snd st')) \<or> s_cancelled (ch_stream (snd st')) \<or> ?lost \<and> e = []"
    by (rule gen_ended_split [OF t(1)])
  have "(\<forall>c\<in>set pre'. is_token c) \<and> length pre' \<le> nat (gp_max_tokens (g_params cmd))"
    using pe(2) t(2,3) by (auto dest: in_set_butlastD)
  with pe show ?thesis
    by blast
qed

text \<open>The case exists: when the message of a failure cannot be copied and the server is not shutting
  down, neither an error nor DONE is sent and the stream stays open.\<close>

theorem generate_fail_unreported:
  assumes "stream_create mem0 a b n = Some s" "c_strdup mem msg = None" "\<not> w_shutdown w 0"
    "w_env w 0 = []" "generate_fail mem w msg kind (gen_start s) = Some st'"
  shows "chan_all (snd st') = [] \<and> ch_stream (snd st') = s"
  using generate_fail_no_copy [OF gen_start_fresh [OF assms(1)] assms(2,5)] assms(3,4)
  by (auto simp: gen_start_def advance_def)

text \<open>The stub model echoes: the tokens on the stream are a prefix of the prompt, in order and
  with the stub's log probabilities, no longer than \<open>max_tokens\<close>, then the end; and either the last
  chunk is DONE or the stream is cancelled.\<close>

theorem generate_stub_echoes:
  assumes "stream_create mem a b n = Some s"
    "handle_generate_stub w cmd (gen_start s) = Some st'"
  shows "\<exists>k e. int k \<le> max 0 (gp_max_tokens (g_params cmd)) \<and>
      chan_all (snd st') =
        stub_tokens (gp_logprobs (g_params cmd)) 0 (take k (g_token_ids cmd)) @ e \<and>
      gen_end e \<and> (ends_done (chan_all (snd st')) \<or> s_cancelled (ch_stream (snd st')))"
proof -
  let ?lp = "gp_logprobs (g_params cmd)" and ?ids = "g_token_ids cmd"
  have butl: "butlast (stub_tokens ?lp 0 xs) = stub_tokens ?lp 0 (butlast xs)" for xs
    by (cases xs rule: rev_cases) (simp_all add: stub_tokens_snoc)
  obtain k where k: "k \<le> nat (min (int (length ?ids)) (gp_max_tokens (g_params cmd)))"
    "gen_ended False (stub_tokens ?lp 0 (take k ?ids)) st'"
    using handle_generate_stub_spec [OF gen_start_fresh [OF assms(1)] assms(2)] by blast
  obtain pre' e where pe: "chan_all (snd st') = pre' @ e"
    "pre' = stub_tokens ?lp 0 (take k ?ids) \<or> pre' = butlast (stub_tokens ?lp 0 (take k ?ids))"
    "gen_end e" "ends_done (chan_all (snd st')) \<or> s_cancelled (ch_stream (snd st'))"
    by (rule gen_ended_split [OF k(2)]) auto
  have kl: "k \<le> length ?ids" "int k \<le> max 0 (gp_max_tokens (g_params cmd))"
    using k(1) by linarith+
  have "\<exists>k'\<le>k. pre' = stub_tokens ?lp 0 (take k' ?ids)"
    using pe(2) kl(1) unfolding butl
    by (metis butlast_take diff_le_self order_refl)
  with pe kl(2) show ?thesis
    by (metis of_nat_mono order_trans)
qed

text \<open>C8. Generation terminates while its consumer is alive: if the consumer does anything (reads or
  cancels) before each access of the engine, both handlers return, for every prompt, model and
  outcome of the device operations.\<close>

theorem generate_returns:
  assumes "stream_create mem a b n = Some s" "consumer_live w"
  shows "(\<exists>st'. handle_generate_stub w cmd (gen_start s) = Some st') \<and>
    (\<exists>st'. handle_generate_real mem' w x cfg cmd (gen_start s) = Some st')"
  using handle_generate_stub_returns [OF assms(2) gen_start_fresh(1) [OF assms(1)]]
    handle_generate_real_returns [OF assms(2) gen_start_fresh(1) [OF assms(1)]] by blast

text \<open>A model for the witnesses: the next token is the last one plus one; 4 ends a sequence.\<close>

definition count_ops :: "(unit, int, int, unit, unit, int, unit) mlx_ops" where
  "count_ops = \<lparr>x_key_init = (\<lambda>_. Some ()), x_key_next = (\<lambda>_. Some ((), ())),
     x_kvcache_init = (\<lambda>_. Some ()), x_make_ids = last,
     x_forward = (\<lambda>ids kv _. Some (ids + 1, kv)), x_sample = (\<lambda>lg _ _ _. Some (lg, ())),
     x_reshape = Some, x_async_eval = (\<lambda>_ _ _. True), x_item_int32 = Some,
     x_item_float32 = (\<lambda>_. Some (Fin 0))\<rparr>"

definition count_cfg :: model_cfg where
  "count_cfg = \<lparr>cfg_gen = \<lparr>has_gen_temperature = False, gen_temperature = Fin 0,
       has_gen_top_p = False, gen_top_p = Fin 0, has_gen_top_k = False, gen_top_k = 0\<rparr>,
     cfg_max_position_embeddings = 100, cfg_num_hidden_layers = 1, cfg_eos_token_ids = [4]\<rparr>"

definition count_cmd :: generate_cmd where
  "count_cmd = \<lparr>g_params = gen_params_init\<lparr>gp_max_tokens := 5\<rparr>, g_token_ids = [9, 8, 1]\<rparr>"

definition reading_world :: world where
  "reading_world = \<lparr>w_env = (\<lambda>_. [C_next]), w_shutdown = (\<lambda>_. False)\<rparr>"

definition count_result :: gstate where
  "count_result = the (handle_generate_real (\<lambda>_. True) reading_world count_ops count_cfg count_cmd
     (gen_start sample_stream))"

lemma reading_world_live: "consumer_live reading_world"
  by (simp add: consumer_live_def reading_world_def)

theorem generate_returns_witness:
  "\<exists>st'. handle_generate_real (\<lambda>_. True) reading_world count_ops count_cfg count_cmd
     (gen_start sample_stream) = Some st'"
  using generate_returns [OF sample_stream_steps(1) reading_world_live] by blast

lemma count_result_step:
  "handle_generate_real (\<lambda>_. True) reading_world count_ops count_cfg count_cmd
     (gen_start sample_stream) = Some count_result"
  "chan_all (snd count_result) =
     [CHUNK_TOKEN 2 (Fin 0), CHUNK_TOKEN 3 (Fin 0), CHUNK_DONE FINISH_STOP]"
  by code_simp+

theorem generate_real_shape_witness:
  "(\<exists>toks e. chan_all (snd count_result) = toks @ e \<and> length toks \<le> 5 \<and> gen_end e) \<and>
   ends_done (chan_all (snd count_result)) \<and> length (chan_all (snd count_result)) = 3"
proof -
  have "nat (gp_max_tokens (g_params count_cmd)) = 5" "\<not> s_cancelled (ch_stream (snd count_result))"
    "length (chan_all (snd count_result)) = 3"
    by code_simp+
  then show ?thesis
    using generate_real_shape [OF sample_stream_steps(1) count_result_step(1)] by (auto simp: c_strdup_def)
qed

definition echo_result :: gstate where
  "echo_result = the (handle_generate_stub reading_world count_cmd (gen_start sample_stream))"

lemma echo_result_step:
  "handle_generate_stub reading_world count_cmd (gen_start sample_stream) = Some echo_result"
  by code_simp

theorem generate_stub_echoes_witness:
  "(\<exists>k e. int k \<le> 5 \<and> chan_all (snd echo_result) = stub_tokens False 0 (take k [9, 8, 1]) @ e \<and> gen_end e) \<and>
   chan_all (snd echo_result) = stub_tokens False 0 [9, 8, 1] @ [CHUNK_DONE FINISH_STOP]"
proof -
  have "max 0 (gp_max_tokens (g_params count_cmd)) = 5" "gp_logprobs (g_params count_cmd) = False"
    "g_token_ids count_cmd = [9, 8, 1]"
    "chan_all (snd echo_result) = stub_tokens False 0 [9, 8, 1] @ [CHUNK_DONE FINISH_STOP]"
    by code_simp+
  then show ?thesis
    using generate_stub_echoes [OF sample_stream_steps(1) echo_result_step] by metis
qed

end
