(* ===== verification/Engine.thy ===== *)
theory Engine
  imports Generate
begin

text \<open>
  The engine of \<open>src/engine/engine.c\<close>: the command mailbox (a linked list of heap nodes with head
  and tail pointers), the load state, the command handlers and the engine thread's loop. Commands
  and streams are heap objects named by addresses; a freed object is \<open>None\<close>. Every function runs
  under the lock it takes in the source, so it is one step of the model.
\<close>

subsection \<open>State\<close>

datatype engine_cmd =
  CMD_GENERATE generate_cmd nat \<comment> \<open>the request and its stream\<close>
| CMD_EMBED
| CMD_LOAD "string option"
| CMD_UNLOAD
| CMD_RECLAIM nat
| CMD_STOP

record cmd_node =
  cn_cmd :: engine_cmd
  cn_next :: "nat option"

datatype load_state = LOAD_IDLE | LOAD_IN_PROGRESS | LOAD_OK | LOAD_FAILED

record 'm engine =
  en_heap :: "nat \<Rightarrow> cmd_node option"
  en_head :: "nat option"
  en_tail :: "nat option"
  en_shutdown :: bool
  en_load_state :: load_state
  en_load_error :: string
  en_stub :: bool
  en_model :: "'m option"
  en_loaded_model :: "string option"
  en_inflight :: "nat option"
  en_streams :: "nat \<Rightarrow> stream option"

definition MLXD_STUB_MODEL_PATH :: string where "MLXD_STUB_MODEL_PATH = ''stub''"

definition engine_init :: "(nat \<Rightarrow> stream option) \<Rightarrow> 'm engine" where
  "engine_init streams = \<lparr>en_heap = (\<lambda>_. None), en_head = None, en_tail = None, en_shutdown = False,
     en_load_state = LOAD_IDLE, en_load_error = '''', en_stub = False, en_model = None,
     en_loaded_model = None, en_inflight = None, en_streams = streams\<rparr>"

subsection \<open>Mailbox\<close>

definition mailbox_enqueue_locked :: "'m engine \<Rightarrow> nat \<Rightarrow> engine_cmd \<Rightarrow> 'm engine" where
  "mailbox_enqueue_locked eng a cmd =
     (let h = (en_heap eng)(a \<mapsto> \<lparr>cn_cmd = cmd, cn_next = None\<rparr>)
      in case en_tail eng of
           Some t \<Rightarrow> eng\<lparr>en_heap := h(t \<mapsto> (the (h t))\<lparr>cn_next := Some a\<rparr>), en_tail := Some a\<rparr>
         | None \<Rightarrow> eng\<lparr>en_heap := h, en_head := Some a, en_tail := Some a\<rparr>)"

text \<open>\<open>None\<close>: the call waits. The returned node stays in the heap until its handler frees it.\<close>

definition mailbox_dequeue :: "'m engine \<Rightarrow> (nat option \<times> 'm engine) option" where
  "mailbox_dequeue eng =
     (if en_head eng = None \<and> \<not> en_shutdown eng then None
      else case en_head eng of
        None \<Rightarrow> Some (None, eng)
      | Some a \<Rightarrow>
          (let nx = cn_next (the (en_heap eng a));
               eng1 = eng\<lparr>en_head := nx\<rparr>;
               eng2 = (if nx = None then eng1\<lparr>en_tail := None\<rparr> else eng1)
           in Some (Some a, eng2\<lparr>en_heap := (en_heap eng2)
                (a \<mapsto> (the (en_heap eng2 a))\<lparr>cn_next := None\<rparr>)\<rparr>)))"

definition free_cmd :: "'m engine \<Rightarrow> nat \<Rightarrow> 'm engine" where
  "free_cmd eng a = eng\<lparr>en_heap := (en_heap eng)(a := None)\<rparr>"

definition release_stream :: "'m engine \<Rightarrow> nat \<Rightarrow> 'm engine" where
  "release_stream eng sid =
     eng\<lparr>en_streams := (en_streams eng)(sid := stream_release (en_streams eng sid))\<rparr>"

definition finish_stream :: "'m engine \<Rightarrow> nat \<Rightarrow> 'm engine" where
  "finish_stream eng sid = eng\<lparr>en_streams := (en_streams eng)
     (sid := map_option stream_finish_cancelled (en_streams eng sid))\<rparr>"

text \<open>Cancelling a command that is not in the heap yet (a rejected post) or is (a drained one).\<close>

definition cmd_cancel :: "'m engine \<Rightarrow> engine_cmd \<Rightarrow> 'm engine" where
  "cmd_cancel eng cmd = (case cmd of
     CMD_GENERATE g sid \<Rightarrow> release_stream (finish_stream eng sid) sid
   | CMD_RECLAIM sid \<Rightarrow> release_stream eng sid
   | _ \<Rightarrow> eng)"

text \<open>The walk over the detached list; the fuel bounds the number of nodes.\<close>

fun drain_list :: "nat \<Rightarrow> 'm engine \<Rightarrow> nat option \<Rightarrow> 'm engine option" where
  "drain_list n eng None = Some eng"
| "drain_list 0 eng (Some a) = None"
| "drain_list (Suc n) eng (Some a) =
     (let nd = the (en_heap eng a)
      in drain_list n (free_cmd (cmd_cancel eng (cn_cmd nd)) a) (cn_next nd))"

definition mailbox_drain_cancel :: "nat \<Rightarrow> 'm engine \<Rightarrow> 'm engine option" where
  "mailbox_drain_cancel n eng =
     drain_list n (eng\<lparr>en_head := None, en_tail := None\<rparr>) (en_head eng)"

definition engine_post :: "'m engine \<Rightarrow> nat \<Rightarrow> engine_cmd \<Rightarrow> 'm engine" where
  "engine_post eng a cmd =
     (if en_shutdown eng then cmd_cancel eng cmd else mailbox_enqueue_locked eng a cmd)"

subsection \<open>Load state\<close>

definition engine_load_state :: "'m engine \<Rightarrow> load_state" where
  "engine_load_state eng = en_load_state eng"

text \<open>The size of the caller's buffer is \<open>n\<close>; \<open>None\<close> is the result \<open>-1\<close>.\<close>

definition engine_load_error :: "'m engine \<Rightarrow> nat \<Rightarrow> string option" where
  "engine_load_error eng n =
     (if n = 0 then None
      else if length (en_load_error eng) + 1 > n then None
      else Some (en_load_error eng))"

definition set_load_state :: "'m engine \<Rightarrow> load_state \<Rightarrow> 'm engine" where
  "set_load_state eng st = eng\<lparr>en_load_state := st\<rparr>"

definition clear_load_error :: "'m engine \<Rightarrow> 'm engine" where
  "clear_load_error eng = eng\<lparr>en_load_error := ''''\<rparr>"

text \<open>\<open>snprintf\<close> into the 256 bytes of \<open>load_error\<close>.\<close>

definition set_load_error :: "'m engine \<Rightarrow> string option \<Rightarrow> 'm engine" where
  "set_load_error eng msg = (case msg of
     Some s \<Rightarrow> eng\<lparr>en_load_error := take 255 (c_str s)\<rparr>
   | None \<Rightarrow> eng\<lparr>en_load_error := ''''\<rparr>)"

definition free_resident_model :: "'m engine \<Rightarrow> 'm engine" where
  "free_resident_model eng = eng\<lparr>en_stub := False, en_model := None\<rparr>"

definition engine_post_load :: "allocator \<Rightarrow> nat \<Rightarrow> 'm engine \<Rightarrow> nat \<Rightarrow> string option \<Rightarrow> bool \<times> 'm engine" where
  "engine_post_load mem sizeof_cmd eng a path =
     (if \<not> mem sizeof_cmd then (False, eng)
      else if en_shutdown eng then (False, cmd_cancel eng (CMD_LOAD path))
      else (True, mailbox_enqueue_locked
             (set_load_state (clear_load_error eng) LOAD_IN_PROGRESS) a (CMD_LOAD path)))"

text \<open>\<open>load\<close> is \<open>engine_model_load\<close>: the model, or the text it left in the error buffer.\<close>

definition handle_load :: "(string \<Rightarrow> string + 'm) \<Rightarrow> 'm engine \<Rightarrow> nat \<Rightarrow> string option \<Rightarrow> 'm engine" where
  "handle_load load eng a path =
     (let eng1 = clear_load_error (set_load_state (free_cmd eng a) LOAD_IN_PROGRESS)
      in if path \<noteq> None \<and> c_str (the path) = MLXD_STUB_MODEL_PATH then
           set_load_state ((free_resident_model eng1)\<lparr>en_loaded_model := path, en_stub := True\<rparr>) LOAD_OK
         else let eng2 = free_resident_model eng1
         in case (case path of None \<Rightarrow> Inl '''' | Some p \<Rightarrow> load p) of
              Inl err \<Rightarrow>
                (let err0 = take 255 (c_str err);
                     errbuf = (if err0 = '''' then take 255 (''failed to load model from '' @
                                 (case path of None \<Rightarrow> ''(null)'' | Some p \<Rightarrow> c_str p)) else err0)
                 in set_load_state ((set_load_error eng2 (Some errbuf))
                      \<lparr>en_loaded_model := None, en_stub := False, en_model := None\<rparr>) LOAD_FAILED)
            | Inr mdl \<Rightarrow>
                set_load_state (eng2\<lparr>en_stub := False, en_model := Some mdl, en_loaded_model := path\<rparr>) LOAD_OK)"

definition handle_unload :: "'m engine \<Rightarrow> 'm engine" where
  "handle_unload eng = set_load_state (clear_load_error
     ((free_resident_model eng)\<lparr>en_loaded_model := None, en_stub := False, en_model := None\<rparr>)) LOAD_IDLE"

text \<open>Waiting for a load: \<open>st i\<close> and \<open>cancel i\<close> are what poll number \<open>i\<close> (one per millisecond) sees.
  A negative timeout waits without bound; the value \<open>None\<close> is never returning.\<close>

partial_function (option) wait_load_from ::
  "int \<Rightarrow> (nat \<Rightarrow> bool) \<Rightarrow> (nat \<Rightarrow> load_state) \<Rightarrow> nat \<Rightarrow> bool option" where
  "wait_load_from timeout_ms cancel st i =
     (if timeout_ms < 0 \<or> int i < timeout_ms then
        (if cancel i then Some False
         else if st i = LOAD_OK then Some True
         else if st i = LOAD_FAILED then Some False
         else wait_load_from timeout_ms cancel st (i + 1))
      else Some (st i = LOAD_OK))"

definition engine_wait_load_until ::
  "int \<Rightarrow> (nat \<Rightarrow> bool) \<Rightarrow> (nat \<Rightarrow> load_state) \<Rightarrow> bool option" where
  "engine_wait_load_until timeout_ms cancel st = wait_load_from timeout_ms cancel st 0"

definition engine_wait_load :: "int \<Rightarrow> (nat \<Rightarrow> load_state) \<Rightarrow> bool option" where
  "engine_wait_load timeout_ms st = engine_wait_load_until timeout_ms (\<lambda>_. False) st"

subsection \<open>Generate and the engine thread\<close>

text \<open>\<open>gen_real\<close> is the real path on the resident model; the chunks the consumer read while the
  handler ran are the second component of the result.\<close>

definition handle_generate ::
  "allocator \<Rightarrow> world \<Rightarrow> ('m \<Rightarrow> generate_cmd \<Rightarrow> gstate \<Rightarrow> gstate option) \<Rightarrow> 'm engine \<Rightarrow> nat
    \<Rightarrow> generate_cmd \<Rightarrow> nat \<Rightarrow> ('m engine \<times> chunk list) option" where
  "handle_generate mem w gen_real eng a g sid =
     (let eng1 = eng\<lparr>en_inflight := Some sid\<rparr>;
          st0 = gen_start (the (en_streams eng1 sid))
      in case (if engine_load_state eng1 \<noteq> LOAD_OK
               then generate_fail mem w ''model not loaded'' GEN_ERR_INTERNAL st0
               else if en_stub eng1 then handle_generate_stub w g st0
               else gen_real (the (en_model eng1)) g st0) of
           None \<Rightarrow> None
         | Some st \<Rightarrow>
             (let eng2 = eng1\<lparr>en_streams := (en_streams eng1)(sid \<mapsto> ch_stream (snd st))\<rparr>;
                  eng3 = eng2\<lparr>en_inflight := None\<rparr>
              in Some (free_cmd (release_stream eng3 sid) a, ch_out (snd st))))"

text \<open>One turn of the thread's loop: the state, and whether the thread goes on.\<close>

definition engine_thread_step ::
  "allocator \<Rightarrow> world \<Rightarrow> nat \<Rightarrow> (string \<Rightarrow> string + 'm) \<Rightarrow> ('m \<Rightarrow> generate_cmd \<Rightarrow> gstate \<Rightarrow> gstate option)
    \<Rightarrow> 'm engine \<Rightarrow> ('m engine \<times> bool) option" where
  "engine_thread_step mem w fuel load gen_real eng =
     (if en_shutdown eng then map_option (\<lambda>e. (e, False)) (mailbox_drain_cancel fuel eng)
      else case mailbox_dequeue eng of
        None \<Rightarrow> None
      | Some (None, eng1) \<Rightarrow> Some (eng1, True)
      | Some (Some a, eng1) \<Rightarrow>
          (case cn_cmd (the (en_heap eng1 a)) of
             CMD_STOP \<Rightarrow> map_option (\<lambda>e. (e, False)) (mailbox_drain_cancel fuel (free_cmd eng1 a))
           | CMD_LOAD p \<Rightarrow> Some (handle_load load eng1 a p, True)
           | CMD_UNLOAD \<Rightarrow> Some (handle_unload (free_cmd eng1 a), True)
           | CMD_GENERATE g sid \<Rightarrow>
               map_option (\<lambda>r. (fst r, True)) (handle_generate mem w gen_real eng1 a g sid)
           | CMD_RECLAIM sid \<Rightarrow> Some (free_cmd (release_stream eng1 sid) a, True)
           | CMD_EMBED \<Rightarrow> Some (free_cmd eng1 a, True)))"

definition engine_signal_shutdown :: "'m engine \<Rightarrow> 'm engine" where
  "engine_signal_shutdown eng =
     (let eng1 = eng\<lparr>en_shutdown := True\<rparr>
      in case en_inflight eng1 of
           None \<Rightarrow> eng1
         | Some sid \<Rightarrow> eng1\<lparr>en_streams := (en_streams eng1)
             (sid := map_option stream_cancel (en_streams eng1 sid))\<rparr>)"

text \<open>After the thread was joined.\<close>

definition engine_destroy_tail :: "nat \<Rightarrow> 'm engine \<Rightarrow> 'm engine option" where
  "engine_destroy_tail fuel eng = (case mailbox_drain_cancel fuel eng of
     None \<Rightarrow> None
   | Some e \<Rightarrow> Some (set_load_state (clear_load_error
       ((free_resident_model e)\<lparr>en_loaded_model := None\<rparr>)) LOAD_IDLE))"

subsection \<open>The mailbox as a queue\<close>

text \<open>\<open>cells h p xs\<close>: following the next pointers from \<open>p\<close> visits the commands \<open>xs\<close>, each with its
  address, and ends.\<close>

fun cells :: "(nat \<Rightarrow> cmd_node option) \<Rightarrow> nat option \<Rightarrow> (nat \<times> engine_cmd) list \<Rightarrow> bool" where
  "cells h p [] = (p = None)"
| "cells h p ((a, c) # xs) = (p = Some a \<and> (\<exists>n. h a = Some \<lparr>cn_cmd = c, cn_next = n\<rparr> \<and> cells h n xs))"

definition mb_repr :: "'m engine \<Rightarrow> (nat \<times> engine_cmd) list \<Rightarrow> bool" where
  "mb_repr eng xs \<longleftrightarrow> cells (en_heap eng) (en_head eng) xs \<and> distinct (map fst xs) \<and>
     en_tail eng = (if xs = [] then None else Some (fst (last xs)))"

lemma cells_upd_other: "a \<notin> fst ` set xs \<Longrightarrow> cells (h(a := v)) p xs = cells h p xs"
  by (induction h p xs rule: cells.induct) auto

lemma cells_snoc:
  "cells h p (xs @ [(t, c)]) \<Longrightarrow> distinct (map fst (xs @ [(t, c)])) \<Longrightarrow> a \<notin> fst ` set (xs @ [(t, c)]) \<Longrightarrow>
   cells (h(t \<mapsto> \<lparr>cn_cmd = c, cn_next = Some a\<rparr>, a \<mapsto> \<lparr>cn_cmd = c', cn_next = None\<rparr>)) p
     (xs @ [(t, c), (a, c')])"
proof (induction h p xs rule: cells.induct)
  case (1 h p)
  then show ?case
    by (auto simp: fun_upd_apply)
next
  case (2 h p a' c2 xs)
  then show ?case
    by (auto simp: fun_upd_apply)
qed

lemma cells_node: "cells h p xs \<Longrightarrow> (t, c) \<in> set xs \<Longrightarrow> \<exists>n. h t = Some \<lparr>cn_cmd = c, cn_next = n\<rparr>"
  by (induction h p xs rule: cells.induct) auto

lemma mb_enqueue:
  assumes "mb_repr eng xs" "a \<notin> fst ` set xs"
  shows "mb_repr (mailbox_enqueue_locked eng a c) (xs @ [(a, c)])"
proof (cases xs rule: rev_cases)
  case Nil
  then show ?thesis
    using assms by (auto simp: mb_repr_def mailbox_enqueue_locked_def Let_def)
next
  case (snoc ys tc)
  obtain t c0 where tc: "tc = (t, c0)"
    by (cases tc)
  have cs: "cells (en_heap eng) (en_head eng) (ys @ [(t, c0)])" "distinct (map fst (ys @ [(t, c0)]))"
    "en_tail eng = Some t"
    using assms(1) snoc tc by (auto simp: mb_repr_def)
  have "\<exists>n. en_heap eng t = Some \<lparr>cn_cmd = c0, cn_next = n\<rparr>"
    using cells_node [OF cs(1)] by simp
  then have node: "(the (((en_heap eng)(a \<mapsto> \<lparr>cn_cmd = c, cn_next = None\<rparr>)) t))\<lparr>cn_next := Some a\<rparr>
      = \<lparr>cn_cmd = c0, cn_next = Some a\<rparr>"
    using assms(2) snoc tc by auto
  have "(en_heap eng)(a \<mapsto> \<lparr>cn_cmd = c, cn_next = None\<rparr>, t \<mapsto> \<lparr>cn_cmd = c0, cn_next = Some a\<rparr>)
      = (en_heap eng)(t \<mapsto> \<lparr>cn_cmd = c0, cn_next = Some a\<rparr>, a \<mapsto> \<lparr>cn_cmd = c, cn_next = None\<rparr>)"
    using assms(2) snoc tc by (auto simp: fun_eq_iff)
  then show ?thesis
    using cells_snoc [OF cs(1,2), of a c] assms cs(2,3) snoc tc node
    by (simp add: mb_repr_def mailbox_enqueue_locked_def Let_def)
qed

lemma mb_dequeue_Cons:
  assumes "mb_repr eng ((a, c) # xs)"
  shows "\<exists>eng'. mailbox_dequeue eng = Some (Some a, eng') \<and> mb_repr eng' xs \<and>
    (\<exists>nd. en_heap eng' a = Some nd \<and> cn_cmd nd = c) \<and> en_shutdown eng' = en_shutdown eng \<and>
    en_streams eng' = en_streams eng"
proof -
  obtain n where n: "en_head eng = Some a" "en_heap eng a = Some \<lparr>cn_cmd = c, cn_next = n\<rparr>"
    "cells (en_heap eng) n xs" "a \<notin> fst ` set xs" "distinct (map fst xs)"
    using assms by (auto simp: mb_repr_def)
  have "n = None \<longleftrightarrow> xs = []"
    using n(3) by (cases xs) auto
  then show ?thesis
    using n assms by (auto simp: mailbox_dequeue_def Let_def mb_repr_def cells_upd_other)
qed

lemma mb_dequeue_Nil:
  "mb_repr eng [] \<Longrightarrow> mailbox_dequeue eng = (if en_shutdown eng then Some (None, eng) else None)"
  by (simp add: mb_repr_def mailbox_dequeue_def)

text \<open>The command of a node, as the engine thread reads it once the node is taken.\<close>

definition node_cmd :: "'m engine \<Rightarrow> nat \<Rightarrow> engine_cmd option" where
  "node_cmd eng a = map_option cn_cmd (en_heap eng a)"

text \<open>What the posting threads and the engine thread do with a mailbox, in any order: a node with a
  command is posted, or the engine thread tries to take one. A take on an empty mailbox yields nothing:
  the thread sleeps on the condition variable (and, at shutdown, returns without a command). \<open>fifo_run\<close>
  is the same on a plain list.\<close>

datatype 'c mb_op = Mb_post nat 'c | Mb_take

fun mb_run :: "('s \<Rightarrow> nat \<Rightarrow> 'c \<Rightarrow> 's) \<Rightarrow> ('s \<Rightarrow> (nat option \<times> 's) option) \<Rightarrow> ('s \<Rightarrow> nat \<Rightarrow> 'c option)
    \<Rightarrow> 'c mb_op list \<Rightarrow> 's \<Rightarrow> (nat \<times> 'c option) option list \<times> 's" where
  "mb_run enq deq cmd [] s = ([], s)"
| "mb_run enq deq cmd (Mb_post a c # ops) s = mb_run enq deq cmd ops (enq s a c)"
| "mb_run enq deq cmd (Mb_take # ops) s = (case deq s of
     None \<Rightarrow> (let (outs, s') = mb_run enq deq cmd ops s in (None # outs, s'))
   | Some (None, s1) \<Rightarrow> (let (outs, s') = mb_run enq deq cmd ops s1 in (None # outs, s'))
   | Some (Some a, s1) \<Rightarrow> (let (outs, s') = mb_run enq deq cmd ops s1 in (Some (a, cmd s1 a) # outs, s')))"

fun fifo_run :: "'c mb_op list \<Rightarrow> (nat \<times> 'c) list \<Rightarrow> (nat \<times> 'c) option list \<times> (nat \<times> 'c) list" where
  "fifo_run [] q = ([], q)"
| "fifo_run (Mb_post a c # ops) q = fifo_run ops (q @ [(a, c)])"
| "fifo_run (Mb_take # ops) [] = (let (outs, q') = fifo_run ops [] in (None # outs, q'))"
| "fifo_run (Mb_take # ops) (x # q) = (let (outs, q') = fifo_run ops q in (Some x # outs, q'))"

text \<open>Every posted node is a node of its own: not one that is still linked.\<close>

fun posts_fresh :: "'c mb_op list \<Rightarrow> (nat \<times> 'c) list \<Rightarrow> bool" where
  "posts_fresh [] q = True"
| "posts_fresh (Mb_post a c # ops) q = (a \<notin> fst ` set q \<and> posts_fresh ops (q @ [(a, c)]))"
| "posts_fresh (Mb_take # ops) q = posts_fresh ops (tl q)"

fun posted :: "'c mb_op list \<Rightarrow> (nat \<times> 'c) list" where
  "posted [] = []"
| "posted (Mb_post a c # ops) = (a, c) # posted ops"
| "posted (Mb_take # ops) = posted ops"

definition taken :: "'a option list \<Rightarrow> 'a list" where
  "taken outs = map the (filter (\<lambda>x. x \<noteq> None) outs)"

lemma taken_simps [simp]:
  "taken [] = []" "taken (None # outs) = taken outs" "taken (Some x # outs) = x # taken outs"
  by (simp_all add: taken_def)

lemma fifo_run_order: "fifo_run ops q = (outs, q') \<Longrightarrow> taken outs @ q' = q @ posted ops"
  by (induction ops q arbitrary: outs q' rule: fifo_run.induct) (auto split: prod.splits)

text \<open>The contract of a mailbox between the posting threads and the engine thread.\<close>

locale mailbox =
  fixes repr :: "'s \<Rightarrow> (nat \<times> 'c) list \<Rightarrow> bool"
    and enq :: "'s \<Rightarrow> nat \<Rightarrow> 'c \<Rightarrow> 's"
    and deq :: "'s \<Rightarrow> (nat option \<times> 's) option"
    and cmd :: "'s \<Rightarrow> nat \<Rightarrow> 'c option"
  assumes enq_law: "repr s xs \<Longrightarrow> a \<notin> fst ` set xs \<Longrightarrow> repr (enq s a c) (xs @ [(a, c)])"
    and deq_law: "repr s ((a, c) # xs) \<Longrightarrow> \<exists>s'. deq s = Some (Some a, s') \<and> repr s' xs \<and> cmd s' a = Some c"
    and deq_empty_law: "repr s [] \<Longrightarrow> deq s = None \<or> deq s = Some (None, s)"

text \<open>Posting a list of commands.\<close>

fun post_all :: "('s \<Rightarrow> nat \<Rightarrow> 'c \<Rightarrow> 's) \<Rightarrow> 's \<Rightarrow> (nat \<times> 'c) list \<Rightarrow> 's" where
  "post_all enq s [] = s"
| "post_all enq s ((a, c) # xs) = post_all enq (enq s a c) xs"

text \<open>What the run yields, in the shape the engine thread reads it.\<close>

abbreviation read_outs :: "(nat \<times> 'c) option list \<Rightarrow> (nat \<times> 'c option) option list" where
  "read_outs outs \<equiv> map (map_option (\<lambda>(a, c). (a, Some c))) outs"

context mailbox
begin

lemma post_all_repr:
  "repr s xs \<Longrightarrow> distinct (map fst (xs @ ys)) \<Longrightarrow> repr (post_all enq s ys) (xs @ ys)"
proof (induction ys arbitrary: s xs)
  case (Cons y ys)
  obtain a c where y: "y = (a, c)"
    by (cases y)
  have "repr (enq s a c) (xs @ [(a, c)])"
    using Cons.prems y by (intro enq_law) auto
  from Cons.IH [OF this] Cons.prems(2) y show ?case
    by simp
qed simp

text \<open>Whatever the order of posts and takes, the mailbox does what the list does.\<close>

lemma run_refines_fifo:
  "repr s q \<Longrightarrow> posts_fresh ops q \<Longrightarrow>
   \<exists>s'. mb_run enq deq cmd ops s = (read_outs (fst (fifo_run ops q)), s') \<and> repr s' (snd (fifo_run ops q))"
proof (induction ops q arbitrary: s rule: fifo_run.induct)
  case (2 a c ops q)
  have "repr (enq s a c) (q @ [(a, c)])"
    using 2 by (intro enq_law) auto
  from 2(1) [OF this] 2(3) show ?case
    by simp
next
  case (3 ops)
  from 3(1) [OF 3(2)] 3(3) obtain s' where
    "mb_run enq deq cmd ops s = (read_outs (fst (fifo_run ops [])), s')" "repr s' (snd (fifo_run ops []))"
    by auto
  with deq_empty_law [OF 3(2)] show ?case
    by (auto split: prod.splits)
next
  case (4 ops x q)
  obtain a c where x: "x = (a, c)"
    by (cases x)
  obtain s1 where s1: "deq s = Some (Some a, s1)" "repr s1 q" "cmd s1 a = Some c"
    using deq_law 4(2) x by blast
  from 4(1) [OF s1(2)] 4(3) obtain s' where
    "mb_run enq deq cmd ops s1 = (read_outs (fst (fifo_run ops q)), s')" "repr s' (snd (fifo_run ops q))"
    by auto
  with s1 x show ?case
    by (auto split: prod.splits)
qed simp

end

lemma mb_dequeue_empty_law: "mb_repr eng [] \<Longrightarrow> mailbox_dequeue eng = None \<or> mailbox_dequeue eng = Some (None, eng)"
  using mb_dequeue_Nil [of eng] by simp

lemma mb_dequeue_law:
  "mb_repr eng ((a, c) # xs) \<Longrightarrow>
   \<exists>eng'. mailbox_dequeue eng = Some (Some a, eng') \<and> mb_repr eng' xs \<and> node_cmd eng' a = Some c"
  using mb_dequeue_Cons [of eng a c xs] by (auto simp: node_cmd_def)

interpretation mb: mailbox mb_repr mailbox_enqueue_locked mailbox_dequeue node_cmd
  using mb_enqueue mb_dequeue_law mb_dequeue_empty_law by unfold_locales blast+

subsection \<open>Draining\<close>

text \<open>What cancelling the commands does to the streams, command by command.\<close>

definition cancel_streams :: "(nat \<Rightarrow> stream option) \<Rightarrow> engine_cmd \<Rightarrow> nat \<Rightarrow> stream option" where
  "cancel_streams ss cmd = (case cmd of
     CMD_GENERATE g sid \<Rightarrow>
       ss(sid := stream_release (map_option stream_finish_cancelled (ss sid)))
   | CMD_RECLAIM sid \<Rightarrow> ss(sid := stream_release (ss sid))
   | _ \<Rightarrow> ss)"

lemma cmd_cancel_simps [simp]:
  "en_heap (cmd_cancel eng c) = en_heap eng" "en_head (cmd_cancel eng c) = en_head eng"
  "en_tail (cmd_cancel eng c) = en_tail eng"
  "en_streams (cmd_cancel eng c) = cancel_streams (en_streams eng) c"
  by (cases c; simp add: cmd_cancel_def release_stream_def finish_stream_def cancel_streams_def)+

lemma free_cmd_simps [simp]:
  "en_heap (free_cmd eng a) = (en_heap eng)(a := None)" "en_head (free_cmd eng a) = en_head eng"
  "en_tail (free_cmd eng a) = en_tail eng" "en_streams (free_cmd eng a) = en_streams eng"
  by (simp_all add: free_cmd_def)

lemma drain_list_spec:
  "cells (en_heap eng) p xs \<Longrightarrow> distinct (map fst xs) \<Longrightarrow> length xs \<le> n \<Longrightarrow>
   \<exists>eng'. drain_list n eng p = Some eng' \<and> en_head eng' = en_head eng \<and> en_tail eng' = en_tail eng \<and>
     en_streams eng' = fold (\<lambda>c ss. cancel_streams ss c) (map snd xs) (en_streams eng) \<and>
     en_heap eng' = (\<lambda>a. if a \<in> fst ` set xs then None else en_heap eng a)"
proof (induction xs arbitrary: n eng p)
  case (Cons x xs)
  obtain a c where x: "x = (a, c)"
    by (cases x)
  obtain nx where nx: "p = Some a" "en_heap eng a = Some \<lparr>cn_cmd = c, cn_next = nx\<rparr>"
    "cells (en_heap eng) nx xs"
    using Cons.prems(1) x by auto
  obtain m where m: "n = Suc m" "length xs \<le> m"
    using Cons.prems(3) by (cases n) auto
  let ?e = "free_cmd (cmd_cancel eng c) a"
  have cs: "cells (en_heap ?e) nx xs" and ds: "distinct (map fst xs)"
    using nx(3) Cons.prems(2) x by (simp_all add: cells_upd_other)
  obtain eng' where "drain_list m ?e nx = Some eng'" "en_head eng' = en_head eng"
    "en_tail eng' = en_tail eng"
    "en_streams eng' = fold (\<lambda>c ss. cancel_streams ss c) (map snd xs) (cancel_streams (en_streams eng) c)"
    "en_heap eng' = (\<lambda>b. if b \<in> fst ` set xs then None else ((en_heap eng)(a := None)) b)"
    using Cons.IH [OF cs ds m(2)] unfolding free_cmd_simps cmd_cancel_simps by blast
  with nx m(1) x show ?case
    by (auto simp: fun_eq_iff)
qed auto

lemma mailbox_drain_spec:
  assumes "mb_repr eng xs" "length xs \<le> n"
  shows "\<exists>eng'. mailbox_drain_cancel n eng = Some eng' \<and> mb_repr eng' [] \<and>
    en_streams eng' = fold (\<lambda>c ss. cancel_streams ss c) (map snd xs) (en_streams eng) \<and>
    (\<forall>a\<in>fst ` set xs. en_heap eng' a = None)"
proof -
  let ?e = "eng\<lparr>en_head := None, en_tail := None\<rparr>"
  have "cells (en_heap ?e) (en_head eng) xs" "distinct (map fst xs)"
    using assms(1) by (simp_all add: mb_repr_def)
  from drain_list_spec [OF this assms(2)] show ?thesis
    by (auto simp: mailbox_drain_cancel_def mb_repr_def)
qed

text \<open>The streams a command refers to.\<close>

definition cmd_stream :: "engine_cmd \<Rightarrow> nat option" where
  "cmd_stream c = (case c of CMD_GENERATE g sid \<Rightarrow> Some sid | CMD_RECLAIM sid \<Rightarrow> Some sid | _ \<Rightarrow> None)"

lemma cancel_streams_other: "cmd_stream c \<noteq> Some sid \<Longrightarrow> cancel_streams ss c sid = ss sid"
  by (auto simp: cancel_streams_def cmd_stream_def split: engine_cmd.splits)

lemma fold_cancel_other:
  "\<forall>c\<in>set cs. cmd_stream c \<noteq> Some sid \<Longrightarrow> fold (\<lambda>c ss. cancel_streams ss c) cs ss sid = ss sid"
  by (induction cs arbitrary: ss) (auto simp: cancel_streams_other)

lemma fold_cancel_generate:
  assumes "cs = xs @ CMD_GENERATE g sid # ys" "\<forall>c\<in>set (xs @ ys). cmd_stream c \<noteq> Some sid"
  shows "fold (\<lambda>c ss. cancel_streams ss c) cs ss sid
    = stream_release (map_option stream_finish_cancelled (ss sid))"
  using assms
  by (simp add: fold_cancel_other)
    (simp add: cancel_streams_def [of _ "CMD_GENERATE g sid"] fold_cancel_other)

lemma s_refcount_finish [simp]: "s_refcount (stream_finish_cancelled s) = s_refcount s"
  by (simp add: stream_finish_cancelled_def stream_notify_def Let_def)

lemma released_finished:
  assumes "ss sid = Some s" "2 \<le> s_refcount s" "stream_inv s"
  shows "\<exists>s'. stream_release (map_option stream_finish_cancelled (ss sid)) = Some s' \<and>
    s_cancelled s' \<and> s_refcount s' = s_refcount s - 1 \<and>
    stream_abs s' = (if s_len s < s_cap s then stream_abs s else butlast (stream_abs s))
      @ [CHUNK_DONE FINISH_CANCELLED]"
  using assms stream_finish_cancelled_abs [OF assms(3)]
  by (auto simp: stream_release_def stream_abs_def)

subsection \<open>Waiting for a load\<close>

lemma wait_load_bounded:
  "\<exists>b. wait_load_from (int n) cancel st i = Some b \<and> (b \<longrightarrow> (\<exists>j\<ge>i. j \<le> max i n \<and> st j = LOAD_OK))"
proof (induction "n - i" arbitrary: i)
  case 0
  then show ?case
    by (subst wait_load_from.simps) (auto intro: exI [of _ i])
next
  case (Suc d)
  have "d = n - Suc i" "i < n"
    using Suc.hyps(2) by auto
  from Suc.hyps(1) [OF this(1)] obtain b where b: "wait_load_from (int n) cancel st (Suc i) = Some b"
    "b \<longrightarrow> (\<exists>j\<ge>Suc i. j \<le> max (Suc i) n \<and> st j = LOAD_OK)"
    by blast
  show ?case
  proof (cases "cancel i \<or> st i = LOAD_OK \<or> st i = LOAD_FAILED")
    case True
    then have "wait_load_from (int n) cancel st i = Some (\<not> cancel i \<and> st i = LOAD_OK)"
      using \<open>i < n\<close> by (subst wait_load_from.simps) auto
    then show ?thesis
      by (metis max.cobounded1 order_refl)
  next
    case False
    then have "wait_load_from (int n) cancel st i = Some b"
      using \<open>i < n\<close> b(1) by (subst wait_load_from.simps) simp
    moreover have "max (Suc i) n = n" "max i n = n"
      using \<open>i < n\<close> by auto
    ultimately show ?thesis
      using b(2) by (metis Suc_leD)
  qed
qed

lemma wait_load_first:
  "\<forall>j<d. \<not> cancel (i + j) \<and> st (i + j) \<noteq> LOAD_OK \<and> st (i + j) \<noteq> LOAD_FAILED \<Longrightarrow>
   t < 0 \<or> int (i + d) < t \<Longrightarrow> \<not> cancel (i + d) \<Longrightarrow> st (i + d) = LOAD_OK \<or> st (i + d) = LOAD_FAILED \<Longrightarrow>
   wait_load_from t cancel st i = Some (st (i + d) = LOAD_OK)"
proof (induction d arbitrary: i)
  case 0
  then show ?case
    by (subst wait_load_from.simps) auto
next
  case (Suc d)
  have now: "\<not> cancel i" "st i \<noteq> LOAD_OK" "st i \<noteq> LOAD_FAILED"
    using Suc.prems(1) by (metis add_0_right zero_less_Suc)+
  have later: "\<forall>j<d. \<not> cancel (Suc i + j) \<and> st (Suc i + j) \<noteq> LOAD_OK \<and> st (Suc i + j) \<noteq> LOAD_FAILED"
    using Suc.prems(1) by (metis Suc_less_eq add_Suc add_Suc_right)
  have "wait_load_from t cancel st (Suc i) = Some (st (Suc i + d) = LOAD_OK)"
    using Suc.IH [OF later] Suc.prems(2-4) by simp
  with now Suc.prems(2) show ?case
    by (subst wait_load_from.simps) auto
qed

subsection \<open>Properties\<close>

text \<open>C12. The mailbox is a queue under every interleaving of posts and takes: let the posting threads and
  the engine thread work on a mailbox that holds the commands \<open>q\<close>, in any order, where every post brings
  a node that is not linked at that moment. Each take gets exactly what a list used first in, first out
  would give (nothing when it is empty, otherwise the oldest node with the command it was posted with),
  what was taken followed by what is left is \<open>q\<close> followed by what was posted, so nothing is lost,
  duplicated or reordered, and the linked list still represents what is left, head and tail included.\<close>

theorem mailbox_fifo:
  assumes "mb_repr eng q" "posts_fresh ops q"
  shows "\<exists>outs left eng'. mb_run mailbox_enqueue_locked mailbox_dequeue node_cmd ops eng = (read_outs outs, eng') \<and>
    fifo_run ops q = (outs, left) \<and> taken outs @ left = q @ posted ops \<and> mb_repr eng' left"
  using mb.run_refines_fifo [OF assms] fifo_run_order by (metis prod.collapse)

lemma engine_init_empty: "mb_repr (engine_init ss) []"
  by (simp add: mb_repr_def engine_init_def)

theorem mailbox_fifo_witness:
  "\<exists>eng'. mb_run mailbox_enqueue_locked mailbox_dequeue node_cmd
     [Mb_take, Mb_post 7 CMD_UNLOAD, Mb_post 3 CMD_STOP, Mb_take, Mb_post 7 (CMD_RECLAIM 1), Mb_take, Mb_take]
     (engine_init (\<lambda>_. None) :: unit engine)
   = ([None, Some (7, Some CMD_UNLOAD), Some (3, Some CMD_STOP), Some (7, Some (CMD_RECLAIM 1))], eng')"
  using mailbox_fifo [OF engine_init_empty [of "(\<lambda>_. None)"], of
    "[Mb_take, Mb_post 7 CMD_UNLOAD, Mb_post 3 CMD_STOP, Mb_take, Mb_post 7 (CMD_RECLAIM 1), Mb_take, Mb_take]"]
  by (auto simp del: mb_run.simps)

text \<open>C11. Shutdown leaves no request hanging: when the engine drains its mailbox, the walk ends, the
  mailbox is empty and every node is freed; and each queued generate whose stream the client still
  holds gets, on its stream, everything already buffered (but the newest chunk when the buffer is
  full) and then DONE with reason cancelled; the engine's reference to it is dropped.\<close>

theorem mailbox_drain_finishes:
  assumes "mb_repr eng (xs @ (a, CMD_GENERATE g sid) # ys)"
    "\<forall>c\<in>set (map snd (xs @ ys)). cmd_stream c \<noteq> Some sid"
    "en_streams eng sid = Some s" "stream_inv s" "2 \<le> s_refcount s"
  shows "\<exists>eng' s'. mailbox_drain_cancel (length xs + length ys + 1) eng = Some eng' \<and> mb_repr eng' [] \<and>
    en_heap eng' a = None \<and> en_streams eng' sid = Some s' \<and> s_cancelled s' \<and>
    s_refcount s' = s_refcount s - 1 \<and>
    stream_abs s' = (if s_len s < s_cap s then stream_abs s else butlast (stream_abs s))
      @ [CHUNK_DONE FINISH_CANCELLED]"
proof -
  let ?xs = "xs @ (a, CMD_GENERATE g sid) # ys"
  obtain eng' where e: "mailbox_drain_cancel (length xs + length ys + 1) eng = Some eng'"
    "mb_repr eng' []" "en_streams eng' = fold (\<lambda>c ss. cancel_streams ss c) (map snd ?xs) (en_streams eng)"
    "\<forall>b\<in>fst ` set ?xs. en_heap eng' b = None"
    using mailbox_drain_spec [OF assms(1), of "length xs + length ys + 1"] by auto
  have "map snd ?xs = map snd xs @ CMD_GENERATE g sid # map snd ys"
    by simp
  from fold_cancel_generate [OF this] assms(2)
  have "en_streams eng' sid = stream_release (map_option stream_finish_cancelled (en_streams eng sid))"
    unfolding e(3) by simp
  with released_finished [of "en_streams eng" sid s] assms(3-5) e(1,2,4) show ?thesis
    by auto
qed

definition held_stream :: stream where
  "held_stream = stream_retain sample_stream1"

definition shutdown_engine :: "unit engine" where
  "shutdown_engine = post_all mailbox_enqueue_locked (engine_init ((\<lambda>_. None)(5 \<mapsto> held_stream)))
     [(7, CMD_UNLOAD), (3, CMD_GENERATE count_cmd 5)]"

lemma shutdown_engine_repr:
  "mb_repr shutdown_engine ([(7, CMD_UNLOAD)] @ (3, CMD_GENERATE count_cmd 5) # [])"
  using mb.post_all_repr [OF engine_init_empty, of "[(7, CMD_UNLOAD), (3, CMD_GENERATE count_cmd 5)]"
      "(\<lambda>_. None)(5 \<mapsto> held_stream)"]
  by (simp add: shutdown_engine_def)

theorem mailbox_drain_finishes_witness:
  "\<exists>eng' s'. mailbox_drain_cancel 2 shutdown_engine = Some eng' \<and> en_streams eng' 5 = Some s' \<and>
     stream_abs s' = [CHUNK_TOKEN 7 (Fin 0), CHUNK_DONE FINISH_CANCELLED]"
proof -
  have s: "stream_inv held_stream" "2 \<le> s_refcount held_stream" "s_len held_stream < s_cap held_stream"
    "stream_abs held_stream = [CHUNK_TOKEN 7 (Fin 0)]"
    by (simp add: stream_inv_def, code_simp, code_simp+)
  have "en_streams shutdown_engine 5 = Some held_stream"
    by (simp add: shutdown_engine_def engine_init_def mailbox_enqueue_locked_def Let_def)
  from mailbox_drain_finishes [OF shutdown_engine_repr _ this s(1,2)] s(3,4) show ?thesis
    by (auto simp: cmd_stream_def numeral_2_eq_2)
qed

text \<open>C13. Waiting for a load with a timeout returns; it reports success only after seeing the model
  loaded, and if the load reaches a final state before the deadline without the caller cancelling
  first, it reports exactly whether that state is success.\<close>

theorem engine_wait_load_correct:
  fixes n :: nat
  shows "\<exists>b. engine_wait_load_until (int n) cancel st = Some b \<and>
    (b \<longrightarrow> (\<exists>j\<le>n. st j = LOAD_OK)) \<and>
    (\<forall>d<n. (\<forall>j<d. \<not> cancel j \<and> st j \<noteq> LOAD_OK \<and> st j \<noteq> LOAD_FAILED) \<longrightarrow> \<not> cancel d \<longrightarrow>
       st d = LOAD_OK \<or> st d = LOAD_FAILED \<longrightarrow> b = (st d = LOAD_OK))"
proof -
  obtain b where b: "wait_load_from (int n) cancel st 0 = Some b" "b \<longrightarrow> (\<exists>j\<ge>0. j \<le> max 0 n \<and> st j = LOAD_OK)"
    using wait_load_bounded [of n cancel st 0] by blast
  have "b = (st d = LOAD_OK)" if "d < n" "\<forall>j<d. \<not> cancel j \<and> st j \<noteq> LOAD_OK \<and> st j \<noteq> LOAD_FAILED"
    "\<not> cancel d" "st d = LOAD_OK \<or> st d = LOAD_FAILED" for d
    using wait_load_first [of d cancel 0 st "int n"] that b(1) by simp
  with b show ?thesis
    unfolding engine_wait_load_until_def by auto
qed

definition sample_load_states :: "nat \<Rightarrow> load_state" where
  "sample_load_states i = (if i = 2 then LOAD_OK else LOAD_IN_PROGRESS)"

theorem engine_wait_load_correct_witness:
  "engine_wait_load_until (int 3) (\<lambda>_. False) sample_load_states = Some True"
proof -
  obtain b where b: "engine_wait_load_until (int 3) (\<lambda>_. False) sample_load_states = Some b"
    "\<forall>d<3. (\<forall>j<d. \<not> False \<and> sample_load_states j \<noteq> LOAD_OK \<and> sample_load_states j \<noteq> LOAD_FAILED) \<longrightarrow>
       \<not> False \<longrightarrow> sample_load_states d = LOAD_OK \<or> sample_load_states d = LOAD_FAILED \<longrightarrow>
       b = (sample_load_states d = LOAD_OK)"
    using engine_wait_load_correct [of 3 "\<lambda>_. False" sample_load_states] by blast
  have "\<forall>j<2. sample_load_states j \<noteq> LOAD_OK \<and> sample_load_states j \<noteq> LOAD_FAILED"
    "sample_load_states 2 = LOAD_OK"
    by (simp_all add: sample_load_states_def)
  with b(2) [rule_format, of 2] b(1) show ?thesis
    by simp
qed

text \<open>C14. The outcome of a load: after \<open>handle_load\<close> the state is OK or FAILED, never in between; it
  is OK exactly for the stub path and for a path whose model loads, then with that model resident
  and no error text; after a failure no model is resident and the error text is not empty and fits
  its buffer.\<close>

theorem handle_load_outcome:
  fixes eng :: "'m engine" and load :: "string \<Rightarrow> string + 'm" and a :: nat and path :: "string option"
  defines "e \<equiv> handle_load load eng a path"
  shows "if path \<noteq> None \<and> c_str (the path) = MLXD_STUB_MODEL_PATH
     then en_load_state e = LOAD_OK \<and> en_stub e \<and> en_load_error e = '''' \<and> en_loaded_model e = path
     else case path of
       None \<Rightarrow> en_load_state e = LOAD_FAILED \<and> en_model e = None \<and> \<not> en_stub e \<and>
         en_load_error e = ''failed to load model from (null)''
     | Some p \<Rightarrow> (case load p of
         Inr mdl \<Rightarrow> en_load_state e = LOAD_OK \<and> \<not> en_stub e \<and> en_model e = Some mdl \<and>
           en_loaded_model e = path \<and> en_load_error e = ''''
       | Inl err \<Rightarrow> en_load_state e = LOAD_FAILED \<and> en_model e = None \<and> \<not> en_stub e \<and>
           en_loaded_model e = None \<and> en_load_error e \<noteq> '''' \<and> length (en_load_error e) < 256)"
proof -
  have id: "c_str (take n (c_str x)) = take n (c_str x)" for n x
    using c_str_no_nul [of x] by (auto intro: c_str_id dest: in_set_takeD)
  have null: "c_str ''failed to load model from (null)'' = ''failed to load model from (null)''"
    by (simp add: c_str_def)
  have path: "c_str (CHR ''f'' # s) \<noteq> []" for s
    by (simp add: c_str_def)
  show ?thesis
    by (auto simp: e_def handle_load_def Let_def set_load_state_def clear_load_error_def
        set_load_error_def free_resident_model_def id null path less_Suc_eq_le
        split: option.split sum.split intro: le_less_trans [OF length_c_str])
qed

end
