(* ===== verification/Unicode.thy ===== *)
theory Unicode
  imports UnicodeTables
begin

text \<open>
  UTF-8 and the codepoint classes of \<open>src/model/tok_unicode.c\<close>. A text pointer with its length
  is the byte list it spans; positions and lengths, which the code keeps in \<open>uint32_t\<close> and never
  moves past the end of the text, are numbers. \<open>uc_encode_codepoint\<close> returns the bytes it writes;
  an empty list is its return value 0. CoreFoundation's normalisation is not under \<open>src/\<close>.
\<close>

subsection \<open>Decoding and encoding\<close>

record uc_cp_info =
  ci_cp :: u32
  ci_len :: nat

definition UC_BAD :: uc_cp_info where
  "UC_BAD = \<lparr>ci_cp = 0xFFFD, ci_len = 1\<rparr>"

text \<open>The loop over the continuation bytes, from byte \<open>i\<close> of the sequence on.\<close>

fun uc_decode_cont :: "bytes \<Rightarrow> nat \<Rightarrow> nat \<Rightarrow> u32 \<Rightarrow> u32 option" where
  "uc_decode_cont text p 0 cp = Some cp"
| "uc_decode_cont text p (Suc k) cp =
     (if (text ! p) AND 0xC0 \<noteq> 0x80 then None
      else uc_decode_cont text (p + 1) k (push_bit 6 cp OR ucast ((text ! p) AND 0x3F)))"

definition uc_min_cp :: "u32 list" where "uc_min_cp = [0x80, 0x800, 0x10000]"

text \<open>The length of the sequence a lead byte announces and the bits it carries.\<close>

definition uc_lead :: "byte \<Rightarrow> (nat \<times> u32) option" where
  "uc_lead lead =
     (if lead AND 0xE0 = 0xC0 then Some (2, ucast (lead AND 0x1F))
      else if lead AND 0xF0 = 0xE0 then Some (3, ucast (lead AND 0x0F))
      else if lead AND 0xF8 = 0xF0 then Some (4, ucast (lead AND 0x07))
      else None)"

definition uc_rejected :: "nat \<Rightarrow> u32 \<Rightarrow> bool" where
  "uc_rejected byte_len cp =
     (cp < uc_min_cp ! (byte_len - 2) \<or> (0xD800 \<le> cp \<and> cp \<le> 0xDFFF) \<or> 0x10FFFF < cp)"

definition uc_decode_codepoint :: "bytes \<Rightarrow> nat \<Rightarrow> uc_cp_info" where
  "uc_decode_codepoint text pos =
     (if length text \<le> pos then \<lparr>ci_cp = 0, ci_len = 0\<rparr>
      else let lead = text ! pos in
      if lead < 0x80 then \<lparr>ci_cp = ucast lead, ci_len = 1\<rparr>
      else case uc_lead lead of
        None \<Rightarrow> UC_BAD
      | Some (byte_len, cp) \<Rightarrow>
          if length text - pos < byte_len then UC_BAD
          else (case uc_decode_cont text (pos + 1) (byte_len - 1) cp of
                  None \<Rightarrow> UC_BAD
                | Some cp \<Rightarrow>
                    if uc_rejected byte_len cp then UC_BAD else \<lparr>ci_cp = cp, ci_len = byte_len\<rparr>))"

definition uc_encode_codepoint :: "u32 \<Rightarrow> bytes" where
  "uc_encode_codepoint cp =
     (if cp < 0x80 then [ucast cp]
      else if cp < 0x800 then [0xC0 OR ucast (drop_bit 6 cp), 0x80 OR ucast (cp AND 0x3F)]
      else if cp < 0x10000 then
        (if 0xD800 \<le> cp \<and> cp \<le> 0xDFFF then []
         else [0xE0 OR ucast (drop_bit 12 cp), 0x80 OR ucast (drop_bit 6 cp AND 0x3F),
               0x80 OR ucast (cp AND 0x3F)])
      else if cp \<le> 0x10FFFF then
        [0xF0 OR ucast (drop_bit 18 cp), 0x80 OR ucast (drop_bit 12 cp AND 0x3F),
         0x80 OR ucast (drop_bit 6 cp AND 0x3F), 0x80 OR ucast (cp AND 0x3F)]
      else [])"

subsection \<open>Scanning and classes\<close>

datatype uc_scan_result = UC_SCAN_ASCII | UC_SCAN_VALID | UC_SCAN_INVALID

lemma uc_decode_len_pos: "pos < length text \<Longrightarrow> 0 < ci_len (uc_decode_codepoint text pos)"
  by (auto simp: uc_decode_codepoint_def UC_BAD_def uc_lead_def Let_def split: option.splits if_splits)

text \<open>\<open>text\<close> is the first \<open>min(len, UINT32_MAX)\<close> bytes of the data.\<close>

function uc_scan_from :: "bytes \<Rightarrow> nat \<Rightarrow> bool \<Rightarrow> uc_scan_result" where
  "uc_scan_from text pos saw_non_ascii =
     (if length text \<le> pos then (if saw_non_ascii then UC_SCAN_VALID else UC_SCAN_ASCII)
      else let r = uc_decode_codepoint text pos in
      if ci_cp r = 0xFFFD \<and> ci_len r = 1 then UC_SCAN_INVALID
      else uc_scan_from text (pos + ci_len r) (saw_non_ascii \<or> 0x80 \<le> ci_cp r))"
  by pat_completeness auto
termination
  by (relation "measure (\<lambda>(text, pos, _). length text - pos)")
    (auto simp: uc_decode_len_pos not_le intro!: diff_less_mono2)

declare uc_scan_from.simps [simp del]

definition uc_utf8_scan :: "bytes \<Rightarrow> uc_scan_result" where
  "uc_utf8_scan data =
     (if data = [] then UC_SCAN_ASCII else uc_scan_from (take 4294967295 data) 0 False)"

function in_ranges_from :: "nat \<Rightarrow> uc_range list \<Rightarrow> nat \<Rightarrow> nat \<Rightarrow> bool" where
  "in_ranges_from cp r lo hi =
     (if lo < hi
      then let mid = lo + (hi - lo) div 2 in
           if cp < fst (r ! mid) then in_ranges_from cp r lo mid
           else if snd (r ! mid) < cp then in_ranges_from cp r (mid + 1) hi
           else True
      else False)"
  by pat_completeness auto
termination
  by (relation "measure (\<lambda>(_, _, lo, hi). hi - lo)") auto

declare in_ranges_from.simps [simp del]

definition in_ranges :: "u32 \<Rightarrow> uc_range list \<Rightarrow> bool" where
  "in_ranges cp r = in_ranges_from (unat cp) r 0 (length r)"

definition uc_is_letter :: "u32 \<Rightarrow> bool" where
  "uc_is_letter cp =
     (if cp < 0x80 then (0x41 \<le> cp \<and> cp \<le> 0x5A) \<or> (0x61 \<le> cp \<and> cp \<le> 0x7A)
      else in_ranges cp uc_letter_ranges)"

definition uc_is_mark :: "u32 \<Rightarrow> bool" where
  "uc_is_mark cp = (if cp < 0x80 then False else in_ranges cp uc_mark_ranges)"

definition uc_is_letter_or_mark :: "u32 \<Rightarrow> bool" where
  "uc_is_letter_or_mark cp = (uc_is_letter cp \<or> uc_is_mark cp)"

definition uc_is_number :: "u32 \<Rightarrow> bool" where
  "uc_is_number cp =
     (if cp < 0x80 then 0x30 \<le> cp \<and> cp \<le> 0x39 else in_ranges cp uc_number_ranges)"

definition uc_is_whitespace :: "byte \<Rightarrow> bool" where
  "uc_is_whitespace c = (c = 0x20 \<or> c = 0x09 \<or> c = 0x0A \<or> c = 0x0D \<or> c = 0x0B \<or> c = 0x0C)"

definition uc_is_whitespace_cp :: "u32 \<Rightarrow> bool" where
  "uc_is_whitespace_cp cp =
     (if cp \<le> 0xFF then uc_is_whitespace (ucast cp) \<or> cp = 0x85 \<or> cp = 0xA0
      else cp = 0x1680 \<or> (0x2000 \<le> cp \<and> cp \<le> 0x200A) \<or> cp = 0x2028 \<or> cp = 0x2029 \<or>
           cp = 0x202F \<or> cp = 0x205F \<or> cp = 0x3000)"

subsection \<open>The byte-to-unicode table\<close>

text \<open>The two arrays of \<open>uc_bytes_unicode_t\<close>; an entry of \<open>cp_to_byte\<close> still at
  \<open>UINT16_MAX\<close> is unmapped. Every entry fits 16 bits (the code asserts it).\<close>

definition UC_BYTES_UNICODE_REV_SIZE :: nat where "UC_BYTES_UNICODE_REV_SIZE = 324"
definition UINT16_MAX :: nat where "UINT16_MAX = 65535"

record uc_bytes_unicode =
  byte_to_cp :: "nat list"
  cp_to_byte :: "nat list"

definition bu_printable :: "nat \<Rightarrow> bool" where
  "bu_printable b = ((33 \<le> b \<and> b \<le> 126) \<or> (0xA1 \<le> b \<and> b \<le> 0xAC) \<or> (0xAE \<le> b \<and> b \<le> 0xFF))"

text \<open>One round of the loop: the next free codepoint \<open>n\<close> and the table so far.\<close>

definition bu_step :: "nat \<Rightarrow> nat \<times> uc_bytes_unicode \<Rightarrow> nat \<times> uc_bytes_unicode" where
  "bu_step b s = (case s of (n, t) \<Rightarrow>
     let (cp, n) = (if bu_printable b then (b, n) else (n, n + 1)) in
     (n, t\<lparr>byte_to_cp := (byte_to_cp t)[b := cp], cp_to_byte := (cp_to_byte t)[cp := b]\<rparr>))"

definition uc_build_bytes_to_unicode :: "uc_bytes_unicode" where
  "uc_build_bytes_to_unicode =
     snd (fold bu_step [0..<256]
       (256, \<lparr>byte_to_cp = replicate 256 0,
              cp_to_byte = replicate UC_BYTES_UNICODE_REV_SIZE UINT16_MAX\<rparr>))"

subsection \<open>Decoding reads from the position on\<close>

lemma uc_decode_cont_drop:
  "pos + p + k \<le> length text \<Longrightarrow> uc_decode_cont text (pos + p) k cp = uc_decode_cont (drop pos text) p k cp"
proof (induction k arbitrary: p cp)
  case (Suc k)
  from Suc.IH [of "p + 1"] Suc.prems show ?case
    by simp
qed simp

lemma uc_decode_drop: "uc_decode_codepoint text pos = uc_decode_codepoint (drop pos text) 0"
proof (cases "length text \<le> pos")
  case False
  have 1: "uc_decode_cont text (Suc pos) (b - Suc 0) cp = uc_decode_cont (drop pos text) (Suc 0) (b - Suc 0) cp"
    if "\<not> length text - pos < b" for b cp
    using uc_decode_cont_drop [of pos "Suc 0" "b - Suc 0" "text" cp] that False by (cases b) simp_all
  have 2: "drop pos text \<noteq> []" "drop pos text ! 0 = text ! pos"
    using False by simp_all
  show ?thesis
    unfolding uc_decode_codepoint_def Let_def
    using False by (simp add: 1 2 split: option.split cong: if_cong)
qed (simp add: uc_decode_codepoint_def)

subsection \<open>The bit patterns of UTF-8 as numbers\<close>

lemma utf8_tests:
  fixes b :: byte
  shows "b AND 0xE0 = 0xC0 \<longleftrightarrow> unat b div 32 = 6"
    "b AND 0xF0 = 0xE0 \<longleftrightarrow> unat b div 16 = 14"
    "b AND 0xF8 = 0xF0 \<longleftrightarrow> unat b div 8 = 30"
    "b AND 0xC0 = 0x80 \<longleftrightarrow> unat b div 64 = 2"
    "b < 0x80 \<longleftrightarrow> unat b < 128"
  by (simp_all add: word_unat_eq_iff word_nat word_less_nat_alt) 

lemma utf8_cont_step:
  assumes "unat (cp :: u32) < 67108864"
  shows "unat (push_bit 6 cp OR ucast ((b :: byte) AND 0x3F)) = unat cp * 64 + unat b mod 64"
proof -
  have "unat (push_bit 6 cp OR ucast (b AND 0x3F)) = unat cp * 2 ^ 6 + unat (ucast (b AND 0x3F) :: u32)"
    using assms by (intro unat_or_disj) (simp_all add: word_nat)
  then show ?thesis
    by (simp add: word_nat)
qed

lemma unat_or_byte:
  assumes "unat (x :: byte) = a * 2 ^ n" "unat (y :: byte) = k" "k < 2 ^ n"
  shows "unat (x OR y) = a * 2 ^ n + k"
  using unat_or_disj [OF assms(1), of y] assms by simp

lemma utf8_cont_byte: "unat (0x80 OR ucast (w AND 0x3F :: u32) :: byte) = 128 + unat w mod 64"
  using unat_or_byte [of "0x80" 2 6 "ucast (w AND 0x3F)" "unat w mod 64"] by (simp add: word_nat)

lemma utf8_lead_bytes:
  "unat (w :: u32) < 32 \<Longrightarrow> unat (0xC0 OR ucast w :: byte) = 192 + unat w"
  "unat w < 16 \<Longrightarrow> unat (0xE0 OR ucast w :: byte) = 224 + unat w"
  "unat w < 8 \<Longrightarrow> unat (0xF0 OR ucast w :: byte) = 240 + unat w"
  using unat_or_byte [of "0xC0" 3 6 "ucast w" "unat w"] unat_or_byte [of "0xE0" 7 5 "ucast w" "unat w"]
    unat_or_byte [of "0xF0" 15 4 "ucast w" "unat w"]
  by (simp_all add: word_nat)

lemma u32_lits:
  "cp < (0x80 :: u32) \<longleftrightarrow> unat cp < 128" "cp < (0x800 :: u32) \<longleftrightarrow> unat cp < 2048"
  "cp < (0x10000 :: u32) \<longleftrightarrow> unat cp < 65536" "cp \<le> (0x10FFFF :: u32) \<longleftrightarrow> unat cp \<le> 1114111"
  "(0x10FFFF :: u32) < cp \<longleftrightarrow> 1114111 < unat cp"
  "(0xD800 :: u32) \<le> cp \<longleftrightarrow> 55296 \<le> unat cp" "cp \<le> (0xDFFF :: u32) \<longleftrightarrow> unat cp \<le> 57343"
  by (simp_all add: word_less_nat_alt word_le_nat_alt)

lemma utf8_div_facts:
  "x < 32 \<Longrightarrow> (192 + x) div 32 = (6::nat)"
  "x < 16 \<Longrightarrow> (224 + x) div 32 = (7::nat)" "x < 16 \<Longrightarrow> (224 + x) div 16 = (14::nat)"
  "x < 8 \<Longrightarrow> (240 + x) div 32 = (7::nat)" "x < 8 \<Longrightarrow> (240 + x) div 16 = (15::nat)"
  "x < 8 \<Longrightarrow> (240 + x) div 8 = (30::nat)" "y < 64 \<Longrightarrow> (128 + y) div 64 = (2::nat)"
  by (rule div_nat_eqI; simp)+

lemma utf8_mod_facts:
  "x < 32 \<Longrightarrow> (192 + x) mod 32 = (x::nat)" "x < 16 \<Longrightarrow> (224 + x) mod 16 = (x::nat)"
  "x < 8 \<Longrightarrow> (240 + x) mod 8 = (x::nat)" "y < 64 \<Longrightarrow> (128 + y) mod 64 = (y::nat)"
  using mod_mult_self4 [of 32 6 x] mod_mult_self4 [of 16 14 x] mod_mult_self4 [of 8 30 x]
    mod_mult_self4 [of 64 2 y] by simp_all

lemmas utf8_num_facts = utf8_div_facts utf8_mod_facts

lemma utf8_cont_Cons:
  assumes "unat (b :: byte) = 128 + y" "y < 64" "unat (cp :: u32) < 67108864" "t ! p = b"
    "unat cp' = unat cp * 64 + y"
  shows "uc_decode_cont t p (Suc k) cp = uc_decode_cont t (p + 1) k cp'"
proof -
  have "push_bit 6 cp OR ucast (b AND 0x3F) = cp'"
    by (intro unsigned_word_eqI [where 'a = nat])
      (simp only: utf8_cont_step [OF assms(3)] assms(5) assms(1) utf8_mod_facts(4) [OF assms(2)])
  moreover have "b AND 0xC0 = 0x80"
    by (simp only: utf8_tests assms(1) utf8_div_facts(7) [OF assms(2)])
  ultimately show ?thesis
    by (simp add: assms(4))
qed

lemma word_of_nat_u32: "n < 4294967296 \<Longrightarrow> unat (word_of_nat n :: u32) = n"
  by (simp add: unsigned_of_nat take_bit_nat_eq_self)

lemma utf8_leads:
  "unat a = 192 + x \<Longrightarrow> x < 32 \<Longrightarrow> uc_lead a = Some (2, word_of_nat x)"
  "unat a = 224 + x \<Longrightarrow> x < 16 \<Longrightarrow> uc_lead a = Some (3, word_of_nat x)"
  "unat a = 240 + x \<Longrightarrow> x < 8 \<Longrightarrow> uc_lead a = Some (4, word_of_nat x)"
  by (auto simp: uc_lead_def utf8_tests utf8_num_facts word_nat word_of_nat_u32
      intro!: unsigned_word_eqI [where 'a = nat])

lemma uc_decode_multi:
  assumes "uc_lead a = Some (n, cp0)" "128 \<le> unat a" "n \<le> length (a # t)"
    "uc_decode_cont (a # t) 1 (n - 1) cp0 = Some cp" "\<not> uc_rejected n cp"
  shows "uc_decode_codepoint (a # t) 0 = \<lparr>ci_cp = cp, ci_len = n\<rparr>"
  using assms by (simp add: uc_decode_codepoint_def utf8_tests not_less)

lemma decode2:
  assumes "unat a = 192 + x" "x < 32" "unat b = 128 + y" "y < 64"
    and "unat cp = x * 64 + y" "128 \<le> unat cp"
  shows "uc_decode_codepoint (a # b # rest) 0 = \<lparr>ci_cp = cp, ci_len = 2\<rparr>"
proof (rule uc_decode_multi)
  show "uc_lead a = Some (2, word_of_nat x)"
    by (rule utf8_leads) fact+
  have "uc_decode_cont (a # b # rest) 1 (Suc 0) (word_of_nat x) = uc_decode_cont (a # b # rest) (1 + 1) 0 cp"
    by (rule utf8_cont_Cons [OF assms(3,4)]) (use assms in \<open>simp_all add: word_of_nat_u32\<close>)
  then show "uc_decode_cont (a # b # rest) 1 (2 - 1) (word_of_nat x) = Some cp"
    by simp
  show "\<not> uc_rejected 2 cp"
    using assms by (simp add: uc_rejected_def uc_min_cp_def u32_lits)
qed (use assms in simp_all)

lemma decode3:
  assumes "unat a = 224 + x" "x < 16" "unat b = 128 + y" "y < 64" "unat c = 128 + z" "z < 64"
    and "unat cp = x * 4096 + y * 64 + z" "2048 \<le> unat cp" "\<not> (55296 \<le> unat cp \<and> unat cp \<le> 57343)"
  shows "uc_decode_codepoint (a # b # c # rest) 0 = \<lparr>ci_cp = cp, ci_len = 3\<rparr>"
proof (rule uc_decode_multi)
  let ?t = "a # b # c # rest"
  obtain m :: u32 where m: "unat m = x * 64 + y"
    using word_of_nat_u32 [of "x * 64 + y"] assms(2,4) by force
  show "uc_lead a = Some (3, word_of_nat x)"
    by (rule utf8_leads) fact+
  have "uc_decode_cont ?t 1 (Suc (Suc 0)) (word_of_nat x) = uc_decode_cont ?t (1 + 1) (Suc 0) m"
    by (rule utf8_cont_Cons [OF assms(3,4)]) (use assms(2) m in \<open>simp_all add: word_of_nat_u32\<close>)
  also have "\<dots> = uc_decode_cont ?t (1 + 1 + 1) 0 cp"
    by (rule utf8_cont_Cons [OF assms(5,6)]) (use assms(2,4,7) m in simp_all)
  finally show "uc_decode_cont ?t 1 (3 - 1) (word_of_nat x) = Some cp"
    by (simp add: eval_nat_numeral del: uc_decode_cont.simps(2))
  show "\<not> uc_rejected 3 cp"
    using assms by (auto simp: uc_rejected_def uc_min_cp_def u32_lits)
qed (use assms in simp_all)

lemma decode4:
  assumes "unat a = 240 + x" "x < 8" "unat b = 128 + y" "y < 64" "unat c = 128 + z" "z < 64"
    "unat d = 128 + w" "w < 64"
    and "unat cp = x * 262144 + y * 4096 + z * 64 + w" "65536 \<le> unat cp" "unat cp \<le> 1114111"
  shows "uc_decode_codepoint (a # b # c # d # rest) 0 = \<lparr>ci_cp = cp, ci_len = 4\<rparr>"
proof (rule uc_decode_multi)
  let ?t = "a # b # c # d # rest"
  obtain m :: u32 where m: "unat m = x * 64 + y"
    using word_of_nat_u32 [of "x * 64 + y"] assms(2,4) by force
  obtain l :: u32 where l: "unat l = x * 4096 + y * 64 + z"
    using word_of_nat_u32 [of "x * 4096 + y * 64 + z"] assms(2,4,6) by force
  show "uc_lead a = Some (4, word_of_nat x)"
    by (rule utf8_leads) fact+
  have "uc_decode_cont ?t 1 (Suc (Suc (Suc 0))) (word_of_nat x) = uc_decode_cont ?t (1 + 1) (Suc (Suc 0)) m"
    by (rule utf8_cont_Cons [OF assms(3,4)]) (use assms(2) m in \<open>simp_all add: word_of_nat_u32\<close>)
  also have "\<dots> = uc_decode_cont ?t (1 + 1 + 1) (Suc 0) l"
    by (rule utf8_cont_Cons [OF assms(5,6)]) (use assms(2,4) m l in simp_all)
  also have "\<dots> = uc_decode_cont ?t (1 + 1 + 1 + 1) 0 cp"
    by (rule utf8_cont_Cons [OF assms(7,8)]) (use assms(2,4,6,9) l in simp_all)
  finally show "uc_decode_cont ?t 1 (4 - 1) (word_of_nat x) = Some cp"
    by (simp add: eval_nat_numeral del: uc_decode_cont.simps(2))
  show "\<not> uc_rejected 4 cp"
    using assms by (auto simp: uc_rejected_def uc_min_cp_def u32_lits)
qed (use assms in simp_all)

subsection \<open>The encoder produces the sequences the decoder accepts\<close>

lemma utf8_pos_facts:
  assumes "y < 64" "z < 64" "w < (64::nat)"
  shows "(x * 64 + y) div 64 = x" "(x * 64 + y) mod 64 = y"
    "(x * 4096 + y * 64 + z) div 4096 = x" "(x * 4096 + y * 64 + z) div 64 mod 64 = y"
    "(x * 4096 + y * 64 + z) mod 64 = z"
    "(x * 262144 + y * 4096 + z * 64 + w) div 262144 = x"
    "(x * 262144 + y * 4096 + z * 64 + w) div 4096 mod 64 = y"
    "(x * 262144 + y * 4096 + z * 64 + w) div 64 mod 64 = z"
    "(x * 262144 + y * 4096 + z * 64 + w) mod 64 = w"
proof -
  have 3: "x * 4096 + y * 64 + z = (x * 64 + y) * 64 + z"
    and 4: "x * 262144 + y * 4096 + z * 64 + w = (x * 4096 + y * 64 + z) * 64 + w" for x y z w :: nat
    by simp_all
  have d: "(a * 64 + b) div 64 = a" "(a * 64 + b) mod 64 = b" if "b < 64" for a b :: nat
    using that by simp_all
  have dd: "a div 4096 = a div 64 div 64" "a div 262144 = a div 64 div 64 div 64" for a :: nat
    by (simp_all only: div_mult2_eq [symmetric]) simp_all
  show "(x * 64 + y) div 64 = x" "(x * 64 + y) mod 64 = y"
    by (rule d [OF assms(1)])+
  show "(x * 4096 + y * 64 + z) div 4096 = x" "(x * 4096 + y * 64 + z) div 64 mod 64 = y"
    "(x * 4096 + y * 64 + z) mod 64 = z"
    by (simp_all only: 3 dd d assms)
  show "(x * 262144 + y * 4096 + z * 64 + w) div 262144 = x"
    "(x * 262144 + y * 4096 + z * 64 + w) div 4096 mod 64 = y"
    "(x * 262144 + y * 4096 + z * 64 + w) div 64 mod 64 = z"
    "(x * 262144 + y * 4096 + z * 64 + w) mod 64 = w"
    by (simp_all only: 3 4 dd d assms)
qed

lemma encode2:
  assumes "unat a = 192 + x" "x < 32" "unat b = 128 + y" "y < 64"
    and "unat cp = x * 64 + y" "128 \<le> unat cp"
  shows "uc_encode_codepoint cp = [a, b]"
proof -
  note f = utf8_pos_facts [OF assms(4,4,4)]
  have "a = 0xC0 OR ucast (drop_bit 6 cp)" "b = 0x80 OR ucast (cp AND 0x3F)"
    by (rule unsigned_word_eqI [where 'a = nat],
        use assms f in \<open>simp add: utf8_cont_byte utf8_lead_bytes word_nat\<close>)+
  with assms show ?thesis
    by (simp add: uc_encode_codepoint_def u32_lits)
qed

lemma encode3:
  assumes "unat a = 224 + x" "x < 16" "unat b = 128 + y" "y < 64" "unat c = 128 + z" "z < 64"
    and "unat cp = x * 4096 + y * 64 + z" "2048 \<le> unat cp" "\<not> (55296 \<le> unat cp \<and> unat cp \<le> 57343)"
  shows "uc_encode_codepoint cp = [a, b, c]"
proof -
  note f = utf8_pos_facts [OF assms(4,6,6)]
  have "a = 0xE0 OR ucast (drop_bit 12 cp)" "b = 0x80 OR ucast (drop_bit 6 cp AND 0x3F)"
    "c = 0x80 OR ucast (cp AND 0x3F)"
    by (rule unsigned_word_eqI [where 'a = nat],
        use assms(1-7) f in \<open>simp add: utf8_cont_byte utf8_lead_bytes word_nat\<close>)+
  with assms show ?thesis
    by (auto simp: uc_encode_codepoint_def u32_lits)
qed

lemma encode4:
  assumes "unat a = 240 + x" "x < 8" "unat b = 128 + y" "y < 64" "unat c = 128 + z" "z < 64"
    "unat d = 128 + w" "w < 64"
    and "unat cp = x * 262144 + y * 4096 + z * 64 + w" "65536 \<le> unat cp" "unat cp \<le> 1114111"
  shows "uc_encode_codepoint cp = [a, b, c, d]"
proof -
  note f = utf8_pos_facts [OF assms(4,6,8)]
  have "a = 0xF0 OR ucast (drop_bit 18 cp)" "b = 0x80 OR ucast (drop_bit 12 cp AND 0x3F)"
    "c = 0x80 OR ucast (drop_bit 6 cp AND 0x3F)" "d = 0x80 OR ucast (cp AND 0x3F)"
    by (rule unsigned_word_eqI [where 'a = nat],
        use assms(1-9) f in \<open>simp add: utf8_cont_byte utf8_lead_bytes word_nat\<close>)+
  with assms show ?thesis
    by (auto simp: uc_encode_codepoint_def u32_lits)
qed

lemma word_of_nat_byte: "n < 256 \<Longrightarrow> unat (word_of_nat n :: byte) = n"
  by (simp add: unsigned_of_nat take_bit_nat_eq_self)

lemma utf8_split:
  fixes m :: nat
  shows "m = m div 64 * 64 + m mod 64" "m = m div 4096 * 4096 + m div 64 mod 64 * 64 + m mod 64"
    "m = m div 262144 * 262144 + m div 4096 mod 64 * 4096 + m div 64 mod 64 * 64 + m mod 64"
proof -
  have 3: "a * 4096 + b * 64 + c = (a * 64 + b) * 64 + c"
    and 4: "a * 262144 + b * 4096 + c * 64 + d = ((a * 64 + b) * 64 + c) * 64 + d" for a b c d :: nat
    by simp_all
  have dd: "m div 4096 = m div 64 div 64" "m div 262144 = m div 64 div 64 div 64"
    by (simp_all only: div_mult2_eq [symmetric]) simp_all
  show "m = m div 64 * 64 + m mod 64" "m = m div 4096 * 4096 + m div 64 mod 64 * 64 + m mod 64"
    "m = m div 262144 * 262144 + m div 4096 mod 64 * 4096 + m div 64 mod 64 * 64 + m mod 64"
    by (simp_all only: 3 4 dd div_mult_mod_eq)
qed

lemma uc_decode_encode:
  assumes "uc_encode_codepoint cp \<noteq> []"
  shows "uc_decode_codepoint (uc_encode_codepoint cp @ rest) 0
    = \<lparr>ci_cp = cp, ci_len = length (uc_encode_codepoint cp)\<rparr>"
proof -
  have n: "unat cp \<le> 1114111" "\<not> (55296 \<le> unat cp \<and> unat cp \<le> 57343)"
    using assms by (auto simp: uc_encode_codepoint_def u32_lits split: if_splits)
  note D = utf8_split
  let ?b = "\<lambda>k. word_of_nat k :: byte"
  consider "unat cp < 128" | "128 \<le> unat cp" "unat cp < 2048" | "2048 \<le> unat cp" "unat cp < 65536"
    | "65536 \<le> unat cp" by linarith
  then show ?thesis
  proof cases
    case 1
    then have u: "unat (ucast cp :: byte) = unat cp"
      by (simp add: word_nat)
    then have "ucast (ucast cp :: byte) = cp"
      by (intro unsigned_word_eqI [where 'a = nat]) (simp add: word_nat)
    with 1 u show ?thesis
      by (simp add: uc_encode_codepoint_def u32_lits uc_decode_codepoint_def utf8_tests)
  next
    case 2
    let ?x = "unat cp div 64" and ?y = "unat cp mod 64"
    have h: "?x < 32" "?y < 64" "unat (?b (192 + ?x)) = 192 + ?x" "unat (?b (128 + ?y)) = 128 + ?y"
      using 2 by (auto intro!: word_of_nat_byte simp del: of_nat_add)
    show ?thesis
      using decode2 [OF h(3,1,4,2) D(1) 2(1)] encode2 [OF h(3,1,4,2) D(1) 2(1)] by simp
  next
    case 3
    let ?x = "unat cp div 4096" and ?y = "unat cp div 64 mod 64" and ?z = "unat cp mod 64"
    have h: "?x < 16" "?y < 64" "?z < 64" "unat (?b (224 + ?x)) = 224 + ?x"
      "unat (?b (128 + ?y)) = 128 + ?y" "unat (?b (128 + ?z)) = 128 + ?z"
      using 3 by (auto intro!: word_of_nat_byte simp del: of_nat_add)
    show ?thesis
      using decode3 [OF h(4,1,5,2,6,3) D(2) 3(1) n(2)] encode3 [OF h(4,1,5,2,6,3) D(2) 3(1) n(2)] by simp
  next
    case 4
    let ?x = "unat cp div 262144" and ?y = "unat cp div 4096 mod 64"
      and ?z = "unat cp div 64 mod 64" and ?w = "unat cp mod 64"
    have h: "?x < 8" "?y < 64" "?z < 64" "?w < 64" "unat (?b (240 + ?x)) = 240 + ?x"
      "unat (?b (128 + ?y)) = 128 + ?y" "unat (?b (128 + ?z)) = 128 + ?z" "unat (?b (128 + ?w)) = 128 + ?w"
      using 4 n(1) by (auto intro!: word_of_nat_byte simp del: of_nat_add)
    show ?thesis
      using decode4 [OF h(5,1,6,2,7,3,8,4) D(3) 4 n(1)] encode4 [OF h(5,1,6,2,7,3,8,4) D(3) 4 n(1)] by simp
  qed
qed

subsection \<open>The decoder accepts only what the encoder produces\<close>

lemma utf8_cont_inv:
  assumes "uc_decode_cont t p (Suc k) cp = Some r" "unat cp < 67108864"
  obtains y m where "y < 64" "unat (t ! p) = 128 + y" "unat m = unat cp * 64 + y"
    "uc_decode_cont t (p + 1) k m = Some r"
proof -
  have "unat (t ! p) div 64 = 2"
    using assms(1) by (auto simp: utf8_tests split: if_splits)
  then have "unat (t ! p) = 128 + unat (t ! p) mod 64"
    using div_mult_mod_eq [of "unat (t ! p)" 64] by simp
  then show thesis
    using assms
    by (intro that [of "unat (t ! p) mod 64" "push_bit 6 cp OR ucast (t ! p AND 0x3F)"])
      (auto simp: utf8_cont_step split: if_splits)
qed

lemma utf8_lead_inv:
  assumes "uc_lead a = Some (n, cp)"
  shows "(n = 2 \<and> unat a = 192 + unat cp \<and> unat cp < 32) \<or> (n = 3 \<and> unat a = 224 + unat cp \<and> unat cp < 16) \<or>
    (n = 4 \<and> unat a = 240 + unat cp \<and> unat cp < 8)"
proof -
  have "m div 32 = 6 \<Longrightarrow> m = 192 + m mod 32" "m div 16 = 14 \<Longrightarrow> m = 224 + m mod 16"
    "m div 8 = 30 \<Longrightarrow> m = 240 + m mod 8" for m :: nat
    using div_mult_mod_eq [of m 32] div_mult_mod_eq [of m 16] div_mult_mod_eq [of m 8] by simp_all
  with assms show ?thesis
    by (auto simp: uc_lead_def utf8_tests word_nat split: if_splits)
qed

lemma uc_encode_decode:
  assumes "uc_decode_codepoint t 0 = \<lparr>ci_cp = cp, ci_len = n\<rparr>" "n \<noteq> 0" "\<not> (cp = 0xFFFD \<and> n = 1)"
  shows "take n t = uc_encode_codepoint cp \<and> n = length (uc_encode_codepoint cp)"
proof -
  obtain a t' where t: "t = a # t'"
    using assms(1,2) by (cases t) (auto simp: uc_decode_codepoint_def)
  show ?thesis
  proof (cases "a < 0x80")
    case True
    then have "unat (ucast a :: u32) < 128" "ucast (ucast a :: u32) = a"
      by (auto simp: utf8_tests word_nat intro!: unsigned_word_eqI [where 'a = nat])
    with True assms show ?thesis
      by (auto simp: t uc_decode_codepoint_def uc_encode_codepoint_def u32_lits)
  next
    case False
    obtain cp0 where l: "uc_lead a = Some (n, cp0)" "n \<le> length t"
      "uc_decode_cont t 1 (n - 1) cp0 = Some cp" "\<not> uc_rejected n cp"
      using False assms by (auto simp: t uc_decode_codepoint_def UC_BAD_def split: option.splits if_splits)
    note lead = utf8_lead_inv [OF l(1)]
    consider (2) b r where "n = 2" "t = a # b # r" | (3) b c r where "n = 3" "t = a # b # c # r"
      | (4) b c d r where "n = 4" "t = a # b # c # d # r"
    proof -
      have "n = 2 \<or> n = 3 \<or> n = 4"
        using lead by blast
      with l(2) that show thesis
        unfolding t by (cases t'; cases "tl t'"; cases "tl (tl t')") auto
    qed
    then show ?thesis
    proof cases
      case 2
      with l(3) have "uc_decode_cont t 1 (Suc 0) cp0 = Some cp" by simp
      then obtain y m where y: "y < 64" "unat (t ! 1) = 128 + y" "unat m = unat cp0 * 64 + y"
        "uc_decode_cont t (1 + 1) 0 m = Some cp"
        by (rule utf8_cont_inv) (use lead in auto)
      have "uc_encode_codepoint cp = [a, b]"
        by (rule encode2 [of _ "unat cp0" _ y])
          (use 2 y lead l(4) in \<open>auto simp: uc_rejected_def uc_min_cp_def u32_lits\<close>)
      with 2 show ?thesis by simp
    next
      case 3
      with l(3) have "uc_decode_cont t 1 (Suc (Suc 0)) cp0 = Some cp" by (simp add: eval_nat_numeral)
      then obtain y m where y: "y < 64" "unat (t ! 1) = 128 + y" "unat m = unat cp0 * 64 + y"
        "uc_decode_cont t (1 + 1) (Suc 0) m = Some cp"
        by (rule utf8_cont_inv) (use lead in auto)
      from y(4) obtain z m2 where z: "z < 64" "unat (t ! (1 + 1)) = 128 + z" "unat m2 = unat m * 64 + z"
        "uc_decode_cont t (1 + 1 + 1) 0 m2 = Some cp"
        by (rule utf8_cont_inv) (use lead y in auto)
      have "uc_encode_codepoint cp = [a, b, c]"
        by (rule encode3 [of _ "unat cp0" _ y _ z])
          (use 3 y z lead l(4) in \<open>auto simp: uc_rejected_def uc_min_cp_def u32_lits\<close>)
      with 3 show ?thesis by simp
    next
      case 4
      with l(3) have "uc_decode_cont t 1 (Suc (Suc (Suc 0))) cp0 = Some cp" by (simp add: eval_nat_numeral)
      then obtain y m where y: "y < 64" "unat (t ! 1) = 128 + y" "unat m = unat cp0 * 64 + y"
        "uc_decode_cont t (1 + 1) (Suc (Suc 0)) m = Some cp"
        by (rule utf8_cont_inv) (use lead in auto)
      from y(4) obtain z m2 where z: "z < 64" "unat (t ! (1 + 1)) = 128 + z" "unat m2 = unat m * 64 + z"
        "uc_decode_cont t (1 + 1 + 1) (Suc 0) m2 = Some cp"
        by (rule utf8_cont_inv) (use lead y in auto)
      from z(4) obtain w m3 where w: "w < 64" "unat (t ! (1 + 1 + 1)) = 128 + w" "unat m3 = unat m2 * 64 + w"
        "uc_decode_cont t (1 + 1 + 1 + 1) 0 m3 = Some cp"
        by (rule utf8_cont_inv) (use lead y z in auto)
      have "uc_encode_codepoint cp = [a, b, c, d]"
        by (rule encode4 [of _ "unat cp0" _ y _ z _ w])
          (use 4 y z w lead l(4) in \<open>auto simp: uc_rejected_def uc_min_cp_def u32_lits\<close>)
      with 4 show ?thesis by simp
    qed
  qed
qed

subsection \<open>What a decode step yields\<close>

lemma uc_decode_bounds:
  assumes "pos < length t"
  shows "1 \<le> ci_len (uc_decode_codepoint t pos)" "ci_len (uc_decode_codepoint t pos) \<le> 4"
    "pos + ci_len (uc_decode_codepoint t pos) \<le> length t"
proof -
  have *: "n \<le> 4" if "uc_lead a = Some (n, c)" for a n c
    using utf8_lead_inv [OF that] by auto
  have "1 \<le> ci_len (uc_decode_codepoint t pos) \<and> ci_len (uc_decode_codepoint t pos) \<le> 4 \<and>
      pos + ci_len (uc_decode_codepoint t pos) \<le> length t"
    using assms uc_decode_len_pos [OF assms] *
    by (auto simp: uc_decode_codepoint_def UC_BAD_def Let_def split: option.split prod.split)
  then show "1 \<le> ci_len (uc_decode_codepoint t pos)" "ci_len (uc_decode_codepoint t pos) \<le> 4"
    "pos + ci_len (uc_decode_codepoint t pos) \<le> length t"
    by simp_all
qed

lemma uc_decode_cases:
  obtains (bad) "uc_decode_codepoint t pos = UC_BAD" | (past) "length t \<le> pos"
  | (good) cp where "uc_encode_codepoint cp \<noteq> []"
      "uc_decode_codepoint t pos = \<lparr>ci_cp = cp, ci_len = length (uc_encode_codepoint cp)\<rparr>"
      "drop pos t = uc_encode_codepoint cp @ drop (pos + length (uc_encode_codepoint cp)) t"
      "pos < length t"
proof -
  obtain cp n where d: "uc_decode_codepoint t pos = \<lparr>ci_cp = cp, ci_len = n\<rparr>"
    by (rule uc_cp_info.cases)
  show thesis
  proof (cases "length t \<le> pos \<or> (cp = 0xFFFD \<and> n = 1)")
    case True
    with d show ?thesis
      by (auto simp: UC_BAD_def intro: that)
  next
    case False
    then have "n \<noteq> 0"
      using uc_decode_len_pos [of pos t] d by simp
    with uc_encode_decode [OF d [unfolded uc_decode_drop [of t pos]]] False
    have "take n (drop pos t) = uc_encode_codepoint cp" "n = length (uc_encode_codepoint cp)"
      by auto
    with d False \<open>n \<noteq> 0\<close> append_take_drop_id [of n "drop pos t"] show ?thesis
      by (intro that(3) [of cp]) (auto simp: add.commute)
  qed
qed

lemma uc_decode_at:
  "uc_encode_codepoint cp \<noteq> [] \<Longrightarrow> drop pos t = uc_encode_codepoint cp @ rest \<Longrightarrow>
   uc_decode_codepoint t pos = \<lparr>ci_cp = cp, ci_len = length (uc_encode_codepoint cp)\<rparr>"
  by (subst uc_decode_drop) (simp add: uc_decode_encode)

lemma uc_encode_FFFD: "length (uc_encode_codepoint 0xFFFD) = 3"
  by code_simp

text \<open>Well-formed UTF-8: a sequence of encoded scalar values.\<close>

definition utf8_valid :: "bytes \<Rightarrow> bool" where
  "utf8_valid t \<longleftrightarrow> (\<exists>cps. t = concat (map uc_encode_codepoint cps) \<and> (\<forall>cp\<in>set cps. uc_encode_codepoint cp \<noteq> []))"

lemma utf8_valid_Nil: "utf8_valid []"
  unfolding utf8_valid_def by (rule exI [of _ "[]"]) simp

lemma utf8_valid_append: "utf8_valid a \<Longrightarrow> utf8_valid b \<Longrightarrow> utf8_valid (a @ b)"
  unfolding utf8_valid_def by (metis Un_iff concat_append map_append set_append)

lemma utf8_valid_encode: "utf8_valid (uc_encode_codepoint cp)"
  using utf8_valid_Nil unfolding utf8_valid_def
  by (cases "uc_encode_codepoint cp = []") (simp, intro exI [of _ "[cp]"], simp)

lemma utf8_valid_split:
  assumes "utf8_valid t" "t \<noteq> []"
  obtains cp r where "uc_encode_codepoint cp \<noteq> []" "t = uc_encode_codepoint cp @ r" "utf8_valid r"
proof -
  obtain cps where c: "t = concat (map uc_encode_codepoint cps)" "\<forall>cp\<in>set cps. uc_encode_codepoint cp \<noteq> []"
    using assms(1) by (auto simp: utf8_valid_def)
  with assms(2) obtain cp cps' where "cps = cp # cps'"
    by (cases cps) auto
  with c show thesis
    by (intro that [of cp "concat (map uc_encode_codepoint cps')"]) (auto simp: utf8_valid_def)
qed

lemma utf8_valid_bad: "pos < length t \<Longrightarrow> uc_decode_codepoint t pos = UC_BAD \<Longrightarrow> \<not> utf8_valid (drop pos t)"
proof
  assume *: "pos < length t" "uc_decode_codepoint t pos = UC_BAD" "utf8_valid (drop pos t)"
  then obtain cp r where "uc_encode_codepoint cp \<noteq> []" "drop pos t = uc_encode_codepoint cp @ r"
    using utf8_valid_split [of "drop pos t"] by (metis drop_eq_Nil not_le)
  from uc_decode_at [OF this] *(2) uc_encode_FFFD show False
    by (auto simp: UC_BAD_def)
qed

lemma utf8_valid_good:
  assumes "uc_encode_codepoint cp \<noteq> []"
  shows "utf8_valid (uc_encode_codepoint cp @ r) \<longleftrightarrow> utf8_valid r"
proof
  assume "utf8_valid (uc_encode_codepoint cp @ r)"
  then obtain cp' r' where *: "uc_encode_codepoint cp' \<noteq> []"
    "uc_encode_codepoint cp @ r = uc_encode_codepoint cp' @ r'" "utf8_valid r'"
    using utf8_valid_split [of "uc_encode_codepoint cp @ r"] assms by auto
  have "cp = cp'"
    using uc_decode_encode [OF assms, of r] uc_decode_encode [OF *(1), of r'] *(2) by simp
  with * show "utf8_valid r" by simp
qed (simp add: utf8_valid_append utf8_valid_encode)

lemma uc_encode_ascii:
  assumes "uc_encode_codepoint cp \<noteq> []"
  shows "(\<forall>b\<in>set (uc_encode_codepoint cp). b < 0x80) \<longleftrightarrow> cp < 0x80"
proof (cases "cp < 0x80")
  case True
  then have "unat (ucast cp :: byte) < 128"
    by (simp add: word_nat word_less_nat_alt)
  with True show ?thesis
    by (simp add: uc_encode_codepoint_def utf8_tests)
next
  case False
  have "unat (0x80 OR ucast (w AND 0x3F :: u32) :: byte) \<ge> 128" for w
    by (simp add: utf8_cont_byte)
  then have "\<not> (0x80 OR ucast (w AND 0x3F :: u32) :: byte) < 0x80" for w
    unfolding utf8_tests by (simp add: not_less)
  with False assms show ?thesis
    unfolding uc_encode_codepoint_def by (auto split: if_split_asm)
qed

lemma uc_scan_from_correct:
  "(uc_scan_from t pos saw \<noteq> UC_SCAN_INVALID \<longleftrightarrow> utf8_valid (drop pos t)) \<and>
   (uc_scan_from t pos saw = UC_SCAN_ASCII \<longleftrightarrow> \<not> saw \<and> (\<forall>b\<in>set (drop pos t). b < 0x80))"
proof (induction t pos saw rule: uc_scan_from.induct)
  case (1 t pos saw)
  show ?case
  proof (cases t pos rule: uc_decode_cases)
    case past
    then show ?thesis
      by (subst (1 2) uc_scan_from.simps) (simp add: utf8_valid_Nil)
  next
    case bad
    show ?thesis
    proof (cases "length t \<le> pos")
      case False
      have "\<exists>b\<in>set (drop pos t). \<not> b < 0x80"
      proof (rule bexI [of _ "t ! pos"])
        show "\<not> t ! pos < 0x80"
          using bad False by (auto simp: uc_decode_codepoint_def UC_BAD_def word_unat_eq_iff word_nat utf8_tests)
      qed (use False in \<open>simp add: Cons_nth_drop_Suc [symmetric]\<close>)
      with False bad utf8_valid_bad [of pos t] show ?thesis
        by (subst (1 2) uc_scan_from.simps) (simp add: UC_BAD_def not_le)
    qed (subst (1 2) uc_scan_from.simps, simp add: utf8_valid_Nil)
  next
    case (good cp)
    let ?n = "length (uc_encode_codepoint cp)"
    have nb: "\<not> (cp = 0xFFFD \<and> ?n = Suc 0)"
      using uc_encode_FFFD by auto
    have "uc_scan_from t pos saw = uc_scan_from t (pos + ?n) (saw \<or> 0x80 \<le> cp)"
      using good nb by (subst uc_scan_from.simps) (auto simp: Let_def)
    with 1 [of "\<lparr>ci_cp = cp, ci_len = ?n\<rparr>"] good nb utf8_valid_good [OF good(1)]
      uc_encode_ascii [OF good(1)] show ?thesis
      by (simp add: ball_Un not_less not_le)
  qed
qed

subsection \<open>The byte-to-unicode table is a bijection\<close>

definition bu_cp :: "nat \<Rightarrow> nat" where
  "bu_cp b = (if bu_printable b then b else 256 + length (filter (\<lambda>c. \<not> bu_printable c) [0..<b]))"

lemma bu_count_mono:
  "a \<le> b \<Longrightarrow> length (filter (\<lambda>c. \<not> bu_printable c) [0..<a]) \<le> length (filter (\<lambda>c. \<not> bu_printable c) [0..<b])"
  by (metis filter_append le_add1 length_append upt_add_eq_append zero_le le_Suc_ex)

lemma bu_count_256: "length (filter (\<lambda>c. \<not> bu_printable c) [0..<256]) = 68"
proof -
  have "set (filter (\<lambda>c. \<not> bu_printable c) [0..<256]) = {..<33} \<union> {127..<161} \<union> {173}"
    by (auto simp: bu_printable_def)
  moreover have "card ({..<33} \<union> {127..<161} \<union> {173 :: nat}) = 68"
    by (subst card_Un_disjoint; simp add: disjoint_iff)+
  ultimately show ?thesis
    by (metis distinct_card distinct_filter distinct_upt)
qed

lemma bu_printable_lt: "bu_printable b \<Longrightarrow> b < 256"
  by (auto simp: bu_printable_def)

lemma bu_count_lt:
  assumes "b < c" "\<not> bu_printable b"
  shows "length (filter (\<lambda>c. \<not> bu_printable c) [0..<b]) < length (filter (\<lambda>c. \<not> bu_printable c) [0..<c])"
  using bu_count_mono [of "Suc b" c] assms by simp

lemma bu_cp_lt: "b < 256 \<Longrightarrow> bu_cp b < 324"
  using bu_count_lt [of b 256] by (simp add: bu_cp_def bu_count_256)

lemma bu_cp_inj: "b < 256 \<Longrightarrow> c < 256 \<Longrightarrow> bu_cp b = bu_cp c \<Longrightarrow> b = c"
  using bu_count_lt [of b c] bu_count_lt [of c b]
  by (cases b c rule: linorder_cases) (auto simp: bu_cp_def split: if_splits)

text \<open>After \<open>k\<close> rounds.\<close>

definition bu_inv :: "nat \<Rightarrow> nat \<times> uc_bytes_unicode \<Rightarrow> bool" where
  "bu_inv k s \<longleftrightarrow> (case s of (n, t) \<Rightarrow>
     n = 256 + length (filter (\<lambda>c. \<not> bu_printable c) [0..<k]) \<and>
     length (byte_to_cp t) = 256 \<and> length (cp_to_byte t) = 324 \<and>
     (\<forall>b<k. byte_to_cp t ! b = bu_cp b \<and> cp_to_byte t ! bu_cp b = b) \<and>
     (\<forall>c<324. (\<forall>b<k. bu_cp b \<noteq> c) \<longrightarrow> cp_to_byte t ! c = UINT16_MAX))"

lemma bu_inv_step:
  assumes "bu_inv k s" "k < 256"
  shows "bu_inv (Suc k) (bu_step k s)"
proof -
  obtain n t where s: "s = (n, t)"
    by (cases s)
  let ?t = "t\<lparr>byte_to_cp := (byte_to_cp t)[k := bu_cp k], cp_to_byte := (cp_to_byte t)[bu_cp k := k]\<rparr>"
  have "bu_step k s = (256 + length (filter (\<lambda>c. \<not> bu_printable c) [0..<Suc k]), ?t)"
    using assms(1) by (auto simp: s bu_inv_def bu_step_def bu_cp_def)
  moreover have ne: "bu_cp b \<noteq> bu_cp k" if "b < k" for b
    using bu_cp_inj [of b k] that assms(2) by auto
  have "byte_to_cp ?t ! b = bu_cp b \<and> cp_to_byte ?t ! bu_cp b = b" if "b < Suc k" for b
  proof (cases "b = k")
    case True
    with assms bu_cp_lt [OF assms(2)] show ?thesis
      by (simp add: s bu_inv_def)
  next
    case False
    with that assms(1) ne [of b] show ?thesis
      by (simp add: s bu_inv_def)
  qed
  moreover have "cp_to_byte ?t ! c = UINT16_MAX" if "c < 324" "\<forall>b<Suc k. bu_cp b \<noteq> c" for c
    using that assms(1) by (auto simp: s bu_inv_def)
  ultimately show ?thesis
    using assms(1) unfolding bu_inv_def s by simp
qed

lemma bu_inv_final:
  obtains n where "bu_inv 256 (n, uc_build_bytes_to_unicode)"
proof -
  let ?s0 = "(256, \<lparr>byte_to_cp = replicate 256 0,
      cp_to_byte = replicate UC_BYTES_UNICODE_REV_SIZE UINT16_MAX\<rparr>)"
  have "bu_inv k (fold bu_step [0..<k] ?s0)" if "k \<le> 256" for k
    using that
  proof (induction k)
    case 0
    show ?case
      by (simp add: bu_inv_def UC_BYTES_UNICODE_REV_SIZE_def)
  qed (simp add: bu_inv_step)
  from this [of 256] that show thesis
    unfolding uc_build_bytes_to_unicode_def by (metis order_refl prod.collapse)
qed

lemma bytes_unicode_facts:
  shows "length (byte_to_cp uc_build_bytes_to_unicode) = 256"
    and "length (cp_to_byte uc_build_bytes_to_unicode) = 324"
    and "b < 256 \<Longrightarrow> byte_to_cp uc_build_bytes_to_unicode ! b = bu_cp b"
    and "b < 256 \<Longrightarrow> cp_to_byte uc_build_bytes_to_unicode ! bu_cp b = b"
    and "c < 324 \<Longrightarrow> cp_to_byte uc_build_bytes_to_unicode ! c \<noteq> UINT16_MAX \<longleftrightarrow> (\<exists>b<256. bu_cp b = c)"
proof -
  obtain n where I: "bu_inv 256 (n, uc_build_bytes_to_unicode)"
    by (rule bu_inv_final)
  then show "length (byte_to_cp uc_build_bytes_to_unicode) = 256"
    "length (cp_to_byte uc_build_bytes_to_unicode) = 324"
    "b < 256 \<Longrightarrow> byte_to_cp uc_build_bytes_to_unicode ! b = bu_cp b"
    "b < 256 \<Longrightarrow> cp_to_byte uc_build_bytes_to_unicode ! bu_cp b = b"
    by (simp_all add: bu_inv_def)
  show "cp_to_byte uc_build_bytes_to_unicode ! c \<noteq> UINT16_MAX \<longleftrightarrow> (\<exists>b<256. bu_cp b = c)" if "c < 324"
    using I that by (auto simp: bu_inv_def UINT16_MAX_def)
qed

subsection \<open>The binary search is membership in a range\<close>

lemma ranges_sorted_nth:
  "ranges_sorted r \<Longrightarrow> i < length r \<Longrightarrow> fst (r ! i) \<le> snd (r ! i) \<and> (\<forall>j. i < j \<and> j < length r \<longrightarrow> snd (r ! i) < fst (r ! j))"
proof (induction r arbitrary: i rule: ranges_sorted.induct)
  case (3 lo hi lo' hi' rs)
  have IH: "fst (((lo', hi') # rs) ! i) \<le> snd (((lo', hi') # rs) ! i) \<and>
      (\<forall>j. i < j \<and> j < length ((lo', hi') # rs) \<longrightarrow> snd (((lo', hi') # rs) ! i) < fst (((lo', hi') # rs) ! j))"
    if "i < length ((lo', hi') # rs)" for i
    using 3 that by auto
  show ?case
  proof (cases i)
    case 0
    have "hi < fst (((lo', hi') # rs) ! j)" if "j < length ((lo', hi') # rs)" for j
      using 3(2) IH [of 0] that by (cases j) (auto dest!: spec [of _ j])
    with 0 3(2) show ?thesis
      by (auto simp: nth_Cons split: nat.splits)
  next
    case (Suc k)
    have "snd (((lo', hi') # rs) ! k) < fst (((lo, hi) # (lo', hi') # rs) ! j)" if "Suc k < j" "j < Suc (Suc (length rs))" for j
      using IH [of k] that by (cases j) auto
    with Suc IH [of k] 3(3) show ?thesis
      by auto
  qed
qed auto

definition in_table :: "u32 \<Rightarrow> uc_range list \<Rightarrow> bool" where
  "in_table cp r \<longleftrightarrow> (\<exists>(lo, hi) \<in> set r. lo \<le> unat cp \<and> unat cp \<le> hi)"

lemma in_ranges_from_iff:
  "ranges_sorted r \<Longrightarrow> hi \<le> length r \<Longrightarrow>
    in_ranges_from cp r lo hi \<longleftrightarrow> (\<exists>i. lo \<le> i \<and> i < hi \<and> fst (r ! i) \<le> cp \<and> cp \<le> snd (r ! i))"
proof (induction cp r lo hi rule: in_ranges_from.induct)
  case (1 cp r lo hi)
  note assms = "1.prems"(1)
  let ?P = "\<lambda>i. fst (r ! i) \<le> cp \<and> cp \<le> snd (r ! i)"
  show ?case
  proof (cases "lo < hi")
    case True
    obtain m where m: "m = lo + (hi - lo) div 2" by simp
    then have mid: "lo \<le> m" "m < hi" "m < length r"
      using True "1.prems" by auto
    note unf = in_ranges_from.simps [of cp r lo hi, folded m, unfolded Let_def, folded m]
    consider "cp < fst (r ! m)" | "\<not> cp < fst (r ! m)" "snd (r ! m) < cp"
      | "\<not> cp < fst (r ! m)" "\<not> snd (r ! m) < cp" by blast
    then show ?thesis
    proof cases
      case 1
      have "\<not> ?P i" if "m \<le> i" "i < hi" for i
        using ranges_sorted_nth [OF assms mid(3)] that 1 "1.prems"
        by (cases "i = m") (auto dest!: spec [of _ i])
      then have "(\<exists>i. lo \<le> i \<and> i < m \<and> ?P i) \<longleftrightarrow> (\<exists>i. lo \<le> i \<and> i < hi \<and> ?P i)"
        using mid(2) by (intro ex_cong1) (meson less_trans not_le)
      moreover have "in_ranges_from cp r lo m = (\<exists>i. lo \<le> i \<and> i < m \<and> ?P i)"
        using "1.IH"(1) [OF True m 1 assms] mid by simp
      ultimately show ?thesis
        using True 1 by (simp add: unf)
    next
      case 2
      have "\<not> ?P i" if "i < m + 1" for i
        using ranges_sorted_nth [OF assms, of i] ranges_sorted_nth [OF assms mid(3)] that mid 2
        by (cases "i = m") (auto dest!: spec [of _ m])
      then have "(\<exists>i. m + 1 \<le> i \<and> i < hi \<and> ?P i) \<longleftrightarrow> (\<exists>i. lo \<le> i \<and> i < hi \<and> ?P i)"
        using mid(1) by (intro ex_cong1) (meson le_add1 le_trans not_le)
      moreover have "in_ranges_from cp r (m + 1) hi = (\<exists>i. m + 1 \<le> i \<and> i < hi \<and> ?P i)"
        using "1.IH"(2) [OF True m 2 assms] "1.prems" by simp
      ultimately show ?thesis
        using True 2 by (simp add: unf)
    next
      case 3
      with True mid show ?thesis
        by (auto simp: unf not_less)
    qed
  qed (subst in_ranges_from.simps, simp)
qed

lemma in_ranges_iff: "ranges_sorted r \<Longrightarrow> in_ranges cp r \<longleftrightarrow> in_table cp r"
  by (force simp: in_ranges_def in_table_def in_ranges_from_iff Bex_def in_set_conv_nth split_beta)

lemma ranges_sorted_ge:
  "ranges_sorted ((lo, hi) # rs) \<Longrightarrow> (l, h) \<in> set rs \<Longrightarrow> hi < l"
  using ranges_sorted_nth [of "(lo, hi) # rs" 0]
  by (force simp: in_set_conv_nth dest!: spec [of _ "Suc _"])

lemma in_table_small:
  assumes "ranges_sorted ((lo, hi) # rs)" "unat cp \<le> hi"
  shows "in_table cp ((lo, hi) # rs) \<longleftrightarrow> lo \<le> unat cp"
  using ranges_sorted_ge [OF assms(1)] assms(2) by (force simp: in_table_def)

lemma unat_ascii: "cp < (0x80 :: u32) \<Longrightarrow> unat cp < 128"
  by (simp add: word_less_nat_alt)

text \<open>The classifiers test ASCII before the table; the table has the same ASCII members.\<close>

lemma letter_table_split:
  obtains rs where "uc_letter_ranges = (0x41, 0x5A) # (0x61, 0x7A) # (0xAA, 0xAA) # rs"
  by (simp add: uc_letter_ranges_def)

lemma mark_table_split: obtains rs where "uc_mark_ranges = (0x300, 0x36F) # rs"
  by (simp add: uc_mark_ranges_def)

lemma number_table_split: obtains rs where "uc_number_ranges = (0x30, 0x39) # (0xB2, 0xB3) # rs"
  by (simp add: uc_number_ranges_def)

lemma ranges_sorted_Cons: "ranges_sorted (r # rs) \<Longrightarrow> ranges_sorted rs"
  by (cases "r # rs" rule: ranges_sorted.cases) auto

lemma in_table_Cons: "in_table cp ((lo, hi) # rs) \<longleftrightarrow> lo \<le> unat cp \<and> unat cp \<le> hi \<or> in_table cp rs"
  by (auto simp: in_table_def)

lemma in_table_below:
  "ranges_sorted ((lo, hi) # rs) \<Longrightarrow> unat cp < lo \<Longrightarrow> \<not> in_table cp ((lo, hi) # rs)"
  using ranges_sorted_nth [of "(lo, hi) # rs" 0] by (subst in_table_small) auto

lemma ascii_classes:
  assumes "cp < (0x80 :: u32)"
  shows "in_table cp uc_letter_ranges \<longleftrightarrow> (0x41 \<le> cp \<and> cp \<le> 0x5A) \<or> (0x61 \<le> cp \<and> cp \<le> 0x7A)"
    and "\<not> in_table cp uc_mark_ranges"
    and "in_table cp uc_number_ranges \<longleftrightarrow> 0x30 \<le> cp \<and> cp \<le> 0x39"
proof -
  note u = unat_ascii [OF assms]
  obtain ls where L: "uc_letter_ranges = (0x41, 0x5A) # (0x61, 0x7A) # (0xAA, 0xAA) # ls"
    by (rule letter_table_split)
  obtain ms where M: "uc_mark_ranges = (0x300, 0x36F) # ms"
    by (rule mark_table_split)
  obtain ns where N: "uc_number_ranges = (0x30, 0x39) # (0xB2, 0xB3) # ns"
    by (rule number_table_split)
  have "\<not> in_table cp ((0xAA, 0xAA) # ls)"
    by (rule in_table_below) (use u letter_ranges_sorted L ranges_sorted_Cons in \<open>simp_all, metis\<close>)
  then show "in_table cp uc_letter_ranges \<longleftrightarrow> (0x41 \<le> cp \<and> cp \<le> 0x5A) \<or> (0x61 \<le> cp \<and> cp \<le> 0x7A)"
    using u by (simp add: L in_table_Cons word_le_nat_alt)
  show "\<not> in_table cp uc_mark_ranges"
    unfolding M by (rule in_table_below) (use u mark_ranges_sorted M in simp_all)
  have "\<not> in_table cp ((0xB2, 0xB3) # ns)"
    by (rule in_table_below) (use u number_ranges_sorted N ranges_sorted_Cons in \<open>simp_all, metis\<close>)
  then show "in_table cp uc_number_ranges \<longleftrightarrow> 0x30 \<le> cp \<and> cp \<le> 0x39"
    using u by (simp add: N in_table_Cons word_le_nat_alt)
qed

subsection \<open>Properties\<close>

text \<open>C17. The UTF-8 decoder and encoder are inverse: the decoder accepts exactly the sequences the
  encoder writes, of the codepoint it reports and with that length, everything else being U+FFFD
  of length 1; and the encoder writes a sequence exactly for the Unicode scalar values.\<close>

theorem utf8_codec:
  "(uc_decode_codepoint text pos = \<lparr>ci_cp = cp, ci_len = n\<rparr> \<and> n \<noteq> 0 \<and> \<not> (cp = 0xFFFD \<and> n = 1)
     \<longleftrightarrow> uc_encode_codepoint cp \<noteq> [] \<and> n = length (uc_encode_codepoint cp) \<and>
         take n (drop pos text) = uc_encode_codepoint cp) \<and>
   (uc_encode_codepoint cp \<noteq> [] \<longleftrightarrow> cp \<le> 0x10FFFF \<and> (cp < 0xD800 \<or> 0xDFFF < cp))"
proof -
  have bad: "length (uc_encode_codepoint 0xFFFD) = 3"
    by code_simp
  have 1: "uc_decode_codepoint text pos = \<lparr>ci_cp = cp, ci_len = n\<rparr> \<and> n \<noteq> 0 \<and> \<not> (cp = 0xFFFD \<and> n = 1)"
    if "uc_encode_codepoint cp \<noteq> []" "n = length (uc_encode_codepoint cp)"
      "take n (drop pos text) = uc_encode_codepoint cp"
    using that uc_decode_encode [OF that(1), of "drop n (drop pos text)"] bad
    by (subst uc_decode_drop) (metis append_take_drop_id length_0_conv numeral_eq_one_iff semiring_norm(84))
  have 2: "uc_encode_codepoint cp \<noteq> [] \<and> n = length (uc_encode_codepoint cp) \<and>
      take n (drop pos text) = uc_encode_codepoint cp"
    if "uc_decode_codepoint text pos = \<lparr>ci_cp = cp, ci_len = n\<rparr>" "n \<noteq> 0" "\<not> (cp = 0xFFFD \<and> n = 1)"
    using uc_encode_decode [OF that(1) [unfolded uc_decode_drop [of "text" pos]] that(2,3)] that(2) by auto
  have 3: "uc_encode_codepoint cp \<noteq> [] \<longleftrightarrow> cp \<le> 0x10FFFF \<and> (cp < 0xD800 \<or> 0xDFFF < cp)"
    by (auto simp: uc_encode_codepoint_def word_less_nat_alt word_le_nat_alt)
  from 1 2 3 show ?thesis
    by blast
qed

text \<open>A decode step inside the text reports a length between 1 and 4 that does not pass the end of
  the text, so every scan built on it advances and stays inside the buffer.\<close>

theorem utf8_decode_bounds:
  assumes "pos < length t"
  shows "1 \<le> ci_len (uc_decode_codepoint t pos) \<and> ci_len (uc_decode_codepoint t pos) \<le> 4 \<and>
    pos + ci_len (uc_decode_codepoint t pos) \<le> length t"
  using uc_decode_bounds [OF assms] by blast

theorem utf8_decode_bounds_witness:
  "ci_len (uc_decode_codepoint [0xE2, 0x96, 0x81, 0x41] 0) = 3 \<and>
   3 + ci_len (uc_decode_codepoint [0xE2, 0x96, 0x81, 0x41] 3) \<le> 4"
proof
  show "ci_len (uc_decode_codepoint [0xE2, 0x96, 0x81, 0x41] 0) = 3"
    by code_simp
  show "3 + ci_len (uc_decode_codepoint [0xE2, 0x96, 0x81, 0x41] 3) \<le> 4"
    using utf8_decode_bounds [of 3 "[0xE2, 0x96, 0x81, 0x41]"] by simp
qed

text \<open>C18. The validity scan: on a text of at most \<open>UINT32_MAX\<close> bytes it answers ASCII exactly
  when every byte is below 0x80, and INVALID exactly when the text is not a sequence of encoded
  Unicode scalar values.\<close>

theorem utf8_scan_correct:
  assumes "length data \<le> 4294967295"
  shows "(uc_utf8_scan data = UC_SCAN_ASCII \<longleftrightarrow> (\<forall>b\<in>set data. b < 0x80)) \<and>
    (uc_utf8_scan data = UC_SCAN_INVALID \<longleftrightarrow> \<not> utf8_valid data)"
  using uc_scan_from_correct [of data 0 False] assms
  by (auto simp: uc_utf8_scan_def utf8_valid_Nil)

theorem utf8_scan_correct_witness:
  "uc_utf8_scan [0xC3, 0xA9, 0x41] = UC_SCAN_VALID \<and> \<not> utf8_valid [0xC3]"
proof
  have "uc_scan_from [0xC3, 0xA9, 0x41] 0 False = UC_SCAN_VALID" "uc_scan_from [0xC3] 0 False = UC_SCAN_INVALID"
    by code_simp+
  then have 1: "uc_utf8_scan [0xC3, 0xA9, 0x41] = UC_SCAN_VALID" "uc_utf8_scan [0xC3] = UC_SCAN_INVALID"
    by (simp_all add: uc_utf8_scan_def)
  then show "uc_utf8_scan [0xC3, 0xA9, 0x41] = UC_SCAN_VALID"
    by simp
  show "\<not> utf8_valid [0xC3]"
    using utf8_scan_correct [of "[0xC3]"] 1(2) by simp
qed

text \<open>C19. The classifiers are membership in the tables: for every codepoint, ASCII or not, the
  binary search finds a letter, a mark or a number exactly when some range of the table contains
  the codepoint, so the ASCII shortcuts agree with the tables.\<close>

theorem uc_classes_table:
  "(uc_is_letter cp \<longleftrightarrow> (\<exists>(lo, hi) \<in> set uc_letter_ranges. lo \<le> unat cp \<and> unat cp \<le> hi)) \<and>
   (uc_is_mark cp \<longleftrightarrow> (\<exists>(lo, hi) \<in> set uc_mark_ranges. lo \<le> unat cp \<and> unat cp \<le> hi)) \<and>
   (uc_is_number cp \<longleftrightarrow> (\<exists>(lo, hi) \<in> set uc_number_ranges. lo \<le> unat cp \<and> unat cp \<le> hi))"
proof -
  have "uc_is_letter cp \<longleftrightarrow> in_table cp uc_letter_ranges"
    using ascii_classes(1) [of cp] in_ranges_iff [OF letter_ranges_sorted, of cp]
    by (simp only: uc_is_letter_def split: if_splits) blast
  moreover have "uc_is_mark cp \<longleftrightarrow> in_table cp uc_mark_ranges"
    using ascii_classes(2) [of cp] in_ranges_iff [OF mark_ranges_sorted, of cp]
    by (simp only: uc_is_mark_def split: if_splits) blast
  moreover have "uc_is_number cp \<longleftrightarrow> in_table cp uc_number_ranges"
    using ascii_classes(3) [of cp] in_ranges_iff [OF number_ranges_sorted, of cp]
    by (simp only: uc_is_number_def split: if_splits) blast
  ultimately show ?thesis
    by (simp only: in_table_def)
qed

text \<open>C20. The GPT-2 byte table is a bijection between the 256 bytes and 256 codepoints below 324:
  the reverse array undoes the forward array, and its other entries are unmapped.\<close>

theorem bytes_to_unicode_bijective:
  "length (byte_to_cp uc_build_bytes_to_unicode) = 256 \<and>
   length (cp_to_byte uc_build_bytes_to_unicode) = UC_BYTES_UNICODE_REV_SIZE \<and>
   (\<forall>b<256. byte_to_cp uc_build_bytes_to_unicode ! b < UC_BYTES_UNICODE_REV_SIZE \<and>
      cp_to_byte uc_build_bytes_to_unicode ! (byte_to_cp uc_build_bytes_to_unicode ! b) = b) \<and>
   (\<forall>c<UC_BYTES_UNICODE_REV_SIZE. cp_to_byte uc_build_bytes_to_unicode ! c = UINT16_MAX \<or>
      byte_to_cp uc_build_bytes_to_unicode ! (cp_to_byte uc_build_bytes_to_unicode ! c) = c)"
proof -
  let ?u = uc_build_bytes_to_unicode
  have "byte_to_cp ?u ! b < 324 \<and> cp_to_byte ?u ! (byte_to_cp ?u ! b) = b" if "b < 256" for b
    using that by (simp add: bytes_unicode_facts bu_cp_lt)
  moreover have "cp_to_byte ?u ! c = UINT16_MAX \<or> byte_to_cp ?u ! (cp_to_byte ?u ! c) = c" if "c < 324" for c
    using bytes_unicode_facts(5) [OF that] by (auto simp: bytes_unicode_facts)
  ultimately show ?thesis
    unfolding UC_BYTES_UNICODE_REV_SIZE_def using bytes_unicode_facts(1,2) by blast
qed

theorem bytes_to_unicode_bijective_witness:
  "byte_to_cp uc_build_bytes_to_unicode ! 65 < UC_BYTES_UNICODE_REV_SIZE \<and>
   cp_to_byte uc_build_bytes_to_unicode ! (byte_to_cp uc_build_bytes_to_unicode ! 65) = 65"
  using bytes_to_unicode_bijective by simp

end
