(* ===== verification/Pretok.thy ===== *)
theory Pretok
  imports Unicode
begin

text \<open>
  GPT-2 pre-tokenization of \<open>src/model/tokenizer.c\<close>: the hand-written matchers of the
  pre-tokenizer pattern and the loop that cuts the input into slices. The slice array of the
  scratch is the list of slices written so far with its capacity as an argument. Inputs longer
  than \<open>INT32_MAX\<close> are refused, so the 32-bit positions never wrap and are numbers here.
\<close>

record pretok_slice =
  ps_off :: nat
  ps_len :: nat

subsection \<open>The matchers\<close>

text \<open>Pattern 1. Each matcher returns the end of the match, or \<open>i\<close> when there is none.\<close>

definition match_contraction :: "bytes \<Rightarrow> nat \<Rightarrow> nat" where
  "match_contraction text i =
     (if text ! i \<noteq> 0x27 \<or> length text \<le> i + 1 then i
      else let nxt = (text ! (i + 1)) OR 0x20 in
      if nxt = 0x73 \<or> nxt = 0x74 \<or> nxt = 0x6D \<or> nxt = 0x64 then i + 2
      else if i + 2 < length text
      then let nxt2 = (text ! (i + 2)) OR 0x20 in
           if (nxt = 0x72 \<and> nxt2 = 0x65) \<or> (nxt = 0x76 \<and> nxt2 = 0x65) \<or> (nxt = 0x6C \<and> nxt2 = 0x6C)
           then i + 3 else i
      else i)"

function scan_letter_mark_run :: "bytes \<Rightarrow> nat \<Rightarrow> nat" where
  "scan_letter_mark_run text fin =
     (if fin < length text
      then let c = uc_decode_codepoint text fin in
           if \<not> uc_is_letter_or_mark (ci_cp c) then fin
           else scan_letter_mark_run text (fin + ci_len c)
      else fin)"
  by pat_completeness auto
termination
  by (relation "measure (\<lambda>(text, fin). length text - fin)")
    (auto simp: uc_decode_len_pos intro!: diff_less_mono2)

text \<open>Pattern 2; \<open>first\<close> is the codepoint at \<open>i\<close>, which is not a number.\<close>

definition match_letters_run :: "bytes \<Rightarrow> nat \<Rightarrow> uc_cp_info \<Rightarrow> nat" where
  "match_letters_run text i first =
     (if uc_is_letter_or_mark (ci_cp first) then scan_letter_mark_run text (i + ci_len first)
      else if ci_cp first \<noteq> 0x0D \<and> ci_cp first \<noteq> 0x0A
      then let after_opt = i + ci_len first;
               fin = scan_letter_mark_run text after_opt
           in if after_opt < fin then fin else i
      else i)"

text \<open>The loops of patterns 4 to 7 take \<open>first\<close>, the codepoint already decoded at \<open>i\<close>, in place of
  decoding at \<open>i\<close> again, which is the same value.\<close>

text \<open>Pattern 4: the punctuation run from \<open>fin\<close>, then the newlines after it.\<close>

definition is_punct_cp :: "u32 \<Rightarrow> bool" where
  "is_punct_cp cp \<longleftrightarrow> \<not> (uc_is_whitespace_cp cp \<or> uc_is_letter_or_mark cp \<or> uc_is_number cp)"

function scan_punct_run :: "bytes \<Rightarrow> nat \<Rightarrow> nat" where
  "scan_punct_run text fin =
     (if fin < length text
      then let c = uc_decode_codepoint text fin in
           if \<not> is_punct_cp (ci_cp c) then fin
           else scan_punct_run text (fin + ci_len c)
      else fin)"
  by pat_completeness auto
termination
  by (relation "measure (\<lambda>(text, fin). length text - fin)")
    (auto simp: uc_decode_len_pos intro!: diff_less_mono2)

function scan_newlines :: "bytes \<Rightarrow> nat \<Rightarrow> nat" where
  "scan_newlines text fin =
     (if fin < length text \<and> (text ! fin = 0x0D \<or> text ! fin = 0x0A) then scan_newlines text (fin + 1)
      else fin)"
  by pat_completeness auto
termination
  by (relation "measure (\<lambda>(text, fin). length text - fin)") auto

definition match_space_punct :: "bytes \<Rightarrow> nat \<Rightarrow> nat" where
  "match_space_punct text i =
     (let p = (if text ! i = 0x20 then i + 1 else i);
          fin = scan_punct_run text p
      in if fin = p then i else scan_newlines text fin)"

text \<open>Patterns 5, 6 and 7: the whitespace run with the start of its last codepoint and the end of
  its last newline (0 when it has none).\<close>

function scan_ws_run :: "bytes \<Rightarrow> nat \<times> nat \<times> nat \<Rightarrow> nat \<times> nat \<times> nat" where
  "scan_ws_run text (fin, last_cp, nl_end) =
     (if fin < length text
      then let c = uc_decode_codepoint text fin in
           if \<not> uc_is_whitespace_cp (ci_cp c) then (fin, last_cp, nl_end)
           else scan_ws_run text
                  (fin + ci_len c, fin,
                   if ci_cp c = 0x0D \<or> ci_cp c = 0x0A then fin + ci_len c else nl_end)
      else (fin, last_cp, nl_end))"
  by pat_completeness auto
termination
  by (relation "measure (\<lambda>(text, fin, _). length text - fin)")
    (auto simp: uc_decode_len_pos intro!: diff_less_mono2)

definition match_ws_run :: "bytes \<Rightarrow> nat \<Rightarrow> nat" where
  "match_ws_run text i =
     (case scan_ws_run text (i, i, 0) of (fin, last_cp, nl_end) \<Rightarrow>
        if fin = i then i
        else if nl_end \<noteq> 0 then nl_end
        else if fin = length text then fin
        else if i < last_cp then last_cp
        else fin)"

declare scan_letter_mark_run.simps [simp del] scan_punct_run.simps [simp del]
  scan_newlines.simps [simp del] scan_ws_run.simps [simp del]

text \<open>The end the patterns find at \<open>i\<close>, in the order the loop tries them.\<close>

definition pretok_match :: "bytes \<Rightarrow> nat \<Rightarrow> uc_cp_info \<Rightarrow> nat" where
  "pretok_match text i first =
     (let fin = match_contraction text i;
          fin = (if fin = i
                 then (if uc_is_number (ci_cp first) then i + ci_len first
                       else match_letters_run text i first)
                 else fin);
          fin = (if fin = i then match_space_punct text i else fin);
          fin = (if fin = i then match_ws_run text i else fin)
      in fin)"

subsection \<open>Every matcher stays in the text and moves forward\<close>

lemma match_contraction_bounds:
  "i < length text \<Longrightarrow> i \<le> match_contraction text i \<and> match_contraction text i \<le> length text"
  by (auto simp: match_contraction_def Let_def)

lemma scan_letter_mark_run_bounds:
  "fin \<le> length text \<Longrightarrow> fin \<le> scan_letter_mark_run text fin \<and> scan_letter_mark_run text fin \<le> length text"
proof (induction "text" fin rule: scan_letter_mark_run.induct)
  case (1 t fin)
  then show ?case
    using uc_decode_bounds(3) [of fin t]
    by (subst (1 2) scan_letter_mark_run.simps) (force simp: Let_def)
qed

lemma scan_punct_run_bounds:
  "fin \<le> length text \<Longrightarrow> fin \<le> scan_punct_run text fin \<and> scan_punct_run text fin \<le> length text"
proof (induction "text" fin rule: scan_punct_run.induct)
  case (1 t fin)
  then show ?case
    using uc_decode_bounds(3) [of fin t]
    by (subst (1 2) scan_punct_run.simps) (force simp: Let_def)
qed

lemma scan_newlines_bounds:
  "fin \<le> length text \<Longrightarrow> fin \<le> scan_newlines text fin \<and> scan_newlines text fin \<le> length text"
proof (induction "text" fin rule: scan_newlines.induct)
  case (1 t fin)
  then show ?case
    by (subst (1 2) scan_newlines.simps) force
qed

definition ws_inv :: "bytes \<Rightarrow> nat \<Rightarrow> nat \<times> nat \<times> nat \<Rightarrow> bool" where
  "ws_inv t i s \<longleftrightarrow> (case s of (fin, l, n) \<Rightarrow>
     i \<le> fin \<and> fin \<le> length t \<and> i \<le> l \<and> l \<le> fin \<and> (n = 0 \<or> i < n \<and> n \<le> fin))"

lemma scan_ws_run_inv: "ws_inv t i s \<Longrightarrow> ws_inv t i (scan_ws_run t s) \<and> fst s \<le> fst (scan_ws_run t s)"
proof (induction t s rule: scan_ws_run.induct)
  case (1 t fin l n)
  let ?c = "uc_decode_codepoint t fin"
  let ?s = "(fin + ci_len ?c, fin, if ci_cp ?c = 0x0D \<or> ci_cp ?c = 0x0A then fin + ci_len ?c else n)"
  show ?case
  proof (cases "fin < length t \<and> uc_is_whitespace_cp (ci_cp ?c)")
    case True
    then have "ws_inv t i ?s"
      using "1.prems" uc_decode_bounds [of fin t] by (auto simp: ws_inv_def)
    with "1.IH" [OF _ refl] True have "ws_inv t i (scan_ws_run t ?s) \<and> fst ?s \<le> fst (scan_ws_run t ?s)"
      by blast
    moreover have "scan_ws_run t (fin, l, n) = scan_ws_run t ?s"
      using True by (subst scan_ws_run.simps) (simp add: Let_def)
    ultimately show ?thesis
      by simp
  next
    case False
    then have "scan_ws_run t (fin, l, n) = (fin, l, n)"
      by (subst scan_ws_run.simps) (auto simp: Let_def)
    with "1.prems" show ?thesis
      by simp
  qed
qed

lemma match_ws_run_bounds:
  assumes "i < length text"
  shows "i \<le> match_ws_run text i \<and> match_ws_run text i \<le> length text"
    and "uc_is_whitespace_cp (ci_cp (uc_decode_codepoint text i)) \<Longrightarrow> i < match_ws_run text i"
proof -
  obtain f l n where r: "scan_ws_run text (i, i, 0) = (f, l, n)"
    by (metis prod_cases3)
  have inv: "ws_inv text i (i, i, 0)"
    using assms by (simp add: ws_inv_def)
  with scan_ws_run_inv [OF inv] r have I: "ws_inv text i (f, l, n)"
    by simp
  then show "i \<le> match_ws_run text i \<and> match_ws_run text i \<le> length text"
    by (auto simp: match_ws_run_def r ws_inv_def)
  assume ws: "uc_is_whitespace_cp (ci_cp (uc_decode_codepoint text i))"
  let ?c = "uc_decode_codepoint text i"
  let ?s = "(i + ci_len ?c, i, if ci_cp ?c = 0x0D \<or> ci_cp ?c = 0x0A then i + ci_len ?c else 0)"
  have "scan_ws_run text (i, i, 0) = scan_ws_run text ?s"
    using ws assms by (subst scan_ws_run.simps) (simp add: Let_def)
  moreover have "ws_inv text i ?s"
    using uc_decode_bounds [OF assms] by (auto simp: ws_inv_def)
  ultimately have "i + ci_len ?c \<le> f"
    using scan_ws_run_inv [of "text" i ?s] r by (metis fst_conv)
  with uc_decode_bounds(1) [OF assms] I show "i < match_ws_run text i"
    by (auto simp: match_ws_run_def r ws_inv_def)
qed

lemma match_letters_run_bounds:
  assumes "i < length text" "first = uc_decode_codepoint text i"
  shows "i \<le> match_letters_run text i first \<and> match_letters_run text i first \<le> length text"
    and "uc_is_letter_or_mark (ci_cp first) \<Longrightarrow> i < match_letters_run text i first"
  using uc_decode_bounds [OF assms(1)] scan_letter_mark_run_bounds [of "i + ci_len first" "text"] assms
  by (auto simp: match_letters_run_def Let_def)

lemma uc_decode_space: "i < length text \<Longrightarrow> text ! i = 0x20 \<Longrightarrow> ci_cp (uc_decode_codepoint text i) = 0x20"
  by (simp add: uc_decode_codepoint_def)

lemma uc_space_ws: "uc_is_whitespace_cp 0x20"
  by code_simp

lemma match_space_punct_bounds:
  assumes "i < length text"
  shows "i \<le> match_space_punct text i \<and> match_space_punct text i \<le> length text"
    and "is_punct_cp (ci_cp (uc_decode_codepoint text i)) \<Longrightarrow> i < match_space_punct text i"
proof -
  let ?p = "if text ! i = 0x20 then i + 1 else i"
  have r: "?p \<le> scan_punct_run text ?p" "scan_punct_run text ?p \<le> length text"
    using scan_punct_run_bounds [of ?p "text"] assms by auto
  show "i \<le> match_space_punct text i \<and> match_space_punct text i \<le> length text"
    using scan_newlines_bounds [OF r(2)] r assms by (auto simp: match_space_punct_def Let_def split: if_splits)
  let ?c = "uc_decode_codepoint text i"
  assume pc: "is_punct_cp (ci_cp ?c)"
  then have "text ! i \<noteq> 0x20"
    using uc_decode_space [OF assms] uc_space_ws by (auto simp: is_punct_cp_def)
  moreover have "scan_punct_run text i = scan_punct_run text (i + ci_len ?c)"
    using pc assms by (subst scan_punct_run.simps) (simp add: Let_def)
  moreover have "i + ci_len ?c \<le> scan_punct_run text (i + ci_len ?c)"
    using scan_punct_run_bounds [of "i + ci_len ?c" "text"] uc_decode_bounds(3) [OF assms] by blast
  ultimately show "i < match_space_punct text i"
    using scan_newlines_bounds [OF r(2)] uc_decode_bounds(1) [OF assms]
    by (simp add: match_space_punct_def Let_def)
qed

lemma pretok_match_bounds:
  assumes "i < length text"
  shows "i < pretok_match text i (uc_decode_codepoint text i) \<and>
    pretok_match text i (uc_decode_codepoint text i) \<le> length text"
proof -
  let ?c = "uc_decode_codepoint text i"
  consider "uc_is_number (ci_cp ?c)" | "uc_is_letter_or_mark (ci_cp ?c)"
    | "uc_is_whitespace_cp (ci_cp ?c)" | "is_punct_cp (ci_cp ?c)"
    by (auto simp: is_punct_cp_def)
  then show ?thesis
    using uc_decode_bounds [OF assms] match_contraction_bounds [OF assms]
      match_letters_run_bounds [OF assms refl] match_space_punct_bounds [OF assms] match_ws_run_bounds [OF assms]
    by cases (auto simp: pretok_match_def Let_def)
qed

subsection \<open>The loop\<close>

text \<open>The fallback of the loop keeps the scan moving if no pattern matched.\<close>

definition pretok_end :: "bytes \<Rightarrow> nat \<Rightarrow> nat" where
  "pretok_end text i =
     (let first = uc_decode_codepoint text i;
          fin = pretok_match text i first
      in if fin = i then i + ci_len first else fin)"

lemma pretok_end_bounds: "i < length text \<Longrightarrow> i < pretok_end text i \<and> pretok_end text i \<le> length text"
  using pretok_match_bounds [of i "text"] by (simp add: pretok_end_def Let_def)

function pretok_from :: "nat \<Rightarrow> bytes \<Rightarrow> nat \<Rightarrow> pretok_slice list \<Rightarrow> pretok_slice list option" where
  "pretok_from cap text i acc =
     (if i < length text
      then let fin = pretok_end text i in
           if cap \<le> length acc then None
           else pretok_from cap text fin (acc @ [\<lparr>ps_off = i, ps_len = fin - i\<rparr>])
      else Some acc)"
  by pat_completeness auto
termination
  by (relation "measure (\<lambda>(cap, text, i, acc). length text - i)")
    (use pretok_end_bounds in \<open>auto intro!: diff_less_mono2\<close>)

declare pretok_from.simps [simp del]

text \<open>\<open>None\<close> is the return value -1.\<close>

definition gpt2_pretokenize :: "nat \<Rightarrow> bytes \<Rightarrow> pretok_slice list option" where
  "gpt2_pretokenize cap input =
     (if INT_MAX < int (length input) then None else pretok_from cap input 0 [])"

definition slice_bytes :: "bytes \<Rightarrow> pretok_slice \<Rightarrow> bytes" where
  "slice_bytes input p = take (ps_len p) (drop (ps_off p) input)"

text \<open>Slices that follow one another from position \<open>i\<close> to position \<open>k\<close>.\<close>

fun slices_cover :: "nat \<Rightarrow> pretok_slice list \<Rightarrow> nat \<Rightarrow> bool" where
  "slices_cover i [] k = (i = k)"
| "slices_cover i (p # ps) k = (ps_off p = i \<and> 0 < ps_len p \<and> slices_cover (i + ps_len p) ps k)"

lemma slices_cover_snoc:
  "slices_cover i (ps @ [p]) k \<longleftrightarrow> slices_cover i ps (ps_off p) \<and> 0 < ps_len p \<and> k = ps_off p + ps_len p"
  by (induction ps arbitrary: i) auto

lemma slices_cover_concat:
  "slices_cover i ps k \<Longrightarrow> k \<le> length input \<Longrightarrow>
   i \<le> k \<and> concat (map (slice_bytes input) ps) = take (k - i) (drop i input)"
proof (induction ps arbitrary: i)
  case (Cons p ps)
  then have IH: "i + ps_len p \<le> k"
    "concat (map (slice_bytes input) ps) = take (k - (i + ps_len p)) (drop (i + ps_len p) input)"
    by auto
  then have "k - i = ps_len p + (k - (i + ps_len p))"
    by simp
  then have "take (k - i) (drop i input)
      = take (ps_len p) (drop i input) @ take (k - (i + ps_len p)) (drop (i + ps_len p) input)"
    by (simp only: take_add drop_drop add.commute)
  with Cons.prems IH show ?case
    by (simp add: slice_bytes_def [of input p])
qed simp

lemma pretok_from_cover:
  "slices_cover 0 acc i \<Longrightarrow> i \<le> length text \<Longrightarrow> length acc \<le> i \<Longrightarrow> length text \<le> cap \<Longrightarrow>
   \<exists>ps. pretok_from cap text i acc = Some ps \<and> slices_cover 0 ps (length text) \<and> length ps \<le> length text"
proof (induction cap "text" i acc rule: pretok_from.induct)
  case (1 cap t i acc)
  show ?case
  proof (cases "i < length t")
    case True
    let ?p = "\<lparr>ps_off = i, ps_len = pretok_end t i - i\<rparr>"
    have e: "i < pretok_end t i" "pretok_end t i \<le> length t"
      using pretok_end_bounds [OF True] by auto
    have n: "\<not> cap \<le> length acc"
      using True "1.prems" by simp
    have "slices_cover 0 (acc @ [?p]) (pretok_end t i)"
      using "1.prems"(1) e by (simp add: slices_cover_snoc)
    from "1.IH" [OF True refl n this e(2)] "1.prems" e show ?thesis
      using True n by (subst pretok_from.simps) (simp add: Let_def)
  next
    case False
    with "1.prems" show ?thesis
      by (subst pretok_from.simps) simp
  qed
qed

subsection \<open>Properties\<close>

lemma pretokenize_partition_facts:
  assumes "int (length input) \<le> INT_MAX" "length input \<le> cap"
  obtains ps where "gpt2_pretokenize cap input = Some ps" "slices_cover 0 ps (length input)"
    "concat (map (slice_bytes input) ps) = input" "length ps \<le> length input"
proof -
  obtain ps where ps: "pretok_from cap input 0 [] = Some ps" "slices_cover 0 ps (length input)"
    "length ps \<le> length input"
    using pretok_from_cover [of "[]" 0 input cap] assms(2) by auto
  with slices_cover_concat [OF ps(2)] assms(1) that show thesis
    by (simp add: gpt2_pretokenize_def)
qed

text \<open>C21. Pre-tokenization cuts the input into pieces without losing a byte: with the reserved
  capacity it never fails, the slices follow one another from the first byte to the last, none is
  empty, their bytes concatenate to the input, and there are at most as many as input bytes.\<close>

theorem pretokenize_partition:
  assumes "int (length input) \<le> INT_MAX" "length input \<le> cap"
  shows "\<exists>ps. gpt2_pretokenize cap input = Some ps \<and> slices_cover 0 ps (length input) \<and>
    concat (map (slice_bytes input) ps) = input \<and> length ps \<le> length input"
  using pretokenize_partition_facts [OF assms] by metis

theorem pretokenize_partition_witness:
  "gpt2_pretokenize 16 [0x49, 0x27, 0x6D, 0x20, 0x34, 0x32, 0x21, 0x0A] =
     Some [\<lparr>ps_off = 0, ps_len = 1\<rparr>, \<lparr>ps_off = 1, ps_len = 2\<rparr>, \<lparr>ps_off = 3, ps_len = 1\<rparr>,
           \<lparr>ps_off = 4, ps_len = 1\<rparr>, \<lparr>ps_off = 5, ps_len = 1\<rparr>, \<lparr>ps_off = 6, ps_len = 2\<rparr>] \<and>
   (\<exists>ps. gpt2_pretokenize 4 [0x20, 0x41, 0x42, 0x21] = Some ps)"
proof
  show "\<exists>ps. gpt2_pretokenize 4 [0x20, 0x41, 0x42, 0x21] = Some ps"
    using pretokenize_partition [of "[0x20, 0x41, 0x42, 0x21]" 4] by (auto simp: INT_MAX_def)
  show "gpt2_pretokenize 16 [0x49, 0x27, 0x6D, 0x20, 0x34, 0x32, 0x21, 0x0A] =
     Some [\<lparr>ps_off = 0, ps_len = 1\<rparr>, \<lparr>ps_off = 1, ps_len = 2\<rparr>, \<lparr>ps_off = 3, ps_len = 1\<rparr>,
           \<lparr>ps_off = 4, ps_len = 1\<rparr>, \<lparr>ps_off = 5, ps_len = 1\<rparr>, \<lparr>ps_off = 6, ps_len = 2\<rparr>]"
    by code_simp
qed

text \<open>The fallback of the pre-tokenizer loop is unreachable: at every position of every input
  one of the seven patterns matches at least one byte and the match ends inside the input.\<close>

theorem pretokenize_fallback_unreachable:
  assumes "i < length input"
  shows "i < pretok_match input i (uc_decode_codepoint input i) \<and>
    pretok_match input i (uc_decode_codepoint input i) \<le> length input"
  using pretok_match_bounds [OF assms] by blast

theorem pretokenize_fallback_unreachable_witness:
  "0 < pretok_match [0xFF, 0x20] 0 (uc_decode_codepoint [0xFF, 0x20] 0)"
  using pretokenize_fallback_unreachable [of 0 "[0xFF, 0x20]"] by simp

end
