(* ===== verification/BpeHeap.thy ===== *)
theory BpeHeap
  imports Prelude "HOL-Library.Multiset" "HOL-Library.Product_Lexorder"
begin

text \<open>
  The candidate heap of the BPE merge in \<open>src/model/tokenizer.c\<close>: a binary min-heap in an array.
  The model's list is the first \<open>heap_len\<close> entries of \<open>s->heap\<close>; indices and versions are numbers.
  \<open>locale priority_queue\<close> is what the merge loop relies on, proved here for the array heap.
\<close>

record bpe_cand =
  c_rank :: u32
  c_left :: nat
  c_right :: nat
  c_lver :: nat
  c_rver :: nat

definition bpe_cand_less :: "bpe_cand \<Rightarrow> bpe_cand \<Rightarrow> bool" where
  "bpe_cand_less a b =
     (if c_rank a \<noteq> c_rank b then c_rank a < c_rank b else c_left a < c_left b)"

subsection \<open>The loops of push and pop\<close>

function sift_up :: "bpe_cand list \<Rightarrow> nat \<Rightarrow> bpe_cand list" where
  "sift_up h i =
     (if 0 < i
      then let parent = (i - 1) div 2 in
           if \<not> bpe_cand_less (h ! i) (h ! parent) then h
           else sift_up (h[parent := h ! i, i := h ! parent]) parent
      else h)"
  by pat_completeness auto
termination
  by (relation "measure snd") auto

definition sift_child :: "bpe_cand list \<Rightarrow> nat \<Rightarrow> nat" where
  "sift_child h i =
     (let smallest = i; lc = 2 * i + 1; rc = 2 * i + 2;
          smallest = (if lc < length h \<and> bpe_cand_less (h ! lc) (h ! smallest) then lc else smallest);
          smallest = (if rc < length h \<and> bpe_cand_less (h ! rc) (h ! smallest) then rc else smallest)
      in smallest)"

function sift_down :: "bpe_cand list \<Rightarrow> nat \<Rightarrow> bpe_cand list" where
  "sift_down h i =
     (let smallest = sift_child h i in
      if smallest = i then h
      else sift_down (h[smallest := h ! i, i := h ! smallest]) smallest)"
  by pat_completeness auto
termination
  by (relation "measure (\<lambda>(h, i). length h - i)") (auto simp: sift_child_def Let_def split: if_splits)

declare sift_up.simps [simp del] sift_down.simps [simp del]

definition bpe_heap_push :: "bpe_cand list \<Rightarrow> bpe_cand \<Rightarrow> bpe_cand list" where
  "bpe_heap_push h c = sift_up (h @ [c]) (length h)"

text \<open>The last entry replaces the first, then sinks.\<close>

definition bpe_heap_pop :: "bpe_cand list \<Rightarrow> bpe_cand \<times> bpe_cand list" where
  "bpe_heap_pop h =
     (let top = h ! 0; len = length h - 1;
          h = take len (h[0 := h ! len])
      in (top, if h = [] then h else sift_down h 0))"

subsection \<open>The order\<close>

definition cand_key :: "bpe_cand \<Rightarrow> u32 \<times> nat" where
  "cand_key c = (c_rank c, c_left c)"

lemma bpe_cand_less_key: "bpe_cand_less a b \<longleftrightarrow> cand_key a < cand_key b"
  by (auto simp: bpe_cand_less_def cand_key_def less_prod_def)

definition par :: "nat \<Rightarrow> nat" where "par j = (j - 1) div 2"

lemma par_less: "0 < j \<Longrightarrow> par j < j"
  by (auto simp: par_def)

lemma par_children: "0 < j \<Longrightarrow> par j = i \<longleftrightarrow> j = 2 * i + 1 \<or> j = 2 * i + 2"
  by (auto simp: par_def)

definition heap_ok :: "bpe_cand list \<Rightarrow> bool" where
  "heap_ok h \<longleftrightarrow> (\<forall>j<length h. 0 < j \<longrightarrow> cand_key (h ! par j) \<le> cand_key (h ! j))"

lemma mset_swap_nth:
  "i < length h \<Longrightarrow> j < length h \<Longrightarrow> mset (h[i := h ! j, j := h ! i]) = mset h"
  by (rule mset_swap)

lemma heap_root_min:
  assumes "heap_ok h"
  shows "j < length h \<Longrightarrow> cand_key (h ! 0) \<le> cand_key (h ! j)"
proof (induction j rule: less_induct)
  case (less j)
  show ?case
  proof (cases "j = 0")
    case False
    then have "par j < j" by (simp add: par_less)
    with less have "cand_key (h ! 0) \<le> cand_key (h ! par j)"
      by simp
    also have "\<dots> \<le> cand_key (h ! j)"
      using assms less.prems False by (simp add: heap_ok_def)
    finally show ?thesis .
  qed simp
qed

text \<open>A heap everywhere but between \<open>i\<close> and its parent.\<close>

definition up_ok :: "bpe_cand list \<Rightarrow> nat \<Rightarrow> bool" where
  "up_ok h i \<longleftrightarrow> (\<forall>j<length h. 0 < j \<longrightarrow>
     (j \<noteq> i \<longrightarrow> cand_key (h ! par j) \<le> cand_key (h ! j)) \<and>
     (par j = i \<longrightarrow> 0 < i \<longrightarrow> cand_key (h ! par i) \<le> cand_key (h ! j)))"

lemma sift_up_correct:
  "i < length h \<Longrightarrow> up_ok h i \<Longrightarrow> heap_ok (sift_up h i) \<and> mset (sift_up h i) = mset h"
proof (induction h i rule: sift_up.induct)
  case (1 h i)
  show ?case
  proof (cases "0 < i \<and> cand_key (h ! i) < cand_key (h ! par i)")
    case True
    let ?p = "par i"
    let ?h = "h[?p := h ! i, i := h ! ?p]"
    have p: "?p < i" "?p < length h"
      using True 1(2) par_less [of i] by auto
    note up = 1(3) and \<open>i < length h\<close>
    have up': "up_ok ?h ?p"
      unfolding up_ok_def
    proof (intro allI impI conjI)
      fix j
      assume j: "j < length ?h" "0 < j"
      show "cand_key (?h ! par j) \<le> cand_key (?h ! j)" if "j \<noteq> ?p"
      proof (cases "j = i")
        case i: True
        with True p 1(2) show ?thesis
          by (simp add: order.strict_implies_order)
      next
        case False
        consider "par j = i" | "par j = ?p" | "par j \<noteq> i" "par j \<noteq> ?p" by blast
        then show ?thesis
        proof cases
          case 1
          with up j False that True p \<open>i < length h\<close> show ?thesis
            by (simp add: up_ok_def)
        next
          case 2
          with up j False have "cand_key (h ! ?p) \<le> cand_key (h ! j)"
            unfolding up_ok_def by (metis length_list_update)
          with 2 False that True p \<open>i < length h\<close> show ?thesis
            by simp
        next
          case 3
          with up j False that show ?thesis
            by (simp add: up_ok_def)
        qed
      qed
      show "cand_key (?h ! par ?p) \<le> cand_key (?h ! j)" if "par j = ?p" "0 < ?p"
      proof -
        have pp: "par ?p < ?p"
          using that(2) par_less by simp
        have "cand_key (h ! par ?p) \<le> cand_key (h ! ?p)"
          using 1(3) p that(2) unfolding up_ok_def by simp
        note up_par = this
        show ?thesis
        proof (cases "j = i")
          case True
          with up_par p pp that \<open>i < length h\<close> show ?thesis
            by simp
        next
          case False
          then have "cand_key (h ! ?p) \<le> cand_key (h ! j)"
            using up j that unfolding up_ok_def by (metis length_list_update)
          with up_par have "cand_key (h ! par ?p) \<le> cand_key (h ! j)"
            by (rule order_trans)
          moreover have "j \<noteq> ?p"
            using par_less [OF j(2)] that(1) by auto
          ultimately show ?thesis
            using False p pp that by simp
        qed
      qed
    qed
    have "sift_up h i = sift_up ?h ?p"
      using True by (subst sift_up.simps) (simp add: Let_def bpe_cand_less_key par_def)
    moreover have "heap_ok (sift_up ?h ?p) \<and> mset (sift_up ?h ?p) = mset ?h"
      by (rule "1.IH") (use True p up' in \<open>auto simp: bpe_cand_less_key par_def\<close>)
    moreover have "mset ?h = mset h"
      using p 1(2) by (simp add: mset_swap_nth)
    ultimately show ?thesis
      by simp
  next
    case False
    then have "sift_up h i = h"
      by (subst sift_up.simps) (auto simp: Let_def bpe_cand_less_key par_def)
    moreover have "heap_ok h"
      unfolding heap_ok_def
    proof (intro allI impI)
      fix j
      assume "j < length h" "0 < j"
      with 1(3) False show "cand_key (h ! par j) \<le> cand_key (h ! j)"
        unfolding up_ok_def by (cases "j = i") (auto simp: not_less)
    qed
    ultimately show ?thesis
      by simp
  qed
qed

text \<open>A heap everywhere but between \<open>i\<close> and its children.\<close>

definition down_ok :: "bpe_cand list \<Rightarrow> nat \<Rightarrow> bool" where
  "down_ok h i \<longleftrightarrow> (\<forall>j<length h. 0 < j \<longrightarrow>
     (par j \<noteq> i \<longrightarrow> cand_key (h ! par j) \<le> cand_key (h ! j)) \<and>
     (par j = i \<longrightarrow> 0 < i \<longrightarrow> cand_key (h ! par i) \<le> cand_key (h ! j)))"

lemma sift_child_min:
  assumes "i < length h"
  shows "sift_child h i < length h" "sift_child h i = i \<or> 0 < sift_child h i \<and> par (sift_child h i) = i"
    "cand_key (h ! sift_child h i) \<le> cand_key (h ! i)"
    "2 * i + 1 < length h \<Longrightarrow> cand_key (h ! sift_child h i) \<le> cand_key (h ! (2 * i + 1))"
    "2 * i + 2 < length h \<Longrightarrow> cand_key (h ! sift_child h i) \<le> cand_key (h ! (2 * i + 2))"
  using assms
  by (auto simp: sift_child_def Let_def par_def bpe_cand_less_key not_less
      intro: order.strict_implies_order order_trans order.strict_trans1)

lemma sift_child_le:
  assumes "i < length h" "j < length h" "0 < j" "par j = i"
  shows "cand_key (h ! sift_child h i) \<le> cand_key (h ! j)"
  using sift_child_min(4,5) [OF assms(1)] assms(2,4) par_children [OF assms(3), of i] by auto

lemma sift_down_correct:
  "i < length h \<Longrightarrow> down_ok h i \<Longrightarrow> heap_ok (sift_down h i) \<and> mset (sift_down h i) = mset h"
proof (induction h i rule: sift_down.induct)
  case (1 h i)
  let ?s = "sift_child h i"
  note s = sift_child_min [OF 1(2)]
  show ?case
  proof (cases "?s = i")
    case True
    then have "sift_down h i = h"
      by (subst sift_down.simps) (simp add: Let_def)
    moreover have "heap_ok h"
      unfolding heap_ok_def
    proof (intro allI impI)
      fix j
      assume "j < length h" "0 < j"
      with 1(3) sift_child_le [OF 1(2), of j] True show "cand_key (h ! par j) \<le> cand_key (h ! j)"
        unfolding down_ok_def by (cases "par j = i") auto
    qed
    ultimately show ?thesis
      by simp
  next
    case False
    let ?h = "h[?s := h ! i, i := h ! ?s]"
    have si: "0 < ?s" "par ?s = i" "i < ?s"
      using s(2) False par_less [of ?s] by auto
    have down: "down_ok ?h ?s"
      unfolding down_ok_def
    proof (intro allI impI conjI)
      fix j
      assume j: "j < length ?h" "0 < j"
      show "cand_key (?h ! par j) \<le> cand_key (?h ! j)" if "par j \<noteq> ?s"
      proof (cases "par j = i")
        case True
        then have "j \<noteq> i"
          using par_less [OF j(2)] by simp
        with True s(3) sift_child_le [OF 1(2), of j] j si 1(2) s(1) show ?thesis
          by (cases "j = ?s") (simp_all add: nth_list_update)
      next
        case False
        then have "j \<noteq> ?s"
          using si by auto
        show ?thesis
        proof (cases "j = i")
          case ji: True
          have "cand_key (h ! par i) \<le> cand_key (h ! ?s)"
            using 1(3) s(1) si ji j unfolding down_ok_def by auto
          with ji False that si s(1) 1(2) show ?thesis
            by (simp add: nth_list_update)
        next
          case ji: False
          with 1(3) j False that \<open>j \<noteq> ?s\<close> show ?thesis
            by (simp add: down_ok_def)
        qed
      qed
      show "cand_key (?h ! par ?s) \<le> cand_key (?h ! j)" if "par j = ?s"
      proof -
        have "j \<noteq> i" "j \<noteq> ?s"
          using that si par_less [OF j(2)] by auto
        with 1(3) j that si 1(2) s(1) show ?thesis
          unfolding down_ok_def by (auto simp: nth_list_update)
      qed
    qed
    have "sift_down h i = sift_down ?h ?s"
      using False by (subst sift_down.simps) (simp add: Let_def)
    moreover have "heap_ok (sift_down ?h ?s) \<and> mset (sift_down ?h ?s) = mset ?h"
      by (rule "1.IH") (use False down s(1) in auto)
    moreover have "mset ?h = mset h"
      using s(1) 1(2) by (simp add: mset_swap_nth)
    ultimately show ?thesis
      by simp
  qed
qed

subsection \<open>The interface the merge loop uses\<close>

locale priority_queue =
  fixes wf :: "'q \<Rightarrow> bool"
    and elems :: "'q \<Rightarrow> 'a multiset"
    and key :: "'a \<Rightarrow> 'k::linorder"
    and push :: "'q \<Rightarrow> 'a \<Rightarrow> 'q"
    and pop :: "'q \<Rightarrow> 'a \<times> 'q"
  assumes push_law: "wf q \<Longrightarrow> wf (push q x) \<and> elems (push q x) = elems q + {#x#}"
    and pop_law: "wf q \<Longrightarrow> elems q \<noteq> {#} \<Longrightarrow>
      wf (snd (pop q)) \<and> elems q = elems (snd (pop q)) + {#fst (pop q)#} \<and>
      (\<forall>y\<in>#elems q. key (fst (pop q)) \<le> key y)"
begin

lemma push_wf: "wf q \<Longrightarrow> wf (push q x)"
  by (simp add: push_law)

lemma push_elems: "wf q \<Longrightarrow> elems (push q x) = elems q + {#x#}"
  by (simp add: push_law)

lemma popE:
  assumes "wf q" "elems q \<noteq> {#}"
  obtains x q' where "pop q = (x, q')" "wf q'" "elems q = elems q' + {#x#}"
    "\<And>y. y \<in># elems q \<Longrightarrow> key x \<le> key y"
  using pop_law [OF assms] by (cases "pop q") auto

lemma size_pop:
  assumes "wf q" "elems q \<noteq> {#}" "pop q = (x, q')"
  shows "size (elems q) = Suc (size (elems q'))"
  using pop_law [OF assms(1,2)] assms(3) by simp

end

lemma heap_push_correct: "heap_ok h \<Longrightarrow> heap_ok (bpe_heap_push h c) \<and> mset (bpe_heap_push h c) = mset h + {#c#}"
proof -
  assume h: "heap_ok h"
  have "up_ok (h @ [c]) (length h)"
    using h par_less unfolding up_ok_def heap_ok_def
    by (auto simp: nth_append less_Suc_eq dest: order.strict_trans)
  with sift_up_correct [of "length h" "h @ [c]"] show ?thesis
    by (simp add: bpe_heap_push_def)
qed

lemma bpe_heap_pop_simps:
  "bpe_heap_pop [a] = (a, [])"
  "bpe_heap_pop (a # ys @ [z]) = (a, sift_down (z # ys) 0)"
  by (simp_all add: bpe_heap_pop_def nth_append Let_def)

lemma down_ok_root:
  assumes "heap_ok (a # ys @ [z])"
  shows "down_ok (z # ys) 0"
  unfolding down_ok_def
proof (intro allI impI conjI)
  fix j
  assume j: "j < length (z # ys)" "0 < j" "par j \<noteq> 0"
  then have "cand_key ((a # ys @ [z]) ! par j) \<le> cand_key ((a # ys @ [z]) ! j)"
    by (intro assms [unfolded heap_ok_def, rule_format]) simp_all
  moreover have "par j - 1 < length ys" "j - 1 < length ys"
    using j par_less [OF j(2)] by auto
  ultimately show "cand_key ((z # ys) ! par j) \<le> cand_key ((z # ys) ! j)"
    using j by (simp add: nth_Cons' nth_append)
qed simp

lemma heap_pop_correct:
  assumes "heap_ok h" "mset h \<noteq> {#}"
  shows "heap_ok (snd (bpe_heap_pop h)) \<and> mset h = mset (snd (bpe_heap_pop h)) + {#fst (bpe_heap_pop h)#} \<and>
    (\<forall>y\<in>#mset h. cand_key (fst (bpe_heap_pop h)) \<le> cand_key y)"
proof -
  obtain a hs where h: "h = a # hs"
    using assms(2) by (cases h) auto
  have le: "\<forall>y\<in>#mset h. cand_key a \<le> cand_key y"
    using heap_root_min [OF assms(1)] h by (fastforce simp: in_set_conv_nth)
  show ?thesis
  proof (cases hs rule: rev_cases)
    case Nil
    with h show ?thesis
      by (simp add: bpe_heap_pop_simps heap_ok_def)
  next
    case (snoc ys z)
    then have h': "h = a # ys @ [z]"
      using h by simp
    from sift_down_correct [OF _ down_ok_root, of z ys a] assms(1) h' le show ?thesis
      by (simp add: bpe_heap_pop_simps)
  qed
qed

interpretation bq: priority_queue heap_ok mset cand_key bpe_heap_push bpe_heap_pop
  by unfold_locales (rule heap_push_correct, assumption, rule heap_pop_correct)

end
