(* ===== verification/Bpe.thy ===== *)
theory Bpe
  imports Unicode BpeHeap TokMap
begin

text \<open>
  The tokenizer object and the byte-pair merge of \<open>src/model/tokenizer.c\<close>: a worklist of slices of
  the input kept as a doubly linked list in an array, and a heap of candidate pairs whose stale
  entries are recognised by version numbers. Byte positions and node indices are numbers (the code
  refuses inputs whose indices would not fit); the index -1 is \<open>None\<close>. The merge loop is bounded
  by the number of candidates it can pop; that bound is proved to suffice, and running out of it
  would be the value \<open>None\<close>.
\<close>

datatype tokenizer_type =
  TOKENIZER_UNKNOWN | TOKENIZER_BPE | TOKENIZER_WORDPIECE | TOKENIZER_SENTENCEPIECE_BPE

datatype norm_form = NORM_NONE | NORM_NFC | NORM_NFKC

record tokenizer =
  tk_type :: tokenizer_type
  tk_vocab :: str_u32_map
  tk_merges :: merge_map
  tk_special_tokens :: str_u32_map
  tk_added_special :: str_u32_map
  tk_id_to_token :: "bytes option list"
  tk_vocab_size :: int
  tk_bos_id :: int
  tk_eos_id :: int
  tk_unk_id :: int
  tk_norm_form :: norm_form
  tk_add_dummy_prefix :: bool
  tk_wp_prefix :: bytes
  tk_wp_cleanup :: bool
  tk_byte_fallback_ids :: "int list"
  tk_bytes_unicode :: uc_bytes_unicode

text \<open>Lookups; every probe of a table the loader can build returns (theory \<open>TokMap\<close>).\<close>

definition tok_rank :: "tokenizer \<Rightarrow> bytes \<Rightarrow> bytes \<Rightarrow> u32 option" where
  "tok_rank tok l r = the (merge_map_get (tk_merges tok) (l, r))"

definition map_id :: "str_u32_map \<Rightarrow> bytes \<Rightarrow> int option" where
  "map_id m key = map_option (\<lambda>v. c_int (uint v)) (the (str_u32_map_get m key))"

subsection \<open>The worklist\<close>

record bpe_node =
  nd_start :: nat
  nd_end :: nat
  nd_prev :: "nat option"
  nd_next :: "nat option"
  nd_ver :: nat

definition node_bytes :: "bytes \<Rightarrow> bpe_node \<Rightarrow> bytes" where
  "node_bytes input n = take (nd_end n - nd_start n) (drop (nd_start n) input)"

function bpe_split :: "bytes \<Rightarrow> nat \<Rightarrow> bpe_node list \<Rightarrow> bpe_node list" where
  "bpe_split input pos ns =
     (if pos < length input
      then let info = uc_decode_codepoint input pos; fin = pos + ci_len info; n = length ns in
           bpe_split input fin
             (ns @ [\<lparr>nd_start = pos, nd_end = fin,
                     nd_prev = (if n = 0 then None else Some (n - 1)),
                     nd_next = (if fin < length input then Some (n + 1) else None),
                     nd_ver = 0\<rparr>])
      else ns)"
  by pat_completeness auto
termination
  by (relation "measure (\<lambda>(input, pos, _). length input - pos)")
    (auto simp: uc_decode_len_pos intro!: diff_less_mono2)

declare bpe_split.simps [simp del]

definition bpe_push_cand ::
  "tokenizer \<Rightarrow> bytes \<Rightarrow> bpe_node list \<Rightarrow> bpe_cand list \<Rightarrow> nat \<Rightarrow> nat \<Rightarrow> bpe_cand list" where
  "bpe_push_cand tok input ns heap l r =
     (case tok_rank tok (node_bytes input (ns ! l)) (node_bytes input (ns ! r)) of
        None \<Rightarrow> heap
      | Some rank \<Rightarrow> bpe_heap_push heap
          \<lparr>c_rank = rank, c_left = l, c_right = r, c_lver = nd_ver (ns ! l), c_rver = nd_ver (ns ! r)\<rparr>)"

text \<open>Merge \<open>r\<close> into \<open>l\<close>, in the order of the assignments.\<close>

definition bpe_merge_nodes :: "bpe_node list \<Rightarrow> nat \<Rightarrow> nat \<Rightarrow> bpe_node list" where
  "bpe_merge_nodes ns l r =
     (let ns = ns[l := (ns ! l)\<lparr>nd_end := nd_end (ns ! r)\<rparr>];
          ns = ns[l := (ns ! l)\<lparr>nd_ver := nd_ver (ns ! l) + 1\<rparr>];
          ns = ns[r := (ns ! r)\<lparr>nd_ver := nd_ver (ns ! r) + 1\<rparr>];
          ns = ns[l := (ns ! l)\<lparr>nd_next := nd_next (ns ! r)\<rparr>]
      in case nd_next (ns ! r) of
           None \<Rightarrow> ns
         | Some x \<Rightarrow> ns[x := (ns ! x)\<lparr>nd_prev := Some l\<rparr>])"

text \<open>One round of the merge loop; the heap is not empty.\<close>

definition bpe_step ::
  "tokenizer \<Rightarrow> bytes \<Rightarrow> bpe_node list \<times> bpe_cand list \<Rightarrow> bpe_node list \<times> bpe_cand list" where
  "bpe_step tok input s = (case s of (ns, heap) \<Rightarrow>
     let (c, heap) = bpe_heap_pop heap in
     if nd_ver (ns ! c_left c) \<noteq> c_lver c \<or> nd_ver (ns ! c_right c) \<noteq> c_rver c then (ns, heap)
     else let ns = bpe_merge_nodes ns (c_left c) (c_right c);
              heap = (case nd_prev (ns ! c_left c) of
                        None \<Rightarrow> heap
                      | Some p \<Rightarrow> bpe_push_cand tok input ns heap p (c_left c));
              heap = (case nd_next (ns ! c_left c) of
                        None \<Rightarrow> heap
                      | Some n \<Rightarrow> bpe_push_cand tok input ns heap (c_left c) n)
          in (ns, heap))"

fun bpe_loop ::
  "tokenizer \<Rightarrow> bytes \<Rightarrow> nat \<Rightarrow> bpe_node list \<times> bpe_cand list \<Rightarrow> bpe_node list option" where
  "bpe_loop tok input fuel s =
     (if snd s = [] then Some (fst s)
      else case fuel of 0 \<Rightarrow> None | Suc f \<Rightarrow> bpe_loop tok input f (bpe_step tok input s))"

declare bpe_loop.simps [simp del]

text \<open>The ids a surviving symbol adds.\<close>

definition bpe_emit_byte :: "tokenizer \<Rightarrow> byte \<Rightarrow> int list" where
  "bpe_emit_byte tok b =
     (let fid = tk_byte_fallback_ids tok ! unat b in
      if 0 \<le> fid then [fid] else if 0 \<le> tk_unk_id tok then [tk_unk_id tok] else [])"

definition bpe_emit_symbol :: "tokenizer \<Rightarrow> bytes \<Rightarrow> int list" where
  "bpe_emit_symbol tok symb =
     (case map_id (tk_vocab tok) symb of
        Some i \<Rightarrow> [i]
      | None \<Rightarrow> concat (map (bpe_emit_byte tok) symb))"

fun bpe_emit_from ::
  "tokenizer \<Rightarrow> bytes \<Rightarrow> bpe_node list \<Rightarrow> nat \<Rightarrow> nat option \<Rightarrow> int list \<Rightarrow> int list option" where
  "bpe_emit_from tok input ns fuel None ids = Some ids"
| "bpe_emit_from tok input ns 0 (Some cur) ids = None"
| "bpe_emit_from tok input ns (Suc f) (Some cur) ids =
     bpe_emit_from tok input ns f (nd_next (ns ! cur))
       (ids @ bpe_emit_symbol tok (node_bytes input (ns ! cur)))"

definition bpe_seed :: "tokenizer \<Rightarrow> bytes \<Rightarrow> bpe_node list \<Rightarrow> bpe_cand list" where
  "bpe_seed tok input ns =
     fold (\<lambda>j heap. bpe_push_cand tok input ns heap j (j + 1)) [0..<length ns - 1] []"

text \<open>\<open>Some None\<close> is the return value -1; \<open>None\<close> would be a loop that does not end.\<close>

definition bpe_merge :: "tokenizer \<Rightarrow> bytes \<Rightarrow> int list option option" where
  "bpe_merge tok input =
     (if tk_type tok = TOKENIZER_WORDPIECE then Some None
      else if INT_MAX < int (length input) then Some None
      else let ns = bpe_split input 0 [] in
           case bpe_loop tok input (3 * length ns) (ns, bpe_seed tok input ns) of
             None \<Rightarrow> None
           | Some ns \<Rightarrow>
               (case bpe_emit_from tok input ns (length ns) (if ns \<noteq> [] then Some 0 else None) [] of
                  None \<Rightarrow> None
                | Some ids \<Rightarrow> Some (Some ids)))"

subsection \<open>The greedy reference\<close>

text \<open>The lowest-ranked adjacent pair of a list of symbols, leftmost on ties, with its position.\<close>

fun best_from :: "(bytes \<Rightarrow> bytes \<Rightarrow> u32 option) \<Rightarrow> nat \<Rightarrow> bytes list \<Rightarrow> (u32 \<times> nat) option" where
  "best_from rk i (a # b # xs) =
     (case rk a b of
        None \<Rightarrow> best_from rk (Suc i) (b # xs)
      | Some r \<Rightarrow>
          (case best_from rk (Suc i) (b # xs) of
             None \<Rightarrow> Some (r, i)
           | Some (r', j) \<Rightarrow> if r \<le> r' then Some (r, i) else Some (r', j)))"
| "best_from rk i _ = None"

definition merge_at :: "nat \<Rightarrow> bytes list \<Rightarrow> bytes list" where
  "merge_at k xs = take k xs @ (xs ! k @ xs ! Suc k) # drop (Suc (Suc k)) xs"

lemma best_from_bound: "best_from rk i xs = Some (r, j) \<Longrightarrow> i \<le> j \<and> Suc (j - i) < length xs"
proof (induction rk i xs arbitrary: r j rule: best_from.induct)
  case (1 rk i a b xs)
  show ?case
    using 1(1) 1(2) "1.prems"
    by (cases "rk a b"; cases "best_from rk (Suc i) (b # xs)")
      (force split: if_splits prod.splits)+
qed auto

function bpe_greedy :: "(bytes \<Rightarrow> bytes \<Rightarrow> u32 option) \<Rightarrow> bytes list \<Rightarrow> bytes list" where
  "bpe_greedy rk xs =
     (case best_from rk 0 xs of None \<Rightarrow> xs | Some (r, k) \<Rightarrow> bpe_greedy rk (merge_at k xs))"
  by pat_completeness auto
termination
  by (relation "measure (length o snd)") (auto simp: merge_at_def dest!: best_from_bound)

declare bpe_greedy.simps [simp del]

text \<open>The input cut into the codepoints (or undecodable single bytes) the merge starts from.\<close>

function utf8_chars :: "bytes \<Rightarrow> nat \<Rightarrow> bytes list" where
  "utf8_chars input pos =
     (if pos < length input
      then let n = ci_len (uc_decode_codepoint input pos) in
           take n (drop pos input) # utf8_chars input (pos + n)
      else [])"
  by pat_completeness auto
termination
  by (relation "measure (\<lambda>(input, pos). length input - pos)")
    (auto simp: uc_decode_len_pos intro!: diff_less_mono2)

declare utf8_chars.simps [simp del]

end
