(* ===== verification/TokEncode.thy ===== *)
theory TokEncode
  imports Pretok Bpe
begin

text \<open>
  The encoders of \<open>src/model/tokenizer.c\<close>: scratch reservation, the byte-level, SentencePiece and
  WordPiece encoders, the scan for added tokens and the public entry points. The scratch is its
  capacities (its buffers carry nothing from one call to the next); a result is \<open>Some None\<close> for the
  return value -1, \<open>Some (Some ids)\<close> for ids, and \<open>None\<close> would be a loop that does not end.
  Unicode normalisation (CoreFoundation) is the parameter \<open>normalise\<close>.
\<close>

type_synonym enc_result = "int list option option"

definition SIZE_MAX :: nat where "SIZE_MAX = 18446744073709551615"
definition UINT32_MAX :: nat where "UINT32_MAX = 4294967295"

subsection \<open>Scratch buffers\<close>

record encode_scratch =
  nodes_cap :: nat
  ids_cap :: nat
  heap_cap :: nat
  pretoks_cap :: nat
  text_cap :: nat
  out_cap :: nat
  cand_cap :: nat

definition encode_scratch_init :: encode_scratch where
  "encode_scratch_init = \<lparr>nodes_cap = 0, ids_cap = 0, heap_cap = 0, pretoks_cap = 0, text_cap = 0,
     out_cap = 0, cand_cap = 0\<rparr>"

datatype scratch_bit =
  SCRATCH_NODES | SCRATCH_IDS | SCRATCH_HEAP | SCRATCH_PRETOKS | SCRATCH_TEXT | SCRATCH_OUT | SCRATCH_CAND

text \<open>The growth of one buffer: whether it is too small, the bytes asked for and the new state.\<close>

definition scratch_need :: "encode_scratch \<Rightarrow> nat \<Rightarrow> scratch_bit \<Rightarrow> bool \<times> nat \<times> encode_scratch" where
  "scratch_need s len k = (case k of
     SCRATCH_NODES \<Rightarrow> (nodes_cap s < len, len * 20, s\<lparr>nodes_cap := len\<rparr>)
   | SCRATCH_IDS \<Rightarrow> (ids_cap s < len, len * 4, s\<lparr>ids_cap := len\<rparr>)
   | SCRATCH_HEAP \<Rightarrow> (heap_cap s div 3 < len, 3 * len * 20, s\<lparr>heap_cap := 3 * len\<rparr>)
   | SCRATCH_PRETOKS \<Rightarrow> (pretoks_cap s < len, len * 8, s\<lparr>pretoks_cap := len\<rparr>)
   | SCRATCH_TEXT \<Rightarrow> (text_cap s < len, len, s\<lparr>text_cap := len\<rparr>)
   | SCRATCH_OUT \<Rightarrow> (out_cap s < len, len * 4, s\<lparr>out_cap := len\<rparr>)
   | SCRATCH_CAND \<Rightarrow> (cand_cap s < len + 2, len + 2, s\<lparr>cand_cap := len + 2\<rparr>))"

fun scratch_grow :: "allocator \<Rightarrow> nat \<Rightarrow> scratch_bit list \<Rightarrow> encode_scratch \<Rightarrow> bool \<times> encode_scratch" where
  "scratch_grow mem len [] s = (True, s)"
| "scratch_grow mem len (k # ks) s = (case scratch_need s len k of (small, sz, s') \<Rightarrow>
     if \<not> small then scratch_grow mem len ks s
     else if \<not> mem sz then (False, s)
     else scratch_grow mem len ks s')"

text \<open>The mask as the list of its bits in the order the function tests them.\<close>

definition scratch_reserve_mask ::
  "allocator \<Rightarrow> encode_scratch \<Rightarrow> nat \<Rightarrow> scratch_bit list \<Rightarrow> bool \<times> encode_scratch" where
  "scratch_reserve_mask mem s input_len msk =
     (if UINT32_MAX div 3 < input_len then (False, s)
      else scratch_grow mem (if input_len = 0 then 1 else input_len) msk s)"

definition encode_scratch_reserve :: "allocator \<Rightarrow> encode_scratch \<Rightarrow> nat \<Rightarrow> bool \<times> encode_scratch" where
  "encode_scratch_reserve mem s input_len = scratch_reserve_mask mem s input_len
     [SCRATCH_NODES, SCRATCH_IDS, SCRATCH_HEAP, SCRATCH_PRETOKS, SCRATCH_TEXT, SCRATCH_OUT, SCRATCH_CAND]"

subsection \<open>Byte-level and SentencePiece\<close>

definition byte_level_expand :: "tokenizer \<Rightarrow> bytes \<Rightarrow> bytes" where
  "byte_level_expand tok word =
     concat (map (\<lambda>b. uc_encode_codepoint (word_of_nat (byte_to_cp (tk_bytes_unicode tok) ! unat b))) word)"

fun encode_words :: "tokenizer \<Rightarrow> bytes \<Rightarrow> pretok_slice list \<Rightarrow> int list \<Rightarrow> enc_result" where
  "encode_words tok text [] out = Some (Some out)"
| "encode_words tok text (w # ws) out =
     (case bpe_merge tok (byte_level_expand tok (slice_bytes text w)) of
        None \<Rightarrow> None
      | Some None \<Rightarrow> Some None
      | Some (Some ids) \<Rightarrow> encode_words tok text ws (out @ ids))"

definition encode_byte_level ::
  "allocator \<Rightarrow> tokenizer \<Rightarrow> encode_scratch \<Rightarrow> bytes \<Rightarrow> encode_scratch \<times> enc_result" where
  "encode_byte_level mem tok s text =
     (if INT_MAX < int (length text) then (s, Some None)
      else case scratch_reserve_mask mem s (2 * length text)
             [SCRATCH_NODES, SCRATCH_IDS, SCRATCH_HEAP, SCRATCH_PRETOKS, SCRATCH_TEXT, SCRATCH_OUT] of
        (False, s) \<Rightarrow> (s, Some None)
      | (True, s) \<Rightarrow> (s, case gpt2_pretokenize (pretoks_cap s) text of
            None \<Rightarrow> Some None
          | Some words \<Rightarrow> encode_words tok text words []))"

definition sentencepiece_expand :: "bytes \<Rightarrow> bytes" where
  "sentencepiece_expand text = concat (map (\<lambda>b. if b = 0x20 then [0xE2, 0x96, 0x81] else [b]) text)"

definition encode_sentencepiece ::
  "allocator \<Rightarrow> tokenizer \<Rightarrow> encode_scratch \<Rightarrow> bytes \<Rightarrow> encode_scratch \<times> enc_result" where
  "encode_sentencepiece mem tok s text =
     (if INT_MAX < int (length text) then (s, Some None)
      else case scratch_reserve_mask mem s (3 * length text)
             [SCRATCH_NODES, SCRATCH_IDS, SCRATCH_HEAP, SCRATCH_TEXT] of
        (False, s) \<Rightarrow> (s, Some None)
      | (True, s) \<Rightarrow> (s, bpe_merge tok (sentencepiece_expand text)))"

subsection \<open>WordPiece\<close>

definition wp_is_punct :: "byte \<Rightarrow> bool" where
  "wp_is_punct c = ((0x21 \<le> c \<and> c \<le> 0x2F) \<or> (0x3A \<le> c \<and> c \<le> 0x40) \<or>
     (0x5B \<le> c \<and> c \<le> 0x60) \<or> (0x7B \<le> c \<and> c \<le> 0x7E))"

text \<open>The probe key for \<open>word[pos..fin]\<close>, and the inner loop that shrinks it by one character.\<close>

definition wp_key :: "tokenizer \<Rightarrow> bytes \<Rightarrow> nat \<Rightarrow> nat \<Rightarrow> bytes" where
  "wp_key tok word pos fin = (if 0 < pos then tk_wp_prefix tok else []) @ take (fin - pos) (drop pos word)"

fun wp_shrink :: "bytes \<Rightarrow> nat \<Rightarrow> nat \<Rightarrow> nat" where
  "wp_shrink word pos 0 = 0"
| "wp_shrink word pos (Suc fin) =
     (if pos < Suc fin \<and> (word ! Suc fin) AND 0xC0 = 0x80 then wp_shrink word pos fin else Suc fin)"

lemma wp_shrink_le: "wp_shrink word pos fin \<le> fin"
  by (induction word pos fin rule: wp_shrink.induct) auto

function wp_probe :: "tokenizer \<Rightarrow> bytes \<Rightarrow> nat \<Rightarrow> nat \<Rightarrow> (int \<times> nat) option" where
  "wp_probe tok word pos fin =
     (if pos < fin
      then (case map_id (tk_vocab tok) (wp_key tok word pos fin) of
              Some i \<Rightarrow> Some (i, fin)
            | None \<Rightarrow> wp_probe tok word pos (wp_shrink word pos (fin - 1)))
      else None)"
  by pat_completeness auto
termination
  by (relation "measure (\<lambda>(tok, word, pos, fin). fin)") (auto intro: le_less_trans [OF wp_shrink_le])

declare wp_probe.simps [simp del]

lemma wp_probe_bounds: "wp_probe tok word pos fin = Some (i, e) \<Longrightarrow> pos < e \<and> e \<le> fin"
proof (induction tok word pos fin rule: wp_probe.induct)
  case (1 tok word pos fin)
  then show ?case
    using wp_shrink_le [of word pos "fin - 1"]
    by (subst (asm) wp_probe.simps) (fastforce split: if_splits option.splits)
qed

text \<open>The pieces of one word from \<open>pos\<close> on, or the single unknown id that replaces them all.\<close>

function wp_emit_from :: "tokenizer \<Rightarrow> bytes \<Rightarrow> int \<Rightarrow> nat \<Rightarrow> int list \<Rightarrow> int list" where
  "wp_emit_from tok word unk pos acc =
     (if pos < length word
      then (case wp_probe tok word pos (length word) of
              None \<Rightarrow> [unk]
            | Some (i, e) \<Rightarrow> wp_emit_from tok word unk e (acc @ [i]))
      else acc)"
  by pat_completeness auto
termination
  by (relation "measure (\<lambda>(tok, word, unk, pos, acc). length word - pos)")
    (auto dest!: wp_probe_bounds)

declare wp_emit_from.simps [simp del]

definition wp_emit_word :: "tokenizer \<Rightarrow> int \<Rightarrow> bytes \<Rightarrow> int list \<Rightarrow> int list" where
  "wp_emit_word tok unk word out = out @ wp_emit_from tok word unk 0 []"

definition wp_lower :: "byte \<Rightarrow> byte" where
  "wp_lower c = (if 0x41 \<le> c \<and> c \<le> 0x5A then c + 32 else c)"

text \<open>The splitting loop: \<open>word\<close> is \<open>text[wstart..i]\<close>, the rest is still to be read.\<close>

fun wp_split :: "tokenizer \<Rightarrow> int \<Rightarrow> bytes \<Rightarrow> bytes \<Rightarrow> int list \<Rightarrow> int list" where
  "wp_split tok unk word [] out = (if word \<noteq> [] then wp_emit_word tok unk word out else out)"
| "wp_split tok unk word (c # cs) out =
     (let flush = (if word \<noteq> [] then wp_emit_word tok unk word out else out) in
      if c = 0x20 \<or> c = 0x09 \<or> c = 0x0A \<or> c = 0x0D then wp_split tok unk [] cs flush
      else if wp_is_punct c then wp_split tok unk [] cs (wp_emit_word tok unk [c] flush)
      else wp_split tok unk (word @ [c]) cs out)"

definition encode_wordpiece ::
  "allocator \<Rightarrow> tokenizer \<Rightarrow> encode_scratch \<Rightarrow> bytes \<Rightarrow> encode_scratch \<times> enc_result" where
  "encode_wordpiece mem tok s text =
     (if INT_MAX < int (length text) then (s, Some None)
      else case scratch_reserve_mask mem s (length text + length (tk_wp_prefix tok))
             [SCRATCH_TEXT, SCRATCH_OUT, SCRATCH_CAND] of
        (False, s) \<Rightarrow> (s, Some None)
      | (True, s) \<Rightarrow>
          (s, let unk = (if 0 \<le> tk_unk_id tok then tk_unk_id tok else 0)
              in Some (Some (wp_split tok unk [] (map wp_lower text) []))))"

subsection \<open>Added tokens\<close>

text \<open>\<open>memchr\<close> over \<open>n\<close> bytes from \<open>from\<close>; the first position, or none.\<close>

fun memchr :: "bytes \<Rightarrow> nat \<Rightarrow> nat \<Rightarrow> byte \<Rightarrow> nat option" where
  "memchr hay from 0 c = None"
| "memchr hay from (Suc n) c = (if hay ! from = c then Some from else memchr hay (Suc from) n c)"

lemma memchr_bounds: "memchr hay from n c = Some p \<Longrightarrow> from \<le> p \<and> p < from + n"
proof (induction n arbitrary: "from")
  case (Suc n)
  then show ?case
    using Suc.IH [of "Suc from"] by (auto split: if_splits dest: Suc_leD)
qed simp

text \<open>The loop of \<open>find_sub\<close>; \<open>SIZE_MAX\<close> is \<open>None\<close>.\<close>

function find_sub_from :: "bytes \<Rightarrow> bytes \<Rightarrow> nat \<Rightarrow> nat option" where
  "find_sub_from hay needle from =
     (if from + length needle \<le> length hay
      then (case memchr hay from (length hay - length needle - from + 1) (needle ! 0) of
              None \<Rightarrow> None
            | Some p \<Rightarrow> if take (length needle) (drop p hay) = needle then Some p
                        else find_sub_from hay needle (p + 1))
      else None)"
  by pat_completeness auto
termination
  by (relation "measure (\<lambda>(hay, needle, from). length hay + 1 - from)")
    (auto simp del: memchr.simps dest!: memchr_bounds)

declare find_sub_from.simps [simp del]

definition find_sub :: "bytes \<Rightarrow> nat \<Rightarrow> bytes \<Rightarrow> nat option" where
  "find_sub hay from needle =
     (if needle = [] \<or> length hay < length needle then None else find_sub_from hay needle from)"

definition encode_segment ::
  "allocator \<Rightarrow> tokenizer \<Rightarrow> encode_scratch \<Rightarrow> bytes \<Rightarrow> encode_scratch \<times> enc_result" where
  "encode_segment mem tok s text = (case tk_type tok of
     TOKENIZER_BPE \<Rightarrow> encode_byte_level mem tok s text
   | TOKENIZER_WORDPIECE \<Rightarrow> (s, Some None)
   | TOKENIZER_UNKNOWN \<Rightarrow> (s, Some None)
   | TOKENIZER_SENTENCEPIECE_BPE \<Rightarrow> encode_sentencepiece mem tok s text)"

record idbuf =
  ib_ids :: "int list"
  ib_cap :: nat

definition idbuf_empty :: idbuf where "idbuf_empty = \<lparr>ib_ids = [], ib_cap = 0\<rparr>"

text \<open>The doubling loop, giving up before the byte count wraps.\<close>

function idbuf_grow :: "nat \<Rightarrow> nat \<Rightarrow> nat option" where
  "idbuf_grow cap need =
     (if cap < need \<and> 0 < cap
      then if SIZE_MAX div 8 < cap then None else idbuf_grow (cap * 2) need
      else Some cap)"
  by pat_completeness auto
termination
  by (relation "measure (\<lambda>(cap, need). need - cap)") auto

declare idbuf_grow.simps [simp del]

definition idbuf_append :: "allocator \<Rightarrow> idbuf \<Rightarrow> int list \<Rightarrow> bool \<times> idbuf" where
  "idbuf_append mem b ids =
     (let n = length ids; len = length (ib_ids b) in
      if n = 0 then (True, b)
      else if SIZE_MAX - len < n then (False, b)
      else if ib_cap b < len + n
      then (case idbuf_grow (if ib_cap b = 0 then 16 else ib_cap b) (len + n) of
              None \<Rightarrow> (False, b)
            | Some cap \<Rightarrow>
                if mem (cap * 4) then (True, \<lparr>ib_ids = ib_ids b @ ids, ib_cap = cap\<rparr>) else (False, b))
      else (True, b\<lparr>ib_ids := ib_ids b @ ids\<rparr>))"

record special_site =
  ss_key :: bytes
  ss_id :: int
  ss_next :: "nat option"

text \<open>The round of the \<open>for\<close> loop for one site: refresh its next occurrence, then compare.\<close>

definition site_refresh :: "bytes \<Rightarrow> nat \<Rightarrow> special_site \<Rightarrow> special_site" where
  "site_refresh text pos site = (case ss_next site of
     Some p \<Rightarrow> if p < pos then site\<lparr>ss_next := find_sub text pos (ss_key site)\<rparr> else site
   | None \<Rightarrow> site)"

definition site_better :: "special_site option \<Rightarrow> special_site \<Rightarrow> special_site option" where
  "site_better best site = (case ss_next site of
     None \<Rightarrow> best
   | Some p \<Rightarrow> (case best of
        None \<Rightarrow> Some site
      | Some b \<Rightarrow>
          if p < the (ss_next b) \<or> (p = the (ss_next b) \<and> length (ss_key b) < length (ss_key site))
          then Some site else best))"

fun scan_sites :: "bytes \<Rightarrow> nat \<Rightarrow> special_site list \<Rightarrow> special_site option
    \<Rightarrow> special_site list \<times> special_site option" where
  "scan_sites text pos [] best = ([], best)"
| "scan_sites text pos (s # ss) best =
     (let s = site_refresh text pos s; (ss', best) = scan_sites text pos ss (site_better best s)
      in (s # ss', best))"

text \<open>Encode a gap and append its ids.\<close>

definition encode_gap ::
  "allocator \<Rightarrow> tokenizer \<Rightarrow> encode_scratch \<Rightarrow> idbuf \<Rightarrow> bytes \<Rightarrow> (encode_scratch \<times> idbuf option) option" where
  "encode_gap mem tok s out gap = (case encode_segment mem tok s gap of
     (s, None) \<Rightarrow> None
   | (s, Some None) \<Rightarrow> Some (s, None)
   | (s, Some (Some ids)) \<Rightarrow> (case idbuf_append mem out ids of
        (True, out) \<Rightarrow> Some (s, Some out)
      | (False, _) \<Rightarrow> Some (s, None)))"

text \<open>The scan; \<open>None\<close> inside is the jump to \<open>fail\<close>. Every round moves \<open>pos\<close> forward, so the text
  length bounds the rounds.\<close>

fun encode_scan :: "allocator \<Rightarrow> tokenizer \<Rightarrow> bytes \<Rightarrow> nat \<Rightarrow> encode_scratch \<Rightarrow> special_site list \<Rightarrow> nat
    \<Rightarrow> idbuf \<Rightarrow> idbuf option option" where
  "encode_scan mem tok text fuel s sites pos out =
     (if pos < length text
      then case scan_sites text pos sites None of
          (sites, None) \<Rightarrow> map_option snd (encode_gap mem tok s out (drop pos text))
        | (sites, Some best) \<Rightarrow>
            (let next = the (ss_next best) in
             case (if pos < next then encode_gap mem tok s out (take (next - pos) (drop pos text))
                   else Some (s, Some out)) of
               None \<Rightarrow> None
             | Some (s, None) \<Rightarrow> Some None
             | Some (s, Some out) \<Rightarrow>
                 (case idbuf_append mem out [ss_id best] of
                    (False, _) \<Rightarrow> Some None
                  | (True, out) \<Rightarrow>
                      (case fuel of
                         0 \<Rightarrow> None
                       | Suc fuel \<Rightarrow> encode_scan mem tok text fuel s sites (next + length (ss_key best)) out)))
      else Some (Some out))"

declare encode_scan.simps [simp del]

text \<open>The sites in table order.\<close>

definition special_sites :: "tokenizer \<Rightarrow> bytes \<Rightarrow> special_site list" where
  "special_sites tok text =
     map (\<lambda>e. \<lparr>ss_key = e_key e, ss_id = c_int (uint (e_val e)), ss_next = find_sub text 0 (e_key e)\<rparr>)
       (List.map_filter id (oa_entries (tk_special_tokens tok)))"

definition encode_wrapped :: "allocator \<Rightarrow> tokenizer \<Rightarrow> bytes \<Rightarrow> idbuf option option" where
  "encode_wrapped mem tok text =
     (case snd (encode_wordpiece mem tok encode_scratch_init text) of
        None \<Rightarrow> None
      | Some None \<Rightarrow> Some None
      | Some (Some seg) \<Rightarrow> Some (
          (case (if 0 \<le> tk_bos_id tok then idbuf_append mem idbuf_empty [tk_bos_id tok]
                 else (True, idbuf_empty)) of
             (False, _) \<Rightarrow> None
           | (True, out) \<Rightarrow>
               (case idbuf_append mem out seg of
                  (False, _) \<Rightarrow> None
                | (True, out) \<Rightarrow>
                    (case (if 0 \<le> tk_eos_id tok then idbuf_append mem out [tk_eos_id tok] else (True, out)) of
                       (False, _) \<Rightarrow> None
                     | (True, out) \<Rightarrow> Some out)))))"

definition encode_alloc_impl :: "allocator \<Rightarrow> tokenizer \<Rightarrow> bytes \<Rightarrow> bool \<Rightarrow> enc_result" where
  "encode_alloc_impl mem tok text parse_special =
     (let count = unat (oa_count (tk_special_tokens tok)) in
      case (if tk_type tok = TOKENIZER_WORDPIECE then encode_wrapped mem tok text
            else if parse_special \<and> 0 < count
            then (if mem (count * 24)
                  then encode_scan mem tok text (length text) encode_scratch_init (special_sites tok text)
                         0 idbuf_empty
                  else Some None)
            else encode_scan mem tok text (length text) encode_scratch_init [] 0 idbuf_empty) of
        None \<Rightarrow> None
      | Some None \<Rightarrow> Some None
      | Some (Some out) \<Rightarrow>
          if INT_MAX < int (length (ib_ids out)) then Some None else Some (Some (ib_ids out)))"

text \<open>\<open>normalise form text\<close> is the normalised text, or nothing when the conversion fails.\<close>

definition tokenizer_encode_alloc ::
  "allocator \<Rightarrow> (norm_form \<Rightarrow> bytes \<Rightarrow> bytes option) \<Rightarrow> tokenizer \<Rightarrow> bytes \<Rightarrow> bool \<Rightarrow> enc_result" where
  "tokenizer_encode_alloc mem normalise tok text parse_special =
     (if INT_MAX < int (length text) then Some None
      else if tk_norm_form tok \<noteq> NORM_NONE \<and> text \<noteq> [] \<and> uc_utf8_scan text = UC_SCAN_VALID
      then (case normalise (tk_norm_form tok) text of
              None \<Rightarrow> Some None
            | Some t \<Rightarrow> encode_alloc_impl mem tok t parse_special)
      else encode_alloc_impl mem tok text parse_special)"

text \<open>The fixed-buffer variant: the full count, and the ids written into the buffer. The text is a C
  string and ends at its first NUL.\<close>

definition tokenizer_encode ::
  "allocator \<Rightarrow> (norm_form \<Rightarrow> bytes \<Rightarrow> bytes option) \<Rightarrow> tokenizer \<Rightarrow> bytes \<Rightarrow> int
    \<Rightarrow> (int \<times> int list) option" where
  "tokenizer_encode mem normalise tok text max_ids =
     (if max_ids < 0 then Some (- 1, [])
      else case tokenizer_encode_alloc mem normalise tok (takeWhile (\<lambda>b. b \<noteq> 0) text) True of
        None \<Rightarrow> None
      | Some None \<Rightarrow> Some (- 1, [])
      | Some (Some ids) \<Rightarrow> Some (int (length ids), take (nat max_ids) ids))"

end
