(* ===== verification/BpeCorrect.thy ===== *)
theory BpeCorrect
  imports Bpe
begin

text \<open>
  The BPE merge loop computes the greedy reference: in every state of the loop the linked nodes
  are the symbols of a greedy run and the heap holds a fresh candidate for each ranked pair.
\<close>

subsection \<open>The reference picks the minimum\<close>

definition pair_at :: "(bytes \<Rightarrow> bytes \<Rightarrow> u32 option) \<Rightarrow> bytes list \<Rightarrow> nat \<Rightarrow> u32 \<Rightarrow> bool" where
  "pair_at rk xs m r \<longleftrightarrow> Suc m < length xs \<and> rk (xs ! m) (xs ! Suc m) = Some r"

definition best_at :: "(bytes \<Rightarrow> bytes \<Rightarrow> u32 option) \<Rightarrow> bytes list \<Rightarrow> u32 \<Rightarrow> nat \<Rightarrow> bool" where
  "best_at rk xs r k \<longleftrightarrow> pair_at rk xs k r \<and> (\<forall>m r'. pair_at rk xs m r' \<longrightarrow> r < r' \<or> r = r' \<and> k \<le> m)"

lemma best_at_unique: "best_at rk xs r k \<Longrightarrow> best_at rk xs r' k' \<Longrightarrow> r = r' \<and> k = k'"
  unfolding best_at_def by (metis antisym less_asym)

lemma pair_at_short [simp]: "\<not> pair_at rk [] m r" "\<not> pair_at rk [a] m r"
  by (simp_all add: pair_at_def)

lemma pair_at_0 [simp]: "pair_at rk (a # b # xs) 0 r \<longleftrightarrow> rk a b = Some r"
  by (simp add: pair_at_def)

lemma pair_at_Suc [simp]: "pair_at rk (a # xs) (Suc m) r \<longleftrightarrow> pair_at rk xs m r"
  by (simp add: pair_at_def)

lemma all_nat_split: "(\<forall>m. P m) \<longleftrightarrow> P 0 \<and> (\<forall>m. P (Suc m))"
  by (metis not0_implies_Suc)

lemma best_from_None: "best_from rk i xs = None \<longleftrightarrow> (\<forall>m r. \<not> pair_at rk xs m r)"
proof (induction rk i xs rule: best_from.induct)
  case (1 rk i a b xs)
  show ?case
    unfolding all_nat_split [of "\<lambda>m. \<forall>r. \<not> pair_at rk (a # b # xs) m r"] pair_at_0 pair_at_Suc
    using 1 by (auto split: option.splits if_splits)
qed auto

lemma best_from_Some: "best_from rk i xs = Some (r, j) \<Longrightarrow> best_at rk xs r (j - i) \<and> i \<le> j"
proof (induction rk i xs arbitrary: r j rule: best_from.induct)
  case (1 rk i a b xs)
  let ?rest = "best_from rk (Suc i) (b # xs)"
  have at_Cons: "best_at rk (a # b # xs) r' k \<longleftrightarrow> pair_at rk (a # b # xs) k r' \<and>
      (\<forall>ra. rk a b = Some ra \<longrightarrow> r' < ra \<or> r' = ra \<and> k = 0) \<and>
      (\<forall>m ra. pair_at rk (b # xs) m ra \<longrightarrow> r' < ra \<or> r' = ra \<and> k \<le> Suc m)" for r' k
    unfolding best_at_def
      all_nat_split [of "\<lambda>m. \<forall>ra. pair_at rk (a # b # xs) m ra \<longrightarrow> r' < ra \<or> r' = ra \<and> k \<le> m"]
    by simp
  have IH: "best_at rk (b # xs) r' (j' - Suc i) \<and> Suc i \<le> j'" if "?rest = Some (r', j')" for r' j'
    using that 1(1) 1(2) by (cases "rk a b") auto
  show ?case
  proof (cases ?rest)
    case None
    then have "\<not> pair_at rk (b # xs) m ra" for m ra
      using best_from_None by blast
    with None "1.prems" show ?thesis
      by (auto simp: at_Cons split: option.splits)
  next
    case (Some p)
    obtain r' j' where p: "p = (r', j')" by (cases p)
    note rest = IH [OF Some [unfolded p]]
    then obtain k where k: "j' = Suc i + k" and best: "best_at rk (b # xs) r' k"
      by (metis add_diff_cancel_left' le_Suc_ex)
    note k = k best [unfolded best_at_def]
    show ?thesis
    proof (cases "rk a b")
      case None
      with "1.prems" Some p have "r = r'" "j = j'" by auto
      with k None show ?thesis
        by (auto simp: at_Cons Suc_diff_le)
    next
      case ra: (Some ra)
      show ?thesis
      proof (cases "ra \<le> r'")
        case True
        with "1.prems" Some p ra have "r = ra" "j = i" by auto
        moreover have "ra < rb \<or> ra = rb" if "pair_at rk (b # xs) m rb" for m rb
          using k(2) that True by (metis le_less le_less_trans)
        ultimately show ?thesis
          using ra by (auto simp: at_Cons)
      next
        case False
        with "1.prems" Some p ra have "r = r'" "j = j'" by auto
        with k False ra show ?thesis
          by (auto simp: at_Cons Suc_diff_le not_le)
      qed
    qed
  qed
qed auto

lemma best_from_at: "best_at rk xs r k \<Longrightarrow> best_from rk 0 xs = Some (r, k)"
proof -
  assume b: "best_at rk xs r k"
  then have "best_from rk 0 xs \<noteq> None"
    unfolding best_from_None best_at_def by blast
  then obtain r' j where "best_from rk 0 xs = Some (r', j)"
    by auto
  with best_from_Some [OF this] best_at_unique [OF b] show ?thesis
    by auto
qed

subsection \<open>The linked list\<close>

text \<open>\<open>ls\<close> are the indices of the linked nodes in order.\<close>

definition chain :: "bytes \<Rightarrow> bpe_node list \<Rightarrow> nat list \<Rightarrow> bool" where
  "chain input ns ls \<longleftrightarrow> sorted_wrt (<) ls \<and> (\<forall>k<length ls.
     ls ! k < length ns \<and> nd_start (ns ! (ls ! k)) < nd_end (ns ! (ls ! k)) \<and>
     nd_end (ns ! (ls ! k)) \<le> length input \<and>
     nd_prev (ns ! (ls ! k)) = (if k = 0 then None else Some (ls ! (k - 1))) \<and>
     nd_next (ns ! (ls ! k)) = (if Suc k < length ls then Some (ls ! Suc k) else None) \<and>
     (Suc k < length ls \<longrightarrow> nd_end (ns ! (ls ! k)) = nd_start (ns ! (ls ! Suc k))))"

definition syms :: "bytes \<Rightarrow> bpe_node list \<Rightarrow> nat list \<Rightarrow> bytes list" where
  "syms input ns ls = map (\<lambda>i. node_bytes input (ns ! i)) ls"

definition skip :: "nat \<Rightarrow> nat list \<Rightarrow> nat list" where
  "skip k ls = take (Suc k) ls @ drop (Suc (Suc k)) ls"

lemma length_skip: "Suc k < length ls \<Longrightarrow> length (skip k ls) = length ls - 1"
  by (simp add: skip_def)

lemma nth_skip:
  "Suc k < length ls \<Longrightarrow> m < length ls - 1 \<Longrightarrow> skip k ls ! m = (if m \<le> k then ls ! m else ls ! Suc m)"
  by (auto simp: skip_def nth_append min_def)

lemma sorted_skip: "sorted_wrt (<) ls \<Longrightarrow> sorted_wrt (<) (skip k ls)"
proof -
  assume "sorted_wrt (<) ls"
  then have "sorted_wrt (<) (take k ls @ take 1 (drop k ls) @ take 1 (drop (Suc k) ls) @ drop (Suc (Suc k)) ls)"
    by (metis append_assoc append_take_drop_id drop_drop plus_1_eq_Suc take_add)
  then have "sorted_wrt (<) (take k ls @ take 1 (drop k ls) @ drop (Suc (Suc k)) ls)"
    by (auto simp: sorted_wrt_append)
  then show ?thesis
    unfolding skip_def by (metis Suc_eq_plus1 append_assoc take_add)
qed

lemma chainD:
  assumes "chain input ns ls" "k < length ls"
  shows "ls ! k < length ns" "nd_start (ns ! (ls ! k)) < nd_end (ns ! (ls ! k))"
    "nd_end (ns ! (ls ! k)) \<le> length input"
    "nd_prev (ns ! (ls ! k)) = (if k = 0 then None else Some (ls ! (k - 1)))"
    "nd_next (ns ! (ls ! k)) = (if Suc k < length ls then Some (ls ! Suc k) else None)"
    "Suc k < length ls \<Longrightarrow> nd_end (ns ! (ls ! k)) = nd_start (ns ! (ls ! Suc k))"
  using assms by (auto simp: chain_def)

lemma chain_sorted: "chain input ns ls \<Longrightarrow> sorted_wrt (<) ls"
  by (simp add: chain_def)

lemma chain_less: "chain input ns ls \<Longrightarrow> j < k \<Longrightarrow> k < length ls \<Longrightarrow> ls ! j < ls ! k"
  by (simp add: chain_def sorted_wrt_nth_less)

lemma chain_inj: "chain input ns ls \<Longrightarrow> j < length ls \<Longrightarrow> k < length ls \<Longrightarrow> ls ! j = ls ! k \<longleftrightarrow> j = k"
  using chain_less [of input ns ls j k] chain_less [of input ns ls k j]
  by (cases j k rule: linorder_cases) auto

text \<open>The fields after a merge.\<close>

lemma merge_nodes_fields:
  assumes "l < length ns" "r < length ns" "l \<noteq> r"
    and "\<And>x. nd_next (ns ! r) = Some x \<Longrightarrow> x < length ns \<and> x \<noteq> l"
    and "i < length ns"
  shows "length (bpe_merge_nodes ns l r) = length ns"
    "nd_start (bpe_merge_nodes ns l r ! i) = nd_start (ns ! i)"
    "nd_end (bpe_merge_nodes ns l r ! i) = (if i = l then nd_end (ns ! r) else nd_end (ns ! i))"
    "nd_ver (bpe_merge_nodes ns l r ! i) = (if i = l \<or> i = r then nd_ver (ns ! i) + 1 else nd_ver (ns ! i))"
    "nd_next (bpe_merge_nodes ns l r ! i) = (if i = l then nd_next (ns ! r) else nd_next (ns ! i))"
    "nd_prev (bpe_merge_nodes ns l r ! i) = (if nd_next (ns ! r) = Some i then Some l else nd_prev (ns ! i))"
proof -
  have "nd_next (ns ! r) = None \<or> (\<exists>x. nd_next (ns ! r) = Some x \<and> x < length ns \<and> x \<noteq> l)"
    using assms(4) by (cases "nd_next (ns ! r)") auto
  then show "length (bpe_merge_nodes ns l r) = length ns"
    "nd_start (bpe_merge_nodes ns l r ! i) = nd_start (ns ! i)"
    "nd_end (bpe_merge_nodes ns l r ! i) = (if i = l then nd_end (ns ! r) else nd_end (ns ! i))"
    "nd_ver (bpe_merge_nodes ns l r ! i) = (if i = l \<or> i = r then nd_ver (ns ! i) + 1 else nd_ver (ns ! i))"
    "nd_next (bpe_merge_nodes ns l r ! i) = (if i = l then nd_next (ns ! r) else nd_next (ns ! i))"
    "nd_prev (bpe_merge_nodes ns l r ! i) = (if nd_next (ns ! r) = Some i then Some l else nd_prev (ns ! i))"
    using assms(1-3,5)
    by (auto simp: bpe_merge_nodes_def Let_def nth_list_update)
qed

subsection \<open>A merge of adjacent linked nodes\<close>

lemma chain_merge_pre:
  assumes "chain input ns ls" "Suc k < length ls"
  shows "ls ! k < length ns" "ls ! Suc k < length ns" "ls ! k \<noteq> ls ! Suc k"
    "nd_next (ns ! (ls ! Suc k)) = Some x \<Longrightarrow> x < length ns \<and> x \<noteq> ls ! k"
    "nd_next (ns ! (ls ! Suc k)) = Some (ls ! m) \<Longrightarrow> m < length ls \<Longrightarrow> m = Suc (Suc k)"
proof -
  have k: "k < length ls" using assms(2) by simp
  show "ls ! k < length ns" "ls ! Suc k < length ns" "ls ! k \<noteq> ls ! Suc k"
    using chainD(1) [OF assms(1)] chain_inj [OF assms(1)] assms(2) k by auto
  show "x < length ns \<and> x \<noteq> ls ! k" if "nd_next (ns ! (ls ! Suc k)) = Some x"
    using that chainD(5) [OF assms] chainD(1) [OF assms(1), of "Suc (Suc k)"]
      chain_inj [OF assms(1), of "Suc (Suc k)" k] k
    by (auto split: if_splits)
  show "m = Suc (Suc k)" if "nd_next (ns ! (ls ! Suc k)) = Some (ls ! m)" "m < length ls"
    using that chainD(5) [OF assms] chain_inj [OF assms(1), of "Suc (Suc k)" m]
    by (auto split: if_splits)
qed

lemma chain_merge:
  assumes "chain input ns ls" "Suc k < length ls"
  shows "chain input (bpe_merge_nodes ns (ls ! k) (ls ! Suc k)) (skip k ls)"
    and "syms input (bpe_merge_nodes ns (ls ! k) (ls ! Suc k)) (skip k ls) = merge_at k (syms input ns ls)"
proof -
  let ?a = "ls ! k" and ?b = "ls ! Suc k"
  let ?ns = "bpe_merge_nodes ns ?a ?b"
  note pre = chain_merge_pre [OF assms]
  note F = merge_nodes_fields [OF pre(1-4)]
  have len: "length ?ns = length ns"
    using F(1) [OF _ pre(1)] by blast
  have nb: "ls ! m \<noteq> ?a" if "m < length ls" "m \<noteq> k" for m
    using chain_inj [OF assms(1), of m k] that assms(2) by auto
  have nx: "nd_next (ns ! ?b) = Some (ls ! m) \<longleftrightarrow> m = Suc (Suc k)" if "m < length ls" for m
  proof
    assume "m = Suc (Suc k)"
    with chainD(5) [OF assms] that show "nd_next (ns ! ?b) = Some (ls ! m)"
      by simp
  qed (rule pre(5) [OF _ that])
  have ia: "ls ! m = ?a \<longleftrightarrow> m = k" if "m < length ls" for m
    using nb [OF that] by auto
  have field: "nd_start (?ns ! (ls ! m)) = nd_start (ns ! (ls ! m))"
    "nd_end (?ns ! (ls ! m)) = (if m = k then nd_end (ns ! ?b) else nd_end (ns ! (ls ! m)))"
    "nd_next (?ns ! (ls ! m)) = (if m = k then nd_next (ns ! ?b) else nd_next (ns ! (ls ! m)))"
    "nd_prev (?ns ! (ls ! m)) = (if m = Suc (Suc k) then Some ?a else nd_prev (ns ! (ls ! m)))"
    if "m < length ls" for m
    by (simp_all only: F(2,3,5,6) [OF _ chainD(1) [OF assms(1) that]] nx [OF that] ia [OF that])
  let ?i = "\<lambda>m. if m \<le> k then m else Suc m"
  have sk: "skip k ls ! m = ls ! ?i m" "?i m < length ls" if "m < length ls - 1" for m
    using nth_skip [OF assms(2) that] that by auto
  have ab: "nd_start (ns ! ?a) < nd_end (ns ! ?a)" "nd_end (ns ! ?a) = nd_start (ns ! ?b)"
    "nd_start (ns ! ?b) < nd_end (ns ! ?b)"
    using chainD(2) [OF assms(1), of k] chainD(2) [OF assms] chainD(6) [OF assms(1) _ assms(2)] assms(2)
    by simp_all
  show "chain input ?ns (skip k ls)"
    unfolding chain_def
  proof (intro conjI allI impI)
    show "sorted_wrt (<) (skip k ls)"
      by (rule sorted_skip [OF chain_sorted [OF assms(1)]])
    fix m
    assume "m < length (skip k ls)"
    then have m: "m < length ls - 1"
      by (simp add: length_skip [OF assms(2)])
    note s = sk [OF m] and f = field [OF sk(2) [OF m]] and c = chainD [OF assms(1) sk(2) [OF m]]
    show "skip k ls ! m < length ?ns"
      using s c len by simp
    show "nd_start (?ns ! (skip k ls ! m)) < nd_end (?ns ! (skip k ls ! m))"
      using s f c ab by (auto split: if_splits)
    show "nd_end (?ns ! (skip k ls ! m)) \<le> length input"
      using s f c chainD(3) [OF assms] by (auto split: if_splits)
    show "nd_prev (?ns ! (skip k ls ! m)) = (if m = 0 then None else Some (skip k ls ! (m - 1)))"
      using s f c sk [of "m - 1"] m by (auto split: if_splits)
    show "nd_next (?ns ! (skip k ls ! m)) =
        (if Suc m < length (skip k ls) then Some (skip k ls ! Suc m) else None)"
      using s f c sk [of "Suc m"] m chainD(5) [OF assms] assms(2)
      by (auto simp: length_skip [OF assms(2)] split: if_splits)
    show "nd_end (?ns ! (skip k ls ! m)) = nd_start (?ns ! (skip k ls ! Suc m))"
      if "Suc m < length (skip k ls)"
    proof -
      have m1: "Suc m < length ls - 1"
        using that by (simp add: length_skip [OF assms(2)])
      show ?thesis
        using s f c(6) sk [OF m1] field(1) [OF sk(2) [OF m1]] m1 chainD(6) [OF assms]
        by (auto split: if_splits)
    qed
  qed
  have bytes: "node_bytes input (?ns ! (ls ! m)) =
      (if m = k then node_bytes input (ns ! ?a) @ node_bytes input (ns ! ?b) else node_bytes input (ns ! (ls ! m)))"
    if "m < length ls" for m
  proof (cases "m = k")
    case True
    have "nd_end (ns ! ?b) - nd_start (ns ! ?a) =
        (nd_end (ns ! ?a) - nd_start (ns ! ?a)) + (nd_end (ns ! ?b) - nd_start (ns ! ?b))"
      using ab by simp
    moreover have "nd_start (ns ! ?b) = (nd_end (ns ! ?a) - nd_start (ns ! ?a)) + nd_start (ns ! ?a)"
      using ab by simp
    ultimately show ?thesis
      using True field [OF that] by (simp add: node_bytes_def take_add)
  next
    case False
    with field [OF that] show ?thesis
      by (simp add: node_bytes_def)
  qed
  show "syms input ?ns (skip k ls) = merge_at k (syms input ns ls)"
  proof (rule nth_equalityI)
    show "length (syms input ?ns (skip k ls)) = length (merge_at k (syms input ns ls))"
      using assms(2) by (simp add: syms_def merge_at_def length_skip)
    fix m
    assume "m < length (syms input ?ns (skip k ls))"
    then have m: "m < length ls - 1"
      using assms(2) by (simp add: syms_def length_skip)
    then show "syms input ?ns (skip k ls) ! m = merge_at k (syms input ns ls) ! m"
      using assms(2) sk [OF m] bytes [OF sk(2) [OF m]]
      by (auto simp: syms_def merge_at_def length_skip nth_append nth_Cons' min_def)
  qed
qed

subsection \<open>The candidates\<close>

lemma pair_at_merge:
  assumes "Suc k < length xs"
  shows "pair_at rk (merge_at k xs) m r \<longleftrightarrow>
    (if Suc m < k then pair_at rk xs m r
     else if Suc m = k then rk (xs ! m) (xs ! k @ xs ! Suc k) = Some r
     else if m = k then Suc (Suc k) < length xs \<and> rk (xs ! k @ xs ! Suc k) (xs ! Suc (Suc k)) = Some r
     else pair_at rk xs (Suc m) r)"
  using assms by (auto simp: pair_at_def merge_at_def nth_append nth_Cons' min_def)

definition fresh :: "bpe_node list \<Rightarrow> bpe_cand \<Rightarrow> bool" where
  "fresh ns c \<longleftrightarrow> nd_ver (ns ! c_left c) = c_lver c \<and> nd_ver (ns ! c_right c) = c_rver c"

definition cand_for :: "nat list \<Rightarrow> nat \<Rightarrow> u32 \<Rightarrow> bpe_cand \<Rightarrow> bool" where
  "cand_for ls k r c \<longleftrightarrow> c_rank c = r \<and> c_left c = ls ! k \<and> c_right c = ls ! Suc k"

definition cands_old :: "bpe_node list \<Rightarrow> bpe_cand set \<Rightarrow> bool" where
  "cands_old ns C \<longleftrightarrow> (\<forall>c\<in>C. c_left c < length ns \<and> c_right c < length ns \<and>
     c_lver c \<le> nd_ver (ns ! c_left c) \<and> c_rver c \<le> nd_ver (ns ! c_right c))"

definition cands_sound :: "tokenizer \<Rightarrow> bytes \<Rightarrow> bpe_node list \<Rightarrow> nat list \<Rightarrow> bpe_cand set \<Rightarrow> bool" where
  "cands_sound tok input ns ls C \<longleftrightarrow> (\<forall>c\<in>C. fresh ns c \<longrightarrow>
     (\<exists>k. pair_at (tok_rank tok) (syms input ns ls) k (c_rank c) \<and> cand_for ls k (c_rank c) c))"

definition cands_cover :: "tokenizer \<Rightarrow> bytes \<Rightarrow> bpe_node list \<Rightarrow> nat list \<Rightarrow> bpe_cand set \<Rightarrow> bool" where
  "cands_cover tok input ns ls C \<longleftrightarrow> (\<forall>k r. pair_at (tok_rank tok) (syms input ns ls) k r \<longrightarrow>
     (\<exists>c\<in>C. fresh ns c \<and> cand_for ls k r c))"

definition bpe_inv :: "tokenizer \<Rightarrow> bytes \<Rightarrow> bpe_node list \<Rightarrow> bpe_cand list \<Rightarrow> nat list \<Rightarrow> bool" where
  "bpe_inv tok input ns h ls \<longleftrightarrow> chain input ns ls \<and> heap_ok h \<and> cands_old ns (set h) \<and>
     cands_sound tok input ns ls (set h) \<and> cands_cover tok input ns ls (set h)"

lemma bpe_invD:
  assumes "bpe_inv tok input ns h ls"
  shows "chain input ns ls" "heap_ok h" "cands_old ns (set h)"
    "cands_sound tok input ns ls (set h)" "cands_cover tok input ns ls (set h)"
  using assms by (simp_all add: bpe_inv_def)

lemma length_syms [simp]: "length (syms input ns ls) = length ls"
  by (simp add: syms_def)

lemma nth_syms: "k < length ls \<Longrightarrow> syms input ns ls ! k = node_bytes input (ns ! (ls ! k))"
  by (simp add: syms_def)

text \<open>What a push adds.\<close>

definition new_cand :: "bpe_node list \<Rightarrow> nat \<Rightarrow> nat \<Rightarrow> u32 \<Rightarrow> bpe_cand" where
  "new_cand ns l r rank =
     \<lparr>c_rank = rank, c_left = l, c_right = r, c_lver = nd_ver (ns ! l), c_rver = nd_ver (ns ! r)\<rparr>"

lemma push_cand_correct:
  assumes "heap_ok h"
  shows "heap_ok (bpe_push_cand tok input ns h l r)"
    "set (bpe_push_cand tok input ns h l r) = set h \<union>
       {new_cand ns l r rank |rank. tok_rank tok (node_bytes input (ns ! l)) (node_bytes input (ns ! r)) = Some rank}"
    "length (bpe_push_cand tok input ns h l r) \<le> Suc (length h)"
proof -
  let ?h = "\<lambda>c. bpe_heap_push h c"
  have s: "set (?h c) = insert c (set h)" "length (?h c) = Suc (length h)" for c
    using bq.push_elems [OF assms, of c] by (metis set_mset_add_mset_insert set_mset_mset add_mset_add_single,
        metis size_mset size_add_mset add_mset_add_single)
  show "heap_ok (bpe_push_cand tok input ns h l r)"
    "set (bpe_push_cand tok input ns h l r) = set h \<union>
       {new_cand ns l r rank |rank. tok_rank tok (node_bytes input (ns ! l)) (node_bytes input (ns ! r)) = Some rank}"
    "length (bpe_push_cand tok input ns h l r) \<le> Suc (length h)"
    using assms by (auto simp: bpe_push_cand_def new_cand_def s bq.push_wf split: option.splits)
qed

lemma pop_cand:
  assumes "heap_ok h" "h \<noteq> []"
  obtains c h' where "bpe_heap_pop h = (c, h')" "heap_ok h'" "set h = insert c (set h')"
    "length h = Suc (length h')" "\<forall>c'\<in>set h. cand_key c \<le> cand_key c'"
proof -
  have ne: "mset h \<noteq> {#}"
    using assms(2) by simp
  obtain c h' where p: "bpe_heap_pop h = (c, h')" "heap_ok h'" "mset h = mset h' + {#c#}"
    "\<And>y. y \<in># mset h \<Longrightarrow> cand_key c \<le> cand_key y"
    using bq.popE [OF assms(1) ne] by metis
  from p(3) have "set h = insert c (set h')" "length h = Suc (length h')"
    by (metis set_mset_add_mset_insert set_mset_mset add_mset_add_single,
        metis size_mset size_add_mset add_mset_add_single)
  with p show thesis
    by (intro that) auto
qed

subsection \<open>One round keeps the invariant\<close>

lemma inv_pop_stale:
  assumes "bpe_inv tok input ns h ls" "set h = insert c (set h')" "heap_ok h'" "\<not> fresh ns c"
  shows "bpe_inv tok input ns h' ls"
  using assms unfolding bpe_inv_def cands_old_def cands_sound_def cands_cover_def by auto

lemma inv_pop_best:
  assumes inv: "bpe_inv tok input ns h ls" and c: "c \<in> set h" "fresh ns c"
    and min: "\<And>c'. c' \<in> set h \<Longrightarrow> cand_key c \<le> cand_key c'"
  obtains k where "best_at (tok_rank tok) (syms input ns ls) (c_rank c) k"
    "c_left c = ls ! k" "c_right c = ls ! Suc k" "Suc k < length ls"
proof -
  note I = bpe_invD [OF inv]
  obtain k where k: "pair_at (tok_rank tok) (syms input ns ls) k (c_rank c)" "cand_for ls k (c_rank c) c"
    using I(4) c unfolding cands_sound_def by blast
  have kl: "Suc k < length ls"
    using k(1) by (simp add: pair_at_def)
  have "c_rank c < r' \<or> c_rank c = r' \<and> k \<le> m"
    if p: "pair_at (tok_rank tok) (syms input ns ls) m r'" for m r'
  proof -
    obtain c' where c': "c' \<in> set h" "cand_for ls m r' c'"
      using I(5) p unfolding cands_cover_def by blast
    have ml: "m < length ls"
      using p by (simp add: pair_at_def)
    have "ls ! k \<le> ls ! m \<Longrightarrow> k \<le> m"
      using chain_less [OF I(1), of m k] kl by (metis Suc_lessD leD linorder_not_le)
    with min [OF c'(1)] c'(2) k(2) show ?thesis
      by (auto simp: cand_key_def cand_for_def less_eq_prod_def)
  qed
  with k kl show thesis
    by (intro that [of k]) (auto simp: best_at_def cand_for_def)
qed

lemma fresh_after_merge:
  assumes "chain input ns ls" "Suc k < length ls" "c_left c < length ns" "c_right c < length ns"
    "c_lver c \<le> nd_ver (ns ! c_left c)" "c_rver c \<le> nd_ver (ns ! c_right c)"
  shows "fresh (bpe_merge_nodes ns (ls ! k) (ls ! Suc k)) c \<longleftrightarrow>
    fresh ns c \<and> {c_left c, c_right c} \<inter> {ls ! k, ls ! Suc k} = {}"
  using merge_nodes_fields(4) [OF chain_merge_pre(1-4) [OF assms(1,2)] assms(3)]
    merge_nodes_fields(4) [OF chain_merge_pre(1-4) [OF assms(1,2)] assms(4)] assms(5,6)
  by (auto simp: fresh_def)

text \<open>An old pair that the merge does not touch keeps its symbols, one place further left after it.\<close>

definition shifted :: "nat \<Rightarrow> nat \<Rightarrow> nat" where "shifted k m = (if m < k then m else m - 1)"

lemma pair_shift:
  assumes "Suc k < length ls" "m \<notin> {k, Suc k}" "Suc m \<notin> {k, Suc k}" "Suc m < length ls"
    and "length xs = length ls"
  shows "pair_at rk (merge_at k xs) (shifted k m) r \<longleftrightarrow> pair_at rk xs m r"
    "skip k ls ! shifted k m = ls ! m" "skip k ls ! Suc (shifted k m) = ls ! Suc m"
proof -
  have m: "Suc m < k \<or> Suc k < m"
    using assms(2,3) by auto
  show "pair_at rk (merge_at k xs) (shifted k m) r \<longleftrightarrow> pair_at rk xs m r"
    using m assms by (subst pair_at_merge) (auto simp: shifted_def)
  show "skip k ls ! shifted k m = ls ! m"
    using m assms(1,4) by (subst nth_skip [OF assms(1)]) (auto simp: shifted_def)
  show "skip k ls ! Suc (shifted k m) = ls ! Suc m"
    using m assms(1,4) by (subst nth_skip [OF assms(1)]) (auto simp: shifted_def)
qed

definition merge_pushes :: "tokenizer \<Rightarrow> bytes \<Rightarrow> bpe_node list \<Rightarrow> nat \<Rightarrow> bpe_cand list \<Rightarrow> bpe_cand list" where
  "merge_pushes tok input ns l heap =
     (let heap = (case nd_prev (ns ! l) of
                    None \<Rightarrow> heap
                  | Some p \<Rightarrow> bpe_push_cand tok input ns heap p l)
      in case nd_next (ns ! l) of
           None \<Rightarrow> heap
         | Some n \<Rightarrow> bpe_push_cand tok input ns heap l n)"

lemma bpe_step_unfold:
  assumes "bpe_heap_pop h = (c, h')"
  shows "bpe_step tok input (ns, h) =
    (if fresh ns c
     then let ns' = bpe_merge_nodes ns (c_left c) (c_right c)
          in (ns', merge_pushes tok input ns' (c_left c) h')
     else (ns, h'))"
  using assms by (auto simp: bpe_step_def fresh_def merge_pushes_def Let_def)

lemma merge_pushes_correct:
  assumes ch: "chain input ns ls" and k: "k < length ls" and h: "heap_ok h"
  shows "heap_ok (merge_pushes tok input ns (ls ! k) h)"
    "set (merge_pushes tok input ns (ls ! k) h) = set h \<union>
       {new_cand ns (ls ! m) (ls ! Suc m) r |m r. (Suc m = k \<or> m = k) \<and>
          pair_at (tok_rank tok) (syms input ns ls) m r}"
    "length (merge_pushes tok input ns (ls ! k) h) \<le> length h + 2"
proof -
  let ?h1 = "if k = 0 then h else bpe_push_cand tok input ns h (ls ! (k - 1)) (ls ! k)"
  have u: "merge_pushes tok input ns (ls ! k) h =
      (if Suc k < length ls then bpe_push_cand tok input ns ?h1 (ls ! k) (ls ! Suc k) else ?h1)"
    using chainD(4,5) [OF ch k] by (simp add: merge_pushes_def)
  have h1: "heap_ok ?h1" "length ?h1 \<le> Suc (length h)"
    using h push_cand_correct(1,3) [OF h] by auto
  show "heap_ok (merge_pushes tok input ns (ls ! k) h)"
    unfolding u using h1 push_cand_correct(1) [OF h1(1)] by simp
  show "length (merge_pushes tok input ns (ls ! k) h) \<le> length h + 2"
    unfolding u using h1 push_cand_correct(3) [OF h1(1), of tok input ns "ls ! k" "ls ! Suc k"] by simp
  have p: "{new_cand ns (ls ! m) (ls ! Suc m) r |r.
        tok_rank tok (node_bytes input (ns ! (ls ! m))) (node_bytes input (ns ! (ls ! Suc m))) = Some r} =
      {new_cand ns (ls ! m) (ls ! Suc m) r |r. pair_at (tok_rank tok) (syms input ns ls) m r}"
    if "Suc m < length ls" for m
    using that by (simp add: pair_at_def nth_syms)
  have "set ?h1 = set h \<union> {new_cand ns (ls ! m) (ls ! Suc m) r |m r. Suc m = k \<and>
      pair_at (tok_rank tok) (syms input ns ls) m r}"
  proof (cases k)
    case (Suc j)
    with p [of j] k push_cand_correct(2) [OF h, of tok input ns "ls ! j" "ls ! k"] show ?thesis
      by auto
  qed simp
  moreover have "set (if Suc k < length ls then bpe_push_cand tok input ns ?h1 (ls ! k) (ls ! Suc k) else ?h1) =
      set ?h1 \<union> {new_cand ns (ls ! k) (ls ! Suc k) r |r. pair_at (tok_rank tok) (syms input ns ls) k r}"
    using p [of k] push_cand_correct(2) [OF h1(1), of tok input ns "ls ! k" "ls ! Suc k"]
    by (auto simp: pair_at_def)
  ultimately show "set (merge_pushes tok input ns (ls ! k) h) = set h \<union>
       {new_cand ns (ls ! m) (ls ! Suc m) r |m r. (Suc m = k \<or> m = k) \<and>
          pair_at (tok_rank tok) (syms input ns ls) m r}"
    unfolding u by (simp only:) blast
qed

lemma new_cand_fresh: "fresh ns (new_cand ns l r rank)"
  by (simp add: fresh_def new_cand_def)

lemma new_cand_for: "cand_for ls m r (new_cand ns (ls ! m) (ls ! Suc m) r)"
  by (simp add: cand_for_def new_cand_def)

text \<open>The pairs after the merge are the untouched pairs and the pairs at the merged node.\<close>

lemma pair_merge_cases:
  assumes "pair_at rk (merge_at k xs) m r" "Suc k < length xs"
  obtains (old) m' where "m = shifted k m'" "m' \<notin> {k, Suc k}" "Suc m' \<notin> {k, Suc k}" "pair_at rk xs m' r"
  | (new) "Suc m = k \<or> m = k"
proof -
  consider "Suc m < k" | "Suc m = k \<or> m = k" | "k < m" by linarith
  then show thesis
  proof cases
    case 1
    with assms pair_at_merge [OF assms(2), of rk m r] show ?thesis
      by (intro old [of m]) (auto simp: shifted_def)
  next
    case 2
    then show ?thesis by (rule new)
  next
    case 3
    with assms pair_at_merge [OF assms(2), of rk m r] show ?thesis
      by (intro old [of "Suc m"]) (auto simp: shifted_def)
  qed
qed

lemma merge_keeps_inv:
  assumes inv: "bpe_inv tok input ns h ls" and pop: "set h = insert c (set h')" "heap_ok h'"
    and c: "c_left c = ls ! k" "c_right c = ls ! Suc k" and k: "Suc k < length ls"
  defines "ns' \<equiv> bpe_merge_nodes ns (ls ! k) (ls ! Suc k)"
  shows "bpe_inv tok input ns' (merge_pushes tok input ns' (ls ! k) h') (skip k ls)"
proof -
  note I = bpe_invD [OF inv]
  let ?ls = "skip k ls" and ?rk = "tok_rank tok"
  let ?h = "merge_pushes tok input ns' (ls ! k) h'"
  have ch: "chain input ns' ?ls" and sy: "syms input ns' ?ls = merge_at k (syms input ns ls)"
    unfolding ns'_def by (rule chain_merge [OF I(1) k])+
  have kk: "?ls ! k = ls ! k" "k < length ?ls"
    using k by (simp_all add: nth_skip [OF k] length_skip [OF k])
  note P = merge_pushes_correct [OF ch kk(2) pop(2), of tok, unfolded kk(1)]
  have old: "c0 \<in> set h" if "c0 \<in> set h'" for c0
    using that pop(1) by simp
  note O = I(3) [unfolded cands_old_def, rule_format]
  have fr: "fresh ns' c0 \<longleftrightarrow> fresh ns c0 \<and> {c_left c0, c_right c0} \<inter> {ls ! k, ls ! Suc k} = {}"
    if "c0 \<in> set h" for c0
    unfolding ns'_def using O [OF that] by (intro fresh_after_merge [OF I(1) k]) simp_all
  have len: "length ns' = length ns"
    unfolding ns'_def by (rule merge_nodes_fields(1) [OF chain_merge_pre(1-4) [OF I(1) k] chain_merge_pre(1) [OF I(1) k]])
  have ver: "nd_ver (ns ! i) \<le> nd_ver (ns' ! i)" if "i < length ns" for i
    unfolding ns'_def using merge_nodes_fields(4) [OF chain_merge_pre(1-4) [OF I(1) k] that] by simp
  have notin: "ls ! m \<notin> {ls ! k, ls ! Suc k} \<longleftrightarrow> m \<notin> {k, Suc k}" if "m < length ls" for m
    using chain_inj [OF I(1)] that k by auto
  have "cands_old ns' (set ?h)"
    unfolding cands_old_def
  proof
    fix c0
    assume "c0 \<in> set ?h"
    then consider "c0 \<in> set h'" | m r where "c0 = new_cand ns' (?ls ! m) (?ls ! Suc m) r" "pair_at ?rk (syms input ns' ?ls) m r"
      unfolding P(2) by blast
    then show "c_left c0 < length ns' \<and> c_right c0 < length ns' \<and>
       c_lver c0 \<le> nd_ver (ns' ! c_left c0) \<and> c_rver c0 \<le> nd_ver (ns' ! c_right c0)"
    proof cases
      case 1
      with O [OF old] ver show ?thesis
        unfolding len by (meson le_trans)
    next
      case 2
      with chainD(1) [OF ch] show ?thesis
        by (auto simp: new_cand_def pair_at_def)
    qed
  qed
  moreover have "cands_sound tok input ns' ?ls (set ?h)"
    unfolding cands_sound_def
  proof (intro ballI impI)
    fix c0
    assume c0: "c0 \<in> set ?h" "fresh ns' c0"
    then consider "c0 \<in> set h'" | m r where "c0 = new_cand ns' (?ls ! m) (?ls ! Suc m) r" "pair_at ?rk (syms input ns' ?ls) m r"
      unfolding P(2) by blast
    then show "\<exists>m. pair_at ?rk (syms input ns' ?ls) m (c_rank c0) \<and> cand_for ?ls m (c_rank c0) c0"
    proof cases
      case 1
      then have f: "fresh ns c0" "{c_left c0, c_right c0} \<inter> {ls ! k, ls ! Suc k} = {}"
        using fr [OF old] c0(2) by auto
      obtain m where m: "pair_at ?rk (syms input ns ls) m (c_rank c0)" "cand_for ls m (c_rank c0) c0"
        using I(4) old [OF 1] f(1) unfolding cands_sound_def by blast
      have ml: "Suc m < length ls"
        using m(1) by (simp add: pair_at_def)
      have "m \<notin> {k, Suc k}" "Suc m \<notin> {k, Suc k}"
        using f(2) m(2) notin [of m] notin [of "Suc m"] ml by (auto simp: cand_for_def)
      note S = pair_shift [OF k this ml length_syms]
      show ?thesis
        using m S by (intro exI [of _ "shifted k m"]) (simp add: sy cand_for_def)
    next
      case 2
      then show ?thesis
        by (intro exI [of _ m]) (simp add: new_cand_def cand_for_def)
    qed
  qed
  moreover have "cands_cover tok input ns' ?ls (set ?h)"
    unfolding cands_cover_def
  proof (intro allI impI)
    fix m r
    assume p: "pair_at ?rk (syms input ns' ?ls) m r"
    consider (old) m' where "m = shifted k m'" "m' \<notin> {k, Suc k}" "Suc m' \<notin> {k, Suc k}"
        "pair_at ?rk (syms input ns ls) m' r" | (new) "Suc m = k \<or> m = k"
      using pair_merge_cases [OF p [unfolded sy], unfolded length_syms, OF k] by blast
    then show "\<exists>c0\<in>set ?h. fresh ns' c0 \<and> cand_for ?ls m r c0"
    proof cases
      case old
      then have ml: "Suc m' < length ls"
        by (simp add: pair_at_def)
      obtain c0 where c0: "c0 \<in> set h" "fresh ns c0" "cand_for ls m' r c0"
        using I(5) old(4) unfolding cands_cover_def by blast
      have "{c_left c0, c_right c0} \<inter> {ls ! k, ls ! Suc k} = {}"
        using c0(3) notin [of m'] notin [of "Suc m'"] ml old(2,3) by (auto simp: cand_for_def)
      moreover from this have "c0 \<noteq> c"
        using c by auto
      ultimately have "c0 \<in> set ?h" "fresh ns' c0"
        using c0 fr [OF c0(1)] pop(1) unfolding P(2) by auto
      moreover have "cand_for ?ls m r c0"
        using c0(3) pair_shift(2,3) [OF k old(2,3) ml length_syms] unfolding old(1) by (simp add: cand_for_def)
      ultimately show ?thesis
        by blast
    next
      case new
      with p have "new_cand ns' (?ls ! m) (?ls ! Suc m) r \<in> set ?h"
        unfolding P(2) by blast
      with new_cand_fresh new_cand_for show ?thesis
        by blast
    qed
  qed
  ultimately show ?thesis
    using ch P(1) by (simp add: bpe_inv_def)
qed

subsection \<open>The loop\<close>

text \<open>What is left to pop: the heap, and two pushes for each merge still possible.\<close>

definition bpe_work :: "bpe_cand list \<Rightarrow> nat list \<Rightarrow> nat" where
  "bpe_work h ls = length h + 2 * length ls"

lemma bpe_step_inv:
  assumes inv: "bpe_inv tok input ns h ls" and ne: "h \<noteq> []"
  obtains ns' h' ls' where "bpe_step tok input (ns, h) = (ns', h')" "bpe_inv tok input ns' h' ls'"
    "bpe_work h' ls' < bpe_work h ls" "length ns' = length ns"
    "ls' = ls \<and> syms input ns' ls' = syms input ns ls \<or>
     (\<exists>k. Suc k < length ls \<and> ls' = skip k ls \<and> syms input ns' ls' = merge_at k (syms input ns ls) \<and>
        (\<exists>r. best_from (tok_rank tok) 0 (syms input ns ls) = Some (r, k)))"
proof -
  obtain c h1 where p: "bpe_heap_pop h = (c, h1)" "heap_ok h1" "set h = insert c (set h1)"
    "length h = Suc (length h1)" "\<forall>c'\<in>set h. cand_key c \<le> cand_key c'"
    by (rule pop_cand [OF bpe_invD(2) [OF inv] ne])
  show thesis
  proof (cases "fresh ns c")
    case False
    show ?thesis
    proof (rule that [of ns h1 ls])
      show "bpe_step tok input (ns, h) = (ns, h1)"
        using False by (simp add: bpe_step_unfold [OF p(1)])
      show "bpe_inv tok input ns h1 ls"
        by (rule inv_pop_stale [OF inv p(3,2) False])
    qed (simp_all add: bpe_work_def p(4))
  next
    case True
    obtain k where k: "best_at (tok_rank tok) (syms input ns ls) (c_rank c) k"
      "c_left c = ls ! k" "c_right c = ls ! Suc k" "Suc k < length ls"
      using inv_pop_best [OF inv _ True p(5) [rule_format]] p(3) by blast
    let ?ns = "bpe_merge_nodes ns (ls ! k) (ls ! Suc k)"
    note ch = bpe_invD(1) [OF inv] and ch' = chain_merge [OF bpe_invD(1) [OF inv] k(4)]
    have kk: "skip k ls ! k = ls ! k" "k < length (skip k ls)"
      using k(4) by (simp_all add: nth_skip [OF k(4)] length_skip [OF k(4)])
    note P = merge_pushes_correct(3) [OF ch'(1) kk(2) p(2), of tok, unfolded kk(1)]
    show ?thesis
    proof (rule that [of ?ns "merge_pushes tok input ?ns (ls ! k) h1" "skip k ls"])
      show "bpe_step tok input (ns, h) = (?ns, merge_pushes tok input ?ns (ls ! k) h1)"
        using True k(2,3) by (simp add: bpe_step_unfold [OF p(1)] Let_def)
      show "bpe_inv tok input ?ns (merge_pushes tok input ?ns (ls ! k) h1) (skip k ls)"
        by (rule merge_keeps_inv [OF inv p(3,2) k(2-4)])
      show "bpe_work (merge_pushes tok input ?ns (ls ! k) h1) (skip k ls) < bpe_work h ls"
        using P k(4) by (simp add: bpe_work_def p(4) length_skip)
      show "length ?ns = length ns"
        by (rule merge_nodes_fields(1) [OF chain_merge_pre(1-4) [OF ch k(4)] chain_merge_pre(1) [OF ch k(4)]])
      show "skip k ls = ls \<and> syms input ?ns (skip k ls) = syms input ns ls \<or>
        (\<exists>k'. Suc k' < length ls \<and> skip k ls = skip k' ls \<and>
          syms input ?ns (skip k ls) = merge_at k' (syms input ns ls) \<and>
          (\<exists>r. best_from (tok_rank tok) 0 (syms input ns ls) = Some (r, k')))"
        using k(4) ch'(2) best_from_at [OF k(1)] by blast
    qed
  qed
qed

lemma hd_skip: "Suc k < length ls \<Longrightarrow> skip k ls \<noteq> [] \<and> hd (skip k ls) = hd ls"
  by (cases ls) (auto simp: skip_def)

lemma bpe_loop_greedy:
  "bpe_inv tok input ns h ls \<Longrightarrow> bpe_work h ls \<le> fuel \<Longrightarrow>
   \<exists>ns' ls'. bpe_loop tok input fuel (ns, h) = Some ns' \<and> chain input ns' ls' \<and> length ns' = length ns \<and>
     syms input ns' ls' = bpe_greedy (tok_rank tok) (syms input ns ls) \<and> length ls' \<le> length ls \<and>
     (ls \<noteq> [] \<longrightarrow> ls' \<noteq> [] \<and> hd ls' = hd ls)"
proof (induction fuel arbitrary: ns h ls)
  case 0
  then have "h = []" "ls = []"
    by (auto simp: bpe_work_def)
  with bpe_invD(1) [OF 0(1)] show ?case
    by (subst bpe_loop.simps, subst bpe_greedy.simps) (auto simp: syms_def)
next
  case (Suc fuel)
  show ?case
  proof (cases "h = []")
    case True
    have "best_from (tok_rank tok) 0 (syms input ns ls) = None"
      using bpe_invD(5) [OF Suc.prems(1)] True unfolding best_from_None cands_cover_def by auto
    with True bpe_invD(1) [OF Suc.prems(1)] show ?thesis
      by (subst bpe_loop.simps, subst bpe_greedy.simps) auto
  next
    case False
    obtain ns1 h1 ls1 where s: "bpe_step tok input (ns, h) = (ns1, h1)" "bpe_inv tok input ns1 h1 ls1"
      "bpe_work h1 ls1 < bpe_work h ls" "length ns1 = length ns"
      "ls1 = ls \<and> syms input ns1 ls1 = syms input ns ls \<or>
       (\<exists>k. Suc k < length ls \<and> ls1 = skip k ls \<and> syms input ns1 ls1 = merge_at k (syms input ns ls) \<and>
          (\<exists>r. best_from (tok_rank tok) 0 (syms input ns ls) = Some (r, k)))"
      by (rule bpe_step_inv [OF Suc.prems(1) False])
    have g: "bpe_greedy (tok_rank tok) (syms input ns1 ls1) = bpe_greedy (tok_rank tok) (syms input ns ls)"
      "length ls1 \<le> length ls" "ls \<noteq> [] \<longrightarrow> ls1 \<noteq> [] \<and> hd ls1 = hd ls"
      using s(5) hd_skip length_skip by (auto simp: bpe_greedy.simps [of _ "syms input ns ls"])
    have "bpe_loop tok input (Suc fuel) (ns, h) = bpe_loop tok input fuel (ns1, h1)"
      using False s(1) by (subst bpe_loop.simps) simp
    moreover have "bpe_work h1 ls1 \<le> fuel"
      using s(3) Suc.prems(2) by simp
    from Suc.IH [OF s(2) this] obtain ns' ls' where
      "bpe_loop tok input fuel (ns1, h1) = Some ns'" "chain input ns' ls'" "length ns' = length ns1"
      "syms input ns' ls' = bpe_greedy (tok_rank tok) (syms input ns1 ls1)" "length ls' \<le> length ls1"
      "ls1 \<noteq> [] \<longrightarrow> ls' \<noteq> [] \<and> hd ls' = hd ls1"
      by blast
    ultimately show ?thesis
      using g s(4) by (intro exI [of _ ns'] exI [of _ ls']) auto
  qed
qed

subsection \<open>The initial state\<close>

definition split_node :: "bytes \<Rightarrow> nat \<Rightarrow> bpe_node list \<Rightarrow> nat \<Rightarrow> bool" where
  "split_node input pos ns k \<longleftrightarrow>
     nd_start (ns ! k) < nd_end (ns ! k) \<and> nd_end (ns ! k) \<le> pos \<and>
     nd_prev (ns ! k) = (if k = 0 then None else Some (k - 1)) \<and>
     nd_next (ns ! k) = (if nd_end (ns ! k) < length input then Some (k + 1) else None) \<and>
     nd_end (ns ! k) = (if Suc k < length ns then nd_start (ns ! Suc k) else pos)"

definition split_ok :: "bytes \<Rightarrow> nat \<Rightarrow> bpe_node list \<Rightarrow> bool" where
  "split_ok input pos ns \<longleftrightarrow> pos \<le> length input \<and> (ns = [] \<longrightarrow> pos = 0) \<and> (\<forall>k<length ns. split_node input pos ns k)"

lemma split_ok_Nil: "split_ok input 0 []"
  by (simp add: split_ok_def)

lemma bpe_split_ok:
  "split_ok input pos ns \<Longrightarrow> split_ok input (length input) (bpe_split input pos ns) \<and>
   map (node_bytes input) (bpe_split input pos ns) = map (node_bytes input) ns @ utf8_chars input pos"
proof (induction input pos ns rule: bpe_split.induct)
  case (1 input pos ns)
  show ?case
  proof (cases "pos < length input")
    case True
    let ?n = "ci_len (uc_decode_codepoint input pos)"
    let ?nd = "\<lparr>nd_start = pos, nd_end = pos + ?n, nd_prev = (if length ns = 0 then None else Some (length ns - 1)),
        nd_next = (if pos + ?n < length input then Some (length ns + 1) else None), nd_ver = 0\<rparr>"
    have b: "0 < ?n" "pos + ?n \<le> length input"
      using uc_decode_bounds [OF True] by auto
    have "split_ok input (pos + ?n) (ns @ [?nd])"
      unfolding split_ok_def
    proof (intro conjI allI impI)
      fix k
      assume k: "k < length (ns @ [?nd])"
      show "split_node input (pos + ?n) (ns @ [?nd]) k"
      proof (cases "k < length ns")
        case True
        then have "split_node input pos ns k"
          using "1.prems" by (simp add: split_ok_def)
        with True show ?thesis
          by (auto simp: split_node_def nth_append not_less_eq less_Suc_eq)
      next
        case False
        with k b show ?thesis
          by (auto simp: split_node_def nth_append less_Suc_eq)
      qed
    qed (use b in simp_all)
    note IH = "1.IH" [OF True refl refl refl this]
    have u: "bpe_split input pos ns = bpe_split input (pos + ?n) (ns @ [?nd])"
      using True by (subst bpe_split.simps) (simp only: Let_def if_True)
    have "utf8_chars input pos = node_bytes input ?nd # utf8_chars input (pos + ?n)"
      using True by (subst utf8_chars.simps) (simp add: Let_def node_bytes_def)
    with IH show ?thesis
      unfolding u by simp
  next
    case False
    with "1.prems" show ?thesis
      by (subst (1 2) bpe_split.simps, subst utf8_chars.simps) (auto simp: split_ok_def)
  qed
qed

lemma split_chain: "split_ok input (length input) ns \<Longrightarrow> chain input ns [0..<length ns]"
  unfolding chain_def
proof (intro conjI allI impI)
  assume s: "split_ok input (length input) ns"
  fix k
  assume "k < length [0..<length ns]"
  then have k: "k < length ns" by simp
  note K = s [unfolded split_ok_def, THEN conjunct2, THEN conjunct2, rule_format, unfolded split_node_def]
  show "[0..<length ns] ! k < length ns"
    "nd_start (ns ! ([0..<length ns] ! k)) < nd_end (ns ! ([0..<length ns] ! k))"
    "nd_end (ns ! ([0..<length ns] ! k)) \<le> length input"
    "nd_prev (ns ! ([0..<length ns] ! k)) = (if k = 0 then None else Some ([0..<length ns] ! (k - 1)))"
    using K [OF k] k by auto
  show "nd_next (ns ! ([0..<length ns] ! k)) =
      (if Suc k < length [0..<length ns] then Some ([0..<length ns] ! Suc k) else None)"
    using K [OF k] K [of "Suc k"] k by auto
  show "nd_end (ns ! ([0..<length ns] ! k)) = nd_start (ns ! ([0..<length ns] ! Suc k))"
    if "Suc k < length [0..<length ns]"
    using K [OF k] k that by auto
qed simp

lemma bpe_seed_upto:
  "heap_ok (fold (\<lambda>j heap. bpe_push_cand tok input ns heap j (j + 1)) [0..<m] []) \<and>
   set (fold (\<lambda>j heap. bpe_push_cand tok input ns heap j (j + 1)) [0..<m] []) =
     {new_cand ns j (Suc j) r |j r. j < m \<and>
        tok_rank tok (node_bytes input (ns ! j)) (node_bytes input (ns ! Suc j)) = Some r} \<and>
   length (fold (\<lambda>j heap. bpe_push_cand tok input ns heap j (j + 1)) [0..<m] []) \<le> m"
proof (induction m)
  case (Suc m)
  then show ?case
    using push_cand_correct [of "fold (\<lambda>j heap. bpe_push_cand tok input ns heap j (j + 1)) [0..<m] []" tok input ns m "m + 1"]
    by (auto simp: less_Suc_eq)
qed (simp add: heap_ok_def)

lemma bpe_init:
  assumes "ns = bpe_split input 0 []"
  shows "bpe_inv tok input ns (bpe_seed tok input ns) [0..<length ns]"
    "length (bpe_seed tok input ns) \<le> length ns - 1"
    "syms input ns [0..<length ns] = utf8_chars input 0"
proof -
  have s: "split_ok input (length input) ns" "map (node_bytes input) ns = utf8_chars input 0"
    using bpe_split_ok [OF split_ok_Nil] assms by simp_all
  show sy: "syms input ns [0..<length ns] = utf8_chars input 0"
    unfolding syms_def s(2) [symmetric] by (rule nth_equalityI) simp_all
  note S = bpe_seed_upto [of tok input ns "length ns - 1", folded bpe_seed_def]
  show "length (bpe_seed tok input ns) \<le> length ns - 1"
    using S by blast
  have "cands_old ns (set (bpe_seed tok input ns))"
    using S by (auto simp: cands_old_def new_cand_def)
  moreover have "cands_sound tok input ns [0..<length ns] (set (bpe_seed tok input ns))"
    unfolding cands_sound_def
  proof (intro ballI impI)
    fix c
    assume "c \<in> set (bpe_seed tok input ns)"
    then obtain j r where "j < length ns - 1" "c = new_cand ns j (Suc j) r"
      "tok_rank tok (node_bytes input (ns ! j)) (node_bytes input (ns ! Suc j)) = Some r"
      using S by auto
    then show "\<exists>k. pair_at (tok_rank tok) (syms input ns [0..<length ns]) k (c_rank c) \<and>
        cand_for [0..<length ns] k (c_rank c) c"
      by (intro exI [of _ j]) (auto simp: pair_at_def nth_syms cand_for_def new_cand_def)
  qed
  moreover have "cands_cover tok input ns [0..<length ns] (set (bpe_seed tok input ns))"
    unfolding cands_cover_def
  proof (intro allI impI)
    fix k r
    assume p: "pair_at (tok_rank tok) (syms input ns [0..<length ns]) k r"
    then have "k < length ns - 1"
      "tok_rank tok (node_bytes input (ns ! k)) (node_bytes input (ns ! Suc k)) = Some r"
      by (auto simp: pair_at_def nth_syms)
    then have "new_cand ns k (Suc k) r \<in> set (bpe_seed tok input ns)"
      using S by blast
    moreover have "cand_for [0..<length ns] k r (new_cand ns k (Suc k) r)"
      using p by (simp add: cand_for_def new_cand_def pair_at_def)
    ultimately show "\<exists>c\<in>set (bpe_seed tok input ns). fresh ns c \<and> cand_for [0..<length ns] k r c"
      using new_cand_fresh by blast
  qed
  ultimately show "bpe_inv tok input ns (bpe_seed tok input ns) [0..<length ns]"
    using split_chain [OF s(1)] S by (simp add: bpe_inv_def)
qed

subsection \<open>The ids\<close>

lemma bpe_emit_chain:
  assumes "chain input ns ls"
  shows "length ls - k \<le> fuel \<Longrightarrow> k \<le> length ls \<Longrightarrow>
    bpe_emit_from tok input ns fuel (if k < length ls then Some (ls ! k) else None) ids
      = Some (ids @ concat (map (bpe_emit_symbol tok) (drop k (syms input ns ls))))"
proof (induction fuel arbitrary: k ids)
  case (Suc f)
  show ?case
  proof (cases "k < length ls")
    case True
    have d: "drop k (syms input ns ls) = node_bytes input (ns ! (ls ! k)) # drop (Suc k) (syms input ns ls)"
      using True by (metis Cons_nth_drop_Suc length_syms nth_syms)
    show ?thesis
      using Suc.IH [of "Suc k"] Suc.prems True chainD(5) [OF assms True] by (simp add: d)
  qed simp
qed simp

subsection \<open>What a merge conserves\<close>

lemma concat_merge_at: "Suc k < length xs \<Longrightarrow> concat (merge_at k xs) = concat xs"
proof -
  assume k: "Suc k < length xs"
  then have "xs = take k xs @ xs ! k # xs ! Suc k # drop (Suc (Suc k)) xs"
    by (metis Cons_nth_drop_Suc Suc_lessD append_take_drop_id)
  then have "concat xs = concat (take k xs @ xs ! k # xs ! Suc k # drop (Suc (Suc k)) xs)"
    by (rule arg_cong)
  then show ?thesis
    by (simp add: merge_at_def)
qed

text \<open>A property of symbols that joining two symbols keeps holds of every greedy symbol.\<close>

lemma greedy_all:
  "(\<And>a b. P a \<Longrightarrow> P b \<Longrightarrow> rk a b \<noteq> None \<Longrightarrow> P (a @ b)) \<Longrightarrow> \<forall>x\<in>set xs. P x \<Longrightarrow>
   (\<forall>x\<in>set (bpe_greedy rk xs). P x) \<and> concat (bpe_greedy rk xs) = concat xs"
proof (induction rk xs rule: bpe_greedy.induct)
  case (1 rk xs)
  show ?case
  proof (cases "best_from rk 0 xs")
    case None
    with "1.prems" show ?thesis
      by (subst (1 2) bpe_greedy.simps) simp
  next
    case (Some p)
    obtain r k where p: "p = (r, k)" by (cases p)
    have k: "pair_at rk xs k r"
      using best_from_Some [of rk 0 xs r k] Some p by (simp add: best_at_def)
    then have kl: "Suc k < length xs" "rk (xs ! k) (xs ! Suc k) \<noteq> None"
      by (auto simp: pair_at_def)
    have "\<forall>x\<in>set (merge_at k xs). P x"
      using "1.prems" kl by (auto simp: merge_at_def dest: in_set_takeD in_set_dropD)
    from "1.IH" [OF Some p [symmetric] "1.prems"(1) this] concat_merge_at [OF kl(1)] Some p show ?thesis
      by (subst (1 2) bpe_greedy.simps) simp
  qed
qed

lemma utf8_chars_concat:
  "pos \<le> length input \<Longrightarrow> concat (utf8_chars input pos) = drop pos input \<and> (\<forall>c\<in>set (utf8_chars input pos). c \<noteq> [])"
proof (induction input pos rule: utf8_chars.induct)
  case (1 input pos)
  show ?case
  proof (cases "pos < length input")
    case True
    let ?n = "ci_len (uc_decode_codepoint input pos)"
    have b: "0 < ?n" "pos + ?n \<le> length input"
      using uc_decode_bounds [OF True] by auto
    have "utf8_chars input pos = take ?n (drop pos input) # utf8_chars input (pos + ?n)"
      using True by (subst utf8_chars.simps) (simp add: Let_def)
    moreover have "take ?n (drop pos input) @ drop (pos + ?n) input = drop pos input"
      by (metis add.commute append_take_drop_id drop_drop)
    ultimately show ?thesis
      using "1.IH" [OF True refl b(2)] b True by simp
  next
    case False
    with 1 show ?thesis
      by (subst (1 2) utf8_chars.simps) simp
  qed
qed

lemma length_concat_le:
  assumes "\<And>b. length (f b) \<le> 1"
  shows "length (concat (map f s)) \<le> length s"
proof (induction s)
  case (Cons b s)
  with assms [of b] show ?case
    by simp
qed simp

lemma length_emit_symbol: "s \<noteq> [] \<Longrightarrow> length (bpe_emit_symbol tok s) \<le> length s"
proof -
  have "length (bpe_emit_byte tok b) \<le> 1" for b
    by (simp add: bpe_emit_byte_def Let_def)
  from length_concat_le [of "bpe_emit_byte tok", OF this, of s] show "s \<noteq> [] \<Longrightarrow> ?thesis"
    unfolding bpe_emit_symbol_def
    by (cases "map_id (tk_vocab tok) s") (auto simp: Suc_le_eq simp del: length_concat)
qed

lemma length_emit_all:
  "\<forall>s\<in>set ss. s \<noteq> [] \<Longrightarrow> length (concat (map (bpe_emit_symbol tok) ss)) \<le> length (concat ss)"
  by (induction ss) (auto simp: add_mono length_emit_symbol)

lemma length_utf8_chars: "length (utf8_chars input 0) \<le> length input"
proof -
  have "length xs \<le> length (concat xs)" if "\<forall>x\<in>set xs. x \<noteq> []" for xs :: "bytes list"
    using that by (induction xs) (auto simp: neq_Nil_conv)
  with utf8_chars_concat [of 0 input] show ?thesis
    by (metis drop0 zero_le)
qed

subsection \<open>The merge\<close>

lemma bpe_merge_result:
  assumes "tk_type tok \<noteq> TOKENIZER_WORDPIECE" "int (length input) \<le> INT_MAX"
  shows "bpe_merge tok input =
    Some (Some (concat (map (bpe_emit_symbol tok) (bpe_greedy (tok_rank tok) (utf8_chars input 0)))))"
proof -
  obtain ns where ns: "ns = bpe_split input 0 []" by simp
  note I = bpe_init(1,2) [OF ns, of tok] bpe_init(3) [OF ns]
  have w: "bpe_work (bpe_seed tok input ns) [0..<length ns] \<le> 3 * length ns"
    using I(2) by (simp add: bpe_work_def)
  obtain ns' ls' where L: "bpe_loop tok input (3 * length ns) (ns, bpe_seed tok input ns) = Some ns'"
    "chain input ns' ls'" "length ns' = length ns"
    "syms input ns' ls' = bpe_greedy (tok_rank tok) (utf8_chars input 0)" "length ls' \<le> length ns"
    "ns \<noteq> [] \<longrightarrow> ls' \<noteq> [] \<and> hd ls' = 0"
    using bpe_loop_greedy [OF I(1) w, unfolded I(3)] by (cases "ns = []") (fastforce simp: hd_upt)+
  have "(if ns' \<noteq> [] then Some 0 else None) = (if 0 < length ls' then Some (ls' ! 0) else None)"
    using L(3,5,6) by (cases "ns = []") (auto simp: hd_conv_nth)
  with bpe_emit_chain [OF L(2), of 0 "length ns'" tok "[]"] L(3,5)
  have "bpe_emit_from tok input ns' (length ns') (if ns' \<noteq> [] then Some 0 else None) []
      = Some (concat (map (bpe_emit_symbol tok) (syms input ns' ls')))"
    by simp
  with assms L(1,4) show ?thesis
    by (simp add: bpe_merge_def Let_def flip: ns)
qed

text \<open>The states the merge loop passes through.\<close>

inductive bpe_reach :: "tokenizer \<Rightarrow> bytes \<Rightarrow> bpe_node list \<times> bpe_cand list \<Rightarrow> bool"
  for tok input where
  init: "ns = bpe_split input 0 [] \<Longrightarrow> bpe_reach tok input (ns, bpe_seed tok input ns)"
| step: "bpe_reach tok input (ns, h) \<Longrightarrow> h \<noteq> [] \<Longrightarrow> bpe_reach tok input (bpe_step tok input (ns, h))"

lemma bpe_reach_inv:
  "bpe_reach tok input s \<Longrightarrow> \<exists>ls. bpe_inv tok input (fst s) (snd s) ls \<and>
     length (fst s) = length (bpe_split input 0 []) \<and>
     bpe_work (snd s) ls \<le> length (fst s) - 1 + 2 * length (fst s) \<and> (fst s \<noteq> [] \<longrightarrow> ls \<noteq> [])"
proof (induction rule: bpe_reach.induct)
  case (init ns)
  note I = bpe_init(1,2) [OF init, of tok]
  have "bpe_work (bpe_seed tok input ns) [0..<length ns] \<le> length ns - 1 + 2 * length ns"
    using I(2) by (simp add: bpe_work_def)
  with I(1) init show ?case
    by (intro exI [of _ "[0..<length ns]"]) simp
next
  case (step ns h)
  then obtain ls where ls: "bpe_inv tok input ns h ls" "length ns = length (bpe_split input 0 [])"
    "bpe_work h ls \<le> length ns - 1 + 2 * length ns" "ns \<noteq> [] \<longrightarrow> ls \<noteq> []"
    by auto
  obtain ns' h' ls' where s: "bpe_step tok input (ns, h) = (ns', h')" "bpe_inv tok input ns' h' ls'"
    "bpe_work h' ls' < bpe_work h ls" "length ns' = length ns"
    "ls' = ls \<and> syms input ns' ls' = syms input ns ls \<or>
     (\<exists>k. Suc k < length ls \<and> ls' = skip k ls \<and> syms input ns' ls' = merge_at k (syms input ns ls) \<and>
        (\<exists>r. best_from (tok_rank tok) 0 (syms input ns ls) = Some (r, k)))"
    by (rule bpe_step_inv [OF ls(1) step(2)])
  have "ns' \<noteq> [] \<longrightarrow> ls' \<noteq> []"
    using s(4,5) ls(4) hd_skip [of _ ls] by (metis length_0_conv)
  with s(1-4) ls(2,3) show ?case
    by (intro exI [of _ ls']) simp
qed

lemma length_split: "length (bpe_split input 0 []) \<le> length input"
  using bpe_init(3) [OF refl, of input] length_utf8_chars [of input]
  by (metis length_syms length_upt minus_nat.diff_0)

lemma tok_rank_abs: "merge_map_reach (tk_merges tok) \<Longrightarrow> tok_rank tok = (\<lambda>l r. oa_abs (tk_merges tok) (l, r))"
  by (simp add: tok_rank_def merge_map_get_abs fun_eq_iff)

lemma map_id_abs: "str_u32_map_reach m \<Longrightarrow> map_id m key = map_option (\<lambda>v. c_int (uint v)) (oa_abs m key)"
  by (simp add: map_id_def str_u32_map_get_abs)

subsection \<open>Properties\<close>

text \<open>C22. The heap-driven merge is the greedy algorithm: with loaded tables it always returns, and its
  ids are those of the symbols obtained by cutting the input into codepoints and repeatedly joining
  the lowest-ranked adjacent pair, leftmost on ties, until no pair has a rank.\<close>

theorem bpe_merge_greedy:
  assumes "tk_type tok \<noteq> TOKENIZER_WORDPIECE" "int (length input) \<le> INT_MAX"
    and "merge_map_reach (tk_merges tok)"
  shows "bpe_merge tok input =
    Some (Some (concat (map (bpe_emit_symbol tok)
      (bpe_greedy (\<lambda>l r. oa_abs (tk_merges tok) (l, r)) (utf8_chars input 0)))))"
  using bpe_merge_result [OF assms(1,2)] by (simp only: tok_rank_abs [OF assms(3)])

text \<open>C23. The candidate heap never outgrows its buffer: in every state of the merge loop it holds at
  most \<open>3 * (n_nodes - 1)\<close> candidates, which is below the reserved \<open>3 * len\<close>, and every candidate
  points into the node array, which has at most \<open>len\<close> nodes.\<close>

theorem bpe_heap_bounded:
  assumes "bpe_reach tok input (ns, h)"
  shows "length h \<le> 3 * (length ns - 1) \<and> (h \<noteq> [] \<longrightarrow> length h < 3 * length input) \<and>
    length ns \<le> length input \<and> (\<forall>c\<in>set h. c_left c < length ns \<and> c_right c < length ns)"
proof -
  obtain ls where ls: "bpe_inv tok input ns h ls" "length ns = length (bpe_split input 0 [])"
    "bpe_work h ls \<le> length ns - 1 + 2 * length ns" "ns \<noteq> [] \<longrightarrow> ls \<noteq> []"
    using bpe_reach_inv [OF assms] by auto
  have "length h \<le> 3 * (length ns - 1)"
    using ls(3,4) by (cases ls; cases ns) (auto simp: bpe_work_def)
  moreover have "length ns \<le> length input"
    using length_split ls(2) by simp
  moreover have "\<forall>c\<in>set h. c_left c < length ns \<and> c_right c < length ns"
    using bpe_invD(3) [OF ls(1)] by (simp add: cands_old_def)
  moreover from calculation have "h \<noteq> [] \<longrightarrow> length h < 3 * length input"
    by (cases h) auto
  ultimately show ?thesis
    by blast
qed

text \<open>The id buffer suffices: a merge emits at most one id per input byte.\<close>

theorem bpe_merge_id_count:
  assumes "bpe_merge tok input = Some (Some ids)"
  shows "length ids \<le> length input"
proof -
  have "tk_type tok \<noteq> TOKENIZER_WORDPIECE" "int (length input) \<le> INT_MAX"
    using assms by (auto simp: bpe_merge_def not_less split: if_splits)
  note r = bpe_merge_result [OF this]
  have "(\<forall>s\<in>set (bpe_greedy (tok_rank tok) (utf8_chars input 0)). s \<noteq> []) \<and>
      concat (bpe_greedy (tok_rank tok) (utf8_chars input 0)) = input"
    using greedy_all [of "\<lambda>s. s \<noteq> []" "tok_rank tok" "utf8_chars input 0"] utf8_chars_concat [of 0 input]
    by auto
  with length_emit_all [of "bpe_greedy (tok_rank tok) (utf8_chars input 0)" tok] r assms show ?thesis
    by simp
qed

text \<open>A small tokenizer for the witnesses; they reach neither byte fallback nor the byte table.\<close>

definition sample_vocab_list :: "(bytes \<times> u32) list" where
  "sample_vocab_list = [([97], 0), ([98], 1), ([99], 2), ([97, 98], 3), ([98, 99], 4)]"

definition sample_vocab :: str_u32_map where
  "sample_vocab = snd (the (kv_put_all (str_u32_map_put (\<lambda>_. True)) sample_map0 sample_vocab_list))"

lemma sample_vocab_load:
  "kv_put_all (str_u32_map_put (\<lambda>_. True)) sample_map0 sample_vocab_list = Some (True, sample_vocab)"
  by code_simp

lemma sample_vocab_reach: "str_u32_map_reach sample_vocab"
  by (rule str_u32_map_reach_put_all [OF str_u32_map_reach.init [OF sample_map_steps(1)] sample_vocab_load])

lemma sample_merges_reach: "merge_map_reach sample_merges_loaded"
  by (rule merge_map_reach_put_all [OF merge_map_reach.init [OF sample_merges_steps(1)] sample_merges_steps(2)])

definition sample_tok :: tokenizer where
  "sample_tok = \<lparr>tk_type = TOKENIZER_BPE, tk_vocab = sample_vocab, tk_merges = sample_merges_loaded,
     tk_special_tokens = sample_map0, tk_added_special = sample_map0,
     tk_id_to_token = [Some [97], Some [98], Some [99], Some [97, 98], Some [98, 99]], tk_vocab_size = 5,
     tk_bos_id = - 1, tk_eos_id = - 1, tk_unk_id = - 1, tk_norm_form = NORM_NONE,
     tk_add_dummy_prefix = False, tk_wp_prefix = [35, 35], tk_wp_cleanup = True,
     tk_byte_fallback_ids = [], tk_bytes_unicode = \<lparr>byte_to_cp = [], cp_to_byte = []\<rparr>\<rparr>"

theorem bpe_merge_greedy_witness:
  "bpe_merge sample_tok [97, 98, 99, 97] =
   Some (Some (concat (map (bpe_emit_symbol sample_tok)
     (bpe_greedy (\<lambda>l r. oa_abs sample_merges_loaded (l, r)) (utf8_chars [97, 98, 99, 97] 0)))))"
  using bpe_merge_greedy [of sample_tok "[97, 98, 99, 97]"] sample_merges_reach
  by (simp add: sample_tok_def INT_MAX_def)

theorem bpe_heap_bounded_witness:
  "length (bpe_seed sample_tok [97, 98] (bpe_split [97, 98] 0 [])) < 6 \<or>
   bpe_seed sample_tok [97, 98] (bpe_split [97, 98] 0 []) = []"
  using bpe_heap_bounded [OF bpe_reach.init [OF refl], of sample_tok "[97, 98]"] by auto

theorem bpe_merge_id_count_witness:
  "bpe_merge sample_tok [97, 98] = Some (Some [3]) \<and> length [3 :: int] \<le> length [97, 98 :: byte]"
proof
  show "bpe_merge sample_tok [97, 98] = Some (Some [3])"
    by code_simp
  then show "length [3 :: int] \<le> length [97, 98 :: byte]"
    by (rule bpe_merge_id_count)
qed

end
