(* ===== verification/TokScan.thy ===== *)
theory TokScan
  imports TokEncode BpeCorrect
begin

text \<open>
  The scan for added tokens of \<open>TokEncode\<close> against a reference that walks the text one byte at a
  time and asks, at every position, for the longest token that starts there.
\<close>

subsection \<open>Occurrences\<close>

definition occurs :: "bytes \<Rightarrow> bytes \<Rightarrow> nat \<Rightarrow> bool" where
  "occurs key t p \<longleftrightarrow> key \<noteq> [] \<and> take (length key) (drop p t) = key"

lemma occurs_bound: "occurs key t p \<Longrightarrow> p + length key \<le> length t \<and> p < length t"
proof -
  assume o: "occurs key t p"
  then have "length key = min (length key) (length t - p)"
    unfolding occurs_def by (metis length_drop length_take min.commute)
  moreover have "0 < length key"
    using o by (simp add: occurs_def)
  ultimately show ?thesis
    by linarith
qed

lemma occurs_hd: "occurs key t p \<Longrightarrow> t ! p = key ! 0"
  using occurs_bound [of key t p] unfolding occurs_def
  by (metis add.right_neutral length_greater_0_conv nth_drop nth_take order.strict_implies_order)

lemma occurs_drop: "occurs key (drop a t) p \<longleftrightarrow> occurs key t (a + p)"
  by (simp add: occurs_def add.commute)

lemma memchr_spec:
  "case memchr hay a n c of
     Some p \<Rightarrow> a \<le> p \<and> p < a + n \<and> (\<forall>q. a \<le> q \<and> q < p \<longrightarrow> hay ! q \<noteq> c)
   | None \<Rightarrow> \<forall>q. a \<le> q \<and> q < a + n \<longrightarrow> hay ! q \<noteq> c"
proof (induction n arbitrary: a)
  case (Suc n)
  show ?case
  proof (cases "hay ! a = c")
    case False
    have "(\<forall>q. a \<le> q \<and> q < m \<longrightarrow> hay ! q \<noteq> c) \<longleftrightarrow> (\<forall>q. Suc a \<le> q \<and> q < m \<longrightarrow> hay ! q \<noteq> c)" for m
      using False by (metis Suc_leD le_neq_implies_less Suc_leI)
    with Suc.IH [of "Suc a"] False show ?thesis
      by (auto split: option.splits)
  qed auto
qed auto

definition first_at :: "bytes \<Rightarrow> bytes \<Rightarrow> nat \<Rightarrow> nat option \<Rightarrow> bool" where
  "first_at key t a r \<longleftrightarrow> (case r of
     Some p \<Rightarrow> a \<le> p \<and> occurs key t p \<and> (\<forall>q. a \<le> q \<and> q < p \<longrightarrow> \<not> occurs key t q)
   | None \<Rightarrow> \<forall>q\<ge>a. \<not> occurs key t q)"

lemma first_at_unique: "first_at key t a r \<Longrightarrow> first_at key t a r' \<Longrightarrow> r = r'"
  by (auto simp: first_at_def split: option.splits) (meson linorder_neqE_nat)

lemma first_at_later:
  assumes "first_at key t a r" "a \<le> b" "case r of None \<Rightarrow> True | Some p \<Rightarrow> b \<le> p"
  shows "first_at key t b r"
  using assms by (auto simp: first_at_def split: option.splits)

lemma find_sub_from_first: "key \<noteq> [] \<Longrightarrow> first_at key t a (find_sub_from t key a)"
proof (induction t key a rule: find_sub_from.induct)
  case (1 t key a)
  show ?case
  proof (cases "a + length key \<le> length t")
    case False
    then have "\<not> occurs key t q" if "a \<le> q" for q
      using occurs_bound [of key t q] that by auto
    with False show ?thesis
      by (subst find_sub_from.simps) (simp add: first_at_def)
  next
    case True
    let ?m = "memchr t a (length t - length key - a + 1) (key ! 0)"
    have skip: "\<not> occurs key t q" if "t ! q \<noteq> key ! 0" for q
      using occurs_hd that by blast
    have far: "q < a + (length t - length key - a + 1)" if "occurs key t q" for q
      using occurs_bound [OF that] True by linarith
    show ?thesis
    proof (cases ?m)
      case None
      then have "\<not> occurs key t q" if "a \<le> q" for q
        using memchr_spec [where hay = t and a = a and n = "length t - length key - a + 1" and c = "key ! 0"] skip far that by auto
      with None True show ?thesis
        by (subst find_sub_from.simps) (simp add: first_at_def del: memchr.simps)
    next
      case (Some p)
      then have p: "a \<le> p" "\<And>q. a \<le> q \<Longrightarrow> q < p \<Longrightarrow> \<not> occurs key t q"
        using memchr_spec [where hay = t and a = a and n = "length t - length key - a + 1" and c = "key ! 0"] skip by auto
      show ?thesis
      proof (cases "take (length key) (drop p t) = key")
        case eq: True
        with p "1.prems" Some True show ?thesis
          by (subst find_sub_from.simps) (simp add: first_at_def occurs_def del: memchr.simps)
      next
        case False
        then have "\<not> occurs key t p"
          by (simp add: occurs_def)
        then have none: "\<not> occurs key t q" if "a \<le> q" "q < Suc p" for q
          using p that by (cases "q = p") auto
        have "find_sub_from t key a = find_sub_from t key (Suc p)"
          using True Some False by (subst find_sub_from.simps) (simp del: memchr.simps)
        moreover have "first_at key t (Suc p) (find_sub_from t key (Suc p))"
          using "1.IH" [OF True Some False "1.prems"] by simp
        ultimately show ?thesis
          using none p(1) by (auto simp: first_at_def split: option.splits) (metis leI less_or_eq_imp_le not_less_eq_eq)+
      qed
    qed
  qed
qed

lemma find_sub_first: "first_at key t a (find_sub t a key)"
proof (cases "key = [] \<or> length t < length key")
  case True
  then have "\<not> occurs key t q" for q
    using occurs_bound [of key t q] by (auto simp: occurs_def)
  with True show ?thesis
    by (simp add: find_sub_def first_at_def)
next
  case False
  with find_sub_from_first [of key t a] show ?thesis
    by (simp add: find_sub_def)
qed

lemma find_sub_le: "occurs k t q \<Longrightarrow> a \<le> q \<Longrightarrow> \<exists>r. find_sub t a k = Some r \<and> r \<le> q"
  using find_sub_first [of k t a]
  by (cases "find_sub t a k") (simp_all add: first_at_def, use not_le_imp_less in blast)

subsection \<open>The choice of the next site\<close>

text \<open>A site that was last refreshed at or before \<open>pos\<close>.\<close>

definition site_ok :: "bytes \<Rightarrow> nat \<Rightarrow> special_site \<Rightarrow> bool" where
  "site_ok t pos s \<longleftrightarrow> (\<exists>a\<le>pos. first_at (ss_key s) t a (ss_next s))"

definition site_now :: "bytes \<Rightarrow> nat \<Rightarrow> special_site \<Rightarrow> special_site" where
  "site_now t pos s = s\<lparr>ss_next := find_sub t pos (ss_key s)\<rparr>"

lemma site_refresh_now: "site_ok t pos s \<Longrightarrow> site_refresh t pos s = site_now t pos s"
proof -
  assume "site_ok t pos s"
  then obtain a where a: "a \<le> pos" "first_at (ss_key s) t a (ss_next s)"
    by (auto simp: site_ok_def)
  show ?thesis
  proof (cases "\<exists>p. ss_next s = Some p \<and> p < pos")
    case False
    with a have "first_at (ss_key s) t pos (ss_next s)"
      by (intro first_at_later [OF a(2,1)]) (auto split: option.splits)
    then have "ss_next s = find_sub t pos (ss_key s)"
      using find_sub_first first_at_unique by blast
    with False show ?thesis
      by (auto simp: site_refresh_def site_now_def split: option.splits)
  qed (auto simp: site_refresh_def site_now_def)
qed

lemma site_now_ok: "pos \<le> pos' \<Longrightarrow> site_ok t pos' (site_now t pos s)"
  using find_sub_first by (auto simp: site_ok_def site_now_def)

lemma scan_sites_map:
  "\<forall>s\<in>set ss. site_ok t pos s \<Longrightarrow>
   scan_sites t pos ss best = (map (site_now t pos) ss, foldl site_better best (map (site_now t pos) ss))"
  by (induction ss arbitrary: best) (auto simp: site_refresh_now Let_def)

definition site_wins :: "special_site \<Rightarrow> special_site \<Rightarrow> bool" where
  "site_wins b s \<longleftrightarrow> (case ss_next s of
     None \<Rightarrow> True
   | Some q \<Rightarrow> the (ss_next b) < q \<or> (the (ss_next b) = q \<and> length (ss_key s) \<le> length (ss_key b)))"

lemma foldl_better:
  assumes "case best of None \<Rightarrow> True | Some b \<Rightarrow> ss_next b \<noteq> None"
  shows "case foldl site_better best ss of
     None \<Rightarrow> best = None \<and> (\<forall>s\<in>set ss. ss_next s = None)
   | Some b \<Rightarrow> ss_next b \<noteq> None \<and> (Some b = best \<or> b \<in> set ss) \<and> (\<forall>s\<in>set ss. site_wins b s) \<and>
       (\<forall>b0. best = Some b0 \<longrightarrow> site_wins b b0)"
  using assms
proof (induction ss arbitrary: best)
  case (Cons s ss)
  let ?b = "site_better best s"
  have ok: "case ?b of None \<Rightarrow> True | Some b \<Rightarrow> ss_next b \<noteq> None"
    using Cons.prems by (auto simp: site_better_def split: option.splits)
  have wins: "site_wins b s \<and> (\<forall>b0. best = Some b0 \<longrightarrow> site_wins b b0)"
    if "ss_next b \<noteq> None" "\<forall>b0. ?b = Some b0 \<longrightarrow> site_wins b b0" for b
    using that Cons.prems by (auto simp: site_better_def site_wins_def split: option.splits if_splits)
  show ?case
    using Cons.IH [OF ok] wins Cons.prems
    by (auto simp: site_better_def split: option.splits if_splits)
qed (auto simp: site_wins_def split: option.splits)

subsection \<open>The reference\<close>

datatype piece = Gap bytes | Special bytes int

text \<open>The longest token that starts the text.\<close>

fun longest_at :: "(bytes \<times> int) list \<Rightarrow> bytes \<Rightarrow> (bytes \<times> int) option" where
  "longest_at [] t = None"
| "longest_at ((k, i) # ks) t = (case longest_at ks t of
     None \<Rightarrow> if k \<noteq> [] \<and> take (length k) t = k then Some (k, i) else None
   | Some (k', i') \<Rightarrow>
       if k \<noteq> [] \<and> take (length k) t = k \<and> length k' < length k then Some (k, i) else Some (k', i'))"

lemma longest_at_spec:
  "case longest_at ks t of
     None \<Rightarrow> \<forall>(k, i) \<in> set ks. \<not> occurs k t 0
   | Some (k, i) \<Rightarrow> (k, i) \<in> set ks \<and> occurs k t 0 \<and>
       (\<forall>(k', i') \<in> set ks. occurs k' t 0 \<longrightarrow> length k' \<le> length k)"
  by (induction ks t rule: longest_at.induct) (fastforce simp: occurs_def split: option.splits if_splits)+

definition gap_piece :: "bytes \<Rightarrow> piece list" where
  "gap_piece gap = (if gap = [] then [] else [Gap gap])"

function split_special :: "(bytes \<times> int) list \<Rightarrow> bytes \<Rightarrow> bytes \<Rightarrow> piece list" where
  "split_special ks gap t =
     (case t of
        [] \<Rightarrow> gap_piece gap
      | c # cs \<Rightarrow>
          (case longest_at ks t of
             None \<Rightarrow> split_special ks (gap @ [c]) cs
           | Some (k, i) \<Rightarrow> gap_piece gap @ Special k i # split_special ks [] (drop (length k) t)))"
  by pat_completeness auto

lemma longest_at_nonempty: "longest_at ks t = Some (k, i) \<Longrightarrow> k \<noteq> []"
  using longest_at_spec [of ks t] by (simp add: occurs_def)

termination split_special
  by (relation "measure (\<lambda>(ks, gap, t). length t)") (auto dest: longest_at_nonempty)

declare split_special.simps [simp del]

text \<open>A set of tokens in which a name has one id.\<close>

definition ids_unique :: "(bytes \<times> int) list \<Rightarrow> bool" where
  "ids_unique ks \<longleftrightarrow> (\<forall>k i i'. (k, i) \<in> set ks \<longrightarrow> (k, i') \<in> set ks \<longrightarrow> i = i')"

lemma longest_at_eq:
  assumes "ids_unique ks" "(k, i) \<in> set ks" "occurs k t 0"
    and "\<And>k' i'. (k', i') \<in> set ks \<Longrightarrow> occurs k' t 0 \<Longrightarrow> length k' \<le> length k"
  shows "longest_at ks t = Some (k, i)"
proof -
  obtain k1 i1 where l: "longest_at ks t = Some (k1, i1)"
    using longest_at_spec [of ks t] assms(2,3) by (cases "longest_at ks t") fastforce+
  with longest_at_spec [of ks t] have k1: "(k1, i1) \<in> set ks" "occurs k1 t 0" "length k \<le> length k1"
    using assms(2,3) by auto
  then have "length k1 = length k"
    using assms(4) by fastforce
  then have "k1 = k"
    using k1(2) assms(3) by (metis occurs_def)
  with assms(1,2) k1(1) l show ?thesis
    by (auto simp: ids_unique_def)
qed

text \<open>Where no token starts the reference only collects the gap.\<close>

lemma split_special_walk:
  assumes "pos \<le> p" "p \<le> length t"
    and "\<And>q k i. pos \<le> q \<Longrightarrow> q < p \<Longrightarrow> (k, i) \<in> set ks \<Longrightarrow> \<not> occurs k t q"
  shows "split_special ks gap (drop pos t) = split_special ks (gap @ take (p - pos) (drop pos t)) (drop p t)"
  using assms
proof (induction "p - pos" arbitrary: pos gap)
  case (Suc n)
  then have lt: "pos < p" "pos < length t"
    by auto
  have d: "drop pos t = t ! pos # drop (Suc pos) t"
    using lt by (simp add: Cons_nth_drop_Suc)
  have "\<not> occurs k (drop pos t) 0" if "(k, i) \<in> set ks" for k i
    using Suc.prems(3) [of pos k i] lt that by (simp add: occurs_drop)
  then have "longest_at ks (drop pos t) = None"
    using longest_at_spec [of ks "drop pos t"] by (cases "longest_at ks (drop pos t)") auto
  then have "split_special ks gap (drop pos t) = split_special ks (gap @ [t ! pos]) (drop (Suc pos) t)"
    using d by (subst split_special.simps) simp
  also have "\<dots> = split_special ks ((gap @ [t ! pos]) @ take (p - Suc pos) (drop (Suc pos) t)) (drop p t)"
    using Suc by (intro Suc.hyps(1)) auto
  also have "(gap @ [t ! pos]) @ take (p - Suc pos) (drop (Suc pos) t) = gap @ take (p - pos) (drop pos t)"
    using lt by (simp add: d take_Cons' Suc_diff_Suc)
  finally show ?case .
qed simp

subsection \<open>The scan encodes the pieces of the reference\<close>

fun run_pieces :: "allocator \<Rightarrow> tokenizer \<Rightarrow> encode_scratch \<Rightarrow> idbuf \<Rightarrow> piece list \<Rightarrow> idbuf option option" where
  "run_pieces mem tok s out [] = Some (Some out)"
| "run_pieces mem tok s out (Gap g # ps) = (case encode_gap mem tok s out g of
     None \<Rightarrow> None
   | Some (s, None) \<Rightarrow> Some None
   | Some (s, Some out) \<Rightarrow> run_pieces mem tok s out ps)"
| "run_pieces mem tok s out (Special k i # ps) = (case idbuf_append mem out [i] of
     (False, _) \<Rightarrow> Some None
   | (True, out) \<Rightarrow> run_pieces mem tok s out ps)"

definition site_tokens :: "special_site list \<Rightarrow> (bytes \<times> int) list" where
  "site_tokens sites = map (\<lambda>s. (ss_key s, ss_id s)) sites"

lemma site_tokens_now [simp]: "site_tokens (map (site_now t pos) sites) = site_tokens sites"
  by (simp add: site_tokens_def site_now_def o_def)

text \<open>What the choice means for the reference.\<close>

lemma best_site_None:
  assumes "foldl site_better None (map (site_now t pos) sites) = None" "pos \<le> length t"
  shows "split_special (site_tokens sites) gap (drop pos t) = gap_piece (gap @ drop pos t)"
proof -
  have "\<forall>s\<in>set sites. find_sub t pos (ss_key s) = None"
    using foldl_better [of None "map (site_now t pos) sites"] assms(1) by (simp add: site_now_def)
  then have "\<not> occurs k t q" if "pos \<le> q" "(k, i) \<in> set (site_tokens sites)" for q k i
    using that find_sub_first [of k t pos] by (auto simp: site_tokens_def first_at_def)
  with split_special_walk [OF assms(2) order_refl, of "site_tokens sites" gap]
  have "split_special (site_tokens sites) gap (drop pos t) =
      split_special (site_tokens sites) (gap @ take (length t - pos) (drop pos t)) []"
    by simp
  then show ?thesis
    by (simp add: split_special.simps)
qed

lemma best_site_Some:
  assumes "foldl site_better None (map (site_now t pos) sites) = Some b" "ids_unique (site_tokens sites)"
  obtains p where "ss_next b = Some p" "pos \<le> p" "p + length (ss_key b) \<le> length t" "ss_key b \<noteq> []"
    "split_special (site_tokens sites) [] (drop pos t) =
       gap_piece (take (p - pos) (drop pos t)) @ Special (ss_key b) (ss_id b) #
         split_special (site_tokens sites) [] (drop (p + length (ss_key b)) t)"
proof -
  let ?ss = "map (site_now t pos) sites" and ?ks = "site_tokens sites"
  have B: "ss_next b \<noteq> None" "b \<in> set ?ss" "\<forall>s\<in>set ?ss. site_wins b s"
    using foldl_better [of None ?ss] assms(1) by auto
  then obtain p where p: "ss_next b = Some p"
    by auto
  obtain s0 where s0: "s0 \<in> set sites" "b = site_now t pos s0"
    using B(2) by auto
  have fb: "pos \<le> p" "occurs (ss_key b) t p"
    using find_sub_first [of "ss_key s0" t pos] p s0 by (auto simp: site_now_def first_at_def)
  have bin: "(ss_key b, ss_id b) \<in> set ?ks"
    using s0 by (auto simp: site_now_def site_tokens_def)
  have early: "\<not> occurs k t q" if q: "pos \<le> q" "q < p" "(k, i) \<in> set ?ks" for q k i
  proof
    assume o: "occurs k t q"
    obtain s where s: "s \<in> set sites" "ss_key s = k"
      using q(3) by (auto simp: site_tokens_def)
    obtain r where r: "find_sub t pos k = Some r" "r \<le> q"
      using find_sub_le [OF o q(1)] by blast
    have "site_wins b (site_now t pos s)"
      using B(3) s(1) by auto
    with r s(2) p q(2) show False
      by (auto simp: site_wins_def site_now_def)
  qed
  have longest: "length k \<le> length (ss_key b)" if k: "(k, i) \<in> set ?ks" "occurs k (drop p t) 0" for k i
  proof -
    have o: "occurs k t p"
      using k(2) by (simp add: occurs_drop)
    obtain s where s: "s \<in> set sites" "ss_key s = k"
      using k(1) by (auto simp: site_tokens_def)
    obtain r where r: "find_sub t pos k = Some r" "r \<le> p"
      using find_sub_le [OF o fb(1)] by blast
    have "site_wins b (site_now t pos s)"
      using B(3) s(1) by auto
    with r s(2) p show ?thesis
      by (auto simp: site_wins_def site_now_def)
  qed
  have bound: "p + length (ss_key b) \<le> length t" "ss_key b \<noteq> []"
    using occurs_bound [OF fb(2)] fb(2) by (auto simp: occurs_def)
  have l: "longest_at ?ks (drop p t) = Some (ss_key b, ss_id b)"
    by (rule longest_at_eq [OF assms(2) bin _ longest]) (simp add: occurs_drop fb(2))
  have "drop p t \<noteq> []"
    using occurs_bound [OF fb(2)] by simp
  then have "split_special ?ks (take (p - pos) (drop pos t)) (drop p t) =
      gap_piece (take (p - pos) (drop pos t)) @ Special (ss_key b) (ss_id b) #
        split_special ?ks [] (drop (length (ss_key b)) (drop p t))"
    using l by (cases "drop p t") (simp_all add: split_special.simps [of _ _ "_ # _"])
  moreover have "split_special ?ks [] (drop pos t) = split_special ?ks (take (p - pos) (drop pos t)) (drop p t)"
    using split_special_walk [OF fb(1) _ early, where gap = "[]"] bound(1) by simp
  ultimately show thesis
    using p fb(1) bound by (intro that [of p]) (simp_all add: add.commute [of p])
qed

lemma encode_scan_pieces:
  "\<forall>x\<in>set sites. site_ok t pos x \<Longrightarrow> ids_unique (site_tokens sites) \<Longrightarrow> pos \<le> length t \<Longrightarrow>
   length t - pos \<le> fuel \<Longrightarrow>
   encode_scan mem tok t fuel s sites pos out =
     run_pieces mem tok s out (split_special (site_tokens sites) [] (drop pos t))"
proof (induction fuel arbitrary: s sites pos out)
  case 0
  then show ?case
    by (simp add: encode_scan.simps split_special.simps gap_piece_def)
next
  case (Suc fuel)
  let ?ss = "map (site_now t pos) sites"
  note scan = scan_sites_map [OF Suc.prems(1), of None]
  show ?case
  proof (cases "pos < length t")
    case False
    with Suc.prems(3) show ?thesis
      by (simp add: encode_scan.simps split_special.simps gap_piece_def)
  next
    case True
    show ?thesis
    proof (cases "foldl site_better None ?ss")
      case None
      have "split_special (site_tokens sites) [] (drop pos t) = [Gap (drop pos t)]"
        using best_site_None [OF None, of "[]"] True by (simp add: gap_piece_def)
      with None True show ?thesis
        by (auto simp: encode_scan.simps scan split: option.split)
    next
      case (Some b)
      obtain p where p: "ss_next b = Some p" "pos \<le> p" "p + length (ss_key b) \<le> length t" "ss_key b \<noteq> []"
        "split_special (site_tokens sites) [] (drop pos t) =
           gap_piece (take (p - pos) (drop pos t)) @ Special (ss_key b) (ss_id b) #
             split_special (site_tokens sites) [] (drop (p + length (ss_key b)) t)"
        by (rule best_site_Some [OF Some Suc.prems(2)])
      let ?pos = "p + length (ss_key b)"
      have "0 < length (ss_key b)"
        using p(4) by simp
      with p(2,3) Suc.prems(4) have f: "length t - ?pos \<le> fuel" "pos \<le> ?pos"
        by linarith+
      have ok: "\<forall>x\<in>set ?ss. site_ok t ?pos x"
        using site_now_ok [OF f(2)] by auto
      have IH: "encode_scan mem tok t fuel s' ?ss ?pos out' =
          run_pieces mem tok s' out' (split_special (site_tokens sites) [] (drop ?pos t))" for s' out'
        using Suc.IH [OF ok _ p(3) f(1)] Suc.prems(2) by simp
      have gap: "take (p - pos) (drop pos t) = [] \<longleftrightarrow> \<not> pos < p"
        using True p(2) by auto
      show ?thesis
        unfolding p(5) using True p(1) Some gap
        by (subst encode_scan.simps)
          (auto simp: scan gap_piece_def IH Let_def split: option.split bool.split prod.split)
    qed
  qed
qed

text \<open>The pieces are the text.\<close>

fun piece_bytes :: "piece \<Rightarrow> bytes" where
  "piece_bytes (Gap g) = g"
| "piece_bytes (Special k i) = k"

lemma split_special_lossless: "concat (map piece_bytes (split_special ks gap t)) = gap @ t"
proof (induction ks gap t rule: split_special.induct)
  case (1 ks gap t)
  show ?case
  proof (cases t)
    case Nil
    then show ?thesis
      by (simp add: split_special.simps gap_piece_def)
  next
    case (Cons c cs)
    show ?thesis
    proof (cases "longest_at ks t")
      case None
      with 1(1) [OF Cons] Cons show ?thesis
        by (subst split_special.simps) simp
    next
      case (Some ki)
      obtain k i where ki: "ki = (k, i)" by (cases ki)
      have "take (length k) t = k"
        using longest_at_spec [of ks t] Some ki by (simp add: occurs_def)
      then have "k @ drop (length k) t = t"
        by (metis append_take_drop_id)
      with 1(2) [OF Cons Some [unfolded ki] refl] Cons Some ki show ?thesis
        by (subst split_special.simps) (simp add: gap_piece_def)
    qed
  qed
qed

text \<open>Every special piece is a token of the list, every gap is nonempty.\<close>

lemma split_special_pieces:
  "piece \<in> set (split_special ks gap t) \<Longrightarrow>
   (case piece of Gap g \<Rightarrow> g \<noteq> [] | Special k i \<Rightarrow> (k, i) \<in> set ks \<and> k \<noteq> [])"
proof (induction ks gap t rule: split_special.induct)
  case (1 ks gap t)
  show ?case
  proof (cases t)
    case Nil
    with "1.prems" show ?thesis
      by (auto simp: split_special.simps gap_piece_def split: if_splits)
  next
    case (Cons c cs)
    show ?thesis
    proof (cases "longest_at ks t")
      case None
      with 1(1) [OF Cons] "1.prems" Cons show ?thesis
        by (subst (asm) (2) split_special.simps) simp
    next
      case (Some ki)
      obtain k i where ki: "ki = (k, i)" by (cases ki)
      have "(k, i) \<in> set ks" "k \<noteq> []"
        using longest_at_spec [of ks t] longest_at_nonempty [of ks t k i] Some ki by simp_all
      with 1(2) [OF Cons Some [unfolded ki] refl] "1.prems" Cons Some ki show ?thesis
        by (subst (asm) (2) split_special.simps) (auto simp: gap_piece_def split: if_splits)
    qed
  qed
qed

subsection \<open>The tokens of the table\<close>

definition special_list :: "tokenizer \<Rightarrow> bool \<Rightarrow> (bytes \<times> int) list" where
  "special_list tok parse_special =
     (if parse_special then map (\<lambda>(k, v). (k, c_int (uint v))) (oa_items (oa_entries (tk_special_tokens tok)))
      else [])"

lemma special_sites_tokens: "site_tokens (special_sites tok t) = special_list tok True"
proof -
  have "map (\<lambda>e. (e_key e, c_int (uint (e_val e)))) (List.map_filter id es) =
      map (\<lambda>(k, v). (k, c_int (uint v))) (oa_items es)" for es :: "bytes oa_entry option list"
    by (induction es) (auto simp: oa_items_def List.map_filter_simps split: option.split)
  then show ?thesis
    by (simp add: site_tokens_def special_sites_def special_list_def o_def)
qed

lemma special_sites_ok: "\<forall>x\<in>set (special_sites tok t). site_ok t 0 x"
  using find_sub_first by (auto simp: special_sites_def site_ok_def)

lemma special_list_mem:
  assumes "str_u32_map_reach (tk_special_tokens tok)"
  shows "(k, i) \<in> set (special_list tok parse_special) \<longleftrightarrow>
    parse_special \<and> (\<exists>v. oa_abs (tk_special_tokens tok) k = Some v \<and> i = c_int (uint v))"
proof -
  have "oa_wf fnv1a (oa_entries (tk_special_tokens tok))"
    using oa_invE [OF str_u32_map_reach_inv [OF assms]] by blast
  note M = map_of_items [OF this]
  have "(k, i) \<in> set (special_list tok parse_special) \<longleftrightarrow>
      parse_special \<and> (\<exists>v. (k, v) \<in> set (oa_items (oa_entries (tk_special_tokens tok))) \<and> i = c_int (uint v))"
    by (auto simp: special_list_def)
  then show ?thesis
    unfolding oa_abs_def M oa_items_iff by blast
qed

lemma special_list_unique: "str_u32_map_reach (tk_special_tokens tok) \<Longrightarrow> ids_unique (special_list tok ps)"
  by (auto simp: ids_unique_def special_list_mem)

lemma special_list_empty:
  assumes "str_u32_map_reach (tk_special_tokens tok)" "unat (oa_count (tk_special_tokens tok)) = 0"
  shows "special_list tok ps = []"
proof -
  have "occupied (oa_entries (tk_special_tokens tok)) = 0"
    using oa_invE [OF str_u32_map_reach_inv [OF assms(1)]] assms(2) by metis
  then have "oa_items es = []" if "es = oa_entries (tk_special_tokens tok)" for es
    unfolding that by (auto simp: occupied_def oa_items_def filter_empty_conv)
  then show ?thesis
    by (simp add: special_list_def)
qed

text \<open>The whole encode of BPE and SentencePiece tokenizers, for any allocator.\<close>

definition encode_pieces :: "allocator \<Rightarrow> tokenizer \<Rightarrow> piece list \<Rightarrow> enc_result" where
  "encode_pieces mem tok ps = (case run_pieces mem tok encode_scratch_init idbuf_empty ps of
     None \<Rightarrow> None
   | Some None \<Rightarrow> Some None
   | Some (Some out) \<Rightarrow>
       if INT_MAX < int (length (ib_ids out)) then Some None else Some (Some (ib_ids out)))"

lemma encode_alloc_pieces:
  assumes "tk_type tok \<noteq> TOKENIZER_WORDPIECE" "str_u32_map_reach (tk_special_tokens tok)"
    and "parse_special \<longrightarrow> mem (unat (oa_count (tk_special_tokens tok)) * 24)"
  shows "encode_alloc_impl mem tok text parse_special =
    encode_pieces mem tok (split_special (special_list tok parse_special) [] text)"
proof (cases "parse_special \<and> 0 < unat (oa_count (tk_special_tokens tok))")
  case True
  have "ids_unique (site_tokens (special_sites tok text))"
    using special_list_unique [OF assms(2), of True] by (simp add: special_sites_tokens)
  note S = encode_scan_pieces [OF special_sites_ok this, where fuel = "length text" and mem = mem and tok = tok
      and s = encode_scratch_init and out = idbuf_empty]
  show ?thesis
    using True assms S by (simp add: encode_alloc_impl_def encode_pieces_def special_sites_tokens)
next
  case False
  then have "special_list tok parse_special = []"
    using special_list_empty [OF assms(2)] by (cases parse_special) (auto simp: special_list_def)
  then show ?thesis
    using False assms(1) encode_scan_pieces [where sites = "[]" and t = "text" and pos = 0
      and fuel = "length text" and mem = mem and tok = tok and s = encode_scratch_init and out = idbuf_empty]
    by (auto simp: encode_alloc_impl_def encode_pieces_def ids_unique_def site_tokens_def)
qed

subsection \<open>Properties\<close>

text \<open>C24. The added-token scan with its cached next occurrences cuts the text like the plain left-to-right
  reference: at each position the longest added token that starts there is taken, everything between
  tokens is encoded as one gap in order; the pieces concatenate to the text, and with
  \<open>parse_special\<close> off the whole text is a single gap, so no added token can be injected by content.\<close>

theorem special_scan_correct:
  assumes "tk_type tok \<noteq> TOKENIZER_WORDPIECE" "str_u32_map_reach (tk_special_tokens tok)"
    and "parse_special \<longrightarrow> mem (unat (oa_count (tk_special_tokens tok)) * 24)"
  shows "encode_alloc_impl mem tok text parse_special =
      encode_pieces mem tok (split_special (special_list tok parse_special) [] text) \<and>
    concat (map piece_bytes (split_special (special_list tok parse_special) [] text)) = text \<and>
    (\<not> parse_special \<longrightarrow> split_special (special_list tok parse_special) [] text = gap_piece text)"
proof -
  have "split_special [] g t = gap_piece (g @ t)" for g t
    by (induction t arbitrary: g) (simp_all add: split_special.simps)
  then show ?thesis
    using encode_alloc_pieces [OF assms(1,2), of parse_special mem "text"] assms(3)
    by (simp add: split_special_lossless special_list_def)
qed

text \<open>A tokenizer with the added tokens \<open>ab\<close> and \<open>abc\<close> for the witness.\<close>

definition sample_specials :: str_u32_map where
  "sample_specials = snd (the (kv_put_all (str_u32_map_put (\<lambda>_. True)) sample_map0 [([97, 98], 3), ([97, 98, 99], 7)]))"

lemma sample_specials_load:
  "kv_put_all (str_u32_map_put (\<lambda>_. True)) sample_map0 [([97, 98], 3), ([97, 98, 99], 7)] = Some (True, sample_specials)"
  by code_simp

lemma sample_specials_reach: "str_u32_map_reach sample_specials"
  by (rule str_u32_map_reach_put_all [OF str_u32_map_reach.init [OF sample_map_steps(1)] sample_specials_load])

theorem special_scan_correct_witness:
  "encode_alloc_impl (\<lambda>_. True) (sample_tok\<lparr>tk_special_tokens := sample_specials\<rparr>) [120, 97, 98, 99, 97, 98] True =
     encode_pieces (\<lambda>_. True) (sample_tok\<lparr>tk_special_tokens := sample_specials\<rparr>)
       (split_special (special_list (sample_tok\<lparr>tk_special_tokens := sample_specials\<rparr>) True) [] [120, 97, 98, 99, 97, 98]) \<and>
   split_special [([97, 98], 3), ([97, 98, 99], 7)] [] [120, 97, 98, 99, 97, 98] =
     [Gap [120], Special [97, 98, 99] 7, Special [97, 98] 3]"
proof
  show "encode_alloc_impl (\<lambda>_. True) (sample_tok\<lparr>tk_special_tokens := sample_specials\<rparr>) [120, 97, 98, 99, 97, 98] True =
     encode_pieces (\<lambda>_. True) (sample_tok\<lparr>tk_special_tokens := sample_specials\<rparr>)
       (split_special (special_list (sample_tok\<lparr>tk_special_tokens := sample_specials\<rparr>) True) [] [120, 97, 98, 99, 97, 98])"
    using special_scan_correct [of "sample_tok\<lparr>tk_special_tokens := sample_specials\<rparr>" True "\<lambda>_. True"] sample_specials_reach
    by (simp add: sample_tok_def)
  show "split_special [([97, 98], 3), ([97, 98, 99], 7)] [] [120, 97, 98, 99, 97, 98] =
     [Gap [120], Special [97, 98, 99] 7, Special [97, 98] 3]"
    by code_simp
qed

end
