(* ===== verification/GrowBuf.thy ===== *)
theory GrowBuf
  imports Prelude
begin

text \<open>
  The contract of the growable buffers of the sources (token id buffers, string builders, response
  and prompt buffers): an append either adds its argument at the end or reports failure and leaves
  the contents alone, and it succeeds while memory is served and the size stays below a bound.
\<close>

locale grow_buffer =
  fixes contents :: "'b \<Rightarrow> 'a list"
    and append :: "allocator \<Rightarrow> 'b \<Rightarrow> 'a list \<Rightarrow> bool \<times> 'b"
    and bound :: nat
  assumes append_law: "append mem b xs = (ok, b') \<Longrightarrow> contents b' = contents b @ (if ok then xs else [])"
    and room_law: "length (contents b) + length xs \<le> bound \<Longrightarrow> fst (append (\<lambda>_. True) b xs)"

text \<open>A sequence of appends that stops at the first failure.\<close>

fun append_all :: "('b \<Rightarrow> 'a list \<Rightarrow> bool \<times> 'b) \<Rightarrow> 'b \<Rightarrow> 'a list list \<Rightarrow> 'b option" where
  "append_all app b [] = Some b"
| "append_all app b (xs # xss) = (case app b xs of
     (False, _) \<Rightarrow> None
   | (True, b') \<Rightarrow> append_all app b' xss)"

lemma append_all_append:
  "append_all app b (xss @ yss) = (case append_all app b xss of None \<Rightarrow> None | Some b' \<Rightarrow> append_all app b' yss)"
  by (induction xss arbitrary: b) (auto split: bool.split prod.split)

context grow_buffer
begin

lemma append_ok: "append mem b xs = (True, b') \<Longrightarrow> contents b' = contents b @ xs"
  using append_law by fastforce

lemma append_all_contents: "append_all (append mem) b xss = Some b' \<Longrightarrow> contents b' = contents b @ concat xss"
proof (induction xss arbitrary: b)
  case (Cons xs xss)
  obtain ok b1 where b1: "append mem b xs = (ok, b1)"
    by fastforce
  with Cons.prems have ok
    by (cases ok) auto
  with b1 have "contents b1 = contents b @ xs"
    by (simp add: append_ok)
  with Cons b1 \<open>ok\<close> show ?case
    by simp
qed simp

lemma append_room:
  assumes "length (contents b) + length xs \<le> bound"
  obtains b' where "append (\<lambda>_. True) b xs = (True, b')" "contents b' = contents b @ xs"
  by (cases "append (\<lambda>_. True) b xs") (use room_law [OF assms] append_ok in auto)

lemma append_all_room:
  "length (contents b) + length (concat xss) \<le> bound \<Longrightarrow>
   \<exists>b'. append_all (append (\<lambda>_. True)) b xss = Some b' \<and> contents b' = contents b @ concat xss"
proof (induction xss arbitrary: b)
  case (Cons xs xss)
  then have "length (contents b) + length xs \<le> bound"
    by simp
  then obtain b1 where b1: "append (\<lambda>_. True) b xs = (True, b1)" "contents b1 = contents b @ xs"
    by (rule append_room)
  with Cons.IH [of b1] Cons.prems show ?case
    by simp
qed simp

end

end
