(* ===== verification/TokDecode.thy ===== *)
theory TokDecode
  imports TokEncode GrowBuf
begin

text \<open>
  The decoders of \<open>src/model/tokenizer.c\<close>. A token of the id table is a NUL-terminated string and is
  the bytes before the NUL; a decoder returns the bytes of its buffer before the final NUL, or
  \<open>None\<close> for \<open>NULL\<close>.
\<close>

subsection \<open>The string builder\<close>

record strbuf =
  sb_buf :: bytes
  sb_cap :: nat

definition strbuf_empty :: strbuf where "strbuf_empty = \<lparr>sb_buf = [], sb_cap = 0\<rparr>"

function sb_grow :: "nat \<Rightarrow> nat \<Rightarrow> nat option" where
  "sb_grow cap need =
     (if cap < need \<and> 0 < cap
      then if SIZE_MAX div 2 < cap then None else sb_grow (cap * 2) need
      else Some cap)"
  by pat_completeness auto
termination
  by (relation "measure (\<lambda>(cap, need). need - cap)") auto

declare sb_grow.simps [simp del]

definition sb_append :: "allocator \<Rightarrow> strbuf \<Rightarrow> bytes \<Rightarrow> bool \<times> strbuf" where
  "sb_append mem sb bs =
     (let n = length bs; len = length (sb_buf sb) in
      if SIZE_MAX - len \<le> n then (False, sb)
      else if sb_cap sb < len + n + 1
      then (case sb_grow (if sb_cap sb = 0 then 16 else sb_cap sb) (len + n + 1) of
              None \<Rightarrow> (False, sb)
            | Some cap \<Rightarrow> if mem cap then (True, \<lparr>sb_buf = sb_buf sb @ bs, sb_cap = cap\<rparr>) else (False, sb))
      else (True, sb\<lparr>sb_buf := sb_buf sb @ bs\<rparr>))"

text \<open>The buffer stays \<open>NULL\<close> until the first append, which makes its capacity positive.\<close>

definition sb_finish :: "allocator \<Rightarrow> strbuf \<Rightarrow> bytes option" where
  "sb_finish mem sb = (if 0 < sb_cap sb then Some (sb_buf sb) else if mem 1 then Some [] else None)"

definition tokenizer_decode_token :: "tokenizer \<Rightarrow> int \<Rightarrow> bytes option" where
  "tokenizer_decode_token tok i =
     (if i < 0 \<or> length (tk_id_to_token tok) \<le> nat i then None else tk_id_to_token tok ! nat i)"

subsection \<open>Byte-level\<close>

text \<open>The bytes for the codepoint at \<open>j\<close>.\<close>

definition byte_level_unit :: "tokenizer \<Rightarrow> bytes \<Rightarrow> nat \<Rightarrow> bytes" where
  "byte_level_unit tok t j =
     (let c = uc_decode_codepoint t j; bu = tk_bytes_unicode tok in
      if unat (ci_cp c) < UC_BYTES_UNICODE_REV_SIZE \<and> cp_to_byte bu ! unat (ci_cp c) \<noteq> UINT16_MAX
      then [word_of_nat (cp_to_byte bu ! unat (ci_cp c))]
      else take (ci_len c) (drop j t))"

function decode_bl_token :: "allocator \<Rightarrow> tokenizer \<Rightarrow> bytes \<Rightarrow> nat \<Rightarrow> strbuf \<Rightarrow> strbuf option" where
  "decode_bl_token mem tok t j out =
     (if j < length t
      then (case sb_append mem out (byte_level_unit tok t j) of
              (False, _) \<Rightarrow> None
            | (True, out) \<Rightarrow> decode_bl_token mem tok t (j + ci_len (uc_decode_codepoint t j)) out)
      else Some out)"
  by pat_completeness auto
termination
  by (relation "measure (\<lambda>(mem, tok, t, j, out). length t - j)")
    (auto simp: uc_decode_len_pos intro!: diff_less_mono2)

declare decode_bl_token.simps [simp del]

fun decode_bl_ids :: "allocator \<Rightarrow> tokenizer \<Rightarrow> int list \<Rightarrow> strbuf \<Rightarrow> strbuf option" where
  "decode_bl_ids mem tok [] out = Some out"
| "decode_bl_ids mem tok (i # ids) out = (case tokenizer_decode_token tok i of
     None \<Rightarrow> decode_bl_ids mem tok ids out
   | Some token \<Rightarrow>
       if UINT32_MAX < length token then None
       else (case decode_bl_token mem tok token 0 out of
               None \<Rightarrow> None
             | Some out \<Rightarrow> decode_bl_ids mem tok ids out))"

definition decode_byte_level :: "allocator \<Rightarrow> tokenizer \<Rightarrow> int list \<Rightarrow> bytes option" where
  "decode_byte_level mem tok ids =
     (case decode_bl_ids mem tok ids strbuf_empty of None \<Rightarrow> None | Some out \<Rightarrow> sb_finish mem out)"

subsection \<open>WordPiece\<close>

definition wp_cleanup_prefixes :: "bytes list" where
  "wp_cleanup_prefixes = map (map of_char) [''.'', ''?'', ''!'', '','', ''n'' @ [CHR 0x27] @ ''t'',
     [CHR 0x27] @ ''m'', [CHR 0x27] @ ''s'', [CHR 0x27] @ ''ve'', [CHR 0x27] @ ''re'']"

definition wp_cleanup_drops_space :: "bytes \<Rightarrow> bool" where
  "wp_cleanup_drops_space token = list_ex (\<lambda>p. take (length p) token = p) wp_cleanup_prefixes"

definition wp_append_token :: "allocator \<Rightarrow> tokenizer \<Rightarrow> strbuf \<Rightarrow> bytes \<Rightarrow> bool \<times> strbuf" where
  "wp_append_token mem tok out token =
     (let plen = length (tk_wp_prefix tok) in
      if 0 < plen \<and> plen \<le> length token \<and> take plen token = tk_wp_prefix tok
      then sb_append mem out (drop plen token)
      else let space = (sb_buf out \<noteq> [] \<and> \<not> (tk_wp_cleanup tok \<and> wp_cleanup_drops_space token)) in
           case (if space then sb_append mem out [0x20] else (True, out)) of
             (False, out) \<Rightarrow> (False, out)
           | (True, out) \<Rightarrow> sb_append mem out token)"

fun decode_wp_ids :: "allocator \<Rightarrow> tokenizer \<Rightarrow> int list \<Rightarrow> strbuf \<Rightarrow> strbuf option" where
  "decode_wp_ids mem tok [] out = Some out"
| "decode_wp_ids mem tok (i # ids) out = (case tokenizer_decode_token tok i of
     None \<Rightarrow> decode_wp_ids mem tok ids out
   | Some token \<Rightarrow>
       if i = tk_bos_id tok \<or> i = tk_eos_id tok then decode_wp_ids mem tok ids out
       else if map_id (tk_added_special tok) token \<noteq> None then decode_wp_ids mem tok ids out
       else (case wp_append_token mem tok out token of
               (False, _) \<Rightarrow> None
             | (True, out) \<Rightarrow> decode_wp_ids mem tok ids out))"

definition decode_wordpiece :: "allocator \<Rightarrow> tokenizer \<Rightarrow> int list \<Rightarrow> bytes option" where
  "decode_wordpiece mem tok ids =
     (case decode_wp_ids mem tok ids strbuf_empty of None \<Rightarrow> None | Some out \<Rightarrow> sb_finish mem out)"

subsection \<open>SentencePiece\<close>

definition hex_digit :: "byte \<Rightarrow> nat option" where
  "hex_digit c =
     (if 0x30 \<le> c \<and> c \<le> 0x39 then Some (unat c - 0x30)
      else if 0x41 \<le> c \<and> c \<le> 0x46 then Some (unat c - 0x41 + 10)
      else if 0x61 \<le> c \<and> c \<le> 0x66 then Some (unat c - 0x61 + 10)
      else None)"

definition sp_byte_fallback :: "bytes \<Rightarrow> nat option" where
  "sp_byte_fallback token =
     (if length token \<noteq> 6 \<or> take 3 token \<noteq> [0x3C, 0x30, 0x78] \<or> token ! 5 \<noteq> 0x3E then None
      else case hex_digit (token ! 3) of
        None \<Rightarrow> None
      | Some d1 \<Rightarrow> (case hex_digit (token ! 4) of None \<Rightarrow> None | Some d2 \<Rightarrow> Some (d1 * 16 + d2)))"

definition sp_unit :: "bytes \<Rightarrow> bytes" where
  "sp_unit token = (case sp_byte_fallback token of Some b \<Rightarrow> [word_of_nat b] | None \<Rightarrow> token)"

fun decode_sp_ids :: "allocator \<Rightarrow> tokenizer \<Rightarrow> int list \<Rightarrow> strbuf \<Rightarrow> strbuf option" where
  "decode_sp_ids mem tok [] raw = Some raw"
| "decode_sp_ids mem tok (i # ids) raw = (case tokenizer_decode_token tok i of
     None \<Rightarrow> decode_sp_ids mem tok ids raw
   | Some token \<Rightarrow> (case sb_append mem raw (sp_unit token) of
        (False, _) \<Rightarrow> None
      | (True, raw) \<Rightarrow> decode_sp_ids mem tok ids raw))"

text \<open>Every U+2581 becomes a space, in place.\<close>

fun sp_rewrite :: "bytes \<Rightarrow> bytes" where
  "sp_rewrite (a # b # c # r) =
     (if a = 0xE2 \<and> b = 0x96 \<and> c = 0x81 then 0x20 # sp_rewrite r else a # sp_rewrite (b # c # r))"
| "sp_rewrite r = r"

definition decode_sentencepiece :: "allocator \<Rightarrow> tokenizer \<Rightarrow> int list \<Rightarrow> bool \<Rightarrow> bytes option" where
  "decode_sentencepiece mem tok ids strip_leading_space =
     (case decode_sp_ids mem tok ids strbuf_empty of
        None \<Rightarrow> None
      | Some raw \<Rightarrow>
          let t = sp_rewrite (sb_buf raw);
              t = (if strip_leading_space \<and> t \<noteq> [] \<and> hd t = 0x20 then tl t else t)
          in sb_finish mem (if 0 < sb_cap raw then raw\<lparr>sb_buf := t\<rparr> else raw))"

definition tokenizer_decode :: "allocator \<Rightarrow> tokenizer \<Rightarrow> int list \<Rightarrow> bytes option" where
  "tokenizer_decode mem tok ids = (case tk_type tok of
     TOKENIZER_BPE \<Rightarrow> decode_byte_level mem tok ids
   | TOKENIZER_WORDPIECE \<Rightarrow> decode_wordpiece mem tok ids
   | TOKENIZER_SENTENCEPIECE_BPE \<Rightarrow> decode_sentencepiece mem tok ids False
   | TOKENIZER_UNKNOWN \<Rightarrow> None)"

subsection \<open>The buffers are growable buffers\<close>

lemma sb_grow_Some: "0 < cap \<Longrightarrow> sb_grow cap need = Some c \<Longrightarrow> need \<le> c \<and> cap \<le> c"
proof (induction cap need rule: sb_grow.induct)
  case (1 cap need)
  then show ?case
    by (subst (asm) (2) sb_grow.simps) (auto split: if_splits)
qed

lemma sb_grow_room: "need \<le> SIZE_MAX div 2 \<Longrightarrow> \<exists>c. sb_grow cap need = Some c"
proof (induction cap need rule: sb_grow.induct)
  case (1 cap need)
  then show ?case
    by (subst sb_grow.simps) auto
qed

lemma idbuf_grow_room: "need \<le> SIZE_MAX div 8 \<Longrightarrow> \<exists>c. idbuf_grow cap need = Some c"
proof (induction cap need rule: idbuf_grow.induct)
  case (1 cap need)
  then show ?case
    by (subst idbuf_grow.simps) auto
qed

interpretation sb: grow_buffer sb_buf sb_append "SIZE_MAX div 4"
proof
  show "sb_append mem b xs = (ok, b') \<Longrightarrow> sb_buf b' = sb_buf b @ (if ok then xs else [])" for mem b xs ok b'
    by (auto simp: sb_append_def Let_def split: if_splits option.splits)
  show "fst (sb_append (\<lambda>_. True) b xs)" if "length (sb_buf b) + length xs \<le> SIZE_MAX div 4" for b xs
  proof -
    have "length (sb_buf b) + length xs + 1 \<le> SIZE_MAX div 2"
      using that by (simp add: SIZE_MAX_def)
    then obtain c where c: "sb_grow (if sb_cap b = 0 then 16 else sb_cap b) (length (sb_buf b) + length xs + 1) = Some c"
      using sb_grow_room by blast
    have "\<not> SIZE_MAX - length (sb_buf b) \<le> length xs"
      using that by (simp add: SIZE_MAX_def)
    with c show ?thesis
      by (simp add: sb_append_def Let_def)
  qed
qed

interpretation ib: grow_buffer ib_ids idbuf_append "SIZE_MAX div 8"
proof
  show "idbuf_append mem b xs = (ok, b') \<Longrightarrow> ib_ids b' = ib_ids b @ (if ok then xs else [])" for mem b xs ok b'
    by (auto simp: idbuf_append_def Let_def split: if_splits option.splits)
  show "fst (idbuf_append (\<lambda>_. True) b xs)" if "length (ib_ids b) + length xs \<le> SIZE_MAX div 8" for b xs
  proof -
    from that obtain c where c: "idbuf_grow (if ib_cap b = 0 then 16 else ib_cap b) (length (ib_ids b) + length xs) = Some c"
      using idbuf_grow_room by blast
    have "\<not> SIZE_MAX - length (ib_ids b) < length xs"
      using that by (simp add: SIZE_MAX_def)
    with c show ?thesis
      by (simp add: idbuf_append_def Let_def)
  qed
qed

subsection \<open>A buffer that was never appended to is empty\<close>

definition sb_ok :: "strbuf \<Rightarrow> bool" where
  "sb_ok sb \<longleftrightarrow> (sb_cap sb = 0 \<longrightarrow> sb_buf sb = [])"

lemma sb_ok_empty: "sb_ok strbuf_empty"
  by (simp add: sb_ok_def strbuf_empty_def)

lemma sb_append_ok: "sb_append mem sb bs = (True, sb') \<Longrightarrow> sb_ok sb'"
  using sb_grow_Some [of "if sb_cap sb = 0 then 16 else sb_cap sb" "length (sb_buf sb) + length bs + 1"]
  by (auto simp: sb_append_def sb_ok_def Let_def split: if_splits option.splits)

lemma decode_bl_token_ok: "decode_bl_token mem tok t j out = Some out' \<Longrightarrow> sb_ok out \<Longrightarrow> sb_ok out'"
proof (induction mem tok t j out rule: decode_bl_token.induct)
  case (1 mem tok t j out)
  show ?case
  proof (cases "j < length t")
    case True
    obtain ok o1 where o1: "sb_append mem out (byte_level_unit tok t j) = (ok, o1)"
      by fastforce
    with 1 True show ?thesis
      by (cases ok) (simp_all add: decode_bl_token.simps [of mem tok t j out] sb_append_ok)
  next
    case False
    with "1.prems" show ?thesis
      by (simp add: decode_bl_token.simps)
  qed
qed

lemma decode_bl_ids_ok: "decode_bl_ids mem tok ids out = Some out' \<Longrightarrow> sb_ok out \<Longrightarrow> sb_ok out'"
  by (induction mem tok ids out rule: decode_bl_ids.induct)
    (auto split: option.splits if_splits dest: decode_bl_token_ok)

lemma sb_finish_room: "sb_ok sb \<Longrightarrow> sb_finish (\<lambda>_. True) sb = Some (sb_buf sb)"
  by (simp add: sb_finish_def sb_ok_def)

end
