(* ===== verification/Detok.thy ===== *)
theory Detok
  imports TokDecode
begin

text \<open>
  The streaming detokenizer (\<open>src/model/detok.c\<close>): it decodes one id at a time and hands out the
  longest prefix of its buffer made of complete UTF-8 sequences, so that no chunk ends inside a
  character. A feed that fails returns \<open>None\<close> (the source leaves the instance undefined).
\<close>

record detok =
  dt_tok :: tokenizer
  dt_buf :: bytes
  dt_cap :: nat

definition utf8_char_len :: "byte \<Rightarrow> nat" where
  "utf8_char_len lead =
     (if lead < 0x80 then 1
      else if lead AND 0xE0 = 0xC0 then 2
      else if lead AND 0xF0 = 0xE0 then 3
      else if lead AND 0xF8 = 0xF0 then 4
      else 1)"

lemma utf8_char_len_bounds: "0 < utf8_char_len b" "utf8_char_len b \<le> 4"
  by (simp_all add: utf8_char_len_def)

function complete_from :: "bytes \<Rightarrow> nat \<Rightarrow> nat" where
  "complete_from buf i =
     (if i < length buf
      then let cl = utf8_char_len (buf ! i) in
           if length buf < i + cl then i else complete_from buf (i + cl)
      else i)"
  by pat_completeness auto
termination
  by (relation "measure (\<lambda>(buf, i). length buf - i)") (auto simp: utf8_char_len_bounds intro!: diff_less_mono2)

declare complete_from.simps [simp del]

definition utf8_complete_prefix :: "bytes \<Rightarrow> nat" where
  "utf8_complete_prefix buf = complete_from buf 0"

text \<open>Hand out the first \<open>boundary\<close> bytes and move the rest to the front.\<close>

definition detok_emit :: "allocator \<Rightarrow> detok \<Rightarrow> nat \<Rightarrow> (bytes \<times> detok) option" where
  "detok_emit mem d boundary =
     (if mem (boundary + 1) then Some (take boundary (dt_buf d), d\<lparr>dt_buf := drop boundary (dt_buf d)\<rparr>) else None)"

definition detok_create :: "allocator \<Rightarrow> tokenizer \<Rightarrow> detok option" where
  "detok_create mem tok =
     (if tk_type tok = TOKENIZER_WORDPIECE then None
      else if mem 32 then Some \<lparr>dt_tok = tok, dt_buf = [], dt_cap = 0\<rparr> else None)"

definition detok_append :: "allocator \<Rightarrow> detok \<Rightarrow> bytes \<Rightarrow> bool \<times> detok" where
  "detok_append mem d s =
     (let need = length (dt_buf d) + length s in
      if s = [] then (True, d)
      else if dt_cap d < need
      then (let new_cap = grow_cap (if dt_cap d = 0 then 64 else dt_cap d) need in
            if mem new_cap then (True, d\<lparr>dt_buf := dt_buf d @ s, dt_cap := new_cap\<rparr>) else (False, d))
      else (True, d\<lparr>dt_buf := dt_buf d @ s\<rparr>))"

definition detok_feed :: "allocator \<Rightarrow> detok \<Rightarrow> int \<Rightarrow> (bytes \<times> detok) option" where
  "detok_feed mem d i =
     (case tokenizer_decode mem (dt_tok d) [i] of
        None \<Rightarrow> None
      | Some s \<Rightarrow> (case detok_append mem d (takeWhile (\<lambda>b. b \<noteq> 0) s) of
            (False, _) \<Rightarrow> None
          | (True, d) \<Rightarrow> detok_emit mem d (utf8_complete_prefix (dt_buf d))))"

definition detok_flush :: "allocator \<Rightarrow> detok \<Rightarrow> (bytes \<times> detok) option" where
  "detok_flush mem d = detok_emit mem d (length (dt_buf d))"

text \<open>A client: feed the ids in turn, collecting the chunks.\<close>

fun detok_feeds :: "allocator \<Rightarrow> detok \<Rightarrow> int list \<Rightarrow> (bytes list \<times> detok) option" where
  "detok_feeds mem d [] = Some ([], d)"
| "detok_feeds mem d (i # ids) = (case detok_feed mem d i of
     None \<Rightarrow> None
   | Some (c, d) \<Rightarrow> map_option (\<lambda>(cs, d). (c # cs, d)) (detok_feeds mem d ids))"

interpretation dt: grow_buffer dt_buf detok_append "SIZE_MAX"
  by unfold_locales (auto simp: detok_append_def Let_def split: if_splits)

lemma detok_append_keeps: "detok_append mem d s = (ok, d') \<Longrightarrow> dt_tok d' = dt_tok d"
  by (auto simp: detok_append_def Let_def split: if_splits)

subsection \<open>Complete prefixes\<close>

lemma complete_from_bounds: "i \<le> length buf \<Longrightarrow> i \<le> complete_from buf i \<and> complete_from buf i \<le> length buf \<and>
   length buf < complete_from buf i + 4"
proof (induction buf i rule: complete_from.induct)
  case (1 buf i)
  show ?case
  proof (cases "i < length buf \<and> \<not> length buf < i + utf8_char_len (buf ! i)")
    case True
    then have "complete_from buf i = complete_from buf (i + utf8_char_len (buf ! i))"
      by (subst complete_from.simps) (simp add: Let_def)
    with 1(1) [of "utf8_char_len (buf ! i)"] True show ?thesis
      by simp
  next
    case False
    then show ?thesis
      using utf8_char_len_bounds(2) [of "buf ! i"] "1.prems" by (subst (1 2 3) complete_from.simps) (auto simp: Let_def)
  qed
qed

lemma complete_prefix_bounds:
  "utf8_complete_prefix buf \<le> length buf" "length buf < utf8_complete_prefix buf + 4"
  using complete_from_bounds [of 0 buf] by (simp_all add: utf8_complete_prefix_def)

text \<open>On well-formed UTF-8 followed by the start of a character, exactly the well-formed part is complete.\<close>

lemma utf8_char_len_encode:
  assumes "uc_encode_codepoint cp = b # bs"
  shows "utf8_char_len b = Suc (length bs)"
proof -
  consider "unat cp < 128" | "128 \<le> unat cp" "unat cp < 2048" | "2048 \<le> unat cp" "unat cp < 65536"
    | "65536 \<le> unat cp" "unat cp \<le> 1114111" | "1114111 < unat cp" by linarith
  then show ?thesis
  proof cases
    case 1
    with assms show ?thesis
      by (auto simp: uc_encode_codepoint_def u32_lits utf8_char_len_def utf8_tests word_nat)
  next
    case 2
    then have "unat (drop_bit 6 cp) < 32" "unat (drop_bit 6 cp) = unat cp div 64"
      by (simp_all add: word_nat less_mult_imp_div_less)
    with 2 assms show ?thesis
      by (auto simp: uc_encode_codepoint_def u32_lits utf8_char_len_def utf8_tests utf8_lead_bytes utf8_num_facts)
  next
    case 3
    then have "unat (drop_bit 12 cp) < 16"
      by (simp add: word_nat less_mult_imp_div_less)
    with 3 assms show ?thesis
      by (auto simp: uc_encode_codepoint_def u32_lits utf8_char_len_def utf8_tests utf8_lead_bytes utf8_num_facts
          split: if_splits)
  next
    case 4
    then have "unat (drop_bit 18 cp) < 8"
      by (simp add: word_nat less_mult_imp_div_less)
    with 4 assms show ?thesis
      by (auto simp: uc_encode_codepoint_def u32_lits utf8_char_len_def utf8_tests utf8_lead_bytes utf8_num_facts)
  next
    case 5
    with assms show ?thesis
      by (simp add: uc_encode_codepoint_def u32_lits)
  qed
qed

lemma complete_from_stop:
  "i \<le> length buf \<Longrightarrow> complete_from buf i = length buf \<or>
   length (drop (complete_from buf i) buf) < utf8_char_len (buf ! complete_from buf i)"
proof (induction buf i rule: complete_from.induct)
  case (1 buf i)
  show ?case
  proof (cases "i < length buf \<and> \<not> length buf < i + utf8_char_len (buf ! i)")
    case True
    then have "complete_from buf i = complete_from buf (i + utf8_char_len (buf ! i))"
      by (subst complete_from.simps) (simp add: Let_def)
    with 1(1) [of "utf8_char_len (buf ! i)"] True show ?thesis
      by simp
  next
    case False
    then have "complete_from buf i = i"
      by (subst complete_from.simps) (auto simp: Let_def)
    with False "1.prems" show ?thesis
      by auto
  qed
qed

lemma complete_from_valid:
  "utf8_valid (take i buf) \<Longrightarrow> utf8_valid (drop i buf @ fut) \<Longrightarrow>
   utf8_valid (take (complete_from buf i) buf) \<and> utf8_valid (drop (complete_from buf i) buf @ fut)"
proof (induction buf i rule: complete_from.induct)
  case (1 buf i)
  let ?n = "utf8_char_len (buf ! i)"
  show ?case
  proof (cases "i < length buf \<and> \<not> length buf < i + ?n")
    case True
    then obtain cp r where cp: "uc_encode_codepoint cp \<noteq> []" "drop i buf @ fut = uc_encode_codepoint cp @ r" "utf8_valid r"
      using utf8_valid_split [OF "1.prems"(2)] by auto
    then have "hd (uc_encode_codepoint cp) = buf ! i"
      using True by (metis Cons_nth_drop_Suc append_Cons hd_append2 list.sel(1))
    then have n: "?n = length (uc_encode_codepoint cp)"
      using utf8_char_len_encode cp(1) by (metis length_Cons list.collapse)
    have "uc_encode_codepoint cp = take ?n (drop i buf @ fut)"
      using cp(2) n by simp
    then have e: "take ?n (drop i buf) = uc_encode_codepoint cp"
      using True by (simp add: less_diff_conv2 not_less)
    have "r = drop ?n (drop i buf @ fut)"
      using cp(2) n by simp
    then have r: "drop (i + ?n) buf @ fut = r"
      using True by (simp add: add.commute)
    have "take (i + ?n) buf = take i buf @ uc_encode_codepoint cp"
      by (simp add: take_add e)
    moreover have "complete_from buf i = complete_from buf (i + ?n)"
      using True by (subst complete_from.simps) (simp add: Let_def)
    ultimately show ?thesis
      using 1(1) [of ?n] True r cp(3) "1.prems"(1) utf8_valid_encode [of cp] by (simp add: utf8_valid_append)
  next
    case False
    then have "complete_from buf i = i"
      by (subst complete_from.simps) (auto simp: Let_def)
    with "1.prems" show ?thesis
      by simp
  qed
qed

subsection \<open>What is withheld\<close>

definition withheld :: "bytes \<Rightarrow> bool" where
  "withheld buf \<longleftrightarrow> buf = [] \<or> length buf < utf8_char_len (hd buf)"

lemma withheld_short: "withheld buf \<Longrightarrow> length buf < 4"
  using utf8_char_len_bounds(2) [of "hd buf"] by (auto simp: withheld_def)

lemma withheld_prefix: "withheld (drop (utf8_complete_prefix buf) buf)"
  using complete_from_stop [of 0 buf] complete_prefix_bounds(1) [of buf]
  by (cases "complete_from buf 0 = length buf") (auto simp: withheld_def utf8_complete_prefix_def hd_drop_conv_nth)

text \<open>A withheld rest is never a whole character.\<close>

lemma withheld_valid: "withheld buf \<Longrightarrow> utf8_valid buf \<Longrightarrow> buf = []"
proof (rule ccontr)
  assume "withheld buf" "utf8_valid buf" "buf \<noteq> []"
  then obtain cp r where cp: "uc_encode_codepoint cp \<noteq> []" "buf = uc_encode_codepoint cp @ r"
    using utf8_valid_split by metis
  then have "utf8_char_len (hd buf) = length (uc_encode_codepoint cp)"
    using utf8_char_len_encode by (metis hd_append2 length_Cons list.collapse)
  with \<open>withheld buf\<close> \<open>buf \<noteq> []\<close> cp show False
    by (simp add: withheld_def)
qed

subsection \<open>Byte-level decoding token by token\<close>

function bl_token_bytes :: "tokenizer \<Rightarrow> bytes \<Rightarrow> nat \<Rightarrow> bytes" where
  "bl_token_bytes tok t j =
     (if j < length t then byte_level_unit tok t j @ bl_token_bytes tok t (j + ci_len (uc_decode_codepoint t j)) else [])"
  by pat_completeness auto
termination
  by (relation "measure (\<lambda>(tok, t, j). length t - j)") (auto simp: uc_decode_len_pos intro!: diff_less_mono2)

declare bl_token_bytes.simps [simp del]

definition bl_id_bytes :: "tokenizer \<Rightarrow> int \<Rightarrow> bytes" where
  "bl_id_bytes tok i = (case tokenizer_decode_token tok i of None \<Rightarrow> [] | Some t \<Rightarrow> bl_token_bytes tok t 0)"

lemma decode_bl_token_bytes:
  "decode_bl_token mem tok t j out = Some out' \<Longrightarrow> sb_buf out' = sb_buf out @ bl_token_bytes tok t j"
proof (induction mem tok t j out rule: decode_bl_token.induct)
  case (1 mem tok t j out)
  show ?case
  proof (cases "j < length t")
    case True
    obtain ok o1 where o1: "sb_append mem out (byte_level_unit tok t j) = (ok, o1)"
      by fastforce
    with 1 True show ?thesis
      by (cases ok) (simp_all add: decode_bl_token.simps [of mem tok t j out] bl_token_bytes.simps [of tok t j] sb.append_ok)
  next
    case False
    with "1.prems" show ?thesis
      by (simp add: decode_bl_token.simps bl_token_bytes.simps)
  qed
qed

lemma decode_bl_ids_bytes:
  "decode_bl_ids mem tok ids out = Some out' \<Longrightarrow> sb_buf out' = sb_buf out @ concat (map (bl_id_bytes tok) ids)"
  by (induction mem tok ids out rule: decode_bl_ids.induct)
    (auto simp: bl_id_bytes_def split: option.splits if_splits dest: decode_bl_token_bytes)

lemma sb_finish_buf: "sb_ok sb \<Longrightarrow> sb_finish mem sb = Some s \<Longrightarrow> s = sb_buf sb"
  by (auto simp: sb_finish_def sb_ok_def split: if_splits)

lemma decode_bytes:
  assumes "tk_type tok = TOKENIZER_BPE" "tokenizer_decode mem tok ids = Some s"
  shows "s = concat (map (bl_id_bytes tok) ids)"
proof -
  obtain out where out: "decode_bl_ids mem tok ids strbuf_empty = Some out" "sb_finish mem out = Some s"
    using assms by (auto simp: tokenizer_decode_def decode_byte_level_def split: option.splits)
  have "s = sb_buf out"
    by (rule sb_finish_buf [OF decode_bl_ids_ok [OF out(1) sb_ok_empty] out(2)])
  then show ?thesis
    using decode_bl_ids_bytes [OF out(1)] by (simp add: strbuf_empty_def)
qed

subsection \<open>A run of the detokenizer\<close>

lemma detok_feed_result:
  assumes "detok_feed mem d i = Some (c, d')" "tk_type (dt_tok d) = TOKENIZER_BPE" "0 \<notin> set (bl_id_bytes (dt_tok d) i)"
  shows "c @ dt_buf d' = dt_buf d @ bl_id_bytes (dt_tok d) i" "withheld (dt_buf d')" "dt_tok d' = dt_tok d"
    and "utf8_valid (dt_buf d @ bl_id_bytes (dt_tok d) i @ fut) \<Longrightarrow> utf8_valid c \<and> utf8_valid (dt_buf d' @ fut)"
proof -
  obtain s d1 where s: "tokenizer_decode mem (dt_tok d) [i] = Some s"
    "detok_append mem d (takeWhile (\<lambda>b. b \<noteq> 0) s) = (True, d1)"
    "detok_emit mem d1 (utf8_complete_prefix (dt_buf d1)) = Some (c, d')"
    using assms(1) by (auto simp: detok_feed_def split: option.splits prod.splits bool.splits)
  have "s = bl_id_bytes (dt_tok d) i"
    using decode_bytes [OF assms(2) s(1)] by simp
  moreover from this assms(3) have "takeWhile (\<lambda>b. b \<noteq> 0) s = s"
    by (auto simp: takeWhile_eq_all_conv)
  ultimately have b: "dt_buf d1 = dt_buf d @ bl_id_bytes (dt_tok d) i"
    using dt.append_ok [OF s(2)] by simp
  let ?n = "utf8_complete_prefix (dt_buf d1)"
  have c: "c = take ?n (dt_buf d1)" "dt_buf d' = drop ?n (dt_buf d1)" "dt_tok d' = dt_tok d1"
    using s(3) by (auto simp: detok_emit_def split: if_splits)
  show "c @ dt_buf d' = dt_buf d @ bl_id_bytes (dt_tok d) i"
    unfolding c append_take_drop_id b ..
  show "withheld (dt_buf d')" "dt_tok d' = dt_tok d"
    using c withheld_prefix [of "dt_buf d1"] detok_append_keeps [OF s(2)] by simp_all
  show "utf8_valid c \<and> utf8_valid (dt_buf d' @ fut)" if "utf8_valid (dt_buf d @ bl_id_bytes (dt_tok d) i @ fut)"
    using complete_from_valid [of 0 "dt_buf d1" fut] that b c by (simp add: utf8_complete_prefix_def utf8_valid_Nil)
qed

lemma detok_feeds_result:
  assumes "tk_type tok = TOKENIZER_BPE"
  shows "detok_feeds mem d ids = Some (cs, d') \<Longrightarrow> dt_tok d = tok \<Longrightarrow> withheld (dt_buf d) \<Longrightarrow>
    0 \<notin> set (concat (map (bl_id_bytes tok) ids)) \<Longrightarrow>
    concat cs @ dt_buf d' = dt_buf d @ concat (map (bl_id_bytes tok) ids) \<and> withheld (dt_buf d') \<and>
    (utf8_valid (dt_buf d @ concat (map (bl_id_bytes tok) ids)) \<longrightarrow> (\<forall>c\<in>set cs. utf8_valid c) \<and> utf8_valid (dt_buf d'))"
proof (induction ids arbitrary: d cs)
  case (Cons i ids)
  obtain c d1 cs1 where f: "detok_feed mem d i = Some (c, d1)" "detok_feeds mem d1 ids = Some (cs1, d')" "cs = c # cs1"
    using Cons.prems(1) by (auto split: option.splits)
  have n: "0 \<notin> set (bl_id_bytes (dt_tok d) i)" "0 \<notin> set (concat (map (bl_id_bytes tok) ids))"
    using Cons.prems(2,4) by auto
  have t: "tk_type (dt_tok d) = TOKENIZER_BPE"
    using assms Cons.prems(2) by simp
  note r = detok_feed_result [OF f(1) t n(1)]
  have IH: "concat cs1 @ dt_buf d' = dt_buf d1 @ concat (map (bl_id_bytes tok) ids) \<and> withheld (dt_buf d') \<and>
    (utf8_valid (dt_buf d1 @ concat (map (bl_id_bytes tok) ids)) \<longrightarrow> (\<forall>c\<in>set cs1. utf8_valid c) \<and> utf8_valid (dt_buf d'))"
    using Cons.IH [OF f(2)] r(2,3) Cons.prems(2) n(2) by blast
  let ?T = "concat (map (bl_id_bytes tok) ids)"
  have "concat cs @ dt_buf d' = c @ dt_buf d1 @ ?T"
    using IH f(3) by simp
  also have "\<dots> = (dt_buf d @ bl_id_bytes tok i) @ ?T"
    using r(1) Cons.prems(2) by (metis append.assoc)
  finally have e: "concat cs @ dt_buf d' = dt_buf d @ concat (map (bl_id_bytes tok) (i # ids))"
    by simp
  have v: "(\<forall>c\<in>set cs. utf8_valid c) \<and> utf8_valid (dt_buf d')"
    if "utf8_valid (dt_buf d @ concat (map (bl_id_bytes tok) (i # ids)))"
  proof -
    have "utf8_valid c \<and> utf8_valid (dt_buf d1 @ ?T)"
      using r(4) [of ?T] that Cons.prems(2) by simp
    with IH f(3) show ?thesis
      by auto
  qed
  from e v IH show ?case
    by blast
qed simp

text \<open>C26. Streaming equals batch decoding: for a byte-level tokenizer the chunks of the streaming
  detokenizer followed by the flushed rest are exactly the text \<open>tokenizer_decode\<close> returns for the
  whole sequence of ids (when it holds no NUL); at every moment fewer than four bytes are withheld, and
  if the text is well-formed UTF-8 then every chunk is, and nothing is left to flush.\<close>

theorem detok_stream_decode:
  assumes "tk_type tok = TOKENIZER_BPE" "detok_create mem tok = Some d0"
    and "detok_feeds mem d0 ids = Some (cs, d)" "detok_flush mem d = Some (r, d')"
    and "tokenizer_decode mem tok ids = Some s" "0 \<notin> set s"
  shows "concat cs @ r = s \<and> dt_buf d' = [] \<and> length r < 4 \<and>
    (utf8_valid s \<longrightarrow> (\<forall>c\<in>set cs. utf8_valid c) \<and> r = [])"
proof -
  have "dt_tok d0 = tok" "dt_buf d0 = []"
    using assms(2) by (auto simp: detok_create_def split: if_splits)
  moreover have s: "s = concat (map (bl_id_bytes tok) ids)"
    by (rule decode_bytes [OF assms(1,5)])
  ultimately have R: "concat cs @ dt_buf d = s" "withheld (dt_buf d)"
    "utf8_valid s \<longrightarrow> (\<forall>c\<in>set cs. utf8_valid c) \<and> utf8_valid (dt_buf d)"
    using detok_feeds_result [OF assms(1,3)] assms(6) by (auto simp: withheld_def)
  moreover have "r = dt_buf d" "dt_buf d' = []"
    using assms(4) by (auto simp: detok_flush_def detok_emit_def split: if_splits)
  ultimately show ?thesis
    using withheld_short withheld_valid by blast
qed

text \<open>Two tokens that split the character U+20AC.\<close>

definition split_tok :: tokenizer where
  "split_tok =
     (let m = \<lparr>oa_entries = [], oa_cap = 0, oa_count = 0\<rparr> in
      \<lparr>tk_type = TOKENIZER_BPE, tk_vocab = m, tk_merges = \<lparr>oa_entries = [], oa_cap = 0, oa_count = 0\<rparr>,
       tk_special_tokens = m, tk_added_special = m, tk_id_to_token = [Some [0xE2], Some [0x82, 0xAC]], tk_vocab_size = 2,
       tk_bos_id = - 1, tk_eos_id = - 1, tk_unk_id = - 1, tk_norm_form = NORM_NONE,
       tk_add_dummy_prefix = False, tk_wp_prefix = [], tk_wp_cleanup = True,
       tk_byte_fallback_ids = [], tk_bytes_unicode = \<lparr>byte_to_cp = [], cp_to_byte = []\<rparr>\<rparr>)"

lemma split_tok_fields:
  "tk_type split_tok = TOKENIZER_BPE" "tk_id_to_token split_tok = [Some [0xE2], Some [0x82, 0xAC]]"
  "cp_to_byte (tk_bytes_unicode split_tok) = []"
  by (simp_all add: split_tok_def Let_def)

lemma split_tok_units:
  "uc_decode_codepoint [0xE2] 0 = UC_BAD" "uc_decode_codepoint [0x82, 0xAC] 0 = UC_BAD"
  "uc_decode_codepoint [0x82, 0xAC] (Suc 0) = UC_BAD"
  by code_simp+

lemma sb_append_fits:
  "length (sb_buf sb) + length bs < 16 \<Longrightarrow> sb_cap sb = 0 \<or> sb_cap sb = 16 \<Longrightarrow>
   sb_append (\<lambda>_. True) sb bs = (True, \<lparr>sb_buf = sb_buf sb @ bs, sb_cap = 16\<rparr>)"
  by (cases sb) (auto simp: sb_append_def Let_def SIZE_MAX_def sb_grow.simps)

lemmas split_tok_decode = tokenizer_decode_def decode_byte_level_def tokenizer_decode_token_def split_tok_fields
  decode_bl_token.simps byte_level_unit_def split_tok_units UC_BAD_def UC_BYTES_UNICODE_REV_SIZE_def
  sb_append_fits strbuf_empty_def sb_finish_def UINT32_MAX_def

lemma split_tok_decodes:
  "tokenizer_decode (\<lambda>_. True) split_tok [0] = Some [0xE2]"
  "tokenizer_decode (\<lambda>_. True) split_tok [1] = Some [0x82, 0xAC]"
  "tokenizer_decode (\<lambda>_. True) split_tok [0, 1] = Some [0xE2, 0x82, 0xAC]"
  by (simp_all add: split_tok_decode)

lemma split_tok_prefixes:
  "utf8_complete_prefix [0xE2] = 0" "utf8_complete_prefix [0xE2, 0x82, 0xAC] = 3"
  by code_simp+

theorem detok_stream_decode_witness:
  "concat [[], [0xE2, 0x82, 0xAC]] @ [] = ([0xE2, 0x82, 0xAC] :: bytes) \<and>
   (\<exists>d0 d. detok_create (\<lambda>_. True) split_tok = Some d0 \<and>
      detok_feeds (\<lambda>_. True) d0 [0, 1] = Some ([[], [0xE2, 0x82, 0xAC]], d) \<and> dt_buf d = [])"
proof -
  define d0 where "d0 = \<lparr>dt_tok = split_tok, dt_buf = [], dt_cap = 0\<rparr>"
  define d where "d = \<lparr>dt_tok = split_tok, dt_buf = [], dt_cap = 64\<rparr>"
  have create: "detok_create (\<lambda>_. True) split_tok = Some d0"
    by (simp add: detok_create_def d0_def split_tok_fields)
  have run: "detok_feeds (\<lambda>_. True) d0 [0, 1] = Some ([[], [0xE2, 0x82, 0xAC]], d)"
    by (simp add: d0_def d_def detok_feed_def split_tok_decodes detok_append_def detok_emit_def
        split_tok_prefixes grow_cap.simps [of 64])
  have fin: "detok_flush (\<lambda>_. True) d = Some ([], d)"
    by (simp add: detok_flush_def detok_emit_def d_def)
  from detok_stream_decode [OF split_tok_fields(1) create run fin split_tok_decodes(3)] create run show ?thesis
    by (auto simp: d_def)
qed

end
