(* ===== verification/TokRoundtrip.thy ===== *)
theory TokRoundtrip
  imports TokScan Detok
begin

text \<open>
  Byte-level decoding undoes byte-level encoding. A word is expanded to the symbols of its bytes, the
  merge joins symbols without changing their concatenation, every emitted id names the token it was
  looked up with, and the decoder maps each symbol of a token back to its byte.
\<close>

subsection \<open>Symbols of bytes\<close>

definition byte_symbol :: "byte \<Rightarrow> bytes" where
  "byte_symbol b = uc_encode_codepoint (word_of_nat (bu_cp (unat b)))"

definition byte_symbols :: "bytes \<Rightarrow> bytes" where
  "byte_symbols w = concat (map byte_symbol w)"

lemma byte_symbols_simps [simp]:
  "byte_symbols [] = []" "byte_symbols (b # w) = byte_symbol b @ byte_symbols w"
  "byte_symbols (v @ w) = byte_symbols v @ byte_symbols w"
  by (simp_all add: byte_symbols_def)

lemma byte_level_expand_symbols:
  "tk_bytes_unicode tok = uc_build_bytes_to_unicode \<Longrightarrow> byte_level_expand tok w = byte_symbols w"
  unfolding byte_level_expand_def byte_symbols_def byte_symbol_def
  by (intro arg_cong [where f = concat] map_cong refl) (simp add: bytes_unicode_facts unat_byte_lt)

lemma bu_cp_word: "unat (word_of_nat (bu_cp (unat b)) :: u32) = bu_cp (unat (b :: byte))"
  using bu_cp_lt [OF unat_byte_lt [of b]] by (intro word_of_nat_u32) simp

lemma byte_symbol_length: "1 \<le> length (byte_symbol b)" "length (byte_symbol b) \<le> 2"
  using bu_cp_lt [OF unat_byte_lt [of b]] bu_cp_word [of b]
  by (auto simp: byte_symbol_def uc_encode_codepoint_def u32_lits split: if_splits)

lemma byte_symbol_nonempty [simp]: "byte_symbol b \<noteq> []"
  using byte_symbol_length(1) [of b] by auto

lemma byte_symbols_length: "length w \<le> length (byte_symbols w)" "length (byte_symbols w) \<le> 2 * length w"
proof (induction w)
  case (Cons b w)
  show "length (b # w) \<le> length (byte_symbols (b # w))"
    using Cons(1) byte_symbol_length(1) [of b] by simp
  show "length (byte_symbols (b # w)) \<le> 2 * length (b # w)"
    using Cons(2) byte_symbol_length(2) [of b] by simp
qed simp_all

lemma byte_symbol_decode:
  "drop j t = byte_symbol b @ rest \<Longrightarrow>
   uc_decode_codepoint t j = \<lparr>ci_cp = word_of_nat (bu_cp (unat b)), ci_len = length (byte_symbol b)\<rparr>"
  unfolding byte_symbol_def by (rule uc_decode_at) (use byte_symbol_nonempty [of b] in \<open>simp add: byte_symbol_def\<close>)

text \<open>The merge starts from the symbols of the bytes.\<close>

lemma utf8_chars_symbols:
  "drop j t = byte_symbols w \<Longrightarrow> utf8_chars t j = map byte_symbol w"
proof (induction w arbitrary: j)
  case (Cons b w)
  have d: "drop j t = byte_symbol b @ byte_symbols w"
    using Cons.prems by simp
  then have lt: "j < length t"
    using byte_symbol_nonempty [of b] by (metis append_is_Nil_conv drop_eq_Nil leI)
  have "drop (j + length (byte_symbol b)) t = byte_symbols w"
    using d by (metis append_eq_conv_conj drop_drop add.commute)
  with Cons.IH lt d show ?case
    by (subst utf8_chars.simps) (simp add: byte_symbol_decode [OF d])
qed (simp add: utf8_chars.simps)

subsection \<open>Decoding a token of symbols\<close>

lemma byte_level_unit_symbol:
  assumes "tk_bytes_unicode tok = uc_build_bytes_to_unicode" "drop j t = byte_symbol b @ rest"
  shows "byte_level_unit tok t j = [b]"
proof -
  let ?c = "bu_cp (unat b)"
  have c: "?c < 324" "cp_to_byte uc_build_bytes_to_unicode ! ?c = unat b"
    using bu_cp_lt bytes_unicode_facts(4) unat_byte_lt by auto
  then have "cp_to_byte uc_build_bytes_to_unicode ! ?c \<noteq> UINT16_MAX"
    using bytes_unicode_facts(5) [of ?c] unat_byte_lt [of b] by blast
  with c show ?thesis
    by (simp add: byte_level_unit_def assms byte_symbol_decode [OF assms(2)] bu_cp_word UC_BYTES_UNICODE_REV_SIZE_def)
qed

lemma byte_level_unit_length:
  assumes "j < length t"
  shows "byte_level_unit tok t j \<noteq> []" "length (byte_level_unit tok t j) \<le> ci_len (uc_decode_codepoint t j)"
    "length (byte_level_unit tok t j) \<le> length t - j"
  using assms uc_decode_len_pos [OF assms] by (auto simp: byte_level_unit_def Let_def)

lemma bl_token_bytes_nonempty: "j < length t \<Longrightarrow> bl_token_bytes tok t j \<noteq> []"
  by (subst bl_token_bytes.simps) (simp add: byte_level_unit_length)

lemma bl_token_bytes_length: "length (bl_token_bytes tok t j) \<le> length t - j"
proof (induction tok t j rule: bl_token_bytes.induct)
  case (1 tok t j)
  show ?case
  proof (cases "j < length t")
    case True
    have "length (bl_token_bytes tok t j) = length (byte_level_unit tok t j) +
        length (bl_token_bytes tok t (j + ci_len (uc_decode_codepoint t j)))"
      using True by (subst bl_token_bytes.simps) simp
    then show ?thesis
      using 1 [OF True] byte_level_unit_length(2,3) [OF True, of tok] by linarith
  qed (simp add: bl_token_bytes.simps)
qed

lemma bl_token_bytes_symbols:
  assumes "tk_bytes_unicode tok = uc_build_bytes_to_unicode"
  shows "drop j t = byte_symbols w \<Longrightarrow> bl_token_bytes tok t j = w"
proof (induction w arbitrary: j)
  case (Cons b w)
  have d: "drop j t = byte_symbol b @ byte_symbols w"
    using Cons.prems by simp
  then have lt: "j < length t"
    using byte_symbol_nonempty [of b] by (metis append_is_Nil_conv drop_eq_Nil leI)
  have d': "drop (j + length (byte_symbol b)) t = byte_symbols w"
    using d by (metis append_eq_conv_conj drop_drop add.commute)
  from Cons.IH [OF d'] lt show ?case
    by (subst bl_token_bytes.simps) (simp add: byte_symbol_decode [OF d] byte_level_unit_symbol [OF assms d])
qed (simp add: bl_token_bytes.simps)

lemma decode_bl_token_text:
  "length (sb_buf out) + length (bl_token_bytes tok t j) \<le> SIZE_MAX div 4 \<Longrightarrow>
    \<exists>out'. decode_bl_token (\<lambda>_. True) tok t j out = Some out' \<and> sb_buf out' = sb_buf out @ bl_token_bytes tok t j"
proof (induction tok t j arbitrary: out rule: bl_token_bytes.induct)
  case (1 tok t j)
  show ?case
  proof (cases "j < length t")
    case True
    then have u: "bl_token_bytes tok t j = byte_level_unit tok t j @ bl_token_bytes tok t (j + ci_len (uc_decode_codepoint t j))"
      by (subst bl_token_bytes.simps) simp
    obtain out1 where o1: "sb_append (\<lambda>_. True) out (byte_level_unit tok t j) = (True, out1)"
      "sb_buf out1 = sb_buf out @ byte_level_unit tok t j"
      using sb.append_room [of out "byte_level_unit tok t j"] 1(2) u by auto
    from 1(1) [OF True, of out1] 1(2) o1 u True show ?thesis
      by (subst decode_bl_token.simps) simp
  qed (simp add: bl_token_bytes.simps decode_bl_token.simps)
qed

lemma byte_symbol_inj: "byte_symbol b = byte_symbol c \<Longrightarrow> b = c"
proof -
  assume e: "byte_symbol b = byte_symbol c"
  have "uc_decode_codepoint (byte_symbol b) 0 = \<lparr>ci_cp = word_of_nat (bu_cp (unat d)), ci_len = length (byte_symbol d)\<rparr>"
    if "byte_symbol b = byte_symbol d" for d
    using byte_symbol_decode [of 0 "byte_symbol b" d "[]"] that by simp
  from this [OF refl] this [OF e] have "(word_of_nat (bu_cp (unat b)) :: u32) = word_of_nat (bu_cp (unat c))"
    by simp
  then have "bu_cp (unat b) = bu_cp (unat c)"
    by (metis bu_cp_word)
  then show "b = c"
    using bu_cp_inj [OF unat_byte_lt unat_byte_lt] by (metis unsigned_word_eqI)
qed

lemma byte_symbols_inj:
  assumes "byte_symbols v = byte_symbols w"
  shows "v = w"
proof -
  have "map byte_symbol v = map byte_symbol w"
    using utf8_chars_symbols [of 0 "byte_symbols v" v] utf8_chars_symbols [of 0 "byte_symbols v" w] assms by simp
  then show ?thesis
    by (rule list.inj_map_strong [rotated]) (rule byte_symbol_inj)
qed

lemma concat_byte_symbols: "concat (map byte_symbols ws) = byte_symbols (concat ws)"
  by (induction ws) simp_all

subsection \<open>Ids that name their bytes\<close>

definition id_decodes :: "tokenizer \<Rightarrow> int \<Rightarrow> bytes \<Rightarrow> bool" where
  "id_decodes tok i w \<longleftrightarrow>
     w \<noteq> [] \<and> (\<exists>t. tokenizer_decode_token tok i = Some t \<and> bl_token_bytes tok t 0 = w \<and> length t \<le> UINT32_MAX)"

lemma id_decodes_count: "list_all2 (id_decodes tok) ids ws \<Longrightarrow> length ids \<le> length (concat ws)"
proof (induction rule: list_all2_induct)
  case (Cons i ids w ws)
  then show ?case
    by (cases w) (simp_all add: id_decodes_def)
qed simp

lemma id_decodes_bytes: "list_all2 (id_decodes tok) ids ws \<Longrightarrow> concat (map (bl_id_bytes tok) ids) = concat ws"
  by (induction rule: list_all2_induct) (auto simp: id_decodes_def bl_id_bytes_def)

lemma decode_bl_ids_words:
  "list_all2 (id_decodes tok) ids ws \<Longrightarrow> length (sb_buf out) + length (concat ws) \<le> SIZE_MAX div 4 \<Longrightarrow>
    \<exists>out'. decode_bl_ids (\<lambda>_. True) tok ids out = Some out' \<and> sb_buf out' = sb_buf out @ concat ws"
proof (induction arbitrary: out rule: list_all2_induct)
  case (Cons i ids w ws)
  obtain t where w: "tokenizer_decode_token tok i = Some t" "\<not> UINT32_MAX < length t" "bl_token_bytes tok t 0 = w"
    using Cons.hyps(1) by (auto simp: id_decodes_def)
  obtain out1 where o1: "decode_bl_token (\<lambda>_. True) tok t 0 out = Some out1" "sb_buf out1 = sb_buf out @ w"
    using decode_bl_token_text [of out tok t 0] Cons.prems w(3) by auto
  from Cons.IH [of out1] Cons.prems o1 w show ?case
    by simp
qed simp

text \<open>What the loader guarantees of a byte-level vocabulary: the symbols of the bytes in \<open>B\<close> are tokens,
  merging two symbols gives a token, and an id names the token it is stored under.\<close>

definition byte_level_vocab :: "tokenizer \<Rightarrow> byte set \<Rightarrow> bool" where
  "byte_level_vocab tok B \<longleftrightarrow>
     (\<forall>b\<in>B. map_id (tk_vocab tok) (byte_symbol b) \<noteq> None) \<and>
     (\<forall>l r. tok_rank tok l r \<noteq> None \<longrightarrow> map_id (tk_vocab tok) (l @ r) \<noteq> None) \<and>
     (\<forall>s i. map_id (tk_vocab tok) s = Some i \<longrightarrow> tokenizer_decode_token tok i = Some s)"

lemma byte_level_vocabD:
  assumes "byte_level_vocab tok B"
  shows "b \<in> B \<Longrightarrow> map_id (tk_vocab tok) (byte_symbol b) \<noteq> None"
    and "tok_rank tok l r \<noteq> None \<Longrightarrow> map_id (tk_vocab tok) (l @ r) \<noteq> None"
    and "map_id (tk_vocab tok) s = Some i \<Longrightarrow> tokenizer_decode_token tok i = Some s"
  using assms unfolding byte_level_vocab_def by blast+

lemma map_choice: "\<forall>y\<in>set ys. \<exists>x. y = f x \<and> Q x \<Longrightarrow> \<exists>xs. ys = map f xs \<and> (\<forall>x\<in>set xs. Q x)"
proof (induction ys)
  case (Cons y ys)
  then obtain x xs where "y = f x" "Q x" "ys = map f xs" "\<forall>x\<in>set xs. Q x"
    by auto
  then show ?case
    by (intro exI [of _ "x # xs"]) simp
qed simp

lemma merged_symbols:
  assumes "byte_level_vocab tok B" "set w \<subseteq> B"
  obtains ws where "bpe_greedy (tok_rank tok) (map byte_symbol w) = map byte_symbols ws" "concat ws = w"
    "\<forall>v\<in>set ws. v \<noteq> [] \<and> map_id (tk_vocab tok) (byte_symbols v) \<noteq> None"
proof -
  define P where
    "P s \<longleftrightarrow> (\<exists>v. s = byte_symbols v \<and> v \<noteq> [] \<and> map_id (tk_vocab tok) (byte_symbols v) \<noteq> None)" for s
  let ?g = "bpe_greedy (tok_rank tok) (map byte_symbol w)"
  have init: "\<forall>s\<in>set (map byte_symbol w). P s"
  proof
    fix s assume "s \<in> set (map byte_symbol w)"
    then obtain b where "b \<in> set w" "s = byte_symbol b"
      by auto
    then show "P s"
      using assms byte_level_vocabD(1) [OF assms(1), of b] by (auto simp: P_def intro!: exI [of _ "[b]"])
  qed
  have "P (a @ b)" if "P a" "P b" "tok_rank tok a b \<noteq> None" for a b
    using that byte_level_vocabD(2) [OF assms(1) that(3)] unfolding P_def
    by (metis Nil_is_append_conv byte_symbols_simps(3))
  from greedy_all [of P, OF this init] have g: "\<forall>s\<in>set ?g. P s" "concat ?g = byte_symbols w"
    by (simp_all add: byte_symbols_def)
  obtain ws where "?g = map byte_symbols ws"
    "\<forall>v\<in>set ws. v \<noteq> [] \<and> map_id (tk_vocab tok) (byte_symbols v) \<noteq> None"
    using map_choice [OF g(1) [unfolded P_def]] by (elim exE conjE)
  note ws = this
  have "concat ws = w"
    using g(2) byte_symbols_inj [of "concat ws" w] by (simp add: ws(1) concat_byte_symbols)
  with ws show thesis
    using that by blast
qed

subsection \<open>Encoding\<close>

lemma length_concat_mem: "x \<in> set xs \<Longrightarrow> length x \<le> length (concat xs)"
  by (induction xs) auto

lemma bpe_merge_symbols:
  assumes "tk_type tok = TOKENIZER_BPE" "byte_level_vocab tok B" "set w \<subseteq> B" "2 * int (length w) \<le> INT_MAX"
    "tk_bytes_unicode tok = uc_build_bytes_to_unicode"
  shows "\<exists>ids ws. bpe_merge tok (byte_symbols w) = Some (Some ids) \<and> list_all2 (id_decodes tok) ids ws \<and> concat ws = w"
proof -
  obtain ws where ws: "bpe_greedy (tok_rank tok) (map byte_symbol w) = map byte_symbols ws" "concat ws = w"
    "\<forall>v\<in>set ws. v \<noteq> [] \<and> map_id (tk_vocab tok) (byte_symbols v) \<noteq> None"
    by (rule merged_symbols [OF assms(2,3)])
  have "int (length (byte_symbols w)) \<le> INT_MAX"
    using assms(4) byte_symbols_length(2) [of w] by linarith
  from bpe_merge_result [OF _ this, of tok] have m: "bpe_merge tok (byte_symbols w) =
      Some (Some (concat (map (\<lambda>v. bpe_emit_symbol tok (byte_symbols v)) ws)))"
    using assms(1) utf8_chars_symbols [of 0 "byte_symbols w" w] ws(1) by (simp add: o_def)
  have small: "length v \<le> length w" if "v \<in> set ws" for v
    using length_concat_mem [OF that] ws(2) by simp
  define f where "f v = the (map_id (tk_vocab tok) (byte_symbols v))" for v
  have "bpe_emit_symbol tok (byte_symbols v) = [f v] \<and> id_decodes tok (f v) v" if v: "v \<in> set ws" for v
  proof -
    obtain i where i: "map_id (tk_vocab tok) (byte_symbols v) = Some i" "v \<noteq> []"
      using bspec [OF ws(3) v] by auto
    have "length (byte_symbols v) \<le> UINT32_MAX"
      using small [OF v] byte_symbols_length(2) [of v] assms(4) by (simp add: INT_MAX_def UINT32_MAX_def)
    with i byte_level_vocabD(3) [OF assms(2) i(1)] show ?thesis
      using bl_token_bytes_symbols [OF assms(5), of 0 "byte_symbols v" v] by (simp add: bpe_emit_symbol_def f_def id_decodes_def)
  qed
  then have "concat (map (\<lambda>v. bpe_emit_symbol tok (byte_symbols v)) ws) = map f ws" "list_all2 (id_decodes tok) (map f ws) ws"
    by (induction ws) auto
  with m ws(2) show ?thesis
    by auto
qed

lemma encode_words_symbols:
  assumes "tk_type tok = TOKENIZER_BPE" "byte_level_vocab tok B" "tk_bytes_unicode tok = uc_build_bytes_to_unicode"
  shows "set (concat (map (slice_bytes t) ps)) \<subseteq> B \<Longrightarrow> 2 * int (length (concat (map (slice_bytes t) ps))) \<le> INT_MAX \<Longrightarrow>
    \<exists>ids ws. encode_words tok t ps out = Some (Some (out @ ids)) \<and> list_all2 (id_decodes tok) ids ws \<and>
      concat ws = concat (map (slice_bytes t) ps)"
proof (induction ps arbitrary: out)
  case Nil
  then show ?case
    by (intro exI [of _ "[]"]) simp
next
  case (Cons p ps)
  obtain ids ws where p: "bpe_merge tok (byte_symbols (slice_bytes t p)) = Some (Some ids)"
    "list_all2 (id_decodes tok) ids ws" "concat ws = slice_bytes t p"
    using bpe_merge_symbols [OF assms(1,2) _ _ assms(3), of "slice_bytes t p"] Cons.prems by auto
  obtain ids' ws' where r: "encode_words tok t ps (out @ ids) = Some (Some ((out @ ids) @ ids'))"
    "list_all2 (id_decodes tok) ids' ws'" "concat ws' = concat (map (slice_bytes t) ps)"
    using Cons.IH [of "out @ ids"] Cons.prems by auto
  show ?case
    using p r by (intro exI [of _ "ids @ ids'"] exI [of _ "ws @ ws'"])
      (simp add: byte_level_expand_symbols [OF assms(3)] list_all2_appendI)
qed

text \<open>With any allocator a reservation that succeeds leaves room for the pieces; it fails only when an
  allocation fails.\<close>

lemma scratch_grow_pretoks:
  "\<exists>ok s'. scratch_grow mem len ks s = (ok, s') \<and> (ok \<longrightarrow> pretoks_cap s \<le> pretoks_cap s' \<and>
     (SCRATCH_PRETOKS \<in> set ks \<longrightarrow> len \<le> pretoks_cap s')) \<and> (mem = (\<lambda>_. True) \<longrightarrow> ok)"
proof (induction ks arbitrary: s)
  case (Cons k ks)
  obtain small sz s1 where n: "scratch_need s len k = (small, sz, s1)"
    by (metis prod_cases3)
  let ?s = "if small then s1 else s"
  have "pretoks_cap s \<le> pretoks_cap ?s \<and> (k = SCRATCH_PRETOKS \<longrightarrow> len \<le> pretoks_cap ?s)"
    using n by (cases k) (auto simp: scratch_need_def)
  with Cons.IH [of ?s] n show ?case
    by (cases small; cases "mem sz") (auto intro: order_trans)
next
  case Nil
  then show ?case
    by (intro exI [of _ True] exI [of _ s]) simp
qed

lemma encode_segment_symbols:
  assumes "tk_type tok = TOKENIZER_BPE" "byte_level_vocab tok B" "tk_bytes_unicode tok = uc_build_bytes_to_unicode"
    and "set t \<subseteq> B" "6 * length t \<le> UINT32_MAX"
  shows "\<exists>s' res. encode_segment mem tok s t = (s', Some res) \<and> (mem = (\<lambda>_. True) \<longrightarrow> res \<noteq> None) \<and>
    (\<forall>ids. res = Some ids \<longrightarrow> (\<exists>ws. list_all2 (id_decodes tok) ids ws \<and> concat ws = t))"
proof -
  let ?ks = "[SCRATCH_NODES, SCRATCH_IDS, SCRATCH_HEAP, SCRATCH_PRETOKS, SCRATCH_TEXT, SCRATCH_OUT]"
  have len: "2 * int (length t) \<le> INT_MAX" "2 * length t \<le> UINT32_MAX div 3"
    using assms(5) by (simp_all add: INT_MAX_def UINT32_MAX_def)
  obtain ok s' where s': "scratch_reserve_mask mem s (2 * length t) ?ks = (ok, s')" "ok \<longrightarrow> length t \<le> pretoks_cap s'"
    "mem = (\<lambda>_. True) \<longrightarrow> ok"
    using scratch_grow_pretoks [of mem "if 2 * length t = 0 then 1 else 2 * length t" ?ks s] len(2)
    by (auto simp del: scratch_grow.simps simp: scratch_reserve_mask_def split: if_splits)
  show ?thesis
  proof (cases ok)
    case True
    obtain ps where ps: "gpt2_pretokenize (pretoks_cap s') t = Some ps" "concat (map (slice_bytes t) ps) = t"
      using pretokenize_partition_facts [of t "pretoks_cap s'"] s'(2) True len(1) by auto
    obtain ids ws where "encode_words tok t ps [] = Some (Some ids)" "list_all2 (id_decodes tok) ids ws" "concat ws = t"
      using encode_words_symbols [OF assms(1-3), of t ps "[]"] ps(2) assms(4) len(1) by auto
    with s'(1) True ps(1) len(1) show ?thesis
      by (intro exI [of _ s'] exI [of _ "Some ids"]) (auto simp: encode_segment_def assms(1) encode_byte_level_def)
  next
    case False
    with s'(1,3) len(1) show ?thesis
      by (intro exI [of _ s'] exI [of _ "None"]) (simp add: encode_segment_def assms(1) encode_byte_level_def)
  qed
qed

lemma idbuf_append_cases:
  obtains ok out' where "idbuf_append mem out ids = (ok, out')" "ok \<longrightarrow> ib_ids out' = ib_ids out @ ids"
    "mem = (\<lambda>_. True) \<longrightarrow> length (ib_ids out) + length ids \<le> SIZE_MAX div 8 \<longrightarrow> ok"
proof (cases "idbuf_append mem out ids")
  case (Pair ok out')
  have "ok" if "mem = (\<lambda>_. True)" "length (ib_ids out) + length ids \<le> SIZE_MAX div 8"
    using ib.room_law [OF that(2)] Pair that(1) by simp
  moreover have "ok \<longrightarrow> ib_ids out' = ib_ids out @ ids"
    using ib.append_ok [of mem out ids out'] Pair by auto
  ultimately show ?thesis
    using that [of ok out'] Pair by simp
qed

text \<open>The pieces of a text: gaps are encoded, added tokens stand for themselves. \<open>piece_text\<close> is what the
  decoder makes of a piece; of an added token, the bytes its characters map to.\<close>

definition specials_named :: "tokenizer \<Rightarrow> (bytes \<times> int) list \<Rightarrow> bool" where
  "specials_named tok ks \<longleftrightarrow> (\<forall>(k, i)\<in>set ks. tokenizer_decode_token tok i = Some k)"

definition specials_plain :: "(bytes \<times> int) list \<Rightarrow> bool" where
  "specials_plain ks \<longleftrightarrow> (\<forall>(k, i)\<in>set ks. byte_symbols k = k)"

fun piece_text :: "tokenizer \<Rightarrow> piece \<Rightarrow> bytes" where
  "piece_text tok (Gap g) = g"
| "piece_text tok (Special k i) = bl_token_bytes tok k 0"

fun piece_ok :: "tokenizer \<Rightarrow> byte set \<Rightarrow> piece \<Rightarrow> bool" where
  "piece_ok tok B (Gap g) = (set g \<subseteq> B)"
| "piece_ok tok B (Special k i) = id_decodes tok i (bl_token_bytes tok k 0)"

lemma piece_text_length: "length (concat (map (piece_text tok) ps)) \<le> length (concat (map piece_bytes ps))"
proof (induction ps)
  case (Cons p ps)
  then show ?case
    using bl_token_bytes_length [of tok _ 0] by (cases p) (auto intro: add_mono)
qed simp

text \<open>One piece: its ids are appended, or (only if an allocation fails) the encoder gives up.\<close>

lemma run_piece_symbols:
  assumes "tk_type tok = TOKENIZER_BPE" "byte_level_vocab tok B" "tk_bytes_unicode tok = uc_build_bytes_to_unicode"
    and "piece_ok tok B p" "6 * length (piece_bytes p) \<le> UINT32_MAX"
    and "length (ib_ids out) + length (piece_text tok p) \<le> SIZE_MAX div 8"
  shows "(mem \<noteq> (\<lambda>_. True) \<and> run_pieces mem tok s out (p # ps) = Some None) \<or>
    (\<exists>s1 out1 ids ws. run_pieces mem tok s out (p # ps) = run_pieces mem tok s1 out1 ps \<and>
      ib_ids out1 = ib_ids out @ ids \<and> list_all2 (id_decodes tok) ids ws \<and> concat ws = piece_text tok p)"
proof (cases p)
  case (Gap g)
  obtain s1 res where g: "encode_segment mem tok s g = (s1, Some res)" "mem = (\<lambda>_. True) \<longrightarrow> res \<noteq> None"
    "\<forall>ids. res = Some ids \<longrightarrow> (\<exists>ws. list_all2 (id_decodes tok) ids ws \<and> concat ws = g)"
    using encode_segment_symbols [OF assms(1-3), of g mem s] assms(4,5) Gap by auto
  show ?thesis
  proof (cases res)
    case None
    with g(1,2) Gap show ?thesis
      by (simp add: encode_gap_def)
  next
    case (Some ids)
    then obtain ws where ws: "list_all2 (id_decodes tok) ids ws" "concat ws = g"
      using g(3) by blast
    have "length (ib_ids out) + length ids \<le> SIZE_MAX div 8"
      using id_decodes_count [OF ws(1)] ws(2) assms(6) Gap by simp
    then obtain ok out1 where o: "idbuf_append mem out ids = (ok, out1)" "ok \<longrightarrow> ib_ids out1 = ib_ids out @ ids"
      "mem = (\<lambda>_. True) \<longrightarrow> ok"
      by (metis idbuf_append_cases)
    show ?thesis
    proof (cases ok)
      case True
      with o g(1) Some Gap ws show ?thesis
        by (intro disjI2 exI [of _ s1] exI [of _ out1] exI [of _ ids] exI [of _ ws]) (simp add: encode_gap_def)
    next
      case False
      with o g(1) Some Gap show ?thesis
        by (simp add: encode_gap_def)
    qed
  qed
next
  case (Special k i)
  have k: "id_decodes tok i (bl_token_bytes tok k 0)"
    using assms(4) Special by simp
  then have "bl_token_bytes tok k 0 \<noteq> []"
    by (simp add: id_decodes_def)
  then have "length (ib_ids out) + length [i] \<le> SIZE_MAX div 8"
    using assms(6) Special by (cases "bl_token_bytes tok k 0") simp_all
  then obtain ok out1 where o: "idbuf_append mem out [i] = (ok, out1)" "ok \<longrightarrow> ib_ids out1 = ib_ids out @ [i]"
    "mem = (\<lambda>_. True) \<longrightarrow> ok"
    by (metis idbuf_append_cases)
  show ?thesis
  proof (cases ok)
    case True
    with k o Special show ?thesis
      by (intro disjI2 exI [of _ s] exI [of _ out1] exI [of _ "[i]"] exI [of _ "[bl_token_bytes tok k 0]"]) simp
  next
    case False
    with o Special show ?thesis
      by simp
  qed
qed

lemma run_pieces_symbols:
  assumes "tk_type tok = TOKENIZER_BPE" "byte_level_vocab tok B" "tk_bytes_unicode tok = uc_build_bytes_to_unicode"
  shows "\<forall>p\<in>set ps. piece_ok tok B p \<Longrightarrow> 6 * length (concat (map piece_bytes ps)) \<le> UINT32_MAX \<Longrightarrow>
    length (ib_ids out) + length (concat (map (piece_text tok) ps)) \<le> SIZE_MAX div 8 \<Longrightarrow>
    (mem \<noteq> (\<lambda>_. True) \<and> run_pieces mem tok s out ps = Some None) \<or>
    (\<exists>out' ids ws. run_pieces mem tok s out ps = Some (Some out') \<and> ib_ids out' = ib_ids out @ ids \<and>
      list_all2 (id_decodes tok) ids ws \<and> concat ws = concat (map (piece_text tok) ps))"
proof (induction ps arbitrary: s out)
  case Nil
  then show ?case
    by (intro disjI2 exI [of _ out] exI [of _ "[]"]) simp
next
  case (Cons p ps)
  have "(mem \<noteq> (\<lambda>_. True) \<and> run_pieces mem tok s out (p # ps) = Some None) \<or>
    (\<exists>s1 out1 ids ws. run_pieces mem tok s out (p # ps) = run_pieces mem tok s1 out1 ps \<and>
      ib_ids out1 = ib_ids out @ ids \<and> list_all2 (id_decodes tok) ids ws \<and> concat ws = piece_text tok p)"
    by (rule run_piece_symbols [OF assms]) (use Cons.prems in auto)
  then show ?case
  proof (elim disjE exE conjE)
    fix s1 out1 ids ws
    assume 1: "run_pieces mem tok s out (p # ps) = run_pieces mem tok s1 out1 ps"
      "ib_ids out1 = ib_ids out @ ids" "list_all2 (id_decodes tok) ids ws" "concat ws = piece_text tok p"
    have len: "length (ib_ids out1) + length (concat (map (piece_text tok) ps)) \<le> SIZE_MAX div 8"
      using 1(2) id_decodes_count [OF 1(3)] 1(4) Cons.prems(3) by simp
    have "(mem \<noteq> (\<lambda>_. True) \<and> run_pieces mem tok s1 out1 ps = Some None) \<or>
      (\<exists>out' ids ws. run_pieces mem tok s1 out1 ps = Some (Some out') \<and> ib_ids out' = ib_ids out1 @ ids \<and>
        list_all2 (id_decodes tok) ids ws \<and> concat ws = concat (map (piece_text tok) ps))"
      by (rule Cons.IH) (use Cons.prems len in auto)
    then show ?case
    proof (elim disjE exE conjE)
      fix out' ids' ws'
      assume 2: "run_pieces mem tok s1 out1 ps = Some (Some out')"
        "ib_ids out' = ib_ids out1 @ ids'" "list_all2 (id_decodes tok) ids' ws'" "concat ws' = concat (map (piece_text tok) ps)"
      from 1 2 show ?case
        by (intro disjI2 exI [of _ out'] exI [of _ "ids @ ids'"] exI [of _ "ws @ ws'"]) (simp add: list_all2_appendI)
    qed (use 1 in simp)
  qed simp
qed

subsection \<open>The round trip\<close>

text \<open>The text the encoder tokenizes: the normal form of a valid text for a tokenizer that normalizes (NFC
  through the platform's normalizer, a parameter), any other text as it is.\<close>

definition encoded_text :: "(norm_form \<Rightarrow> bytes \<Rightarrow> bytes option) \<Rightarrow> tokenizer \<Rightarrow> bytes \<Rightarrow> bytes option" where
  "encoded_text normalise tok text =
     (if tk_norm_form tok \<noteq> NORM_NONE \<and> text \<noteq> [] \<and> uc_utf8_scan text = UC_SCAN_VALID
      then normalise (tk_norm_form tok) text else Some text)"

lemma encode_alloc_any:
  assumes "tk_type tok \<noteq> TOKENIZER_WORDPIECE" "str_u32_map_reach (tk_special_tokens tok)"
  shows "encode_alloc_impl mem tok t parse_special = encode_pieces mem tok (split_special (special_list tok parse_special) [] t) \<or>
    (mem \<noteq> (\<lambda>_. True) \<and> encode_alloc_impl mem tok t parse_special = Some None)"
proof (cases "parse_special \<longrightarrow> mem (unat (oa_count (tk_special_tokens tok)) * 24)")
  case True
  then show ?thesis
    by (intro disjI1 encode_alloc_pieces [OF assms])
next
  case False
  show ?thesis
  proof (cases "unat (oa_count (tk_special_tokens tok)) = 0")
    case True
    then have none: "encode_alloc_impl mem tok t parse_special = encode_alloc_impl mem tok t False"
      using assms(1) by (simp add: encode_alloc_impl_def)
    have "special_list tok parse_special = special_list tok False"
      using special_list_empty [OF assms(2)] True by (cases parse_special) (simp_all add: special_list_def)
    with none show ?thesis
      using encode_alloc_pieces [OF assms, of False mem t] by simp
  next
    case nonzero: False
    have "mem \<noteq> (\<lambda>_. True)"
      using False by auto
    with False nonzero assms(1) show ?thesis
      by (simp add: encode_alloc_impl_def)
  qed
qed

text \<open>C25. A byte-level tokenizer loses nothing but what normalization changes. Let \<open>t\<close> be the text the
  encoder tokenizes: the normal form of the text for a tokenizer that normalizes (when the text is not
  empty and scans as valid UTF-8 with a byte outside ASCII), otherwise the text itself. Assume that the
  vocabulary covers the bytes of \<open>t\<close> and is closed under its merges, that the ids of tokens and added
  tokens name them, and that \<open>t\<close> has at most 715827882 bytes (above which the scratch reservation
  refuses it). Let \<open>d\<close> be \<open>t\<close> with each added token found in it replaced by the bytes its characters map
  to; \<open>d\<close> is \<open>t\<close> itself when the added tokens consist of characters that stand for themselves
  (printable ASCII). Then, with or without parsing the added tokens and for every allocator, encoding
  either reports an error or yields ids of which every decoding that does not fail gives exactly \<open>d\<close>;
  and when no allocation fails, encoding and decoding both succeed.\<close>

theorem byte_level_roundtrip:
  assumes "tk_type tok = TOKENIZER_BPE" "tk_bytes_unicode tok = uc_build_bytes_to_unicode"
    and "str_u32_map_reach (tk_special_tokens tok)"
    and "encoded_text normalise tok text = Some t" "int (length text) \<le> INT_MAX"
    and "byte_level_vocab tok (set t)" "specials_named tok (special_list tok parse_special)"
    and "6 * length t \<le> UINT32_MAX"
    and "d = concat (map (piece_text tok) (split_special (special_list tok parse_special) [] t))"
  shows "(\<exists>res. tokenizer_encode_alloc mem normalise tok text parse_special = Some res \<and>
      (\<forall>ids mem'. res = Some ids \<longrightarrow> tokenizer_decode mem' tok ids \<in> {None, Some d})) \<and>
    (\<exists>ids. tokenizer_encode_alloc (\<lambda>_. True) normalise tok text parse_special = Some (Some ids) \<and>
      tokenizer_decode (\<lambda>_. True) tok ids = Some d) \<and>
    (specials_plain (special_list tok parse_special) \<longrightarrow> d = t)"
proof -
  define ps where "ps = split_special (special_list tok parse_special) [] t"
  have d: "d = concat (map (piece_text tok) ps)"
    using assms(9) by (simp add: ps_def)
  have lossless: "concat (map piece_bytes ps) = t"
    by (simp add: ps_def split_special_lossless)
  have special: "(k, i) \<in> set (special_list tok parse_special) \<and> k \<noteq> []" if "Special k i \<in> set ps" for k i
    using split_special_pieces [of "Special k i" "special_list tok parse_special" "[]" t] that ps_def by simp
  have ok: "piece_ok tok (set t) p" if p: "p \<in> set ps" for p
  proof -
    have sub: "set (piece_bytes p) \<subseteq> set t" "length (piece_bytes p) \<le> length t"
      using p lossless length_concat_mem [of "piece_bytes p" "map piece_bytes ps"] by auto
    show ?thesis
    proof (cases p)
      case (Special k i)
      with special [of k i] p assms(7) have "tokenizer_decode_token tok i = Some k" "k \<noteq> []"
        by (auto simp: specials_named_def)
      with bl_token_bytes_nonempty [of 0 k tok] assms(8) sub(2) Special show ?thesis
        by (auto simp: id_decodes_def)
    qed (use sub in simp)
  qed
  have dlen: "length d \<le> length t"
    using piece_text_length [of tok ps] lossless by (simp add: d)
  have enc: "(m \<noteq> (\<lambda>_. True) \<and> tokenizer_encode_alloc m normalise tok text parse_special = Some None) \<or>
      (\<exists>ids ws. tokenizer_encode_alloc m normalise tok text parse_special = Some (Some ids) \<and>
        list_all2 (id_decodes tok) ids ws \<and> concat ws = d)" for m
  proof -
    have alloc: "tokenizer_encode_alloc m normalise tok text parse_special = encode_alloc_impl m tok t parse_special"
      using assms(4,5) by (auto simp: tokenizer_encode_alloc_def encoded_text_def split: if_splits)
    have run: "(m \<noteq> (\<lambda>_. True) \<and> run_pieces m tok encode_scratch_init idbuf_empty ps = Some None) \<or>
      (\<exists>out ids ws. run_pieces m tok encode_scratch_init idbuf_empty ps = Some (Some out) \<and>
        ib_ids out = ib_ids idbuf_empty @ ids \<and> list_all2 (id_decodes tok) ids ws \<and>
        concat ws = concat (map (piece_text tok) ps))"
      by (rule run_pieces_symbols [OF assms(1,6,2)])
        (use ok dlen assms(8) lossless d in \<open>auto simp: idbuf_empty_def UINT32_MAX_def SIZE_MAX_def\<close>)
    have small: "int (length ids) \<le> INT_MAX" if "list_all2 (id_decodes tok) ids ws" "concat ws = d" for ids ws
      using id_decodes_count [OF that(1)] that(2) dlen assms(8) by (simp add: INT_MAX_def UINT32_MAX_def)
    have "(m \<noteq> (\<lambda>_. True) \<and> encode_pieces m tok ps = Some None) \<or>
        (\<exists>ids ws. encode_pieces m tok ps = Some (Some ids) \<and> list_all2 (id_decodes tok) ids ws \<and> concat ws = d)"
      using run small by (fastforce simp: encode_pieces_def idbuf_empty_def d)
    with encode_alloc_any [OF _ assms(3), of m t parse_special] assms(1) alloc show ?thesis
      by (auto simp flip: ps_def)
  qed
  have any: "tokenizer_decode m tok ids \<in> {None, Some d}" if "list_all2 (id_decodes tok) ids ws" "concat ws = d" for m ids ws
    using decode_bytes [OF assms(1), of m ids] id_decodes_bytes [OF that(1)] that(2)
    by (cases "tokenizer_decode m tok ids") auto
  have full: "tokenizer_decode (\<lambda>_. True) tok ids = Some d" if ws: "list_all2 (id_decodes tok) ids ws" "concat ws = d" for ids ws
  proof -
    obtain sbuf where sbuf: "decode_bl_ids (\<lambda>_. True) tok ids strbuf_empty = Some sbuf" "sb_buf sbuf = d"
      using decode_bl_ids_words [OF ws(1), of strbuf_empty] ws(2) dlen assms(8)
      by (auto simp: strbuf_empty_def UINT32_MAX_def SIZE_MAX_def)
    moreover have "sb_finish (\<lambda>_. True) sbuf = Some d"
      using decode_bl_ids_ok [OF sbuf(1) sb_ok_empty] sbuf(2) by (simp add: sb_finish_room)
    ultimately show ?thesis
      by (simp add: tokenizer_decode_def assms(1) decode_byte_level_def)
  qed
  have "d = t" if plain: "specials_plain (special_list tok parse_special)"
  proof -
    have "piece_text tok p = piece_bytes p" if "p \<in> set ps" for p
    proof (cases p)
      case (Special k i)
      with special [of k i] that plain have "byte_symbols k = k"
        by (auto simp: specials_plain_def)
      with Special show ?thesis
        using bl_token_bytes_symbols [OF assms(2), of 0 k k] by simp
    qed simp
    then have "d = concat (map piece_bytes ps)"
      unfolding d by (metis map_cong)
    with lossless show ?thesis
      by simp
  qed
  moreover have "\<exists>res. tokenizer_encode_alloc mem normalise tok text parse_special = Some res \<and>
      (\<forall>ids mem'. res = Some ids \<longrightarrow> tokenizer_decode mem' tok ids \<in> {None, Some d})"
    using enc [of mem] any by (elim disjE exE conjE) (simp, metis option.inject)
  moreover have "\<exists>ids. tokenizer_encode_alloc (\<lambda>_. True) normalise tok text parse_special = Some (Some ids) \<and>
      tokenizer_decode (\<lambda>_. True) tok ids = Some d"
    using enc [of "\<lambda>_. True"] full by blast
  ultimately show ?thesis
    by blast
qed

text \<open>A byte-level tokenizer over \<open>a\<close>, \<open>b\<close> and \<open>c\<close> with the added tokens \<open>ab\<close> and \<open>abc\<close>.\<close>

definition rt_vocab_list :: "(bytes \<times> u32) list" where
  "rt_vocab_list = sample_vocab_list @ [([97, 98, 99], 7)]"

definition rt_vocab :: str_u32_map where
  "rt_vocab = snd (the (kv_put_all (str_u32_map_put (\<lambda>_. True)) sample_map0 rt_vocab_list))"

definition rt_tok :: tokenizer where
  "rt_tok = sample_tok\<lparr>tk_vocab := rt_vocab, tk_special_tokens := sample_specials,
     tk_id_to_token := [Some [97], Some [98], Some [99], Some [97, 98], Some [98, 99], None, None, Some [97, 98, 99]],
     tk_bytes_unicode := uc_build_bytes_to_unicode\<rparr>"

lemma rt_vocab_get: "map_id rt_vocab k = map_option (\<lambda>v. c_int (uint v)) (map_of (rev rt_vocab_list) k)"
proof -
  have "kv_put_all (str_u32_map_put (\<lambda>_. True)) sample_map0 rt_vocab_list = Some (True, rt_vocab)"
    by code_simp
  from str_u32_map_loaded [OF sample_map_steps(1) this] show ?thesis
    by (simp add: map_id_def)
qed

lemma rt_rank: "tok_rank rt_tok l r = map_of (rev sample_merges_list) (l, r)"
  using merge_map_loaded [OF sample_merges_steps, of "(l, r)"] by (simp add: tok_rank_def rt_tok_def sample_tok_def)

lemma ascii_symbols: "byte_symbol 97 = [97]" "byte_symbol 98 = [98]" "byte_symbol 99 = [99]"
  by code_simp+

lemma rt_vocab_ok: "byte_level_vocab rt_tok {97, 98, 99}"
  unfolding byte_level_vocab_def rt_rank
  by (auto simp: rt_tok_def rt_vocab_get ascii_symbols rt_vocab_list_def sample_vocab_list_def
      sample_merges_list_def tokenizer_decode_token_def c_int_def split: if_splits)

lemma rt_specials_mem: "(k, i) \<in> set (special_list rt_tok True) \<Longrightarrow> k = [97, 98] \<and> i = 3 \<or> k = [97, 98, 99] \<and> i = 7"
proof -
  assume "(k, i) \<in> set (special_list rt_tok True)"
  then have "map_id sample_specials k = Some i"
    using sample_specials_reach by (auto simp: special_list_mem rt_tok_def map_id_abs)
  then show ?thesis
    using str_u32_map_loaded [OF sample_map_steps(1) sample_specials_load, of k]
    by (auto simp: map_id_def c_int_def split: if_splits)
qed

lemma rt_specials_ok: "specials_named rt_tok (special_list rt_tok True)" "specials_plain (special_list rt_tok True)"
  using rt_specials_mem
  by (fastforce simp: specials_named_def specials_plain_def ascii_symbols tokenizer_decode_token_def rt_tok_def)+

theorem byte_level_roundtrip_witness:
  "\<exists>ids. tokenizer_encode_alloc (\<lambda>_. True) (\<lambda>_ t. Some t) rt_tok [98, 97, 99, 97, 98, 99] True = Some (Some ids) \<and>
    tokenizer_decode (\<lambda>_. True) rt_tok ids = Some [98, 97, 99, 97, 98, 99]"
proof -
  have "byte_level_vocab rt_tok (set [98, 97, 99, 97, 98, 99])"
    using rt_vocab_ok by (simp add: insert_commute)
  moreover have "encoded_text (\<lambda>_ t. Some t) rt_tok [98, 97, 99, 97, 98, 99] = Some [98, 97, 99, 97, 98, 99]"
    by (simp add: encoded_text_def)
  moreover have "tk_type rt_tok = TOKENIZER_BPE" "tk_bytes_unicode rt_tok = uc_build_bytes_to_unicode"
    "str_u32_map_reach (tk_special_tokens rt_tok)"
    using sample_specials_reach by (simp_all add: rt_tok_def sample_tok_def)
  ultimately show ?thesis
    using byte_level_roundtrip [of rt_tok "\<lambda>_ t. Some t" "[98, 97, 99, 97, 98, 99]" "[98, 97, 99, 97, 98, 99]" True, OF _ _ _ _ _ _ _ _ refl]
      rt_specials_ok by (fastforce simp: UINT32_MAX_def INT_MAX_def)
qed

end
