(* ===== verification/HttpWire.thy ===== *)
theory HttpWire
  imports Prelude
begin

text \<open>
  What the server writes: HTTP responses (\<open>src/http/response.c\<close>) and server-sent events
  (\<open>src/http/sse.c\<close>), with the readers of a client: a response reader that frames the body by its
  Content-Length, and an event reader that splits the stream into lines and events.
\<close>

definition CR :: char where "CR = CHR 0x0D"
definition LF :: char where "LF = CHR 0x0A"
definition CRLF :: string where "CRLF = [CR, LF]"

subsection \<open>Responses\<close>

definition http_status_reason :: "int \<Rightarrow> string" where
  "http_status_reason status =
     (if status = 200 then ''OK''
      else if status = 204 then ''No Content''
      else if status = 400 then ''Bad Request''
      else if status = 404 then ''Not Found''
      else if status = 405 then ''Method Not Allowed''
      else if status = 413 then ''Payload Too Large''
      else if status = 500 then ''Internal Server Error''
      else if status = 501 then ''Not Implemented''
      else if status = 503 then ''Service Unavailable''
      else ''Unknown'')"

definition http_conn_word :: "bool \<Rightarrow> string" where
  "http_conn_word keep_alive = (if keep_alive then ''keep-alive'' else ''close'')"

definition http_response_head :: "int \<Rightarrow> string \<Rightarrow> nat \<Rightarrow> bool \<Rightarrow> string" where
  "http_response_head status content_type body_len keep_alive =
     ''HTTP/1.1 '' @ fmt_int status @ '' '' @ http_status_reason status @ CRLF @
     ''Content-Type: '' @ content_type @ CRLF @
     ''Content-Length: '' @ fmt_nat body_len @ CRLF @
     ''Access-Control-Allow-Origin: *'' @ CRLF @
     ''Connection: '' @ http_conn_word keep_alive @ CRLF @
     CRLF"

text \<open>The head is formatted into 512 bytes, the terminating NUL included. An absent content type is
  \<open>None\<close>; an absent body is the empty string.\<close>

definition http_build_response ::
  "allocator \<Rightarrow> int \<Rightarrow> string option \<Rightarrow> string \<Rightarrow> bool \<Rightarrow> string option" where
  "http_build_response mem status content_type body keep_alive =
     (case content_type of
        None \<Rightarrow> None
      | Some ct \<Rightarrow>
          if list_ex (\<lambda>c. c = CR \<or> c = LF) (c_str ct) then None
          else let head = http_response_head status (c_str ct) (length body) keep_alive in
               if 512 \<le> length head then None
               else if mem (length head + length body + 1) then Some (head @ body) else None)"

definition http_build_preflight :: "allocator \<Rightarrow> bool \<Rightarrow> string option" where
  "http_build_preflight mem keep_alive =
     (let resp = ''HTTP/1.1 204 No Content'' @ CRLF @
            ''Access-Control-Allow-Origin: *'' @ CRLF @
            ''Access-Control-Allow-Methods: GET, POST, OPTIONS'' @ CRLF @
            ''Access-Control-Allow-Headers: Content-Type, Authorization'' @ CRLF @
            ''Content-Length: 0'' @ CRLF @
            ''Connection: '' @ http_conn_word keep_alive @ CRLF @
            CRLF
      in if 512 \<le> length resp then None else if mem (length resp + 1) then Some resp else None)"

definition http_build_sse_head :: "allocator \<Rightarrow> string option" where
  "http_build_sse_head mem =
     (let head = ''HTTP/1.1 200 OK'' @ CRLF @
            ''Content-Type: text/event-stream'' @ CRLF @
            ''Cache-Control: no-cache'' @ CRLF @
            ''Access-Control-Allow-Origin: *'' @ CRLF @
            ''Connection: close'' @ CRLF @
            CRLF
      in if mem (length head + 1) then Some head else None)"

subsection \<open>Server-sent events\<close>

definition count_lf :: "string \<Rightarrow> nat" where
  "count_lf data = length (filter (\<lambda>c. c = LF) data)"

text \<open>The copy loop: one \<open>data:\<close> line per line of the payload.\<close>

function sse_lines :: "string \<Rightarrow> string" where
  "sse_lines p =
     (let seg = takeWhile (\<lambda>c. c \<noteq> LF) p in
      case dropWhile (\<lambda>c. c \<noteq> LF) p of
        [] \<Rightarrow> ''data: '' @ seg @ [LF]
      | nl # p' \<Rightarrow> ''data: '' @ seg @ [LF] @ sse_lines p')"
  by pat_completeness auto
termination
proof (relation "measure length")
  show "(p', p) \<in> measure length" if "dropWhile (\<lambda>c. c \<noteq> LF) p = nl # p'" for p nl p'
    using length_dropWhile_le [of "\<lambda>c. c \<noteq> LF" p] that by simp
qed simp

declare sse_lines.simps [simp del]

definition sse_format :: "allocator \<Rightarrow> string \<Rightarrow> string option" where
  "sse_format mem data =
     (if data = [] then if mem 9 then Some (''data: '' @ [LF, LF]) else None
      else let total = (count_lf data + 1) * 7 + length data + 2 in
           if mem total then Some (sse_lines data @ [LF]) else None)"

definition sse_done :: "allocator \<Rightarrow> string option" where
  "sse_done mem = c_strdup mem (''data: [DONE]'' @ [LF, LF])"


subsection \<open>Readers\<close>

text \<open>A line up to CRLF, and what follows.\<close>

fun crlf_line :: "string \<Rightarrow> (string \<times> string) option" where
  "crlf_line (c # d # r) =
     (if c = CR \<and> d = LF then Some ([], r) else map_option (\<lambda>(l, r). (c # l, r)) (crlf_line (d # r)))"
| "crlf_line _ = None"

lemma crlf_line_shorter: "crlf_line s = Some (l, r) \<Longrightarrow> length r < length s"
  by (induction s arbitrary: l rule: crlf_line.induct) (force split: if_splits)+

text \<open>The lines of a head, up to the empty line.\<close>

function http_head_lines :: "string \<Rightarrow> (string list \<times> string) option" where
  "http_head_lines s = (case crlf_line s of
     None \<Rightarrow> None
   | Some (l, r) \<Rightarrow>
       if l = [] then Some ([], r) else map_option (\<lambda>(ls, r). (l # ls, r)) (http_head_lines r))"
  by pat_completeness auto
termination
  by (relation "measure length") (auto dest: crlf_line_shorter)

declare http_head_lines.simps [simp del]

fun header_value :: "string \<Rightarrow> string list \<Rightarrow> string option" where
  "header_value name [] = None"
| "header_value name (l # ls) =
     (let key = name @ '': '' in
      if take (length key) l = key then Some (drop (length key) l) else header_value name ls)"

definition read_dec :: "string \<Rightarrow> nat" where
  "read_dec = foldl (\<lambda>n c. n * 10 + (of_char c - 48)) 0"

text \<open>A client: the head lines, the body of the announced length, and the bytes after it.\<close>

definition http_read :: "string \<Rightarrow> (string list \<times> string \<times> string) option" where
  "http_read s = (case http_head_lines s of
     None \<Rightarrow> None
   | Some (ls, r) \<Rightarrow> (case header_value ''Content-Length'' ls of
        None \<Rightarrow> None
      | Some v \<Rightarrow> if length r < read_dec v then None else Some (ls, take (read_dec v) r, drop (read_dec v) r)))"

lemma read_dec_fmt_nat: "read_dec (fmt_nat n) = n"
proof (induction n rule: fmt_nat.induct)
  case (1 n)
  show ?case
  proof (cases "n < 10")
    case True
    then show ?thesis
      by (subst fmt_nat.simps) (simp add: read_dec_def)
  next
    case False
    with 1 show ?thesis
      by (subst fmt_nat.simps) (simp add: read_dec_def)
  qed
qed

lemma fmt_nat_digits: "c \<in> set (fmt_nat n) \<Longrightarrow> 48 \<le> (of_char c :: nat) \<and> (of_char c :: nat) < 58"
proof (induction n rule: fmt_nat.induct)
  case (1 n)
  show ?case
  proof (cases "n < 10")
    case True
    with "1.prems" show ?thesis
      by (subst (asm) fmt_nat.simps) simp
  next
    case False
    with 1 show ?thesis
      by (auto simp: fmt_nat.simps [of n])
  qed
qed

lemma fmt_no_crlf: "CR \<notin> set (fmt_nat n)" "LF \<notin> set (fmt_nat n)" "CR \<notin> set (fmt_int i)" "LF \<notin> set (fmt_int i)"
  using fmt_nat_digits [of CR n] fmt_nat_digits [of LF n] fmt_nat_digits [of CR] fmt_nat_digits [of LF]
  by (auto simp: CR_def LF_def fmt_int_def split: if_splits)

lemma crlf_line_append: "CR \<notin> set l \<Longrightarrow> crlf_line (l @ CRLF @ r) = Some (l, r)"
proof (induction l)
  case (Cons c l)
  then show ?case
    by (cases l) (auto simp: CRLF_def)
qed (simp add: CRLF_def)

lemma http_head_lines_append:
  "\<forall>l\<in>set ls. l \<noteq> [] \<and> CR \<notin> set l \<Longrightarrow>
   http_head_lines (concat (map (\<lambda>l. l @ CRLF) ls) @ CRLF @ r) = Some (ls, r)"
proof (induction ls)
  case Nil
  show ?case
    using crlf_line_append [of "[]" r] by (subst http_head_lines.simps) simp
next
  case (Cons l ls)
  then show ?case
    using crlf_line_append [of l "concat (map (\<lambda>l. l @ CRLF) ls) @ CRLF @ r"]
    by (subst http_head_lines.simps) simp
qed

text \<open>The lines of a built response.\<close>

definition http_response_lines :: "int \<Rightarrow> string \<Rightarrow> nat \<Rightarrow> bool \<Rightarrow> string list" where
  "http_response_lines status ct n keep_alive =
     [''HTTP/1.1 '' @ fmt_int status @ '' '' @ http_status_reason status, ''Content-Type: '' @ ct,
      ''Content-Length: '' @ fmt_nat n, ''Access-Control-Allow-Origin: *'',
      ''Connection: '' @ http_conn_word keep_alive]"

lemma http_response_head_lines:
  "http_response_head status ct n ka = concat (map (\<lambda>l. l @ CRLF) (http_response_lines status ct n ka)) @ CRLF"
  by (simp add: http_response_head_def http_response_lines_def)

lemma http_words_no_cr: "CR \<notin> set (http_status_reason st)" "CR \<notin> set (http_conn_word ka)"
  by (auto simp: http_status_reason_def http_conn_word_def CR_def)

lemma http_response_lines_ok:
  "CR \<notin> set ct \<Longrightarrow> \<forall>l\<in>set (http_response_lines st ct n ka). l \<noteq> [] \<and> CR \<notin> set l"
  by (simp add: http_response_lines_def fmt_no_crlf http_words_no_cr) (simp add: CR_def)

subsection \<open>Event readers\<close>

definition eol :: "char \<Rightarrow> bool" where
  "eol c = (c = LF \<or> c = CR)"

function stream_lines :: "string \<Rightarrow> string list" where
  "stream_lines s = (case dropWhile (\<lambda>c. \<not> eol c) s of
     [] \<Rightarrow> [] | _ # r \<Rightarrow> takeWhile (\<lambda>c. \<not> eol c) s # stream_lines r)"
  by pat_completeness auto
termination
proof (relation "measure length")
  show "(r, s) \<in> measure length" if "dropWhile (\<lambda>c. \<not> eol c) s = x # r" for s r and x :: char
    using length_dropWhile_le [of "\<lambda>c. \<not> eol c" s] that by simp
qed simp

declare stream_lines.simps [simp del]

fun join_lf :: "string list \<Rightarrow> string" where
  "join_lf [] = []"
| "join_lf [l] = l"
| "join_lf (l # ls) = l @ [LF] @ join_lf ls"

text \<open>An empty line ends an event, whose data are the \<open>data:\<close> lines joined by newlines.\<close>

fun sse_events :: "string list \<Rightarrow> string list \<Rightarrow> string list" where
  "sse_events [] data = []"
| "sse_events (l # ls) data =
     (if l = [] then (if data = [] then sse_events ls [] else join_lf data # sse_events ls [])
      else if take 6 l = ''data: '' then sse_events ls (data @ [drop 6 l])
      else sse_events ls data)"

definition sse_read :: "string \<Rightarrow> string list" where
  "sse_read s = sse_events (stream_lines s) []"

lemma stream_lines_append: "\<forall>c\<in>set l. \<not> eol c \<Longrightarrow> stream_lines (l @ LF # r) = l # stream_lines r"
  by (subst stream_lines.simps) (simp add: eol_def takeWhile_append dropWhile_append)

text \<open>The lines of a payload.\<close>

function lf_split :: "string \<Rightarrow> string list" where
  "lf_split p = (case dropWhile (\<lambda>c. c \<noteq> LF) p of
     [] \<Rightarrow> [takeWhile (\<lambda>c. c \<noteq> LF) p] | _ # p' \<Rightarrow> takeWhile (\<lambda>c. c \<noteq> LF) p # lf_split p')"
  by pat_completeness auto
termination
proof (relation "measure length")
  show "(r, s) \<in> measure length" if "dropWhile (\<lambda>c. c \<noteq> LF) s = x # r" for s r and x :: char
    using length_dropWhile_le [of "\<lambda>c. c \<noteq> LF" s] that by simp
qed simp

declare lf_split.simps [simp del]

lemma lf_split_nonempty: "lf_split p \<noteq> []"
  by (subst lf_split.simps) (simp split: list.split)

lemma join_lf_Cons: "ls \<noteq> [] \<Longrightarrow> join_lf (l # ls) = l @ [LF] @ join_lf ls"
  by (cases ls) simp_all

lemma dropWhile_neq:
  assumes "dropWhile (\<lambda>c. c \<noteq> LF) p = x # r"
  shows "x = LF" "p = takeWhile (\<lambda>c. c \<noteq> LF) p @ LF # r"
proof -
  show x: "x = LF"
    using hd_dropWhile [of "\<lambda>c. c \<noteq> LF" p] assms by simp
  show "p = takeWhile (\<lambda>c. c \<noteq> LF) p @ LF # r"
    using takeWhile_dropWhile_id [of "\<lambda>c. c \<noteq> LF" p] assms x by simp
qed

lemma join_lf_split: "join_lf (lf_split p) = p"
proof (induction p rule: lf_split.induct)
  case (1 p)
  show ?case
  proof (cases "dropWhile (\<lambda>c. c \<noteq> LF) p")
    case Nil
    then have "takeWhile (\<lambda>c. c \<noteq> LF) p = p"
      by (metis append_Nil2 takeWhile_dropWhile_id)
    then show ?thesis
      by (subst lf_split.simps) (simp only: Nil list.case join_lf.simps)
  next
    case (Cons x r)
    have "join_lf (lf_split p) = takeWhile (\<lambda>c. c \<noteq> LF) p @ LF # r"
      by (subst lf_split.simps) (simp add: Cons 1 [OF Cons] join_lf_Cons lf_split_nonempty)
    with dropWhile_neq(2) [OF Cons] show ?thesis
      by simp
  qed
qed


lemma sse_lines_read:
  "CR \<notin> set p \<Longrightarrow> stream_lines (sse_lines p @ rest) = map (\<lambda>l. ''data: '' @ l) (lf_split p) @ stream_lines rest"
proof (induction p rule: lf_split.induct)
  case (1 p)
  let ?seg = "takeWhile (\<lambda>c. c \<noteq> LF) p"
  have seg: "\<forall>c\<in>set (''data: '' @ ?seg). \<not> eol c"
    using 1(2) by (auto simp: eol_def CR_def LF_def dest: set_takeWhileD)
  show ?case
  proof (cases "dropWhile (\<lambda>c. c \<noteq> LF) p")
    case Nil
    then show ?thesis
      using stream_lines_append [OF seg, of rest]
      by (subst sse_lines.simps, subst lf_split.simps) (simp only: Nil list.case Let_def append.assoc append.simps list.map)
  next
    case (Cons x r)
    have "CR \<notin> set r"
      using 1(2) arg_cong [OF dropWhile_neq(2) [OF Cons], of set] by auto
    with 1(1) [OF Cons] Cons show ?thesis
      using stream_lines_append [OF seg, of "sse_lines r @ rest"]
      by (subst sse_lines.simps, subst lf_split.simps) simp
  qed
qed

lemma sse_events_data: "sse_events (map (\<lambda>l. ''data: '' @ l) ls @ rest) acc = sse_events rest (acc @ ls)"
  by (induction ls arbitrary: acc) simp_all

lemma sse_format_shape:
  assumes "sse_format mem d = Some w"
  shows "w = sse_lines d @ [LF]"
proof (cases "d = []")
  case True
  have "sse_lines [] = ''data: '' @ [LF]"
    by (subst sse_lines.simps) simp
  with assms True show ?thesis
    by (simp add: sse_format_def split: if_splits)
qed (use assms in \<open>auto simp: sse_format_def Let_def split: if_splits\<close>)

lemma sse_event_read:
  assumes "sse_format mem d = Some w" "CR \<notin> set d"
  shows "sse_read (w @ rest) = d # sse_read rest"
proof -
  have "stream_lines (LF # rest) = [] # stream_lines rest"
    using stream_lines_append [of "[]" rest] by simp
  then have "stream_lines (w @ rest) = map (\<lambda>l. ''data: '' @ l) (lf_split d) @ [] # stream_lines rest"
    using sse_lines_read [OF assms(2), of "LF # rest"] sse_format_shape [OF assms(1)] by simp
  then show ?thesis
    unfolding sse_read_def by (simp only: sse_events_data) (simp add: lf_split_nonempty join_lf_split)
qed

lemma sse_lines_length: "length (sse_lines p) = (count_lf p + 1) * 7 + length p - count_lf p"
proof (induction p rule: sse_lines.induct)
  case (1 p)
  have le: "count_lf q \<le> length q" for q
    by (simp add: count_lf_def)
  show ?case
  proof (cases "dropWhile (\<lambda>c. c \<noteq> LF) p")
    case Nil
    then have t: "takeWhile (\<lambda>c. c \<noteq> LF) p = p" "count_lf p = 0"
      by (auto simp: takeWhile_eq_all_conv dropWhile_eq_Nil_conv count_lf_def filter_empty_conv)
    show ?thesis
      by (subst sse_lines.simps) (simp only: Nil t list.case Let_def, simp)
  next
    case (Cons x r)
    have p: "p = takeWhile (\<lambda>c. c \<noteq> LF) p @ LF # r"
      by (rule dropWhile_neq(2) [OF Cons])
    have "count_lf p = count_lf (takeWhile (\<lambda>c. c \<noteq> LF) p) + Suc (count_lf r)"
      by (subst p) (simp add: count_lf_def)
    moreover have "count_lf (takeWhile (\<lambda>c. c \<noteq> LF) p) = 0"
      by (auto simp: count_lf_def filter_empty_conv dest: set_takeWhileD)
    moreover have "length p = length (takeWhile (\<lambda>c. c \<noteq> LF) p) + Suc (length r)"
      by (subst p) simp
    ultimately show ?thesis
      using 1 [OF refl Cons] Cons le [of r] by (subst sse_lines.simps) simp
  qed
qed

subsection \<open>Properties\<close>

text \<open>C27. Responses are framed correctly: a built response followed by any bytes is read by a client as
  the status line and headers the server meant, exactly the body, and the remaining bytes untouched, so
  keep-alive responses cannot run into each other; a content type that could inject a header (one with
  a carriage return or newline) or a head that does not fit its buffer is refused.\<close>

theorem http_response_framing:
  assumes "http_build_response mem status (Some ct) body keep_alive = Some wire"
  shows "http_read (wire @ rest) =
      Some (http_response_lines status (c_str ct) (length body) keep_alive, body, rest) \<and>
    header_value ''Content-Type'' (http_response_lines status (c_str ct) (length body) keep_alive) = Some (c_str ct) \<and>
    header_value ''Connection'' (http_response_lines status (c_str ct) (length body) keep_alive) =
      Some (if keep_alive then ''keep-alive'' else ''close'') \<and>
    CR \<notin> set (c_str ct) \<and> LF \<notin> set (c_str ct) \<and> length wire < 512 + length body"
proof -
  let ?ls = "http_response_lines status (c_str ct) (length body) keep_alive"
  have w: "wire = concat (map (\<lambda>l. l @ CRLF) ?ls) @ CRLF @ body" "CR \<notin> set (c_str ct)" "LF \<notin> set (c_str ct)"
    "length wire < 512 + length body"
    using assms by (auto simp: http_build_response_def Let_def list_ex_iff http_response_head_lines split: if_splits)
  have "http_head_lines (wire @ rest) = Some (?ls, body @ rest)"
    using http_head_lines_append [OF http_response_lines_ok [OF w(2)], of status "length body" keep_alive "body @ rest"]
    by (simp add: w(1))
  moreover have "header_value ''Content-Length'' ?ls = Some (fmt_nat (length body))"
    by (simp add: http_response_lines_def)
  ultimately have "http_read (wire @ rest) = Some (?ls, body, rest)"
    by (simp add: http_read_def read_dec_fmt_nat)
  with w(2-4) show ?thesis
    by (simp add: http_response_lines_def http_conn_word_def)
qed

theorem http_response_framing_witness:
  "\<exists>wire. http_build_response (\<lambda>_. True) 404 (Some ''application/json'') ''{}'' True = Some wire \<and>
     http_read (wire @ ''HTTP'') =
       Some (http_response_lines 404 ''application/json'' 2 True, ''{}'', ''HTTP'')"
proof -
  have c: "c_str ''application/json'' = ''application/json''"
    by code_simp
  have "http_build_response (\<lambda>_. True) 404 (Some ''application/json'') ''{}'' True \<noteq> None"
    by code_simp
  then obtain wire where "http_build_response (\<lambda>_. True) 404 (Some ''application/json'') ''{}'' True = Some wire"
    by blast
  moreover from http_response_framing [OF this, of "''HTTP''"]
  have "http_read (wire @ ''HTTP'') = Some (http_response_lines 404 ''application/json'' 2 True, ''{}'', ''HTTP'')"
    by (simp only: c) (simp add: numeral_2_eq_2)
  ultimately show ?thesis
    by blast
qed

text \<open>C28. Event streams are lossless: a client reading the concatenation of formatted events recovers the
  payloads in order, newlines inside a payload included (a payload without carriage returns, which
  JSON text never holds); each event and its NUL fit the buffer that was allocated for it.\<close>

theorem sse_stream_roundtrip:
  assumes "list_all2 (\<lambda>d w. sse_format mem d = Some w) ds ws" "\<forall>d\<in>set ds. CR \<notin> set d"
  shows "sse_read (concat ws) = ds \<and>
    (\<forall>w\<in>set ws. \<exists>d\<in>set ds. length w + 1 \<le> (count_lf d + 1) * 7 + length d + 2)"
  using assms
proof (induction rule: list_all2_induct)
  case Nil
  show ?case
    by (simp add: sse_read_def stream_lines.simps)
next
  case (Cons d ds w ws)
  have "length w + 1 \<le> (count_lf d + 1) * 7 + length d + 2"
    using sse_format_shape [OF Cons.hyps(1)] by (simp add: sse_lines_length)
  moreover have "sse_read (w @ concat ws) = d # sse_read (concat ws)"
    using sse_event_read [OF Cons.hyps(1)] Cons.prems by simp
  ultimately show ?case
    using Cons by auto
qed

theorem sse_stream_roundtrip_witness:
  "\<exists>w1 w2. sse_format (\<lambda>_. True) (''a'' @ [LF] @ ''b'') = Some w1 \<and> sse_format (\<lambda>_. True) [] = Some w2 \<and>
     sse_read (w1 @ w2) = [''a'' @ [LF] @ ''b'', []]"
proof -
  obtain w1 w2 where w: "sse_format (\<lambda>_. True) (''a'' @ [LF] @ ''b'') = Some w1" "sse_format (\<lambda>_. True) [] = Some w2"
    by (simp add: sse_format_def)
  have "list_all2 (\<lambda>d w. sse_format (\<lambda>_. True) d = Some w) [''a'' @ [LF] @ ''b'', []] [w1, w2]"
    using w by simp
  from sse_stream_roundtrip [OF this] w show ?thesis
    by (auto simp: CR_def LF_def)
qed

end
