(* ===== verification/HttpConn.thy ===== *)
theory HttpConn
  imports Prelude GrowBuf
begin

text \<open>
  The request parser context of a connection (\<open>src/http/conn.c\<close>). The HTTP grammar is llhttp, a
  third-party library, and a parameter here: for a parser state and a chunk of input it gives the
  callbacks in order, the state and error position after any number of them, and the error code
  when no callback stopped it. What the source decides - its callbacks, their limits, and the status
  protocol of \<open>http_parser_feed\<close> - is modelled in full.
\<close>

datatype ll_event =
    LL_url string
  | LL_headers_complete u64
  | LL_body string
  | LL_message_complete bool \<comment> \<open>\<open>llhttp_should_keep_alive\<close>\<close>

datatype ll_errno = HPE_OK | HPE_PAUSED | HPE_OTHER

record 'p llhttp =
  ll_init :: 'p
  ll_events :: "'p \<Rightarrow> string \<Rightarrow> ll_event list"
  ll_next :: "'p \<Rightarrow> string \<Rightarrow> nat \<Rightarrow> 'p"
  ll_errno_of :: "'p \<Rightarrow> string \<Rightarrow> ll_errno"
  ll_error_pos :: "'p \<Rightarrow> string \<Rightarrow> nat \<Rightarrow> nat"
  ll_method :: "'p \<Rightarrow> string"

datatype http_parse_status =
  HTTP_PARSE_INCOMPLETE | HTTP_PARSE_COMPLETE | HTTP_PARSE_ERROR | HTTP_PARSE_TOO_LARGE

record http_parsed_request =
  pq_method :: string
  pq_path :: string
  pq_body :: "string option"
  pq_body_len :: nat
  pq_keep_alive :: bool

record buf =
  bf_null :: bool
  bf_data :: string
  bf_cap :: nat

record 'p http_parser_ctx =
  hp_parser :: 'p
  hp_url :: buf
  hp_body :: buf
  hp_max_body :: nat
  hp_method :: "string option"
  hp_complete :: bool
  hp_too_large :: bool
  hp_keep_alive :: bool
  hp_consumed :: nat
  hp_last_status :: http_parse_status

definition MLXD_HTTP_MAX_URL :: nat where "MLXD_HTTP_MAX_URL = 8192"

definition buf_empty :: buf where "buf_empty = \<lparr>bf_null = True, bf_data = [], bf_cap = 0\<rparr>"

subsection \<open>Callbacks\<close>

definition buf_append :: "allocator \<Rightarrow> buf \<Rightarrow> string \<Rightarrow> bool \<times> buf" where
  "buf_append mem b data =
     (let need = length (bf_data b) + length data + 1 in
      if bf_cap b < need
      then (let new_cap = grow_cap (if bf_cap b = 0 then 64 else bf_cap b) need in
            if mem new_cap then (True, \<lparr>bf_null = False, bf_data = bf_data b @ data, bf_cap = new_cap\<rparr>) else (False, b))
      else (True, b\<lparr>bf_data := bf_data b @ data\<rparr>))"

text \<open>The first component is whether the callback returned 0.\<close>

definition on_url :: "allocator \<Rightarrow> 'p http_parser_ctx \<Rightarrow> string \<Rightarrow> bool \<times> 'p http_parser_ctx" where
  "on_url mem ctx seg =
     (if MLXD_HTTP_MAX_URL < length (bf_data (hp_url ctx)) + length seg then (False, ctx)
      else case buf_append mem (hp_url ctx) seg of (ok, b) \<Rightarrow> (ok, ctx\<lparr>hp_url := b\<rparr>))"

definition on_body :: "allocator \<Rightarrow> 'p http_parser_ctx \<Rightarrow> string \<Rightarrow> bool \<times> 'p http_parser_ctx" where
  "on_body mem ctx seg =
     (if hp_max_body ctx < length (bf_data (hp_body ctx)) + length seg then (False, ctx\<lparr>hp_too_large := True\<rparr>)
      else case buf_append mem (hp_body ctx) seg of (ok, b) \<Rightarrow> (ok, ctx\<lparr>hp_body := b\<rparr>))"

definition on_headers_complete :: "'p http_parser_ctx \<Rightarrow> u64 \<Rightarrow> bool \<times> 'p http_parser_ctx" where
  "on_headers_complete ctx cl =
     (if cl \<noteq> - 1 \<and> hp_max_body ctx < unat cl then (False, ctx\<lparr>hp_too_large := True\<rparr>) else (True, ctx))"

text \<open>\<open>on_message_complete\<close> pauses the parser and returns \<open>HPE_PAUSED\<close>, which stops the run.\<close>

definition on_message_complete :: "'p http_parser_ctx \<Rightarrow> bool \<Rightarrow> 'p http_parser_ctx" where
  "on_message_complete ctx keep = ctx\<lparr>hp_keep_alive := keep, hp_complete := True\<rparr>"

definition ll_callback :: "allocator \<Rightarrow> 'p http_parser_ctx \<Rightarrow> ll_event \<Rightarrow> bool \<times> 'p http_parser_ctx" where
  "ll_callback mem ctx e = (case e of
     LL_url seg \<Rightarrow> on_url mem ctx seg
   | LL_headers_complete cl \<Rightarrow> on_headers_complete ctx cl
   | LL_body seg \<Rightarrow> on_body mem ctx seg
   | LL_message_complete keep \<Rightarrow> (False, on_message_complete ctx keep))"

text \<open>Deliver callbacks until one stops the run: its number and kind, or the end.\<close>

fun ll_deliver ::
  "allocator \<Rightarrow> 'p http_parser_ctx \<Rightarrow> nat \<Rightarrow> ll_event list \<Rightarrow> ll_event option \<times> nat \<times> 'p http_parser_ctx" where
  "ll_deliver mem ctx n [] = (None, n, ctx)"
| "ll_deliver mem ctx n (e # es) = (case ll_callback mem ctx e of
     (True, ctx) \<Rightarrow> ll_deliver mem ctx (Suc n) es
   | (False, ctx) \<Rightarrow> (Some e, Suc n, ctx))"

text \<open>\<open>llhttp_execute\<close>: the error code, the error position and the new context.\<close>

definition ll_execute ::
  "allocator \<Rightarrow> 'p llhttp \<Rightarrow> 'p http_parser_ctx \<Rightarrow> string \<Rightarrow> ll_errno \<times> nat \<times> 'p http_parser_ctx" where
  "ll_execute mem ll ctx data =
     (case ll_deliver mem ctx 0 (ll_events ll (hp_parser ctx) data) of
        (stop, n, ctx') \<Rightarrow>
          ((case stop of
              None \<Rightarrow> ll_errno_of ll (hp_parser ctx) data
            | Some (LL_message_complete _) \<Rightarrow> HPE_PAUSED
            | Some _ \<Rightarrow> HPE_OTHER),
           ll_error_pos ll (hp_parser ctx) data n,
           ctx'\<lparr>hp_parser := ll_next ll (hp_parser ctx) data n\<rparr>))"

subsection \<open>The context\<close>

text \<open>\<open>ctx_size\<close> is the size of the context, which embeds the third-party parser.\<close>

definition http_parser_create :: "allocator \<Rightarrow> nat \<Rightarrow> 'p llhttp \<Rightarrow> nat \<Rightarrow> 'p http_parser_ctx option" where
  "http_parser_create mem ctx_size ll max_body_bytes =
     (if mem ctx_size
      then Some \<lparr>hp_parser = ll_init ll, hp_url = buf_empty, hp_body = buf_empty,
        hp_max_body = (if max_body_bytes \<noteq> 0 then max_body_bytes else 1048576), hp_method = None,
        hp_complete = False, hp_too_large = False, hp_keep_alive = False, hp_consumed = 0,
        hp_last_status = HTTP_PARSE_INCOMPLETE\<rparr>
      else None)"

definition clear_buffers :: "'p http_parser_ctx \<Rightarrow> 'p http_parser_ctx" where
  "clear_buffers ctx = ctx\<lparr>hp_url := (hp_url ctx)\<lparr>bf_data := []\<rparr>, hp_body := (hp_body ctx)\<lparr>bf_data := []\<rparr>,
     hp_complete := False, hp_too_large := False, hp_keep_alive := False, hp_method := None, hp_consumed := 0\<rparr>"

text \<open>The request target up to its query or fragment, as a C string.\<close>

definition strip_target :: "string \<Rightarrow> string" where
  "strip_target url = takeWhile (\<lambda>c. c \<noteq> CHR 0x00 \<and> c \<noteq> CHR ''?'' \<and> c \<noteq> CHR ''#'') url"

definition http_parser_feed ::
  "allocator \<Rightarrow> 'p llhttp \<Rightarrow> 'p http_parser_ctx \<Rightarrow> string
    \<Rightarrow> http_parse_status \<times> http_parsed_request option \<times> 'p http_parser_ctx" where
  "http_parser_feed mem ll p data =
     (if hp_last_status p \<noteq> HTTP_PARSE_INCOMPLETE then (hp_last_status p, None, p)
      else case ll_execute mem ll p data of (err, pos, p) \<Rightarrow>
        if hp_too_large p
        then (HTTP_PARSE_TOO_LARGE, None, p\<lparr>hp_consumed := length data, hp_last_status := HTTP_PARSE_TOO_LARGE\<rparr>)
        else if err \<noteq> HPE_OK \<and> err \<noteq> HPE_PAUSED \<and> \<not> hp_complete p
        then (HTTP_PARSE_ERROR, None, p\<lparr>hp_consumed := length data, hp_last_status := HTTP_PARSE_ERROR\<rparr>)
        else if hp_complete p
        then (let p = p\<lparr>hp_consumed := (if err = HPE_PAUSED then pos else length data)\<rparr> in
              if bf_null (hp_url p) \<and> \<not> mem 1
              then (HTTP_PARSE_ERROR, None, p\<lparr>hp_last_status := HTTP_PARSE_ERROR\<rparr>)
              else let url = (hp_url p)\<lparr>bf_null := False\<rparr>;
                       m = ll_method ll (hp_parser p);
                       p = p\<lparr>hp_url := url, hp_method := Some m, hp_last_status := HTTP_PARSE_COMPLETE\<rparr>
                   in (HTTP_PARSE_COMPLETE,
                       Some \<lparr>pq_method = m, pq_path = strip_target (bf_data url),
                         pq_body = (if bf_data (hp_body p) \<noteq> [] then Some (bf_data (hp_body p)) else None),
                         pq_body_len = length (bf_data (hp_body p)), pq_keep_alive = hp_keep_alive p\<rparr>,
                       p))
        else (HTTP_PARSE_INCOMPLETE, None, p\<lparr>hp_consumed := length data\<rparr>))"

definition http_parser_consumed :: "'p http_parser_ctx option \<Rightarrow> nat" where
  "http_parser_consumed p = (case p of Some p \<Rightarrow> hp_consumed p | None \<Rightarrow> 0)"

definition http_parser_reset :: "'p llhttp \<Rightarrow> 'p http_parser_ctx \<Rightarrow> 'p http_parser_ctx" where
  "http_parser_reset ll p =
     (clear_buffers p)\<lparr>hp_last_status := HTTP_PARSE_INCOMPLETE, hp_parser := ll_init ll\<rparr>"

subsection \<open>Limits\<close>

interpretation hb: grow_buffer bf_data buf_append SIZE_MAX_buf for SIZE_MAX_buf
  by unfold_locales (auto simp: buf_append_def Let_def split: if_splits)

definition parser_inv :: "nat \<Rightarrow> 'p http_parser_ctx \<Rightarrow> bool" where
  "parser_inv max_body p \<longleftrightarrow> hp_max_body p = max_body \<and> length (bf_data (hp_body p)) \<le> max_body \<and>
     length (bf_data (hp_url p)) \<le> MLXD_HTTP_MAX_URL"

lemma buf_append_length: "buf_append mem b data = (ok, b') \<Longrightarrow> length (bf_data b') \<le> length (bf_data b) + length data"
  by (auto dest: hb.append_law)

lemma ll_callback_inv: "parser_inv m ctx \<Longrightarrow> ll_callback mem ctx e = (ok, ctx') \<Longrightarrow> parser_inv m ctx'"
  by (cases e) (auto simp: ll_callback_def on_url_def on_body_def on_headers_complete_def on_message_complete_def
      parser_inv_def split: if_splits prod.splits dest!: buf_append_length)

lemma ll_deliver_inv: "parser_inv m ctx \<Longrightarrow> ll_deliver mem ctx n es = (stop, k, ctx') \<Longrightarrow> parser_inv m ctx'"
proof (induction es arbitrary: ctx n)
  case (Cons e es)
  obtain ok ctx1 where c: "ll_callback mem ctx e = (ok, ctx1)"
    by fastforce
  with Cons ll_callback_inv [OF Cons.prems(1) c] show ?case
    by (cases ok) auto
qed simp

lemma ll_execute_inv:
  assumes "parser_inv m ctx" "ll_execute mem ll ctx data = (err, pos, ctx')"
  shows "parser_inv m ctx'"
proof -
  obtain stop n c where d: "ll_deliver mem ctx 0 (ll_events ll (hp_parser ctx) data) = (stop, n, c)"
    by (metis prod_cases3)
  have "parser_inv m c"
    by (rule ll_deliver_inv [OF assms(1) d])
  moreover have "ctx' = c\<lparr>hp_parser := ll_next ll (hp_parser ctx) data n\<rparr>"
    using assms(2) by (simp add: ll_execute_def d)
  ultimately show ?thesis
    by (simp add: parser_inv_def)
qed

text \<open>What a connection does with its context: feeds and resets, in any order.\<close>

inductive parser_reach :: "'p llhttp \<Rightarrow> nat \<Rightarrow> 'p http_parser_ctx \<Rightarrow> bool" for ll max_body where
  create: "http_parser_create mem ctx_size ll max_body = Some p \<Longrightarrow> parser_reach ll max_body p"
| feed: "parser_reach ll max_body p \<Longrightarrow> http_parser_feed mem ll p data = (st, out, p') \<Longrightarrow> parser_reach ll max_body p'"
| reset: "parser_reach ll max_body p \<Longrightarrow> parser_reach ll max_body (http_parser_reset ll p)"

text \<open>The limit in force.\<close>

definition body_limit :: "nat \<Rightarrow> nat" where
  "body_limit max_body = (if max_body \<noteq> 0 then max_body else 1048576)"

lemma http_parser_feed_cases:
  assumes "http_parser_feed mem ll p data = (st, out, p')"
  obtains (sticky) "hp_last_status p \<noteq> HTTP_PARSE_INCOMPLETE" "st = hp_last_status p" "p' = p" "out = None"
  | (run) err pos p1 where "hp_last_status p = HTTP_PARSE_INCOMPLETE" "ll_execute mem ll p data = (err, pos, p1)"
      "bf_data (hp_url p') = bf_data (hp_url p1)" "hp_body p' = hp_body p1" "hp_max_body p' = hp_max_body p1"
      "st \<noteq> HTTP_PARSE_INCOMPLETE \<Longrightarrow> hp_last_status p' = st"
      "\<And>r. out = Some r \<Longrightarrow> st = HTTP_PARSE_COMPLETE \<and> hp_complete p1 \<and> \<not> hp_too_large p1 \<and>
         pq_path r = strip_target (bf_data (hp_url p1)) \<and> pq_body_len r = length (bf_data (hp_body p1)) \<and>
         pq_body r = (if bf_data (hp_body p1) \<noteq> [] then Some (bf_data (hp_body p1)) else None)"
      "st = HTTP_PARSE_COMPLETE \<longleftrightarrow> out \<noteq> None"
proof (cases "hp_last_status p = HTTP_PARSE_INCOMPLETE")
  case False
  with assms show ?thesis
    by (intro sticky) (auto simp: http_parser_feed_def)
next
  case True
  obtain err pos p1 where e: "ll_execute mem ll p data = (err, pos, p1)"
    by (metis prod_cases3)
  show ?thesis
    by (rule run [OF True e]; insert assms [symmetric]; auto simp: http_parser_feed_def True e Let_def split: if_splits)
qed

lemma parser_reach_inv: "parser_reach ll max_body p \<Longrightarrow> parser_inv (body_limit max_body) p"
proof (induction rule: parser_reach.induct)
  case (create mem ctx_size p)
  then show ?case
    by (auto simp: http_parser_create_def parser_inv_def buf_empty_def body_limit_def split: if_splits)
next
  case (feed p mem data st out p')
  from feed.hyps(2) show ?case
  proof (cases rule: http_parser_feed_cases)
    case sticky
    with feed.IH show ?thesis by simp
  next
    case (run err pos p1)
    from ll_execute_inv [OF feed.IH run(2)] run(3-5) show ?thesis
      by (simp add: parser_inv_def)
  qed
next
  case (reset p)
  then show ?case
    by (simp add: http_parser_reset_def clear_buffers_def parser_inv_def)
qed

text \<open>Whatever the chunks, no request is delivered beyond the limits.\<close>

lemma strip_target_plain: "CHR 0x00 \<notin> set (strip_target u)" "CHR ''?'' \<notin> set (strip_target u)"
  "CHR ''#'' \<notin> set (strip_target u)" "length (strip_target u) \<le> length u"
  by (auto simp: strip_target_def length_takeWhile_le dest: set_takeWhileD)

text \<open>C29. Request limits hold for every way the input is cut into chunks and whatever the grammar library
  reports: the buffers of a connection never hold more than the configured body limit (1 MiB by
  default) and 8192 bytes of target; a delivered request respects them, its path has no query,
  fragment or NUL, and its body length is the length of its body; once a feed has returned a final
  status, every further feed returns it again and changes nothing until a reset.\<close>

theorem http_parser_limits:
  assumes "parser_reach ll max_body p" "http_parser_feed mem ll p data = (st, out, p')"
  shows "length (bf_data (hp_body p')) \<le> body_limit max_body \<and> length (bf_data (hp_url p')) \<le> 8192 \<and>
    (st = HTTP_PARSE_COMPLETE \<and> hp_last_status p = HTTP_PARSE_INCOMPLETE \<longrightarrow> (\<exists>r. out = Some r \<and>
       length (pq_path r) \<le> 8192 \<and> set (pq_path r) \<inter> {CHR 0x00, CHR ''?'', CHR ''#''} = {} \<and>
       pq_body_len r \<le> body_limit max_body \<and> pq_body_len r = length (case pq_body r of None \<Rightarrow> [] | Some b \<Rightarrow> b))) \<and>
    (st \<noteq> HTTP_PARSE_INCOMPLETE \<longrightarrow> http_parser_feed mem' ll p' data' = (st, None, p'))"
proof -
  have "parser_inv (body_limit max_body) p'"
    by (rule parser_reach_inv [OF parser_reach.feed [OF assms]])
  then have I: "length (bf_data (hp_body p')) \<le> body_limit max_body" "length (bf_data (hp_url p')) \<le> 8192"
    by (simp_all add: parser_inv_def MLXD_HTTP_MAX_URL_def)
  from assms(2) show ?thesis
  proof (cases rule: http_parser_feed_cases)
    case sticky
    with I show ?thesis
      by (simp add: http_parser_feed_def)
  next
    case (run err pos p1)
    have "http_parser_feed mem' ll p' data' = (st, None, p')" if "st \<noteq> HTTP_PARSE_INCOMPLETE"
      using run(6) [OF that] that by (simp add: http_parser_feed_def)
    moreover have "\<exists>r. out = Some r \<and>
       length (pq_path r) \<le> 8192 \<and> set (pq_path r) \<inter> {CHR 0x00, CHR ''?'', CHR ''#''} = {} \<and>
       pq_body_len r \<le> body_limit max_body \<and> pq_body_len r = length (case pq_body r of None \<Rightarrow> [] | Some b \<Rightarrow> b)"
      if c: "st = HTTP_PARSE_COMPLETE"
    proof -
      obtain r where r: "out = Some r"
        using run(8) c by auto
      with run(7) [OF r] I run(3,4) strip_target_plain [of "bf_data (hp_url p1)"] show ?thesis
        by (auto intro: order_trans)
    qed
    ultimately show ?thesis
      using I by blast
  qed
qed

text \<open>A grammar that reports one target, the whole chunk as body, and the end of the message.\<close>

definition echo_llhttp :: "unit llhttp" where
  "echo_llhttp = \<lparr>ll_init = (), ll_events = (\<lambda>_ d. [LL_url ''/v1/models?x'', LL_body d, LL_message_complete True]),
     ll_next = (\<lambda>_ _ _. ()), ll_errno_of = (\<lambda>_ _. HPE_OK), ll_error_pos = (\<lambda>_ d _. length d),
     ll_method = (\<lambda>_. ''GET'')\<rparr>"

definition echo_ctx :: "unit http_parser_ctx" where
  "echo_ctx = the (http_parser_create (\<lambda>_. True) 0 echo_llhttp 3)"

theorem http_parser_limits_witness:
  "(\<exists>r p'. http_parser_feed (\<lambda>_. True) echo_llhttp echo_ctx ''abc'' = (HTTP_PARSE_COMPLETE, Some r, p') \<and>
      pq_path r = ''/v1/models'' \<and> pq_body r = Some ''abc'' \<and> pq_body_len r \<le> 3) \<and>
   fst (http_parser_feed (\<lambda>_. True) echo_llhttp echo_ctx ''abcd'') = HTTP_PARSE_TOO_LARGE"
proof
  have reach: "parser_reach echo_llhttp 3 echo_ctx"
    by (rule parser_reach.create [of "\<lambda>_. True" 0]) (simp add: echo_ctx_def http_parser_create_def)
  obtain out p' where f: "http_parser_feed (\<lambda>_. True) echo_llhttp echo_ctx ''abc'' = (HTTP_PARSE_COMPLETE, out, p')"
    "map_option pq_path out = Some ''/v1/models''" "map_option pq_body out = Some (Some ''abc'')"
    by (simp add: echo_ctx_def http_parser_create_def http_parser_feed_def ll_execute_def echo_llhttp_def
        ll_callback_def on_url_def on_body_def on_message_complete_def MLXD_HTTP_MAX_URL_def buf_empty_def
        buf_append_def Let_def strip_target_def)
  from http_parser_limits [OF reach f(1)] f show "\<exists>r p'. http_parser_feed (\<lambda>_. True) echo_llhttp echo_ctx ''abc'' =
      (HTTP_PARSE_COMPLETE, Some r, p') \<and> pq_path r = ''/v1/models'' \<and> pq_body r = Some ''abc'' \<and> pq_body_len r \<le> 3"
    by (auto simp: body_limit_def echo_ctx_def http_parser_create_def)
  show "fst (http_parser_feed (\<lambda>_. True) echo_llhttp echo_ctx ''abcd'') = HTTP_PARSE_TOO_LARGE"
    by (simp add: echo_ctx_def http_parser_create_def http_parser_feed_def ll_execute_def echo_llhttp_def
        ll_callback_def on_url_def on_body_def on_message_complete_def MLXD_HTTP_MAX_URL_def buf_empty_def
        buf_append_def Let_def strip_target_def)
qed

end
