(* ===== verification/HttpRouter.thy ===== *)
theory HttpRouter
  imports Prelude
begin

text \<open>
  The route table (\<open>src/http/router.c\<close>): an array of routes searched from the front. Methods and
  paths are C strings without NUL; the handler pointer is of a type the client chooses.
\<close>

record 'h route =
  rt_method :: string
  rt_path :: string
  rt_fn :: 'h

record 'h http_router =
  ro_routes :: "'h route list"
  ro_cap :: nat

definition http_router_create :: "allocator \<Rightarrow> 'h http_router option" where
  "http_router_create mem = (if mem 24 then Some \<lparr>ro_routes = [], ro_cap = 0\<rparr> else None)"

definition http_router_add ::
  "allocator \<Rightarrow> 'h http_router \<Rightarrow> string \<Rightarrow> string \<Rightarrow> 'h \<Rightarrow> 'h http_router option" where
  "http_router_add mem r m path fn =
     (let cap = (if length (ro_routes r) = ro_cap r then if ro_cap r \<noteq> 0 then ro_cap r * 2 else 4 else ro_cap r)
      in if length (ro_routes r) = ro_cap r \<and> \<not> mem (cap * 32) then None
         else Some \<lparr>ro_routes = ro_routes r @ [\<lparr>rt_method = m, rt_path = path, rt_fn = fn\<rparr>], ro_cap = cap\<rparr>)"

fun match_from :: "'h route list \<Rightarrow> string \<Rightarrow> string \<Rightarrow> 'h option" where
  "match_from [] m path = None"
| "match_from (t # ts) m path =
     (if rt_method t = m \<and> rt_path t = path then Some (rt_fn t) else match_from ts m path)"

definition http_router_match :: "'h http_router \<Rightarrow> string \<Rightarrow> string \<Rightarrow> 'h option" where
  "http_router_match r m path = match_from (ro_routes r) m path"

fun path_from :: "'h route list \<Rightarrow> string \<Rightarrow> bool" where
  "path_from [] path = False"
| "path_from (t # ts) path = (if rt_path t = path then True else path_from ts path)"

definition http_router_path_exists :: "'h http_router \<Rightarrow> string \<Rightarrow> bool" where
  "http_router_path_exists r path = path_from (ro_routes r) path"

text \<open>The table as a partial function; the first registration of a key wins.\<close>

definition route_map :: "'h http_router \<Rightarrow> (string \<times> string) \<Rightarrow> 'h option" where
  "route_map r = map_of (map (\<lambda>t. ((rt_method t, rt_path t), rt_fn t)) (ro_routes r))"

lemma http_router_match_map: "http_router_match r m path = route_map r (m, path)"
proof -
  have "match_from ts m path = map_of (map (\<lambda>t. ((rt_method t, rt_path t), rt_fn t)) ts) (m, path)"
    for ts :: "'a route list"
    by (induction ts) auto
  then show ?thesis
    by (simp add: http_router_match_def route_map_def)
qed

lemma http_router_path_iff: "http_router_path_exists r path \<longleftrightarrow> path \<in> snd ` dom (route_map r)"
proof -
  have "path_from ts path \<longleftrightarrow> path \<in> rt_path ` set ts" for ts :: "'a route list"
    by (induction ts) auto
  then show ?thesis
    by (simp add: http_router_path_exists_def route_map_def dom_map_of_conv_image_fst image_image)
qed

lemma http_router_add_map:
  "http_router_add mem r m path fn = Some r' \<Longrightarrow> route_map r' = [(m, path) \<mapsto> fn] ++ route_map r"
  by (auto simp: http_router_add_def route_map_def Let_def split: if_splits)

end
