(* ===== verification/ChatRender.thy ===== *)
theory ChatRender
  imports Prelude
begin

text \<open>
  Rendering of a chat template (\<open>src/chat/chat.c\<close>). The template engine (jinja, vendored) is the
  parameter \<open>jinja\<close>: from template, messages, tools, extra context and the generation-prompt flag it
  gives the rendered text or its last error, if it recorded one.
\<close>

type_synonym jinja = "string \<Rightarrow> string \<Rightarrow> string option \<Rightarrow> string option \<Rightarrow> bool \<Rightarrow> string option + string"

text \<open>A field is its memory from the pointer on; the length 0 means measured by \<open>strlen\<close>.\<close>

record chat_render_params =
  crp_tmpl :: "string option"
  crp_messages_json :: "string option"
  crp_tools_json :: "string option"
  crp_extra_json :: "string option"
  crp_add_generation_prompt :: bool
  crp_tmpl_len :: nat
  crp_messages_json_len :: nat
  crp_tools_json_len :: nat
  crp_extra_json_len :: nat

definition eff_len :: "string option \<Rightarrow> nat \<Rightarrow> nat" where
  "eff_len s n = (case s of None \<Rightarrow> 0 | Some s \<Rightarrow> if n \<noteq> 0 then n else length (c_str s))"

definition has_nul_byte :: "string option \<Rightarrow> nat \<Rightarrow> bool" where
  "has_nul_byte s n = (case s of None \<Rightarrow> False | Some s \<Rightarrow> 0 < n \<and> CHR 0x00 \<in> set (take n s))"

text \<open>The rendered text, or the diagnostic.\<close>

definition chat_render :: "jinja \<Rightarrow> chat_render_params \<Rightarrow> string + string" where
  "chat_render jinja p =
     (case (crp_tmpl p, crp_messages_json p) of
        (Some tmpl, Some msgs) \<Rightarrow>
          (let tl = eff_len (crp_tmpl p) (crp_tmpl_len p);
               ml = eff_len (crp_messages_json p) (crp_messages_json_len p);
               ol = eff_len (crp_tools_json p) (crp_tools_json_len p);
               el = eff_len (crp_extra_json p) (crp_extra_json_len p)
           in if has_nul_byte (crp_tmpl p) tl \<or> has_nul_byte (crp_messages_json p) ml \<or>
                 has_nul_byte (crp_tools_json p) ol \<or> has_nul_byte (crp_extra_json p) el
              then Inl ''input contains interior NUL byte''
              else if tl = 0 then Inl ''empty template''
              else case jinja (c_str tmpl) (c_str msgs) (map_option c_str (crp_tools_json p))
                     (map_option c_str (crp_extra_json p)) (crp_add_generation_prompt p) of
                Inl err \<Rightarrow> Inl (case err of None \<Rightarrow> ''jinja render failed'' | Some e \<Rightarrow> e)
              | Inr t \<Rightarrow> Inr t)
      | _ \<Rightarrow> Inl ''missing required render parameters'')"

end
