(* ===== verification/HttpGen.thy ===== *)
theory HttpGen
  imports OpenAISerialize HttpWire ChatRender TokEncode TokDecode
begin

text \<open>
  Prompt building and response documents of the generation endpoints (\<open>src/http/gen.c\<close>).
  \<open>yyjson\<close> (vendored) is a parameter: whether a document can be created, the root of a parsed text,
  and the text of a document. The random words of \<open>arc4random_buf\<close> are a parameter of the id.
\<close>

record yyjson_api =
  yy_new :: bool
  yy_read :: "string \<Rightarrow> json option"
  yy_write :: "json \<Rightarrow> string option"

definition str_bytes :: "string \<Rightarrow> bytes" where
  "str_bytes s = map of_char s"

definition bytes_str :: "bytes \<Rightarrow> string" where
  "bytes_str b = map (\<lambda>x. char_of (unat x)) b"

lemma unat_of_char: "unat (of_char c :: byte) = of_char c"
proof -
  have "(of_char c :: byte) = word_of_nat (of_char c)"
    by (rule of_nat_of_char [symmetric])
  then show ?thesis
    using word_of_nat_byte [of "of_char c"] by (simp only: nat_of_char_less_256)
qed

lemma bytes_str_bytes [simp]: "bytes_str (str_bytes s) = s"
  by (induction s) (simp_all add: str_bytes_def bytes_str_def unat_of_char)

definition tokenizer_bos_id :: "tokenizer option \<Rightarrow> int" where
  "tokenizer_bos_id tok = (case tok of None \<Rightarrow> - 1 | Some t \<Rightarrow> tk_bos_id t)"

definition tokenizer_eos_id :: "tokenizer option \<Rightarrow> int" where
  "tokenizer_eos_id tok = (case tok of None \<Rightarrow> - 1 | Some t \<Rightarrow> tk_eos_id t)"

definition serialize_mut_root :: "yyjson_api \<Rightarrow> json \<Rightarrow> string option" where
  "serialize_mut_root yy jroot = (if yy_new yy then map_option c_str (yy_write yy jroot) else None)"

subsection \<open>Prompts\<close>

text \<open>\<open>yyjson_mut_obj_put\<close>: the first member of that key is replaced in place, the others removed; a new
  key goes to the end.\<close>

fun obj_replace :: "(string \<times> json) list \<Rightarrow> string \<Rightarrow> json \<Rightarrow> (string \<times> json) list" where
  "obj_replace [] k v = [(k, v)]"
| "obj_replace ((k', v') # kvs) k v =
     (if k' = k then (k, v) # filter (\<lambda>(k', _). k' \<noteq> k) kvs else (k', v') # obj_replace kvs k v)"

definition special_member :: "tokenizer \<Rightarrow> string \<Rightarrow> int \<Rightarrow> (string \<times> json) list" where
  "special_member tok key i =
     (if 0 \<le> i then add_strcpy key (map_option bytes_str (tokenizer_decode_token tok i)) else [])"

definition merge_chat_extra_json :: "yyjson_api \<Rightarrow> tokenizer \<Rightarrow> string option \<Rightarrow> int + string" where
  "merge_chat_extra_json yy tok extra_json =
     (if \<not> yy_new yy then Inl (- 1)
      else let obj = special_member tok ''bos_token'' (tk_bos_id tok) @ special_member tok ''eos_token'' (tk_eos_id tok);
               overlay = (case extra_json of
                   None \<Rightarrow> Some obj
                 | Some e \<Rightarrow>
                     if c_str e = [] then Some obj
                     else (case yy_read yy (c_str e) of
                        Some (JObj kvs) \<Rightarrow> Some (foldl (\<lambda>obj (k, v). obj_replace obj (c_str k) v) obj kvs)
                      | _ \<Rightarrow> None))
           in case overlay of
                None \<Rightarrow> Inl (- 2)
              | Some obj \<Rightarrow> (case yy_write yy (JObj obj) of None \<Rightarrow> Inl (- 1) | Some s \<Rightarrow> Inr s))"

type_synonym normaliser = "norm_form \<Rightarrow> bytes \<Rightarrow> bytes option"

text \<open>The return code with its message, or the ids. An encoder loop that did not end would be \<open>None\<close>.\<close>

definition gen_build_chat_prompt ::
  "allocator \<Rightarrow> normaliser \<Rightarrow> yyjson_api \<Rightarrow> jinja \<Rightarrow> tokenizer \<Rightarrow> string option \<Rightarrow> string option \<Rightarrow> string option
    \<Rightarrow> string option \<Rightarrow> ((int \<times> string) + int list) option" where
  "gen_build_chat_prompt mem nrm yy jinja tok chat_template messages_json tools_json extra_json =
     (case merge_chat_extra_json yy tok extra_json of
        Inl c \<Rightarrow> Some (Inl (- 1, if c = - 2 then ''invalid extra_json'' else ''out of memory''))
      | Inr merged \<Rightarrow>
          (case chat_render jinja \<lparr>crp_tmpl = chat_template, crp_messages_json = messages_json,
                  crp_tools_json = tools_json, crp_extra_json = Some merged, crp_add_generation_prompt = True,
                  crp_tmpl_len = 0, crp_messages_json_len = 0, crp_tools_json_len = 0, crp_extra_json_len = 0\<rparr> of
             Inl _ \<Rightarrow> Some (Inl (- 1, ''template render failed''))
           | Inr rendered \<Rightarrow>
               (case tokenizer_encode_alloc mem nrm tok (str_bytes (c_str rendered)) True of
                  None \<Rightarrow> None
                | Some None \<Rightarrow> Some (Inl (- 2, ''tokenizer encode failed''))
                | Some (Some ids) \<Rightarrow> Some (Inr ids))))"

definition gen_build_completion_prompt ::
  "allocator \<Rightarrow> normaliser \<Rightarrow> tokenizer \<Rightarrow> string \<Rightarrow> ((int \<times> string) + int list) option" where
  "gen_build_completion_prompt mem nrm tok prompt =
     (case tokenizer_encode_alloc mem nrm tok (str_bytes (c_str prompt)) False of
        None \<Rightarrow> None
      | Some None \<Rightarrow> Some (Inl (- 1, ''tokenizer encode failed''))
      | Some (Some ids) \<Rightarrow> Some (Inr ids))"

subsection \<open>Chunks and responses\<close>

record gen_sse_chunk_params =
  scp_id :: "string option"
  scp_model :: "string option"
  scp_created :: int
  scp_role_first :: bool
  scp_delta_text :: "string option"
  scp_final :: bool
  scp_reason :: finish_reason
  scp_logprob :: "token_logprob option"
  scp_include_usage :: bool
  scp_usage :: "usage option"

definition zero_usage :: usage where
  "zero_usage = \<lparr>u_prompt_tokens = 0, u_completion_tokens = 0, u_total_tokens = 0\<rparr>"

definition gen_chunk :: "gen_sse_chunk_params \<Rightarrow> chat_completion_chunk" where
  "gen_chunk p = \<lparr>ck_id = scp_id p, ck_model = scp_model p, ck_created = scp_created p,
     ck_has_choice = (scp_role_first p \<or> scp_delta_text p \<noteq> None \<or> scp_final p),
     ck_has_role = scp_role_first p, ck_role = ROLE_ASSISTANT, ck_delta_content = scp_delta_text p,
     ck_tool_calls = [], ck_has_finish_reason = scp_final p, ck_finish_reason = scp_reason p,
     ck_logprobs = (case scp_logprob p of None \<Rightarrow> [] | Some l \<Rightarrow> [l]),
     ck_has_usage = (scp_include_usage p \<and> scp_usage p \<noteq> None),
     ck_usage = (case scp_usage p of None \<Rightarrow> zero_usage | Some u \<Rightarrow> u)\<rparr>"

definition sse_of_json :: "allocator \<Rightarrow> yyjson_api \<Rightarrow> json \<Rightarrow> string option" where
  "sse_of_json mem yy jroot = (case serialize_mut_root yy jroot of None \<Rightarrow> None | Some js \<Rightarrow> sse_format mem js)"

definition gen_sse_chunk :: "allocator \<Rightarrow> yyjson_api \<Rightarrow> gen_sse_chunk_params \<Rightarrow> string option" where
  "gen_sse_chunk mem yy p = sse_of_json mem yy (chat_completion_chunk_serialize (gen_chunk p))"

definition gen_build_chat_response ::
  "yyjson_api \<Rightarrow> string option \<Rightarrow> string option \<Rightarrow> int \<Rightarrow> string option \<Rightarrow> finish_reason \<Rightarrow> usage option
    \<Rightarrow> token_logprob list option \<Rightarrow> string option" where
  "gen_build_chat_response yy i model created content reason u logprobs =
     serialize_mut_root yy (chat_completion_response_serialize
       \<lparr>resp_id = i, resp_model = model, resp_created = created, resp_finish_reason = reason,
        resp_content = content, resp_tool_calls = [], resp_logprobs_content = logprobs,
        resp_usage = (case u of None \<Rightarrow> zero_usage | Some u \<Rightarrow> u)\<rparr>)"

definition gen_build_completion_response ::
  "yyjson_api \<Rightarrow> string option \<Rightarrow> string option \<Rightarrow> int \<Rightarrow> string option \<Rightarrow> finish_reason \<Rightarrow> usage option
    \<Rightarrow> string option" where
  "gen_build_completion_response yy i model created txt reason u =
     serialize_mut_root yy (completion_response_serialize
       \<lparr>cresp_id = i, cresp_model = model, cresp_created = created, cresp_finish_reason = reason,
        cresp_text = txt, cresp_usage = (case u of None \<Rightarrow> zero_usage | Some u \<Rightarrow> u)\<rparr>)"

definition gen_sse_error_ex ::
  "allocator \<Rightarrow> yyjson_api \<Rightarrow> string option \<Rightarrow> string option \<Rightarrow> string option \<Rightarrow> string option" where
  "gen_sse_error_ex mem yy msg typ code =
     sse_of_json mem yy (error_envelope_serialize msg (Some (case typ of None \<Rightarrow> ''server_error'' | Some t \<Rightarrow> t)) code)"

definition gen_sse_error :: "allocator \<Rightarrow> yyjson_api \<Rightarrow> string option \<Rightarrow> string option" where
  "gen_sse_error mem yy msg = gen_sse_error_ex mem yy msg (Some ''server_error'') None"

definition hex_char :: "nat \<Rightarrow> char" where
  "hex_char d = (if d < 10 then char_of (48 + d) else char_of (87 + d))"

text \<open>The conversion \<open>%08x\<close>.\<close>

definition fmt_hex8 :: "u32 \<Rightarrow> string" where
  "fmt_hex8 w = map (\<lambda>i. hex_char (unat w div 16 ^ i mod 16)) [7, 6, 5, 4, 3, 2, 1, 0]"

definition gen_make_id :: "allocator \<Rightarrow> u32 \<times> u32 \<times> u32 \<Rightarrow> string option \<Rightarrow> string option" where
  "gen_make_id mem r prefix =
     (let p = (case prefix of None \<Rightarrow> [] | Some s \<Rightarrow> c_str s) in
      if mem (length p + 24 + 1)
      then Some (p @ fmt_hex8 (fst r) @ fmt_hex8 (fst (snd r)) @ fmt_hex8 (snd (snd r))) else None)"

record gen_sse_completion_chunk_params =
  ccp_id :: string
  ccp_model :: string
  ccp_created :: int
  ccp_delta_text :: "string option"
  ccp_final :: bool
  ccp_reason :: finish_reason

definition completion_chunk_json :: "gen_sse_completion_chunk_params \<Rightarrow> json" where
  "completion_chunk_json p = JObj (
     add_str ''id'' (ccp_id p) @
     add_str ''object'' ''text_completion'' @
     add_int ''created'' (ccp_created p) @
     add_str ''model'' (ccp_model p) @
     add_val ''choices'' (JArr [JObj (
       add_str ''text'' (str_or_empty (ccp_delta_text p)) @
       add_int ''index'' 0 @
       add_null ''logprobs'' @
       (if ccp_final p then add_str ''finish_reason'' (finish_reason_wire_str (ccp_reason p))
        else add_null ''finish_reason''))]))"

definition gen_sse_completion_chunk :: "allocator \<Rightarrow> yyjson_api \<Rightarrow> gen_sse_completion_chunk_params \<Rightarrow> string option" where
  "gen_sse_completion_chunk mem yy p = sse_of_json mem yy (completion_chunk_json p)"

end
