(* ===== verification/GenRequest.thy ===== *)
theory GenRequest
  imports HttpGen Detok StreamChan Generate
begin

text \<open>
  The asynchronous generation request of \<open>src/http/gen_request.c\<close>: it links the token stream an engine
  thread fills, the detokenizer and the connection. The connection is seen through \<open>conn_io.h\<close>: the
  actions performed on it, whether the observer is installed, and whether it is closing. A write can
  fail synchronously, which closes the connection and calls the observer back into the request; the
  environment says which writes do. A result \<open>None\<close> is the use of a \<open>NULL\<close> pointer.
\<close>

datatype gr_state = GR_RUNNING | GR_CLOSING

record gen_request =
  gr_stream :: "stream option"
  gr_timer_inited :: bool
  gr_detok :: "detok option"
  gr_state :: gr_state
  gr_conn_gone :: bool
  gr_suppress_writes :: bool
  gr_conn :: bool
  gr_chat :: bool
  gr_sse :: bool
  gr_include_usage :: bool
  gr_logprobs :: bool
  gr_role_sent :: bool
  gr_id :: string
  gr_model_id :: string
  gr_created :: int
  gr_prompt_tokens :: int
  gr_completion_tokens :: int
  gr_accum :: string
  gr_accum_cap :: nat
  gr_lp_entries :: "token_logprob list"
  gr_lp_cap :: nat
  gr_pending_closes :: nat
  gr_freed :: bool

datatype conn_act = Wire string bool \<comment> \<open>\<open>close_after\<close>\<close> | Shut

record conn_view =
  cv_acts :: "conn_act list"
  cv_writes :: nat
  cv_observed :: bool
  cv_closing :: bool

record gen_env =
  ge_mem :: allocator
  ge_yy :: yyjson_api
  ge_write_ok :: "nat \<Rightarrow> bool"
  ge_queue :: "nat \<Rightarrow> nat" \<comment> \<open>bytes queued after that many writes\<close>

type_synonym gsys = "gen_request \<times> conn_view"

definition BACKPRESSURE_HWM :: nat where "BACKPRESSURE_HWM = 1048576"

subsection \<open>Teardown\<close>

definition begin_close :: "gen_request \<Rightarrow> gen_request" where
  "begin_close gr = gr\<lparr>gr_state := GR_CLOSING,
     gr_stream := stream_release (map_option (\<lambda>s. stream_set_notify s False) (gr_stream gr)),
     gr_detok := None, gr_accum := [], gr_lp_entries := [], gr_id := [], gr_model_id := [],
     gr_pending_closes := (if gr_timer_inited gr then 2 else 1)\<rparr>"

definition try_teardown :: "gen_request \<Rightarrow> gen_request option" where
  "try_teardown gr =
     (if gr_state gr = GR_CLOSING then Some gr
      else case gr_stream gr of
        None \<Rightarrow> None
      | Some s \<Rightarrow> if stream_sole_owner s then Some (begin_close gr)
                  else Some (gr\<lparr>gr_timer_inited := True\<rparr>))"

definition gr_cancel :: "gen_request \<Rightarrow> gen_request option" where
  "gr_cancel gr = map_option (\<lambda>s. gr\<lparr>gr_stream := Some (stream_cancel s)\<rparr>) (gr_stream gr)"

definition on_conn_gone :: "gen_request \<Rightarrow> gen_request option" where
  "on_conn_gone gr =
     (case gr_cancel (gr\<lparr>gr_conn_gone := True, gr_conn := False\<rparr>) of None \<Rightarrow> None | Some gr \<Rightarrow> try_teardown gr)"

definition on_timer :: "gen_request \<Rightarrow> gen_request option" where
  "on_timer gr =
     (if gr_state gr = GR_CLOSING then Some gr
      else map_option (\<lambda>s. if stream_sole_owner s then begin_close gr else gr) (gr_stream gr))"

definition on_close_cb :: "gen_request \<Rightarrow> gen_request" where
  "on_close_cb gr =
     (let n = gr_pending_closes gr - 1 in gr\<lparr>gr_pending_closes := n, gr_freed := (n = 0)\<rparr>)"

subsection \<open>The connection\<close>

definition close_conn :: "gsys \<Rightarrow> gsys option" where
  "close_conn st = (case st of (gr, cv) \<Rightarrow>
     if cv_closing cv then Some (gr, cv)
     else let cv' = cv\<lparr>cv_closing := True, cv_acts := cv_acts cv @ [Shut], cv_observed := False\<rparr> in
          if cv_observed cv then map_option (\<lambda>gr. (gr, cv')) (on_conn_gone gr) else Some (gr, cv'))"

definition http_conn_write :: "gen_env \<Rightarrow> string \<Rightarrow> bool \<Rightarrow> gsys \<Rightarrow> gsys option" where
  "http_conn_write env wire close_after st = (case st of (gr, cv) \<Rightarrow>
     if cv_closing cv then Some (gr, cv)
     else let cv' = cv\<lparr>cv_writes := cv_writes cv + 1\<rparr> in
          if ge_write_ok env (cv_writes cv)
          then Some (gr, cv'\<lparr>cv_acts := cv_acts cv @ [Wire wire close_after]\<rparr>)
          else close_conn (gr, cv'))"

text \<open>Write a heap string, when there is one.\<close>

definition write_opt :: "gen_env \<Rightarrow> string option \<Rightarrow> bool \<Rightarrow> gsys \<Rightarrow> gsys option" where
  "write_opt env w close_after st = (case w of None \<Rightarrow> Some st | Some wire \<Rightarrow> http_conn_write env wire close_after st)"

text \<open>Write the last string, or close when it could not be built.\<close>

definition write_last :: "gen_env \<Rightarrow> string option \<Rightarrow> gsys \<Rightarrow> gsys option" where
  "write_last env w st = (case w of None \<Rightarrow> close_conn st | Some wire \<Rightarrow> http_conn_write env wire True st)"

text \<open>Whether the request was attached, and the detached state.\<close>

definition detach_conn :: "gsys \<Rightarrow> bool \<times> gsys" where
  "detach_conn st = (case st of (gr, cv) \<Rightarrow>
     if gr_conn gr then (True, gr\<lparr>gr_conn := False\<rparr>, cv\<lparr>cv_observed := False\<rparr>) else (False, gr, cv))"

text \<open>Sequencing of steps that may use a \<open>NULL\<close> pointer.\<close>

definition andthen :: "gsys option \<Rightarrow> (gsys \<Rightarrow> gsys option) \<Rightarrow> gsys option" where
  "andthen r f = (case r of None \<Rightarrow> None | Some st \<Rightarrow> f st)"

definition teardown :: "gsys \<Rightarrow> gsys option" where
  "teardown st = (case st of (gr, cv) \<Rightarrow> map_option (\<lambda>gr. (gr, cv)) (try_teardown gr))"

subsection \<open>Accumulator\<close>

definition accum_append :: "allocator \<Rightarrow> gen_request \<Rightarrow> string \<Rightarrow> gen_request option" where
  "accum_append mem gr s =
     (if s = [] then Some gr
      else let need = length (gr_accum gr) + length s in
           if gr_accum_cap gr < need
           then (let cap = grow_cap (if gr_accum_cap gr = 0 then 64 else gr_accum_cap gr) need in
                 if mem (cap + 1) then Some (gr\<lparr>gr_accum := gr_accum gr @ s, gr_accum_cap := cap\<rparr>) else None)
           else Some (gr\<lparr>gr_accum := gr_accum gr @ s\<rparr>))"

text \<open>One more log probability; \<open>sizeof(token_logprob_t)\<close> is 32.\<close>

definition lp_append :: "allocator \<Rightarrow> gen_request \<Rightarrow> string \<Rightarrow> cfloat \<Rightarrow> gen_request option" where
  "lp_append mem gr piece lp =
     (let full = (gr_lp_cap gr \<le> length (gr_lp_entries gr));
          cap = (if full then if gr_lp_cap gr \<noteq> 0 then gr_lp_cap gr * 2 else 16 else gr_lp_cap gr)
      in if full \<and> \<not> mem (cap * 32) then None
         else Some (gr\<lparr>gr_lp_cap := cap,
           gr_lp_entries := gr_lp_entries gr @
             [\<lparr>tl_token = c_strdup mem piece, tl_logprob = lp, tl_top_logprobs = []\<rparr>]\<rparr>))"

subsection \<open>Errors\<close>

definition error_kind_map :: "gen_err_kind \<Rightarrow> int \<times> string \<times> string option" where
  "error_kind_map kind = (case kind of
     GEN_ERR_CONTEXT_LENGTH \<Rightarrow> (400, ''invalid_request_error'', Some ''context_length_exceeded'')
   | GEN_ERR_INTERNAL \<Rightarrow> (500, ''server_error'', None))"

definition error_response :: "gen_env \<Rightarrow> int \<Rightarrow> string option \<Rightarrow> string \<Rightarrow> string option \<Rightarrow> string option" where
  "error_response env status msg typ code =
     (case serialize_mut_root (ge_yy env) (error_envelope_serialize msg (Some typ) code) of
        None \<Rightarrow> None
      | Some js \<Rightarrow> http_build_response (ge_mem env) status (Some ''application/json'') js False)"

definition finish_error :: "gen_env \<Rightarrow> string option \<Rightarrow> gen_err_kind \<Rightarrow> gsys \<Rightarrow> gsys option" where
  "finish_error env msg kind st =
     (case error_kind_map kind of (status, typ, code) \<Rightarrow>
      case detach_conn st of (attached, st) \<Rightarrow>
      andthen
        (if \<not> attached then Some st
         else if gr_suppress_writes (fst st) then close_conn st
         else if gr_sse (fst st)
         then andthen (write_opt env (gen_sse_error_ex (ge_mem env) (ge_yy env) msg (Some typ) code) False st)
                (write_last env (sse_done (ge_mem env)))
         else write_last env (error_response env status msg typ code) st)
        teardown)"

subsection \<open>Responses\<close>

text \<open>The parameters every chunk of a request shares.\<close>

definition chunk_base :: "gen_request \<Rightarrow> gen_sse_chunk_params" where
  "chunk_base gr = \<lparr>scp_id = Some (gr_id gr), scp_model = Some (gr_model_id gr), scp_created = gr_created gr,
     scp_role_first = False, scp_delta_text = None, scp_final = False, scp_reason = FINISH_STOP,
     scp_logprob = None, scp_include_usage = False, scp_usage = None\<rparr>"

definition completion_base :: "gen_request \<Rightarrow> gen_sse_completion_chunk_params" where
  "completion_base gr = \<lparr>ccp_id = gr_id gr, ccp_model = gr_model_id gr, ccp_created = gr_created gr,
     ccp_delta_text = None, ccp_final = False, ccp_reason = FINISH_STOP\<rparr>"

definition chat_chunk :: "gen_env \<Rightarrow> gen_sse_chunk_params \<Rightarrow> string option" where
  "chat_chunk env p = gen_sse_chunk (ge_mem env) (ge_yy env) p"

definition completion_chunk :: "gen_env \<Rightarrow> gen_sse_completion_chunk_params \<Rightarrow> string option" where
  "completion_chunk env p = gen_sse_completion_chunk (ge_mem env) (ge_yy env) p"

definition mark_role_sent :: "gsys \<Rightarrow> gsys option" where
  "mark_role_sent st = (case st of (gr, cv) \<Rightarrow> Some (gr\<lparr>gr_role_sent := True\<rparr>, cv))"

definition emit_sse_chunk :: "gen_env \<Rightarrow> string \<Rightarrow> cfloat \<Rightarrow> gsys \<Rightarrow> gsys option" where
  "emit_sse_chunk env txt lp st = (case st of (gr, cv) \<Rightarrow>
     if gr_conn_gone gr \<or> \<not> gr_conn gr \<or> gr_suppress_writes gr then Some st
     else if gr_chat gr
     then (let lp_ptr = (if gr_logprobs gr
                         then Some \<lparr>tl_token = Some txt, tl_logprob = lp, tl_top_logprobs = []\<rparr> else None) in
           if \<not> gr_role_sent gr
           then (case chat_chunk env ((chunk_base gr)\<lparr>scp_role_first := True,
                        scp_delta_text := (if txt \<noteq> [] then Some txt else None), scp_logprob := lp_ptr\<rparr>) of
                   None \<Rightarrow> Some st
                 | Some sse \<Rightarrow> andthen (http_conn_write env sse False st) mark_role_sent)
           else if txt \<noteq> []
           then write_opt env (chat_chunk env ((chunk_base gr)\<lparr>scp_delta_text := Some txt, scp_logprob := lp_ptr\<rparr>)) False st
           else Some st)
     else if txt \<noteq> []
     then write_opt env (completion_chunk env ((completion_base gr)\<lparr>ccp_delta_text := Some txt\<rparr>)) False st
     else Some st)"

definition usage_of :: "gen_request \<Rightarrow> usage" where
  "usage_of gr = \<lparr>u_prompt_tokens = gr_prompt_tokens gr, u_completion_tokens = gr_completion_tokens gr,
     u_total_tokens = gr_prompt_tokens gr + gr_completion_tokens gr\<rparr>"

text \<open>The rest of the text, when the detokenizer held some back.\<close>

definition finish_flushed :: "gen_env \<Rightarrow> string \<Rightarrow> gsys \<Rightarrow> gsys option" where
  "finish_flushed env rest st = (case st of (gr, cv) \<Rightarrow>
     if rest = [] then Some st
     else if gr_chat gr
     then (case chat_chunk env ((chunk_base gr)\<lparr>scp_role_first := \<not> gr_role_sent gr, scp_delta_text := Some rest\<rparr>) of
             None \<Rightarrow> Some st
           | Some sse \<Rightarrow> andthen (http_conn_write env sse False st) mark_role_sent)
     else write_opt env (completion_chunk env ((completion_base gr)\<lparr>ccp_delta_text := Some rest\<rparr>)) False st)"

definition finish_role :: "gen_env \<Rightarrow> gsys \<Rightarrow> gsys option" where
  "finish_role env st =
     (if gr_role_sent (fst st) then Some st
      else write_opt env (chat_chunk env ((chunk_base (fst st))\<lparr>scp_role_first := True\<rparr>)) False st)"

definition finish_usage :: "gen_env \<Rightarrow> gsys \<Rightarrow> gsys option" where
  "finish_usage env st =
     (if gr_include_usage (fst st)
      then write_opt env (chat_chunk env ((chunk_base (fst st))
             \<lparr>scp_include_usage := True, scp_usage := Some (usage_of (fst st))\<rparr>)) False st
      else Some st)"

definition finish_sse :: "gen_env \<Rightarrow> finish_reason \<Rightarrow> string \<Rightarrow> gsys \<Rightarrow> gsys option" where
  "finish_sse env reason rest st =
     andthen
       (andthen (finish_flushed env rest st) (\<lambda>st.
          if gr_chat (fst st)
          then andthen (andthen (finish_role env st) (\<lambda>st.
                 write_opt env (chat_chunk env ((chunk_base (fst st))\<lparr>scp_final := True, scp_reason := reason\<rparr>)) False st))
                 (finish_usage env)
          else write_opt env (completion_chunk env
                 ((completion_base (fst st))\<lparr>ccp_final := True, ccp_reason := reason\<rparr>)) False st))
       (write_last env (sse_done (ge_mem env)))"

definition full_response :: "gen_env \<Rightarrow> finish_reason \<Rightarrow> gen_request \<Rightarrow> string option" where
  "full_response env reason gr =
     (case (if gr_chat gr
            then gen_build_chat_response (ge_yy env) (Some (gr_id gr)) (Some (gr_model_id gr)) (gr_created gr)
                   (Some (gr_accum gr)) reason (Some (usage_of gr))
                   (if gr_lp_cap gr = 0 then None else Some (gr_lp_entries gr))
            else gen_build_completion_response (ge_yy env) (Some (gr_id gr)) (Some (gr_model_id gr)) (gr_created gr)
                   (Some (gr_accum gr)) reason (Some (usage_of gr))) of
        None \<Rightarrow> None
      | Some js \<Rightarrow> http_build_response (ge_mem env) 200 (Some ''application/json'') js False)"

definition finish_response :: "gen_env \<Rightarrow> finish_reason \<Rightarrow> gsys \<Rightarrow> gsys option" where
  "finish_response env reason st = (case st of (gr, cv) \<Rightarrow>
     case gr_detok gr of
       None \<Rightarrow> None
     | Some d \<Rightarrow>
         (case detok_flush (ge_mem env) d of
            None \<Rightarrow> finish_error env (c_strdup (ge_mem env) ''detokenizer flush error'') GEN_ERR_INTERNAL st
          | Some (rest, d) \<Rightarrow>
              (let rest = bytes_str rest; gr = gr\<lparr>gr_detok := Some d\<rparr> in
               case (if \<not> gr_sse gr \<and> rest \<noteq> [] then accum_append (ge_mem env) gr rest else Some gr) of
                 None \<Rightarrow> finish_error env (c_strdup (ge_mem env) ''out of memory'') GEN_ERR_INTERNAL (gr, cv)
               | Some gr \<Rightarrow>
                   (case detach_conn (gr, cv) of (attached, st) \<Rightarrow>
                    andthen
                      (if \<not> attached then Some st
                       else if gr_suppress_writes (fst st) then close_conn st
                       else if gr_sse (fst st) then finish_sse env reason rest st
                       else write_last env (full_response env reason (fst st)) st)
                      teardown))))"

subsection \<open>The drain of the token stream\<close>

text \<open>A failure inside the loop: cancel the stream and report.\<close>

definition async_fail :: "gen_env \<Rightarrow> string \<Rightarrow> gsys \<Rightarrow> gsys option" where
  "async_fail env msg st = (case st of (gr, cv) \<Rightarrow>
     case gr_cancel gr of
       None \<Rightarrow> None
     | Some gr \<Rightarrow> finish_error env (c_strdup (ge_mem env) msg) GEN_ERR_INTERNAL (gr, cv))"

text \<open>Too much is queued on the connection: stop writing and cancel.\<close>

definition backpressure :: "gen_env \<Rightarrow> gsys \<Rightarrow> gsys option" where
  "backpressure env st = (case st of (gr, cv) \<Rightarrow>
     if \<not> gr_conn_gone gr \<and> \<not> gr_suppress_writes gr \<and> gr_conn gr \<and> BACKPRESSURE_HWM < ge_queue env (cv_writes cv)
     then map_option (\<lambda>gr. (gr, cv)) (gr_cancel (gr\<lparr>gr_suppress_writes := True\<rparr>))
     else Some st)"

text \<open>One token: whether the loop goes on, and the state.\<close>

definition on_token :: "gen_env \<Rightarrow> int \<Rightarrow> cfloat \<Rightarrow> gsys \<Rightarrow> (bool \<times> gsys) option" where
  "on_token env i lp st = (case st of (gr, cv) \<Rightarrow>
     let gr = gr\<lparr>gr_completion_tokens := gr_completion_tokens gr + 1\<rparr> in
     case gr_detok gr of
       None \<Rightarrow> None
     | Some d \<Rightarrow>
         (case detok_feed (ge_mem env) d i of
            None \<Rightarrow> map_option (Pair False) (async_fail env ''detokenizer error'' (gr, cv))
          | Some (piece, d) \<Rightarrow>
              (let piece = bytes_str piece; gr = gr\<lparr>gr_detok := Some d\<rparr> in
               if gr_sse gr
               then map_option (Pair True)
                      (andthen (if piece \<noteq> [] then emit_sse_chunk env piece lp (gr, cv) else Some (gr, cv))
                        (backpressure env))
               else if piece = [] then Some (True, gr, cv)
               else (case accum_append (ge_mem env) gr piece of
                       None \<Rightarrow> map_option (Pair False) (async_fail env ''out of memory'' (gr, cv))
                     | Some gr \<Rightarrow>
                         if gr_logprobs gr
                         then (case lp_append (ge_mem env) gr piece lp of
                                 None \<Rightarrow> map_option (Pair False) (async_fail env ''out of memory'' (gr, cv))
                               | Some gr \<Rightarrow> Some (True, gr, cv))
                         else Some (True, gr, cv)))))"

definition on_chunk :: "gen_env \<Rightarrow> chunk \<Rightarrow> gsys \<Rightarrow> (bool \<times> gsys) option" where
  "on_chunk env c st = (case c of
     CHUNK_TOKEN i lp \<Rightarrow> on_token env i lp st
   | CHUNK_ERROR kind msg \<Rightarrow> map_option (Pair False) (finish_error env (Some msg) kind st)
   | CHUNK_DONE reason \<Rightarrow> map_option (Pair False) (finish_response env reason st))"

text \<open>The loop over at most \<open>n\<close> chunks; the chunks the engine adds meanwhile are left to the next call,
  which their notification schedules. The last \<open>stream_next\<close> is made even then.\<close>

fun async_loop :: "gen_env \<Rightarrow> nat \<Rightarrow> gsys \<Rightarrow> gsys option" where
  "async_loop env n st =
     (case gr_stream (fst st) of
        None \<Rightarrow> None
      | Some s \<Rightarrow>
          (case n of
             0 \<Rightarrow> Some st
           | Suc n \<Rightarrow>
               (case stream_next s 0 of
                  Some (Some c, s) \<Rightarrow>
                    (case on_chunk env c ((fst st)\<lparr>gr_stream := Some s\<rparr>, snd st) of
                       None \<Rightarrow> None
                     | Some (True, st) \<Rightarrow> async_loop env n st
                     | Some (False, st) \<Rightarrow> Some st)
                | _ \<Rightarrow> Some st)))"

declare async_loop.simps [simp del]

definition gen_on_async :: "gen_env \<Rightarrow> nat \<Rightarrow> gsys \<Rightarrow> gsys option" where
  "gen_on_async env n st = (if gr_state (fst st) = GR_CLOSING then Some st else async_loop env n st)"

definition gen_request_drain :: "gen_request \<Rightarrow> gen_request option" where
  "gen_request_drain gr = (if gr_state gr = GR_CLOSING then Some gr else gr_cancel gr)"

subsection \<open>Start\<close>

record serve_ctx =
  sv_tokenizer :: "tokenizer option"
  sv_chat_template :: "string option"
  sv_model_id :: "string option"

record gen_request_start_params =
  gs_ctx :: serve_ctx
  gs_chat :: bool
  gs_stream :: bool
  gs_include_usage :: bool
  gs_model_id :: "string option"
  gs_params :: gen_params
  gs_messages_json :: "string option"
  gs_tools_json :: "string option"
  gs_extra_json :: "string option"
  gs_prompt :: string

text \<open>What the start uses of its surroundings: third-party code, object sizes, randomness, the clock,
  whether the loop accepts the async handle and whether the engine accepts the command.\<close>

record start_env =
  se_env :: gen_env
  se_normalise :: normaliser
  se_jinja :: jinja
  se_sizeof_stream :: nat
  se_sizeof_chunk :: nat
  se_sizeof_gr :: nat
  se_sizeof_cmd :: nat
  se_random :: "u32 \<times> u32 \<times> u32"
  se_time :: int
  se_async_init_ok :: bool
  se_engine_accepts :: bool

definition start_prompt ::
  "start_env \<Rightarrow> gen_request_start_params \<Rightarrow> tokenizer \<Rightarrow> ((int \<times> string) + int list) option" where
  "start_prompt se p tok =
     (let mem = ge_mem (se_env se) in
      if gs_chat p
      then gen_build_chat_prompt mem (se_normalise se) (ge_yy (se_env se)) (se_jinja se) tok
             (sv_chat_template (gs_ctx p)) (gs_messages_json p) (gs_tools_json p) (gs_extra_json p)
      else gen_build_completion_prompt mem (se_normalise se) tok (gs_prompt p))"

definition start_request ::
  "start_env \<Rightarrow> gen_request_start_params \<Rightarrow> int \<Rightarrow> stream \<Rightarrow> detok \<Rightarrow> string \<Rightarrow> string \<Rightarrow> gen_request" where
  "start_request se p n_ids s d i model =
     \<lparr>gr_stream = Some s, gr_timer_inited = False, gr_detok = Some d, gr_state = GR_RUNNING, gr_conn_gone = False,
      gr_suppress_writes = False, gr_conn = True, gr_chat = gs_chat p, gr_sse = gs_stream p,
      gr_include_usage = gs_include_usage p, gr_logprobs = (gp_logprobs (gs_params p) \<and> gs_chat p),
      gr_role_sent = False, gr_id = i, gr_model_id = model, gr_created = se_time se, gr_prompt_tokens = n_ids,
      gr_completion_tokens = 0, gr_accum = [], gr_accum_cap = 0, gr_lp_entries = [], gr_lp_cap = 0,
      gr_pending_closes = 0, gr_freed = False\<rparr>"

definition start_params_of :: "gen_request_start_params \<Rightarrow> gen_params" where
  "start_params_of p =
     (let gp = gs_params p;
          gp = (if gp_max_tokens gp \<le> 0 then gp\<lparr>gp_max_tokens := (if gs_chat p then INT_MAX else 16)\<rparr> else gp)
      in gp\<lparr>gp_stop := []\<rparr>)"

text \<open>The engine keeps its reference of an accepted stream and finishes a rejected one.\<close>

definition post_stream :: "bool \<Rightarrow> stream \<Rightarrow> stream" where
  "post_stream accepted s = (if accepted then s else the (stream_release (Some (stream_finish_cancelled s))))"

text \<open>The fallible allocations, in order.\<close>

definition start_alloc ::
  "start_env \<Rightarrow> gen_request_start_params \<Rightarrow> tokenizer \<Rightarrow> (string \<Rightarrow> 'r) \<Rightarrow>
    (stream \<Rightarrow> detok \<Rightarrow> string \<Rightarrow> string \<Rightarrow> string option \<Rightarrow> 'r) \<Rightarrow> 'r" where
  "start_alloc se p tok fail ok =
     (let mem = ge_mem (se_env se) in
      case stream_create mem (se_sizeof_stream se) (se_sizeof_chunk se) 64 of
        None \<Rightarrow> fail ''out of memory''
      | Some s \<Rightarrow>
      (case detok_create mem tok of
        None \<Rightarrow> fail ''detokenizer init failed''
      | Some d \<Rightarrow>
      if \<not> mem (se_sizeof_gr se) then fail ''out of memory''
      else case gen_make_id mem (se_random se) (Some (if gs_chat p then ''chatcmpl-'' else ''cmpl-'')) of
        None \<Rightarrow> fail ''out of memory''
      | Some i \<Rightarrow>
      (case c_strdup mem (case gs_model_id p of None \<Rightarrow> ''unknown'' | Some m \<Rightarrow> m) of
        None \<Rightarrow> fail ''out of memory''
      | Some model \<Rightarrow>
      if \<not> mem (se_sizeof_cmd se) then fail ''out of memory''
      else if \<not> gs_stream p then ok (stream_retain s) d i model None
      else case http_build_sse_head mem of
        None \<Rightarrow> fail ''out of memory''
      | Some head \<Rightarrow> ok (stream_retain s) d i model (Some head))))"

text \<open>An HTTP status with a message, or the running request and the posted command.\<close>

definition gen_request_start ::
  "start_env \<Rightarrow> gen_request_start_params \<Rightarrow> conn_view \<Rightarrow> ((int \<times> string) + (gsys \<times> generate_cmd)) option" where
  "gen_request_start se p cv =
     (case sv_tokenizer (gs_ctx p) of
        None \<Rightarrow> Some (Inl (503, ''model not loaded''))
      | Some tok \<Rightarrow>
          if gs_chat p \<and> sv_chat_template (gs_ctx p) = None then Some (Inl (400, ''chat template not configured''))
          else (case start_prompt se p tok of
             None \<Rightarrow> None
           | Some (Inl (c, msg)) \<Rightarrow> Some (Inl (if c = - 1 \<and> gs_chat p then 400 else 500, msg))
           | Some (Inr ids) \<Rightarrow>
               start_alloc se p tok (\<lambda>msg. Some (Inl (500, msg)))
                 (\<lambda>s d i model head.
                    if \<not> se_async_init_ok se then Some (Inl (500, ''uv_async_init failed''))
                    else let s = post_stream (se_engine_accepts se) (stream_set_notify s True);
                             gr = start_request se p (int (length ids)) s d i model
                         in map_option (\<lambda>st. Inr (st, \<lparr>g_params = start_params_of p, g_token_ids = ids\<rparr>))
                              (write_opt (se_env se) head False (gr, cv\<lparr>cv_observed := True\<rparr>)))))"

end
