(* ===== verification/GenRequestSafe.thy ===== *)
theory GenRequestSafe
  imports GenRequest
begin

text \<open>
  Safety of the generation request: the reachable states of the request together with its
  connection, the invariant that ties the observer, the actions performed on the connection and the
  teardown state machine, and the two things that follow from it: a connection is ended exactly once
  and nothing is written after that, and the handlers use no freed stream.
\<close>

subsection \<open>Actions on a connection\<close>

text \<open>Writes, then at most one ending: a write that closes when done, a close, or both in that order.\<close>

fun acts_ok :: "conn_act list \<Rightarrow> bool" where
  "acts_ok [] = True"
| "acts_ok (Wire w fin # as) = (if fin then as = [] \<or> as = [Shut] else acts_ok as)"
| "acts_ok (Shut # as) = (as = [])"

definition still_open :: "conn_act list \<Rightarrow> bool" where
  "still_open as \<longleftrightarrow> (\<forall>a\<in>set as. case a of Wire w fin \<Rightarrow> \<not> fin | Shut \<Rightarrow> False)"

lemma still_open_simps [simp]:
  "still_open []" "still_open (as @ bs) \<longleftrightarrow> still_open as \<and> still_open bs"
  "still_open (Wire w fin # as) \<longleftrightarrow> \<not> fin \<and> still_open as" "\<not> still_open (Shut # as)"
  by (auto simp: still_open_def)

lemma acts_ok_open: "still_open as \<Longrightarrow> acts_ok as"
  by (induction as rule: acts_ok.induct) auto

lemma acts_ok_wire: "still_open as \<Longrightarrow> acts_ok (as @ [Wire w fin])"
  by (induction as rule: acts_ok.induct) auto

lemma acts_ok_shut: "acts_ok as \<Longrightarrow> Shut \<notin> set as \<Longrightarrow> acts_ok (as @ [Shut])"
  by (induction as rule: acts_ok.induct) auto

lemma still_open_no_shut: "still_open as \<Longrightarrow> Shut \<notin> set as"
  by (auto simp: still_open_def)

definition view_ok :: "conn_view \<Rightarrow> bool" where
  "view_ok cv \<longleftrightarrow> acts_ok (cv_acts cv) \<and> (cv_closing cv \<longleftrightarrow> Shut \<in> set (cv_acts cv))"

lemma view_ok_updates [simp]:
  "view_ok (cv\<lparr>cv_observed := b\<rparr>) = view_ok cv" "view_ok (cv\<lparr>cv_writes := n\<rparr>) = view_ok cv"
  by (simp_all add: view_ok_def)

subsection \<open>Invariant\<close>

definition gr_wf :: "gen_request \<Rightarrow> bool" where
  "gr_wf gr \<longleftrightarrow>
     (gr_stream gr = None \<longleftrightarrow> gr_state gr = GR_CLOSING) \<and> (gr_detok gr = None \<longleftrightarrow> gr_state gr = GR_CLOSING) \<and>
     (\<forall>s. gr_stream gr = Some s \<longrightarrow> s_refcount s = 1 \<or> s_refcount s = 2) \<and>
     (gr_state gr = GR_CLOSING \<or> gr_timer_inited gr \<longrightarrow> \<not> gr_conn gr) \<and>
     (gr_freed gr \<longleftrightarrow> gr_state gr = GR_CLOSING \<and> gr_pending_closes gr = 0) \<and>
     gr_pending_closes gr \<le> (if gr_state gr = GR_RUNNING then 0 else if gr_timer_inited gr then 2 else 1)"

definition gr_inv :: "gsys \<Rightarrow> bool" where
  "gr_inv st \<longleftrightarrow> gr_wf (fst st) \<and> view_ok (snd st) \<and> (gr_conn (fst st) \<longleftrightarrow> cv_observed (snd st)) \<and>
     (gr_conn (fst st) \<longleftrightarrow> still_open (cv_acts (snd st)))"

text \<open>Running: the stream is there, with the given number of references. Detached: the observer is
  gone but the connection is not ended yet.\<close>

definition running :: "nat \<Rightarrow> gsys \<Rightarrow> bool" where
  "running k st \<longleftrightarrow> gr_inv st \<and> (\<exists>s. gr_stream (fst st) = Some s \<and> s_refcount s = k)"

definition detached :: "gsys \<Rightarrow> bool" where
  "detached st \<longleftrightarrow> gr_wf (fst st) \<and> gr_stream (fst st) \<noteq> None \<and> \<not> gr_conn (fst st) \<and> view_ok (snd st) \<and>
     (cv_closing (snd st) \<or> still_open (cv_acts (snd st))) \<and> \<not> cv_observed (snd st)"

definition ended :: "gsys \<Rightarrow> bool" where
  "ended st \<longleftrightarrow> gr_inv st \<and> gr_stream (fst st) \<noteq> None \<and> \<not> gr_conn (fst st)"

text \<open>A step that returns, in a state with the property.\<close>

definition leads :: "'a option \<Rightarrow> ('a \<Rightarrow> bool) \<Rightarrow> bool" where
  "leads r P \<longleftrightarrow> (\<exists>x. r = Some x \<and> P x)"

lemma leads_simps [simp]: "leads (Some x) P = P x" "\<not> leads None P"
  by (simp_all add: leads_def)

lemma leadsE: assumes "leads r P" obtains x where "r = Some x" "P x"
  using assms by (auto simp: leads_def)

lemma leads_mono: "leads r P \<Longrightarrow> (\<And>x. P x \<Longrightarrow> Q x) \<Longrightarrow> leads r Q"
  by (auto simp: leads_def)

lemma leads_andthen: "leads r P \<Longrightarrow> (\<And>st. P st \<Longrightarrow> leads (f st) Q) \<Longrightarrow> leads (andthen r f) Q"
  by (auto simp: leads_def andthen_def)

lemma leads_map [simp]: "leads (map_option f r) P = leads r (\<lambda>x. P (f x))"
  by (auto simp: leads_def)

subsection \<open>Detached writes\<close>

lemma detached_close: "detached st \<Longrightarrow> leads (close_conn st) ended"
  by (cases st) (auto simp: detached_def ended_def close_conn_def gr_inv_def view_ok_def acts_ok_shut
      dest: still_open_no_shut)

lemma detached_wire: "detached st \<Longrightarrow> leads (http_conn_write env w fin st) (if fin then ended else detached)"
proof (cases st)
  case (Pair gr cv)
  assume d: "detached st"
  show ?thesis
  proof (cases "cv_closing cv \<or> ge_write_ok env (cv_writes cv)")
    case True
    then show ?thesis
      using d Pair by (auto simp: http_conn_write_def detached_def ended_def gr_inv_def view_ok_def acts_ok_wire
          dest: still_open_no_shut)
  next
    case False
    have "detached (gr, cv\<lparr>cv_writes := cv_writes cv + 1\<rparr>)"
      using d Pair by (auto simp: detached_def view_ok_def)
    from detached_close [OF this] have "leads (http_conn_write env w fin st) ended"
      using False Pair by (simp add: http_conn_write_def)
    moreover have "leads (http_conn_write env w fin st) detached"
      using False Pair d by (auto simp: http_conn_write_def close_conn_def detached_def view_ok_def acts_ok_shut
          dest: still_open_no_shut)
    ultimately show ?thesis
      by (cases fin) simp_all
  qed
qed

lemma detached_opt: "detached st \<Longrightarrow> leads (write_opt env w False st) detached"
  using detached_wire [of st env _ False] by (auto simp: write_opt_def split: option.splits)

lemma detached_last: "detached st \<Longrightarrow> leads (write_last env w st) ended"
  using detached_wire [of st env _ True] detached_close by (auto simp: write_last_def split: option.splits)

lemma ended_teardown: "ended st \<Longrightarrow> leads (teardown st) gr_inv"
  by (cases st) (auto simp: ended_def teardown_def try_teardown_def gr_inv_def gr_wf_def begin_close_def
      stream_release_def stream_set_notify_def stream_sole_owner_def split: option.splits)

subsection \<open>Finishing\<close>

lemma gr_wf_updates [simp]:
  "gr_wf (gr\<lparr>gr_role_sent := b\<rparr>) = gr_wf gr" "gr_wf (gr\<lparr>gr_accum := a\<rparr>) = gr_wf gr"
  "gr_wf (gr\<lparr>gr_accum_cap := n\<rparr>) = gr_wf gr" "gr_wf (gr\<lparr>gr_lp_entries := l\<rparr>) = gr_wf gr"
  "gr_wf (gr\<lparr>gr_lp_cap := m\<rparr>) = gr_wf gr" "gr_wf (gr\<lparr>gr_completion_tokens := k\<rparr>) = gr_wf gr"
  "gr_wf (gr\<lparr>gr_suppress_writes := c\<rparr>) = gr_wf gr"
  by (simp_all add: gr_wf_def)

lemma gr_wf_detach: "gr_wf gr \<Longrightarrow> gr_wf (gr\<lparr>gr_conn := False\<rparr>)"
  by (cases "gr_timer_inited gr"; cases "gr_state gr") (simp_all add: gr_wf_def)

lemma running_detach:
  assumes "running k st" "detach_conn st = (attached, st')"
  shows "if attached then detached st' else ended st'"
  using assms by (cases st) (auto simp: running_def detach_conn_def detached_def ended_def gr_inv_def gr_wf_detach
      split: if_splits)

lemma detached_role [simp]: "detached (gr\<lparr>gr_role_sent := b\<rparr>, cv) = detached (gr, cv)"
  by (simp add: detached_def)

lemma detached_mark: "detached st \<Longrightarrow> leads (mark_role_sent st) detached"
  by (cases st) (simp add: mark_role_sent_def)

lemma finish_error_inv: "running k st \<Longrightarrow> leads (finish_error env msg kind st) gr_inv"
proof -
  assume run: "running k st"
  obtain status ty code where e: "error_kind_map kind = (status, ty, code)"
    by (metis prod_cases3)
  obtain attached st' where d: "detach_conn st = (attached, st')"
    by (rule prod.exhaust)
  note det = running_detach [OF run d]
  have "leads (if \<not> attached then Some st' else if gr_suppress_writes (fst st') then close_conn st'
     else if gr_sse (fst st')
     then andthen (write_opt env (gen_sse_error_ex (ge_mem env) (ge_yy env) msg (Some ty) code) False st')
            (write_last env (sse_done (ge_mem env)))
     else write_last env (error_response env status msg ty code) st') ended"
    using det by (auto intro: detached_close detached_last leads_andthen [OF detached_opt detached_last])
  then show ?thesis
    by (simp add: finish_error_def e d leads_andthen [OF _ ended_teardown])
qed

lemma finish_flushed_detached: "detached st \<Longrightarrow> leads (finish_flushed env rest st) detached"
  using detached_wire [of st env _ False]
  by (cases st) (auto simp: finish_flushed_def detached_opt intro!: leads_andthen [where P = detached] detached_mark
      split: option.splits)

lemma finish_role_detached: "detached st \<Longrightarrow> leads (finish_role env st) detached"
  by (simp add: finish_role_def detached_opt)

lemma finish_usage_detached: "detached st \<Longrightarrow> leads (finish_usage env st) detached"
  by (simp add: finish_usage_def detached_opt)

lemma finish_sse_ended: "detached st \<Longrightarrow> leads (finish_sse env reason rest st) ended"
  unfolding finish_sse_def
  by (rule leads_andthen [where P = detached], rule leads_andthen [where P = detached])
    (auto intro!: leads_andthen [where P = detached] finish_flushed_detached finish_role_detached
      finish_usage_detached detached_opt detached_last)

lemma accum_append_shape:
  "accum_append mem gr s = Some gr' \<Longrightarrow> \<exists>a n. gr' = gr\<lparr>gr_accum := a, gr_accum_cap := n\<rparr>"
  by (cases gr) (auto simp: accum_append_def Let_def split: if_splits)

lemma lp_append_shape:
  "lp_append mem gr s lp = Some gr' \<Longrightarrow> \<exists>l n. gr' = gr\<lparr>gr_lp_entries := l, gr_lp_cap := n\<rparr>"
  by (cases gr) (auto simp: lp_append_def Let_def split: if_splits)

lemma running_updates [simp]:
  "running k (gr\<lparr>gr_accum := a, gr_accum_cap := n\<rparr>, cv) = running k (gr, cv)"
  "running k (gr\<lparr>gr_lp_entries := l, gr_lp_cap := m\<rparr>, cv) = running k (gr, cv)"
  "running k (gr\<lparr>gr_completion_tokens := i\<rparr>, cv) = running k (gr, cv)"
  "running k (gr\<lparr>gr_role_sent := b\<rparr>, cv) = running k (gr, cv)"
  "running k (gr\<lparr>gr_suppress_writes := b\<rparr>, cv) = running k (gr, cv)"
  by (simp_all add: running_def gr_inv_def)

lemma running_detok: "running k (gr, cv) \<Longrightarrow> running k (gr\<lparr>gr_detok := Some d\<rparr>, cv)"
  by (auto simp: running_def gr_inv_def gr_wf_def)

lemma running_cancel: "running k (gr, cv) \<Longrightarrow> leads (gr_cancel gr) (\<lambda>gr'. running k (gr', cv))"
  by (auto simp: running_def gr_inv_def gr_wf_def gr_cancel_def stream_cancel_def)

lemma finish_response_inv: "running k st \<Longrightarrow> leads (finish_response env reason st) gr_inv"
proof -
  assume run: "running k st"
  obtain gr cv where st: "st = (gr, cv)"
    by fastforce
  obtain d where d: "gr_detok gr = Some d"
    using run by (auto simp: st running_def gr_inv_def gr_wf_def)
  show ?thesis
  proof (cases "detok_flush (ge_mem env) d")
    case None
    then show ?thesis
      using run by (simp add: finish_response_def st d finish_error_inv)
  next
    case (Some p)
    obtain rest d' where p: "p = (rest, d')"
      by fastforce
    let ?gr = "gr\<lparr>gr_detok := Some d'\<rparr>"
    let ?acc = "if \<not> gr_sse gr \<and> bytes_str rest \<noteq> [] then accum_append (ge_mem env) ?gr (bytes_str rest) else Some ?gr"
    have run': "running k (?gr, cv)"
      using run by (simp add: st running_detok)
    show ?thesis
    proof (cases ?acc)
      case None
      then show ?thesis
        using finish_error_inv [OF run'] by (simp add: finish_response_def st d Some p Let_def)
    next
      case acc: (Some gr2)
      then have run2: "running k (gr2, cv)"
        using run' by (auto dest!: accum_append_shape split: if_splits)
      obtain attached st' where det: "detach_conn (gr2, cv) = (attached, st')"
        by (rule prod.exhaust)
      note dt = running_detach [OF run2 det]
      have "leads (if \<not> attached then Some st' else if gr_suppress_writes (fst st') then close_conn st'
         else if gr_sse (fst st') then finish_sse env reason (bytes_str rest) st'
         else write_last env (full_response env reason (fst st')) st') ended"
        using dt by (auto intro: detached_close detached_last finish_sse_ended)
      from leads_andthen [OF this ended_teardown] show ?thesis
        using acc by (simp add: finish_response_def st d Some p Let_def det)
    qed
  qed
qed

subsection \<open>The loop over the stream\<close>

text \<open>The two ways the handlers stay away from a freed stream: no write fails synchronously, or the
  engine still holds its reference.\<close>

definition safe_env :: "gen_env \<Rightarrow> nat \<Rightarrow> bool" where
  "safe_env env k \<longleftrightarrow> k = 2 \<or> (\<forall>n. ge_write_ok env n)"

lemma running_gone:
  assumes "running k (gr, cv)" "cv_observed cv" "view_ok cv'" "\<not> cv_observed cv'" "\<not> still_open (cv_acts cv')"
  shows "leads (on_conn_gone gr) (\<lambda>gr'. gr_inv (gr', cv') \<and> (gr_stream gr' \<noteq> None \<longrightarrow> running k (gr', cv')) \<and>
     (k = 2 \<longrightarrow> running k (gr', cv')))"
  using assms by (auto simp: running_def gr_inv_def gr_wf_def on_conn_gone_def gr_cancel_def try_teardown_def
      begin_close_def stream_cancel_def stream_sole_owner_def stream_release_def stream_set_notify_def)

definition step_ok :: "gen_env \<Rightarrow> nat \<Rightarrow> gsys \<Rightarrow> bool" where
  "step_ok env k st \<longleftrightarrow>
     gr_inv st \<and> (gr_stream (fst st) \<noteq> None \<longrightarrow> running k st) \<and> (safe_env env k \<longrightarrow> running k st)"

lemma running_step: "running k st \<Longrightarrow> step_ok env k st"
  by (simp add: step_ok_def running_def)

lemma running_close:
  assumes "running k (gr, cv)" "gr_conn gr"
  shows "leads (close_conn (gr, cv))
    (\<lambda>st. gr_inv st \<and> (gr_stream (fst st) \<noteq> None \<longrightarrow> running k st) \<and> (k = 2 \<longrightarrow> running k st))"
proof -
  let ?cv = "cv\<lparr>cv_closing := True, cv_acts := cv_acts cv @ [Shut], cv_observed := False\<rparr>"
  have i: "cv_observed cv" "\<not> cv_closing cv" "view_ok ?cv"
    using assms by (auto simp: running_def gr_inv_def view_ok_def acts_ok_shut dest: still_open_no_shut)
  have "leads (on_conn_gone gr) (\<lambda>gr'. gr_inv (gr', ?cv) \<and> (gr_stream gr' \<noteq> None \<longrightarrow> running k (gr', ?cv)) \<and>
     (k = 2 \<longrightarrow> running k (gr', ?cv)))"
    by (rule running_gone [OF assms(1) i(1) i(3)]) simp_all
  then show ?thesis
    using i by (simp add: close_conn_def)
qed

lemma running_wire:
  assumes "running k (gr, cv)" "gr_conn gr"
  shows "leads (http_conn_write env w False (gr, cv)) (step_ok env k)"
proof (cases "ge_write_ok env (cv_writes cv)")
  case True
  have "\<not> cv_closing cv"
    using assms by (auto simp: running_def gr_inv_def view_ok_def dest: still_open_no_shut)
  then show ?thesis
    using assms True by (auto simp: http_conn_write_def Let_def step_ok_def running_def gr_inv_def view_ok_def
        acts_ok_wire dest: still_open_no_shut)
next
  case False
  have "\<not> cv_closing cv" and "running k (gr, cv\<lparr>cv_writes := cv_writes cv + 1\<rparr>)"
    using assms by (auto simp: running_def gr_inv_def view_ok_def dest: still_open_no_shut)
  with running_close [OF this(2) assms(2)] False show ?thesis
    by (auto simp: http_conn_write_def Let_def step_ok_def safe_env_def elim!: leads_mono)
qed

lemma step_ok_role: "step_ok env k st \<Longrightarrow> leads (mark_role_sent st) (step_ok env k)"
  by (cases st) (auto simp: mark_role_sent_def step_ok_def gr_inv_def)

lemma running_opt:
  assumes "running k (gr, cv)" "gr_conn gr"
  shows "leads (write_opt env w False (gr, cv)) (step_ok env k)"
  using running_wire [OF assms] running_step [OF assms(1)] by (simp add: write_opt_def split: option.splits)

lemma emit_sse_chunk_ok: "running k st \<Longrightarrow> leads (emit_sse_chunk env txt lp st) (step_ok env k)"
proof -
  assume run: "running k st"
  obtain gr cv where st: "st = (gr, cv)"
    by fastforce
  have role: "leads (case w of None \<Rightarrow> Some (gr, cv)
      | Some sse \<Rightarrow> andthen (http_conn_write env sse False (gr, cv)) mark_role_sent) (step_ok env k)" if "gr_conn gr" for w
    using run that by (cases w) (auto simp: st running_step intro: leads_andthen [OF running_wire step_ok_role])
  show ?thesis
    using run by (simp add: emit_sse_chunk_def st Let_def role running_opt running_step)
qed

lemma step_ok_suppress [simp]: "step_ok env k (gr\<lparr>gr_suppress_writes := b\<rparr>, cv) = step_ok env k (gr, cv)"
  by (simp add: step_ok_def gr_inv_def)

lemma backpressure_ok: "step_ok env k st \<Longrightarrow> leads (backpressure env st) (step_ok env k)"
proof -
  assume ok: "step_ok env k st"
  obtain gr cv where st: "st = (gr, cv)"
    by fastforce
  show ?thesis
  proof (cases "gr_conn gr")
    case True
    then have "gr_stream gr \<noteq> None"
      using ok by (auto simp: st step_ok_def gr_inv_def gr_wf_def)
    then show ?thesis
      using ok by (auto simp: st backpressure_def step_ok_def gr_inv_def gr_wf_def running_def gr_cancel_def
          stream_cancel_def)
  qed (use ok in \<open>simp add: st backpressure_def\<close>)
qed

lemma async_fail_inv: "running k (gr, cv) \<Longrightarrow> leads (async_fail env msg (gr, cv)) gr_inv"
  by (rule leadsE [OF running_cancel]) (auto simp: async_fail_def intro: finish_error_inv)

definition chunk_ok :: "gen_env \<Rightarrow> nat \<Rightarrow> bool \<times> gsys \<Rightarrow> bool" where
  "chunk_ok env k r \<longleftrightarrow> (if fst r then step_ok env k (snd r) else gr_inv (snd r))"

lemma on_token_ok: "running k st \<Longrightarrow> leads (on_token env i lp st) (chunk_ok env k)"
proof -
  assume run0: "running k st"
  obtain gr0 cv where st: "st = (gr0, cv)"
    by fastforce
  define gr where "gr = gr0\<lparr>gr_completion_tokens := gr_completion_tokens gr0 + 1\<rparr>"
  have run: "running k (gr, cv)"
    using run0 by (simp add: st gr_def)
  obtain d where d: "gr_detok gr = Some d"
    using run by (auto simp: running_def gr_inv_def gr_wf_def)
  have d0: "gr_detok gr0 = Some d"
    using d by (simp add: gr_def)
  show ?thesis
  proof (cases "detok_feed (ge_mem env) d i")
    case None
    then show ?thesis
      using async_fail_inv [OF run]
      by (simp add: on_token_def st d0 chunk_ok_def flip: gr_def)
  next
    case (Some p)
    obtain piece d' where p: "p = (piece, d')"
      by fastforce
    have run1: "running k (gr\<lparr>gr_detok := Some d'\<rparr>, cv)"
      using run by (rule running_detok)
    have sse: "leads (andthen (if bytes_str piece \<noteq> [] then emit_sse_chunk env (bytes_str piece) lp (gr\<lparr>gr_detok := Some d'\<rparr>, cv)
        else Some (gr\<lparr>gr_detok := Some d'\<rparr>, cv)) (backpressure env)) (step_ok env k)"
      using emit_sse_chunk_ok [OF run1] running_step [OF run1]
      by (intro leads_andthen [where P = "step_ok env k"] backpressure_ok) auto
    have acc: "running k (gr2, cv)" if "accum_append (ge_mem env) (gr\<lparr>gr_detok := Some d'\<rparr>) s = Some gr2" for s gr2
      using accum_append_shape [OF that] run1 by auto
    have lp: "running k (gr3, cv)" if "running k (gr2, cv)" "lp_append (ge_mem env) gr2 s lp = Some gr3" for gr2 gr3 s
      using lp_append_shape [OF that(2)] that(1) by auto
    show ?thesis
      using d0 Some sse run1 async_fail_inv [OF run1]
      by (auto simp: on_token_def st Let_def p chunk_ok_def simp flip: gr_def split: option.splits
          intro: async_fail_inv [where k = k] running_step [where k = k] lp [OF acc] dest: acc)
  qed
qed

lemma on_chunk_ok: "running k st \<Longrightarrow> leads (on_chunk env c st) (chunk_ok env k)"
  by (cases c) (auto simp: on_chunk_def on_token_ok chunk_ok_def finish_error_inv finish_response_inv)

lemma stream_next_refcount: "stream_next s t = Some (r, s') \<Longrightarrow> s_refcount s' = s_refcount s"
  by (auto simp: stream_next_def split: if_splits)

lemma running_next:
  "running k st \<Longrightarrow> gr_stream (fst st) = Some s \<Longrightarrow> s_refcount s' = s_refcount s \<Longrightarrow>
   running k ((fst st)\<lparr>gr_stream := Some s'\<rparr>, snd st)"
  by (auto simp: running_def gr_inv_def gr_wf_def)

lemma async_loop_ok:
  assumes "step_ok env k st"
  shows "case async_loop env n st of None \<Rightarrow> \<not> safe_env env k | Some st' \<Rightarrow> gr_inv st'"
  using assms
proof (induction n arbitrary: st)
  case 0
  then show ?case
    by (auto simp: async_loop.simps step_ok_def running_def split: option.splits)
next
  case (Suc n)
  show ?case
  proof (cases "gr_stream (fst st)")
    case None
    then show ?thesis
      using Suc.prems by (auto simp: async_loop.simps [of env "Suc n"] step_ok_def running_def)
  next
    case (Some s)
    then have run: "running k st"
      using Suc.prems by (simp add: step_ok_def)
    show ?thesis
    proof (cases "\<exists>c s'. stream_next s 0 = Some (Some c, s')")
      case True
      then obtain c s' where nx: "stream_next s 0 = Some (Some c, s')"
        by blast
      have "running k ((fst st)\<lparr>gr_stream := Some s'\<rparr>, snd st)"
        using run Some stream_next_refcount [OF nx] by (rule running_next)
      from on_chunk_ok [OF this, of env c] obtain b st' where
        ch: "on_chunk env c ((fst st)\<lparr>gr_stream := Some s'\<rparr>, snd st) = Some (b, st')" "chunk_ok env k (b, st')"
        by (auto simp: leads_def)
      show ?thesis
      proof (cases b)
        case True
        have ok: "step_ok env k st'"
          using ch(2) True by (simp add: chunk_ok_def)
        have "async_loop env (Suc n) st = async_loop env n st'"
          using Some nx ch(1) True by (simp add: async_loop.simps [of env "Suc n"])
        then show ?thesis
          using Suc.IH [OF ok] by simp
      next
        case False
        then show ?thesis
          using Some nx ch by (simp add: async_loop.simps [of env "Suc n"] chunk_ok_def)
      qed
    next
      case False
      then show ?thesis
        using Some run by (auto simp: async_loop.simps [of env "Suc n"] running_def split: option.splits)
    qed
  qed
qed

subsection \<open>Reachable states\<close>

text \<open>What the engine thread does to the stream while it holds its reference.\<close>

inductive engine_step :: "stream \<Rightarrow> stream \<Rightarrow> bool" where
  push: "stream_push s c = Some (ok, s') \<Longrightarrow> engine_step s s'"
| finish: "engine_step s (stream_finish_cancelled s)"
| release: "stream_release (Some s) = Some s' \<Longrightarrow> engine_step s s'"

inductive gr_reach :: "gen_env \<Rightarrow> gsys \<Rightarrow> bool" for env where
  start: "gen_request_start se p cv = Some (Inr (st, cmd)) \<Longrightarrow> se_env se = env \<Longrightarrow> \<not> cv_closing cv \<Longrightarrow>
     still_open (cv_acts cv) \<Longrightarrow> gr_reach env st"
| engine: "gr_reach env (gr, cv) \<Longrightarrow> gr_stream gr = Some s \<Longrightarrow> s_refcount s = 2 \<Longrightarrow> engine_step s s' \<Longrightarrow>
     gr_reach env (gr\<lparr>gr_stream := Some s'\<rparr>, cv)"
| async: "gr_reach env st \<Longrightarrow> gen_on_async env n st = Some st' \<Longrightarrow> gr_reach env st'"
| gone: "gr_reach env st \<Longrightarrow> close_conn st = Some st' \<Longrightarrow> gr_reach env st'"
| drain: "gr_reach env (gr, cv) \<Longrightarrow> gen_request_drain gr = Some gr' \<Longrightarrow> gr_reach env (gr', cv)"
| timer: "gr_reach env (gr, cv) \<Longrightarrow> gr_timer_inited gr \<Longrightarrow> on_timer gr = Some gr' \<Longrightarrow> gr_reach env (gr', cv)"
| closed: "gr_reach env (gr, cv) \<Longrightarrow> 0 < gr_pending_closes gr \<Longrightarrow> gr_reach env (on_close_cb gr, cv)"

lemma engine_step_refcount: "engine_step s s' \<Longrightarrow> s_refcount s = 2 \<Longrightarrow> s_refcount s' = 1 \<or> s_refcount s' = 2"
  by (induction rule: engine_step.induct)
    (auto simp: stream_push_def stream_finish_cancelled_def stream_notify_def stream_release_def Let_def split: if_splits)

lemma gr_inv_cases:
  assumes "gr_inv st"
  obtains (closing) "gr_state (fst st) = GR_CLOSING" "gr_stream (fst st) = None"
  | (run) k where "k = 1 \<or> k = 2" "running k st" "gr_state (fst st) = GR_RUNNING"
proof (cases "gr_stream (fst st)")
  case None
  then show ?thesis
    using assms closing by (simp add: gr_inv_def gr_wf_def)
next
  case (Some s)
  then have "gr_state (fst st) = GR_RUNNING" "s_refcount s = 1 \<or> s_refcount s = 2"
    using assms by (auto simp: gr_inv_def gr_wf_def intro: gr_state.exhaust)
  then show ?thesis
    using assms Some by (intro run [of "s_refcount s"]) (simp_all add: running_def)
qed

lemma gen_on_async_inv:
  assumes "gr_inv st"
  shows "case gen_on_async env n st of
      None \<Rightarrow> \<not> (\<forall>m. ge_write_ok env m) \<and> (\<exists>s. gr_stream (fst st) = Some s \<and> s_refcount s = 1)
    | Some st' \<Rightarrow> gr_inv st'"
  using assms
proof (cases rule: gr_inv_cases)
  case closing
  then show ?thesis
    using assms by (simp add: gen_on_async_def)
next
  case (run k)
  then show ?thesis
    using async_loop_ok [OF running_step [OF run(2)], of env n]
    by (auto simp: gen_on_async_def safe_env_def running_def split: option.splits)
qed

lemma close_conn_inv: "gr_inv st \<Longrightarrow> leads (close_conn st) gr_inv"
proof -
  assume inv: "gr_inv st"
  obtain gr cv where st: "st = (gr, cv)"
    by fastforce
  show ?thesis
  proof (cases "gr_conn gr")
    case True
    with inv show ?thesis
    proof (cases rule: gr_inv_cases)
      case closing
      then show ?thesis
        using inv True by (auto simp: st gr_inv_def gr_wf_def)
    next
      case (run k)
      then show ?thesis
        using running_close [of k gr cv] True by (auto simp: st elim!: leads_mono)
    qed
  next
    case False
    then show ?thesis
      using inv by (auto simp: st close_conn_def gr_inv_def view_ok_def acts_ok_shut)
  qed
qed

lemma gr_wf_close_cb: "gr_wf gr \<Longrightarrow> 0 < gr_pending_closes gr \<Longrightarrow> gr_wf (on_close_cb gr)"
  by (cases "gr_state gr"; cases "gr_timer_inited gr") (auto simp: gr_wf_def on_close_cb_def Let_def)

lemma on_timer_inv:
  assumes "gr_inv (gr, cv)" "gr_timer_inited gr"
  shows "leads (on_timer gr) (\<lambda>gr'. gr_inv (gr', cv))"
  using assms(1)
proof (cases rule: gr_inv_cases)
  case closing
  then show ?thesis
    using assms by (simp add: on_timer_def)
next
  case (run k)
  have "ended (gr, cv)"
    using assms run by (auto simp: ended_def gr_inv_def gr_wf_def)
  then show ?thesis
    using ended_teardown [of "(gr, cv)"] assms
    by (auto simp: teardown_def try_teardown_def on_timer_def ended_def split: option.splits if_splits)
qed

lemma drain_inv:
  assumes "gr_inv (gr, cv)"
  shows "leads (gen_request_drain gr) (\<lambda>gr'. gr_inv (gr', cv))"
  using assms
proof (cases rule: gr_inv_cases)
  case closing
  then show ?thesis
    using assms by (simp add: gen_request_drain_def)
next
  case (run k)
  from running_cancel [OF run(2)] have "leads (gr_cancel gr) (\<lambda>gr'. gr_inv (gr', cv))"
    by (rule leads_mono) (simp add: running_def)
  then show ?thesis
    using run by (simp add: gen_request_drain_def)
qed

lemma gen_request_start_inv:
  assumes "gen_request_start se p cv = Some (Inr (st, cmd))" "\<not> cv_closing cv" "still_open (cv_acts cv)"
  shows "gr_inv st"
proof -
  have new: "running (if acc then 2 else 1) (start_request se p i (post_stream acc (stream_set_notify (stream_retain s) True)) d w m,
      cv\<lparr>cv_observed := True\<rparr>)" if "stream_create mem a b c = Some s" for mem a b c s d w m i acc
    using that assms(2,3)
    using replicate_Suc [of 63 zero_chunk]
  by (auto simp: stream_create_def post_stream_def start_request_def running_def gr_inv_def gr_wf_def view_ok_def
        stream_set_notify_def stream_retain_def stream_release_def stream_finish_cancelled_def stream_notify_def Let_def
        dest: still_open_no_shut acts_ok_open split: if_splits)
  have *: "gr_inv st'"
    if "stream_create mem a b c = Some s"
      "write_opt env h False (start_request se p i (post_stream acc (stream_set_notify (stream_retain s) True)) d w m,
        cv\<lparr>cv_observed := True\<rparr>) = Some st'"
    for mem a b c s d w m i acc env h st'
    using running_opt [OF new [OF that(1), where i = i and d = d and w = w and m = m and acc = acc], where env = env and w = h] that(2)
    by (auto simp: start_request_def step_ok_def)
  show ?thesis
    using assms(1) by (auto simp: gen_request_start_def start_alloc_def Let_def intro: * split: option.splits if_splits sum.splits prod.splits)
qed

lemma gr_reach_inv: "gr_reach env st \<Longrightarrow> gr_inv st"
proof (induction rule: gr_reach.induct)
  case (start se p cv st cmd)
  then show ?case
    by (blast intro: gen_request_start_inv)
next
  case (engine gr cv s s')
  then show ?case
    using engine_step_refcount [OF engine(4,3)] by (auto simp: gr_inv_def gr_wf_def)
next
  case (async st n st')
  then show ?case
    using gen_on_async_inv [of st env n] by simp
next
  case (gone st st')
  then show ?case
    using close_conn_inv [of st] by simp
next
  case (drain gr cv gr')
  then show ?case
    using drain_inv [of gr cv] by simp
next
  case (timer gr cv gr')
  then show ?case
    using on_timer_inv [of gr cv] by simp
next
  case (closed gr cv)
  then have "gr_wf (on_close_cb gr)"
    by (simp add: gr_inv_def gr_wf_close_cb)
  then show ?case
    using closed by (auto simp: gr_inv_def on_close_cb_def Let_def)
qed

text \<open>C30. Whatever the engine, the peer, the timers and the writes do, a generation request ends its
  connection exactly once: it performs writes, then one ending action, and nothing after it. The
  observer is installed exactly while the connection is live for the request, a request that is
  closing has let go of it, the object is freed when the last handle is closed, and no handler uses
  a freed stream unless a write fails synchronously after the engine let go of the stream.\<close>

theorem gen_request_ends_once:
  assumes "gr_reach env (gr, cv)"
  shows "acts_ok (cv_acts cv) \<and> (cv_closing cv \<longleftrightarrow> Shut \<in> set (cv_acts cv)) \<and>
    (gr_conn gr \<longleftrightarrow> still_open (cv_acts cv)) \<and> (cv_observed cv \<longleftrightarrow> gr_conn gr) \<and>
    (gr_state gr = GR_CLOSING \<longrightarrow> \<not> gr_conn gr \<and> gr_stream gr = None) \<and>
    (gr_freed gr \<longleftrightarrow> gr_state gr = GR_CLOSING \<and> gr_pending_closes gr = 0) \<and>
    close_conn (gr, cv) \<noteq> None \<and> gen_request_drain gr \<noteq> None \<and> on_timer gr \<noteq> None \<and>
    (gen_on_async env n (gr, cv) = None \<longrightarrow>
      (\<exists>s. gr_stream gr = Some s \<and> stream_sole_owner s) \<and> (\<exists>m. \<not> ge_write_ok env m))"
proof -
  have inv: "gr_inv (gr, cv)"
    using assms by (rule gr_reach_inv)
  have "on_timer gr \<noteq> None"
    using inv by (cases rule: gr_inv_cases) (auto simp: on_timer_def running_def)
  moreover have "close_conn (gr, cv) \<noteq> None" "gen_request_drain gr \<noteq> None"
    using close_conn_inv [OF inv] drain_inv [OF inv] by (auto simp: leads_def)
  moreover have "gen_on_async env n (gr, cv) = None \<longrightarrow>
      (\<exists>s. gr_stream gr = Some s \<and> stream_sole_owner s) \<and> (\<exists>m. \<not> ge_write_ok env m)"
    using gen_on_async_inv [OF inv, of env n] by (auto simp: stream_sole_owner_def)
  ultimately show ?thesis
    using inv by (auto simp: gr_inv_def gr_wf_def view_ok_def)
qed

text \<open>A streamed completion of an empty prompt whose peer closes after the engine is done.\<close>

definition sample_gen_env :: gen_env where
  "sample_gen_env = \<lparr>ge_mem = (\<lambda>_. True), ge_yy = \<lparr>yy_new = True, yy_read = (\<lambda>_. None), yy_write = (\<lambda>_. Some ''{}'')\<rparr>,
     ge_write_ok = (\<lambda>_. True), ge_queue = (\<lambda>_. 0)\<rparr>"

definition sample_start_env :: start_env where
  "sample_start_env = \<lparr>se_env = sample_gen_env, se_normalise = (\<lambda>_ t. Some t), se_jinja = (\<lambda>_ _ _ _ _. Inl None),
     se_sizeof_stream = 200, se_sizeof_chunk = 24, se_sizeof_gr = 400, se_sizeof_cmd = 100, se_random = (0, 0, 0),
     se_time = 0, se_async_init_ok = True, se_engine_accepts = False\<rparr>"

definition sample_start :: gen_request_start_params where
  "sample_start = \<lparr>gs_ctx = \<lparr>sv_tokenizer = Some split_tok, sv_chat_template = None, sv_model_id = None\<rparr>,
     gs_chat = False, gs_stream = False, gs_include_usage = False, gs_model_id = None, gs_params = gen_params_init,
     gs_messages_json = None, gs_tools_json = None, gs_extra_json = None, gs_prompt = []\<rparr>"

definition sample_view :: conn_view where
  "sample_view = \<lparr>cv_acts = [], cv_writes = 0, cv_observed = False, cv_closing = False\<rparr>"

definition gr_sample_stream :: stream where
  "gr_sample_stream = \<lparr>s_buf = CHUNK_DONE FINISH_CANCELLED # replicate 63 zero_chunk, s_cap = 64, s_len = 1,
     s_read_pos = 0, s_cancelled = True, s_refcount = 1, s_on_push = True, s_notified = 1\<rparr>"

definition sample_request :: "string \<Rightarrow> gen_request" where
  "sample_request i = start_request sample_start_env sample_start 0 gr_sample_stream
     \<lparr>dt_tok = split_tok, dt_buf = [], dt_cap = 0\<rparr> i ''unknown''"

lemma sample_prompt: "gen_build_completion_prompt (\<lambda>_. True) nrm split_tok [] = Some (Inr [])"
  by (simp add: gen_build_completion_prompt_def tokenizer_encode_alloc_def encode_alloc_impl_def split_tok_def Let_def
      encode_scan.simps encode_gap_def idbuf_empty_def str_bytes_def c_str_def INT_MAX_def)

lemma sample_posted:
  "stream_create (\<lambda>_. True) a b 64 = Some s \<Longrightarrow>
   post_stream False (stream_set_notify (stream_retain s) True) = gr_sample_stream"
  using replicate_Suc [of 63 zero_chunk]
  by (auto simp: stream_create_def post_stream_def stream_set_notify_def stream_retain_def stream_release_def
      stream_finish_cancelled_def stream_notify_def gr_sample_stream_def Let_def split: if_splits)

lemma sample_start_ok:
  "\<exists>i cmd. gen_request_start sample_start_env sample_start sample_view =
     Some (Inr ((sample_request i, sample_view\<lparr>cv_observed := True\<rparr>), cmd))"
proof -
  obtain s where s: "stream_create (\<lambda>_. True) 200 24 64 = Some s"
    by (simp add: stream_create_def)
  have "c_strdup (\<lambda>_. True) ''unknown'' = Some ''unknown''"
    by code_simp
  then show ?thesis
    using s sample_posted [OF s]
    by (simp add: gen_request_start_def sample_start_def sample_start_env_def sample_gen_env_def start_prompt_def
        sample_prompt start_alloc_def detok_create_def split_tok_fields gen_make_id_def Let_def write_opt_def
        sample_request_def) (rule exI, rule refl)
qed

lemma sample_closed:
  "\<exists>gr cv. close_conn (sample_request i, sample_view\<lparr>cv_observed := True\<rparr>) = Some (gr, cv) \<and>
     cv_acts cv = [Shut] \<and> gr_state gr = GR_CLOSING \<and> gr_pending_closes gr = 1"
  by (simp add: close_conn_def sample_view_def sample_request_def start_request_def on_conn_gone_def gr_cancel_def
      try_teardown_def stream_sole_owner_def stream_cancel_def gr_sample_stream_def begin_close_def)

theorem gen_request_ends_once_witness:
  "\<exists>gr cv. gr_reach sample_gen_env (gr, cv) \<and> cv_acts cv = [Shut] \<and> \<not> gr_conn gr \<and> gr_state gr = GR_CLOSING \<and>
     gr_pending_closes gr = 1 \<and> \<not> gr_freed gr"
proof -
  obtain i cmd where start: "gen_request_start sample_start_env sample_start sample_view =
     Some (Inr ((sample_request i, sample_view\<lparr>cv_observed := True\<rparr>), cmd))"
    using sample_start_ok by blast
  obtain gr cv where close: "close_conn (sample_request i, sample_view\<lparr>cv_observed := True\<rparr>) = Some (gr, cv)"
    and v: "cv_acts cv = [Shut]" "gr_state gr = GR_CLOSING" "gr_pending_closes gr = 1"
    using sample_closed by blast
  have "gr_reach sample_gen_env (sample_request i, sample_view\<lparr>cv_observed := True\<rparr>)"
    using gr_reach.start [OF start] by (simp add: sample_start_env_def sample_view_def)
  from gr_reach.gone [OF this close] have r: "gr_reach sample_gen_env (gr, cv)" .
  from gen_request_ends_once [OF this] r v show ?thesis
    by auto
qed

text \<open>The exception exists: when the engine has let go of the stream and the write of a chunk fails
  synchronously, the observer frees the stream and the loop asks the \<open>NULL\<close> stream for the next chunk.\<close>

lemma gen_on_async_null_stream:
  assumes "running 1 (gr, cv)" "gr_sse gr" "\<not> gr_chat gr" "gr_conn gr" "\<not> gr_conn_gone gr" "\<not> gr_suppress_writes gr"
    "gr_stream gr = Some s" "stream_next s 0 = Some (Some (CHUNK_TOKEN i lp), s')"
    "gr_detok gr = Some d" "detok_feed (ge_mem env) d i = Some (piece, d')" "bytes_str piece \<noteq> []"
    "\<And>p. completion_chunk env p = Some w" "\<not> ge_write_ok env (cv_writes cv)"
  shows "gen_on_async env (Suc n) (gr, cv) = None"
proof -
  let ?gr = "gr\<lparr>gr_stream := Some s', gr_completion_tokens := gr_completion_tokens gr + 1, gr_detok := Some d'\<rparr>"
  have inv: "cv_observed cv" "\<not> cv_closing cv" "gr_state gr = GR_RUNNING" "s_refcount s' = 1"
    using assms(1,4,7) stream_next_refcount [OF assms(8)]
    by (auto simp: running_def gr_inv_def gr_wf_def view_ok_def dest: still_open_no_shut intro: gr_state.exhaust)
  have "\<exists>gr' cv'. http_conn_write env w False (?gr, cv) = Some (gr', cv') \<and> gr_stream gr' = None \<and> gr_conn_gone gr'"
    using assms(13) inv
    by (simp add: http_conn_write_def close_conn_def on_conn_gone_def gr_cancel_def try_teardown_def
        stream_sole_owner_def stream_cancel_def begin_close_def stream_release_def stream_set_notify_def)
  then obtain gr' cv' where w: "http_conn_write env w False (?gr, cv) = Some (gr', cv')" "gr_stream gr' = None" "gr_conn_gone gr'"
    by blast
  have "on_chunk env (CHUNK_TOKEN i lp) (gr\<lparr>gr_stream := Some s'\<rparr>, cv) = Some (True, gr', cv')"
    using assms(2-6,9-12) w by (simp add: on_chunk_def on_token_def emit_sse_chunk_def write_opt_def andthen_def backpressure_def)
  then show ?thesis
    using inv(3) assms(7,8) w(2) by (simp add: gen_on_async_def async_loop.simps [of env "Suc n"] async_loop.simps [of env n])
qed

end
