(* ===== verification/HttpHandler.thy ===== *)
theory HttpHandler
  imports HttpRouter GenRequestSafe TokScan
begin

text \<open>
  The endpoint handlers of \<open>src/http/handler.c\<close>. A handler fills in a response or starts an
  asynchronous generation and defers it; the result \<open>None\<close> is the use of a \<open>NULL\<close> pointer. The models
  found on disk are a parameter.
\<close>

record http_response =
  rs_status :: int
  rs_content_type :: "string option"
  rs_body :: "string option"
  rs_body_len :: nat
  rs_deferred :: bool

definition http_response0 :: http_response where
  "http_response0 = \<lparr>rs_status = 0, rs_content_type = None, rs_body = None, rs_body_len = 0, rs_deferred = False\<rparr>"

text \<open>The end of every handler that built a document: status 500 when it cannot be written.\<close>

definition respond_json :: "yyjson_api \<Rightarrow> http_response \<Rightarrow> int \<Rightarrow> json \<Rightarrow> http_response" where
  "respond_json yy resp status doc =
     (case serialize_mut_root yy doc of
        None \<Rightarrow> resp\<lparr>rs_status := 500\<rparr>
      | Some js \<Rightarrow> resp\<lparr>rs_body := Some js, rs_body_len := length js, rs_status := status\<rparr>)"

definition respond_json_error ::
  "yyjson_api \<Rightarrow> http_response \<Rightarrow> int \<Rightarrow> string \<Rightarrow> string option \<Rightarrow> string option \<Rightarrow> http_response" where
  "respond_json_error yy resp status ty code msg =
     respond_json yy (resp\<lparr>rs_content_type := Some ''application/json''\<rparr>) status
       (error_envelope_serialize msg (Some ty) code)"

text \<open>\<open>sizeof(model_info_t)\<close> is 24.\<close>

definition handle_models :: "allocator \<Rightarrow> yyjson_api \<Rightarrow> (string option \<times> int) list \<Rightarrow> http_response" where
  "handle_models mem yy found =
     (let resp = http_response0\<lparr>rs_content_type := Some ''application/json''\<rparr> in
      if found \<noteq> [] \<and> \<not> mem (length found * 24) then resp\<lparr>rs_status := 500\<rparr>
      else respond_json yy resp 200 (model_list_serialize
             (map (\<lambda>(i, t). \<lparr>mi_id = i, mi_created = t, mi_owned_by = Some ''mlxd''\<rparr>) found)))"

text \<open>The document of a request body; a missing body is no document.\<close>

definition body_json :: "yyjson_api \<Rightarrow> string option \<Rightarrow> json option" where
  "body_json yy body = (case body of None \<Rightarrow> None | Some b \<Rightarrow> yy_read yy b)"

definition bad_request :: "yyjson_api \<Rightarrow> string \<Rightarrow> http_response" where
  "bad_request yy msg = respond_json_error yy http_response0 400 ''invalid_request_error'' None (Some msg)"

definition handle_embeddings :: "allocator \<Rightarrow> yyjson_api \<Rightarrow> string option \<Rightarrow> http_response" where
  "handle_embeddings mem yy body =
     (case body_json yy body of
        None \<Rightarrow> bad_request yy ''Invalid JSON in request body''
      | Some rt \<Rightarrow>
          (case embedding_request_parse mem (Some rt) of
             Inl e \<Rightarrow> bad_request yy e
           | Inr _ \<Rightarrow> respond_json_error yy http_response0 501 ''not_implemented_error'' (Some ''not_implemented'')
                       (Some ''Embeddings are not yet implemented'')))"

definition error_type_for_status :: "int \<Rightarrow> string" where
  "error_type_for_status status =
     (if status = 400 then ''invalid_request_error''
      else if status = 503 then ''service_unavailable'' else ''server_error'')"

type_synonym handled = "(http_response \<times> (gsys \<times> generate_cmd) option) option"

definition respond :: "http_response \<Rightarrow> handled" where
  "respond resp = Some (resp, None)"

definition model_not_loaded :: "yyjson_api \<Rightarrow> http_response" where
  "model_not_loaded yy = respond_json_error yy http_response0 503 ''service_unavailable'' (Some ''model_not_loaded'')
     (Some ''No model loaded'')"

definition no_memory :: "yyjson_api \<Rightarrow> http_response" where
  "no_memory yy = respond_json_error yy http_response0 500 ''server_error'' None (Some ''out of memory'')"

text \<open>Start the generation and defer the response, or report why it did not start.\<close>

definition start_deferred :: "start_env \<Rightarrow> gen_request_start_params \<Rightarrow> conn_view \<Rightarrow> handled" where
  "start_deferred se p cv =
     (case gen_request_start se p cv of
        None \<Rightarrow> None
      | Some (Inl (rc, err)) \<Rightarrow>
          respond (respond_json_error (ge_yy (se_env se)) http_response0 rc (error_type_for_status rc) None (Some err))
      | Some (Inr started) \<Rightarrow> Some (http_response0\<lparr>rs_deferred := True\<rparr>, Some started))"

text \<open>The \<open>enable_thinking\<close> extension.\<close>

definition thinking_json :: "json \<Rightarrow> string + string option" where
  "thinking_json rt =
     (case yyjson_obj_get (Some rt) ''enable_thinking'' of
        None \<Rightarrow> Inr None
      | Some et \<Rightarrow>
          if yyjson_is_bool (Some et)
          then Inr (Some (if yyjson_get_bool (Some et) then ''{\"enable_thinking\":true}'' else ''{\"enable_thinking\":false}''))
          else Inl ''enable_thinking must be a boolean'')"

definition chat_start_params ::
  "yyjson_api \<Rightarrow> serve_ctx \<Rightarrow> json \<Rightarrow> chat_completion_request \<Rightarrow> string \<Rightarrow> string option \<Rightarrow> gen_request_start_params" where
  "chat_start_params yy sctx rt creq messages_json extra_json =
     \<lparr>gs_ctx = sctx, gs_chat = True, gs_stream = gp_stream (ccr_params creq), gs_include_usage = ccr_include_usage creq,
      gs_model_id = sv_model_id sctx, gs_params = ccr_params creq, gs_messages_json = Some messages_json,
      gs_tools_json = json_val_dup (yy_write yy) (yyjson_obj_get (Some rt) ''tools''), gs_extra_json = extra_json,
      gs_prompt = []\<rparr>"

definition handle_chat_completions :: "start_env \<Rightarrow> serve_ctx \<Rightarrow> string option \<Rightarrow> conn_view \<Rightarrow> handled" where
  "handle_chat_completions se sctx body cv =
     (let yy = ge_yy (se_env se); mem = ge_mem (se_env se) in
      if sv_tokenizer sctx = None then respond (model_not_loaded yy)
      else if sv_chat_template sctx = None then respond (bad_request yy ''Chat template not configured'')
      else case body_json yy body of
        None \<Rightarrow> respond (bad_request yy ''Invalid JSON in request body'')
      | Some rt \<Rightarrow>
      (case chat_completion_request_parse mem (yy_write yy) (Some rt) of
        Inl e \<Rightarrow> respond (bad_request yy e)
      | Inr creq \<Rightarrow>
      (case sampling_params_validate (gp_sampling (ccr_params creq)) of
        Inl e \<Rightarrow> respond (bad_request yy e)
      | Inr _ \<Rightarrow>
      (case thinking_json rt of
        Inl e \<Rightarrow> respond (bad_request yy e)
      | Inr extra_json \<Rightarrow>
      if \<not> yy_new yy then respond (no_memory yy)
      else case messages_template_serialize mem (ccr_messages creq) of
        None \<Rightarrow> respond (no_memory yy)
      | Some arr \<Rightarrow>
      (case serialize_mut_root yy arr of
        None \<Rightarrow> respond (no_memory yy)
      | Some messages_json \<Rightarrow>
          start_deferred se (chat_start_params yy sctx rt creq messages_json extra_json) cv)))))"

definition completion_start_params :: "serve_ctx \<Rightarrow> completion_request \<Rightarrow> string \<Rightarrow> gen_request_start_params" where
  "completion_start_params sctx creq prompt =
     \<lparr>gs_ctx = sctx, gs_chat = False, gs_stream = gp_stream (cr_params creq), gs_include_usage = False,
      gs_model_id = sv_model_id sctx, gs_params = cr_params creq, gs_messages_json = None, gs_tools_json = None,
      gs_extra_json = None, gs_prompt = prompt\<rparr>"

definition handle_completions :: "start_env \<Rightarrow> serve_ctx \<Rightarrow> string option \<Rightarrow> conn_view \<Rightarrow> handled" where
  "handle_completions se sctx body cv =
     (let yy = ge_yy (se_env se); mem = ge_mem (se_env se) in
      if sv_tokenizer sctx = None then respond (model_not_loaded yy)
      else case body_json yy body of
        None \<Rightarrow> respond (bad_request yy ''Invalid JSON in request body'')
      | Some rt \<Rightarrow>
      (case completion_request_parse mem (Some rt) of
        Inl e \<Rightarrow> respond (bad_request yy e)
      | Inr creq \<Rightarrow>
      (case sampling_params_validate (gp_sampling (cr_params creq)) of
        Inl e \<Rightarrow> respond (bad_request yy e)
      | Inr _ \<Rightarrow>
      (case cr_prompt creq of
        None \<Rightarrow> None
      | Some prompt \<Rightarrow> start_deferred se (completion_start_params sctx creq prompt) cv))))"

subsection \<open>Registration\<close>

datatype handler = Handle_models | Handle_embeddings | Handle_chat_completions | Handle_completions

text \<open>The result of an addition is ignored.\<close>

definition register_route :: "allocator \<Rightarrow> string \<Rightarrow> string \<Rightarrow> handler \<Rightarrow> handler http_router \<Rightarrow> handler http_router" where
  "register_route mem meth path fn r = (case http_router_add mem r meth path fn of None \<Rightarrow> r | Some r' \<Rightarrow> r')"

definition handler_register_all :: "allocator \<Rightarrow> handler http_router \<Rightarrow> handler http_router" where
  "handler_register_all mem r =
     register_route mem ''POST'' ''/v1/completions'' Handle_completions
     (register_route mem ''POST'' ''/v1/chat/completions'' Handle_chat_completions
     (register_route mem ''POST'' ''/v1/embeddings'' Handle_embeddings
     (register_route mem ''GET'' ''/v1/models'' Handle_models r)))"

definition run_handler ::
  "start_env \<Rightarrow> serve_ctx \<Rightarrow> (string option \<times> int) list \<Rightarrow> handler \<Rightarrow> string option \<Rightarrow> conn_view \<Rightarrow> handled" where
  "run_handler se sctx found h body cv =
     (let yy = ge_yy (se_env se); mem = ge_mem (se_env se) in
      case h of
        Handle_models \<Rightarrow> respond (handle_models mem yy found)
      | Handle_embeddings \<Rightarrow> respond (handle_embeddings mem yy body)
      | Handle_chat_completions \<Rightarrow> handle_chat_completions se sctx body cv
      | Handle_completions \<Rightarrow> handle_completions se sctx body cv)"

subsection \<open>Errors\<close>

text \<open>The statuses of the error responses with the error type each carries.\<close>

definition error_table :: "(int \<times> string) set" where
  "error_table = {(400, ''invalid_request_error''), (500, ''server_error''), (501, ''not_implemented_error''),
     (503, ''service_unavailable'')}"

text \<open>An error response: the envelope with the type of its status, or status 500 with no body when even
  that could not be written.\<close>

definition error_response_ok :: "yyjson_api \<Rightarrow> http_response \<Rightarrow> bool" where
  "error_response_ok yy rs \<longleftrightarrow>
     rs_content_type rs = Some ''application/json'' \<and> \<not> rs_deferred rs \<and>
     (case rs_body rs of
        None \<Rightarrow> rs_status rs = 500
      | Some b \<Rightarrow> rs_body_len rs = length b \<and>
          (\<exists>ty msg code. (rs_status rs, ty) \<in> error_table \<and>
             serialize_mut_root yy (error_envelope_serialize (Some msg) (Some ty) code) = Some b))"

lemma respond_json_error_ok:
  "(status, ty) \<in> error_table \<Longrightarrow> error_response_ok yy (respond_json_error yy http_response0 status ty code (Some msg))"
  by (auto simp: error_response_ok_def respond_json_error_def respond_json_def http_response0_def split: option.splits)

lemma bad_request_ok: "error_response_ok yy (bad_request yy msg)"
  by (simp add: bad_request_def respond_json_error_ok error_table_def)

lemma model_not_loaded_ok: "error_response_ok yy (model_not_loaded yy)"
  by (simp add: model_not_loaded_def respond_json_error_ok error_table_def)

lemma no_memory_ok: "error_response_ok yy (no_memory yy)"
  by (simp add: no_memory_def respond_json_error_ok error_table_def)

lemma start_alloc_cases:
  "(\<And>msg. P (fail msg)) \<Longrightarrow> (\<And>s d i m h. P (ok s d i m h)) \<Longrightarrow> P (start_alloc se p tok fail ok)"
  by (simp add: start_alloc_def Let_def split: option.split)

lemma gen_request_start_status:
  assumes "gen_request_start se p cv = Some (Inl (rc, err))"
  shows "rc = 400 \<or> rc = 500 \<or> rc = 503"
proof (cases "sv_tokenizer (gs_ctx p) = None \<or> gs_chat p \<and> sv_chat_template (gs_ctx p) = None")
  case True
  then show ?thesis
    using assms by (auto simp: gen_request_start_def split: option.splits)
next
  case False
  then obtain tok where tok: "sv_tokenizer (gs_ctx p) = Some tok" "\<not> (gs_chat p \<and> sv_chat_template (gs_ctx p) = None)"
    by auto
  show ?thesis
  proof (cases "start_prompt se p tok")
    case (Some r)
    show ?thesis
    proof (cases r)
      case (Inl e)
      then show ?thesis
        using assms tok Some by (cases e) (auto simp: gen_request_start_def split: if_splits)
    next
      case (Inr ids)
      have "start_alloc se p tok (\<lambda>msg. Some (Inl (500, msg)))
                 (\<lambda>s d i model head.
                    if \<not> se_async_init_ok se then Some (Inl (500, ''uv_async_init failed''))
                    else let s = post_stream (se_engine_accepts se) (stream_set_notify s True);
                             gr = start_request se p (int (length ids)) s d i model
                         in map_option (\<lambda>st. Inr (st, \<lparr>g_params = start_params_of p, g_token_ids = ids\<rparr>))
                              (write_opt (se_env se) head False (gr, cv\<lparr>cv_observed := True\<rparr>))) = Some (Inl (rc, err))
             \<longrightarrow> rc = 500"
        by (rule start_alloc_cases) (auto simp: Let_def)
      then show ?thesis
        using assms tok Some Inr by (simp add: gen_request_start_def)
    qed
  qed (use assms tok in \<open>simp add: gen_request_start_def\<close>)
qed

text \<open>Started, or an error response.\<close>

definition handled_ok :: "yyjson_api \<Rightarrow> handled \<Rightarrow> bool" where
  "handled_ok yy r \<longleftrightarrow>
     (case r of None \<Rightarrow> True
      | Some (rs, None) \<Rightarrow> error_response_ok yy rs
      | Some (rs, Some started) \<Rightarrow> rs_deferred rs)"

lemma handled_ok_respond [simp]: "handled_ok yy (respond rs) = error_response_ok yy rs"
  by (simp add: handled_ok_def respond_def)

lemma handled_ok_None [simp]: "handled_ok yy None"
  by (simp add: handled_ok_def)

lemma error_type_for_status_table: "rc = 400 \<or> rc = 500 \<or> rc = 503 \<Longrightarrow> (rc, error_type_for_status rc) \<in> error_table"
  by (auto simp: error_type_for_status_def error_table_def)

lemma start_deferred_ok: "handled_ok (ge_yy (se_env se)) (start_deferred se p cv)"
  by (auto simp: start_deferred_def handled_ok_def respond_def
      split: option.splits sum.splits
      intro!: respond_json_error_ok error_type_for_status_table dest: gen_request_start_status)

lemma handle_chat_completions_ok: "handled_ok (ge_yy (se_env se)) (handle_chat_completions se sctx body cv)"
  by (simp add: handle_chat_completions_def Let_def bad_request_ok model_not_loaded_ok no_memory_ok start_deferred_ok
      split: option.split sum.split)

lemma handle_completions_ok: "handled_ok (ge_yy (se_env se)) (handle_completions se sctx body cv)"
  by (simp add: handle_completions_def Let_def bad_request_ok model_not_loaded_ok start_deferred_ok
      split: option.split sum.split)

lemma handle_embeddings_ok: "error_response_ok yy (handle_embeddings mem yy body)"
  by (simp add: handle_embeddings_def bad_request_ok respond_json_error_ok error_table_def split: option.split sum.split)

subsection \<open>Handlers return\<close>

text \<open>Encoding a prompt always ends, for every tokenizer whose table of added tokens the loader built.\<close>

lemma bpe_merge_returns: "bpe_merge tok t \<noteq> None"
  using bpe_merge_result [of tok t] by (auto simp: bpe_merge_def)

lemma encode_words_returns: "encode_words tok t ws out \<noteq> None"
  using bpe_merge_returns
  by (induction tok t ws out rule: encode_words.induct) (auto simp del: not_None_eq split: option.split)

lemma encode_segment_returns: "snd (encode_segment mem tok s t) \<noteq> None"
  by (auto simp: encode_segment_def encode_byte_level_def encode_sentencepiece_def encode_words_returns bpe_merge_returns
      simp del: not_None_eq split: tokenizer_type.split prod.split bool.split option.split)

lemma encode_gap_returns: "encode_gap mem tok s out g \<noteq> None"
  using encode_segment_returns [of mem tok s g] by (auto simp: encode_gap_def split: prod.split option.split bool.split)

lemma run_pieces_returns: "run_pieces mem tok s out ps \<noteq> None"
proof (induction mem tok s out ps rule: run_pieces.induct)
  case (2 mem tok s out g ps)
  obtain s1 res where g: "encode_gap mem tok s out g = Some (s1, res)"
    using encode_gap_returns [of mem tok s out g] by auto
  show ?case
  proof (cases res)
    case (Some out1)
    show ?thesis
      using 2 [OF g refl Some] g Some by simp
  qed (use g in simp)
next
  case (3 mem tok s out k i ps)
  obtain ok out1 where o: "idbuf_append mem out [i] = (ok, out1)"
    by (rule prod.exhaust)
  show ?case
  proof (cases ok)
    case True
    show ?thesis
      using 3 [OF o [symmetric]] o True by simp
  qed (use o in simp)
qed simp

lemma encode_wrapped_returns: "encode_wrapped mem tok t \<noteq> None"
  by (auto simp: encode_wrapped_def encode_wordpiece_def Let_def simp del: not_None_eq split: option.split prod.split bool.split)

lemma encode_alloc_impl_returns:
  assumes "str_u32_map_reach (tk_special_tokens tok)"
  shows "encode_alloc_impl mem tok t ps \<noteq> None"
proof -
  consider "tk_type tok = TOKENIZER_WORDPIECE" | "tk_type tok \<noteq> TOKENIZER_WORDPIECE"
      "ps \<longrightarrow> mem (unat (oa_count (tk_special_tokens tok)) * 24)"
    | "tk_type tok \<noteq> TOKENIZER_WORDPIECE" "ps" "\<not> mem (unat (oa_count (tk_special_tokens tok)) * 24)"
      "0 < unat (oa_count (tk_special_tokens tok))"
    | "tk_type tok \<noteq> TOKENIZER_WORDPIECE" "unat (oa_count (tk_special_tokens tok)) = 0"
    by blast
  then show ?thesis
  proof cases
    case 1
    then show ?thesis
      using encode_wrapped_returns [of mem tok t] by (auto simp: encode_alloc_impl_def split: option.split)
  next
    case 2
    show ?thesis
      using encode_alloc_pieces [of tok ps mem t] 2 assms
      by (simp add: encode_pieces_def run_pieces_returns del: not_None_eq split: option.split)
  next
    case 3
    then show ?thesis
      by (simp add: encode_alloc_impl_def)
  next
    case 4
    then have "encode_alloc_impl mem tok t ps = encode_alloc_impl mem tok t False"
      by (simp add: encode_alloc_impl_def)
    also have "\<dots> \<noteq> None"
      using encode_alloc_pieces [of tok False mem t] 4(1) assms
      by (simp add: encode_pieces_def run_pieces_returns del: not_None_eq split: option.split)
    finally show ?thesis .
  qed
qed

lemma tokenizer_encode_returns: "str_u32_map_reach (tk_special_tokens tok) \<Longrightarrow> tokenizer_encode_alloc mem nrm tok t ps \<noteq> None"
  by (auto simp: tokenizer_encode_alloc_def encode_alloc_impl_returns simp del: not_None_eq split: option.split)

text \<open>The tokenizer of the server, when there is one, comes from the loader (theory \<open>TokLoadSafe\<close> shows
  this of every tokenizer it returns).\<close>

definition ctx_loaded :: "serve_ctx \<Rightarrow> bool" where
  "ctx_loaded sctx \<longleftrightarrow> (\<forall>tok. sv_tokenizer sctx = Some tok \<longrightarrow> str_u32_map_reach (tk_special_tokens tok))"

lemma start_prompt_returns:
  "str_u32_map_reach (tk_special_tokens tok) \<Longrightarrow> start_prompt se p tok \<noteq> None"
  by (simp add: start_prompt_def gen_build_chat_prompt_def gen_build_completion_prompt_def Let_def tokenizer_encode_returns
      del: not_None_eq split: sum.split option.split)

lemma start_write_returns:
  assumes "stream_create mem a b c = Some s"
  shows "write_opt env h False (start_request se p i (post_stream acc (stream_set_notify (stream_retain s) True)) d w m, cv) \<noteq> None"
proof -
  have "on_conn_gone (start_request se p i s' d w m) \<noteq> None" for s'
    by (simp add: on_conn_gone_def start_request_def gr_cancel_def try_teardown_def)
  then show ?thesis
    by (auto simp: write_opt_def http_conn_write_def close_conn_def Let_def split: option.split)
qed

lemma gen_request_start_returns:
  assumes "ctx_loaded (gs_ctx p)"
  shows "gen_request_start se p cv \<noteq> None"
proof (cases "sv_tokenizer (gs_ctx p)")
  case None
  then show ?thesis
    by (simp add: gen_request_start_def)
next
  case (Some tok)
  then have "str_u32_map_reach (tk_special_tokens tok)"
    using assms by (simp add: ctx_loaded_def)
  from start_prompt_returns [OF this, of se p] obtain r where r: "start_prompt se p tok = Some r"
    by blast
  have w: "stream_create mem a b c = Some s \<Longrightarrow>
      write_opt env h False (start_request se p i (post_stream acc (stream_set_notify (stream_retain s) True)) d w m, cv) \<noteq> None"
    for mem a b c s env h i acc d w m cv
    by (rule start_write_returns)
  show ?thesis
  proof (cases r)
    case (Inl e)
    then show ?thesis
      using Some r by (cases e) (simp add: gen_request_start_def)
  next
    case (Inr ids)
    then show ?thesis
      using Some r w by (auto simp: gen_request_start_def start_alloc_def Let_def split: option.split)
  qed
qed

text \<open>The one way a handler fails to return: the copy of the prompt of a completions request that is
  otherwise accepted could not be allocated, and \<open>gen_build_completion_prompt\<close> measures \<open>NULL\<close>.\<close>

definition prompt_lost :: "start_env \<Rightarrow> serve_ctx \<Rightarrow> string option \<Rightarrow> bool" where
  "prompt_lost se sctx body \<longleftrightarrow> sv_tokenizer sctx \<noteq> None \<and>
     (\<exists>rt creq prompt. body_json (ge_yy (se_env se)) body = Some rt \<and>
        completion_request_parse (ge_mem (se_env se)) (Some rt) = Inr creq \<and>
        sampling_params_validate (gp_sampling (cr_params creq)) = Inr () \<and>
        yyjson_obj_get (Some rt) ''prompt'' = Some (JStr prompt) \<and>
        c_strdup (ge_mem (se_env se)) (c_str prompt) = None)"

lemma parsed_prompt:
  assumes "completion_request_parse mem (Some rt) = Inr creq"
  obtains prompt where "yyjson_obj_get (Some rt) ''prompt'' = Some (JStr prompt)" "cr_prompt creq = c_strdup mem (c_str prompt)"
proof -
  have p: "yyjson_is_str (yyjson_obj_get (Some rt) ''prompt'')"
    "cr_prompt creq = json_str_dup mem (yyjson_obj_get (Some rt) ''prompt'')"
    using assms unfolding completion_request_parse_def Let_def by (auto split: if_splits sum.splits)
  from p(1) obtain prompt where "yyjson_obj_get (Some rt) ''prompt'' = Some (JStr prompt)"
    by (rule yyjson_is_strE)
  with p(2) that show thesis
    by (simp add: json_str_dup_def dup_str_def)
qed

lemma handle_completions_None:
  assumes "ctx_loaded sctx"
  shows "handle_completions se sctx body cv = None \<longleftrightarrow> prompt_lost se sctx body"
proof -
  have s: "start_deferred se (completion_start_params sctx creq prompt) cv \<noteq> None" for creq prompt
    using gen_request_start_returns [of "completion_start_params sctx creq prompt" se cv] assms
    by (auto simp: start_deferred_def completion_start_params_def respond_def split: sum.split)
  have lost: "(\<exists>prompt. yyjson_obj_get (Some rt) ''prompt'' = Some (JStr prompt) \<and> c_strdup mem (c_str prompt) = None)
      \<longleftrightarrow> cr_prompt creq = None" if "completion_request_parse mem (Some rt) = Inr creq" for mem rt creq
    by (rule parsed_prompt [OF that]) simp
  show ?thesis
    using s lost
    by (auto simp: handle_completions_def prompt_lost_def respond_def Let_def split: option.splits sum.splits)
qed

lemma run_handler_None:
  assumes "ctx_loaded sctx"
  shows "run_handler se sctx found h body cv = None \<longleftrightarrow> h = Handle_completions \<and> prompt_lost se sctx body"
proof -
  have "start_deferred se (chat_start_params yy sctx rt creq mj ej) cv \<noteq> None" for yy rt creq mj ej
    using gen_request_start_returns [of "chat_start_params yy sctx rt creq mj ej" se cv] assms
    by (auto simp: start_deferred_def chat_start_params_def respond_def split: sum.split)
  then have "handle_chat_completions se sctx body cv \<noteq> None"
    by (auto simp: handle_chat_completions_def respond_def Let_def split: option.split sum.split)
  then show ?thesis
    using handle_completions_None [OF assms] by (cases h) (simp_all add: run_handler_def respond_def del: not_None_eq)
qed

text \<open>The document of the models endpoint: one entry per model found, in order, owned by the server.\<close>

definition models_document :: "(string option \<times> int) list \<Rightarrow> json" where
  "models_document found = JObj [(''object'', JStr ''list''),
     (''data'', JArr (map (\<lambda>(i, t). JObj (
        (case i of None \<Rightarrow> [] | Some name \<Rightarrow> [(''id'', JStr (c_str name))]) @
        [(''object'', JStr ''model''), (''created'', JInt t), (''owned_by'', JStr ''mlxd'')])) found))]"

lemma models_serialized:
  "model_list_serialize (map (\<lambda>(i, t). \<lparr>mi_id = i, mi_created = t, mi_owned_by = Some ''mlxd''\<rparr>) found) = models_document found"
  by (auto simp: model_list_serialize_def models_document_def model_list_entry_def c_str_def split: option.split)

text \<open>What the models endpoint answers: the list, or a bare 500 when the entries or the document could not be
  allocated.\<close>

definition models_answer :: "allocator \<Rightarrow> yyjson_api \<Rightarrow> (string option \<times> int) list \<Rightarrow> http_response" where
  "models_answer mem yy found =
     (case (if found = [] \<or> mem (length found * 24) then serialize_mut_root yy (models_document found) else None) of
        None \<Rightarrow> \<lparr>rs_status = 500, rs_content_type = Some ''application/json'', rs_body = None, rs_body_len = 0, rs_deferred = False\<rparr>
      | Some b \<Rightarrow> \<lparr>rs_status = 200, rs_content_type = Some ''application/json'', rs_body = Some b, rs_body_len = length b,
          rs_deferred = False\<rparr>)"

lemma handle_models_answer: "handle_models mem yy found = models_answer mem yy found"
  using models_serialized [of "[]"] models_serialized [of found]
  by (auto simp: handle_models_def models_answer_def respond_json_def http_response0_def Let_def split: option.split)

text \<open>C31. What the four endpoints answer, with no assumption but that the tokenizer, if there is one, comes
  from the loader. The models endpoint always answers itself: 200 with the list of exactly the models
  found, in order, or a bare 500 when it could not be allocated or written. Every other handler either
  starts a generation and defers its response, or answers with an error: an error envelope in JSON
  whose type is the one of its status, or a bare status 500 when even the envelope could not be
  written. A generation starts only for a loaded model and a request that parses and whose sampling
  parameters are valid. There is exactly one case in which a handler does not return: a valid
  completions request whose prompt could not be copied (the code then measures a \<open>NULL\<close> pointer).\<close>

theorem handler_errors:
  assumes "ctx_loaded sctx"
  shows "case run_handler se sctx found h body cv of
      None \<Rightarrow> h = Handle_completions \<and> prompt_lost se sctx body
    | Some (rs, started) \<Rightarrow>
        \<not> (h = Handle_completions \<and> prompt_lost se sctx body) \<and>
        (rs_deferred rs \<longleftrightarrow> started \<noteq> None) \<and>
        (h = Handle_models \<longrightarrow> started = None \<and> rs = models_answer (ge_mem (se_env se)) (ge_yy (se_env se)) found) \<and>
        (h \<noteq> Handle_models \<and> started = None \<longrightarrow> error_response_ok (ge_yy (se_env se)) rs) \<and>
        (started \<noteq> None \<longrightarrow> sv_tokenizer sctx \<noteq> None \<and>
           (\<exists>root. body_json (ge_yy (se_env se)) body = Some root \<and>
             (h = Handle_completions \<and>
                (\<exists>creq. completion_request_parse (ge_mem (se_env se)) (Some root) = Inr creq \<and>
                   sampling_params_validate (gp_sampling (cr_params creq)) = Inr ()) \<or>
              h = Handle_chat_completions \<and> sv_chat_template sctx \<noteq> None \<and>
                (\<exists>creq. chat_completion_request_parse (ge_mem (se_env se)) (yy_write (ge_yy (se_env se))) (Some root) = Inr creq \<and>
                   sampling_params_validate (gp_sampling (ccr_params creq)) = Inr ()))))"
proof (cases "run_handler se sctx found h body cv")
  case None
  then show ?thesis
    using run_handler_None [OF assms, of se found h body cv] by simp
next
  case (Some r)
  obtain rs started where r: "r = (rs, started)"
    by (cases r)
  note run = Some [unfolded r]
  have lost: "\<not> (h = Handle_completions \<and> prompt_lost se sctx body)"
    using run run_handler_None [OF assms, of se found h body cv] by simp
  have fin: "(rs_deferred rs \<longleftrightarrow> started \<noteq> None) \<and> (started = None \<longrightarrow> error_response_ok (ge_yy (se_env se)) rs)"
    if "handled_ok (ge_yy (se_env se)) (Some (rs, started))"
    using that by (auto simp: handled_ok_def error_response_ok_def split: option.splits)
  show ?thesis
  proof (cases h)
    case Handle_models
    then have "started = None" "rs = models_answer (ge_mem (se_env se)) (ge_yy (se_env se)) found"
      using run by (auto simp: run_handler_def respond_def handle_models_answer)
    then show ?thesis
      using run lost Handle_models by (simp add: models_answer_def split: option.split)
  next
    case Handle_embeddings
    then show ?thesis
      using run lost fin handle_embeddings_ok by (auto simp: run_handler_def respond_def handled_ok_def)
  next
    case Handle_chat_completions
    have "started \<noteq> None \<longrightarrow> sv_tokenizer sctx \<noteq> None \<and> sv_chat_template sctx \<noteq> None \<and>
       (\<exists>root. body_json (ge_yy (se_env se)) body = Some root \<and>
         (\<exists>creq. chat_completion_request_parse (ge_mem (se_env se)) (yy_write (ge_yy (se_env se))) (Some root) = Inr creq \<and>
               sampling_params_validate (gp_sampling (ccr_params creq)) = Inr ()))"
      using run Handle_chat_completions
      by (auto simp: run_handler_def handle_chat_completions_def respond_def Let_def split: option.splits sum.splits if_splits)
    then show ?thesis
      using run fin handle_chat_completions_ok [of se sctx body cv] Handle_chat_completions by (auto simp: run_handler_def)
  next
    case Handle_completions
    have "started \<noteq> None \<longrightarrow> sv_tokenizer sctx \<noteq> None \<and>
       (\<exists>root. body_json (ge_yy (se_env se)) body = Some root \<and>
         (\<exists>creq. completion_request_parse (ge_mem (se_env se)) (Some root) = Inr creq \<and>
               sampling_params_validate (gp_sampling (cr_params creq)) = Inr ()))"
      using run Handle_completions
      by (auto simp: run_handler_def handle_completions_def respond_def Let_def split: option.splits sum.splits if_splits)
    then show ?thesis
      using run lost fin handle_completions_ok [of se sctx body cv] Handle_completions by (auto simp: run_handler_def)
  qed
qed

definition sample_ctx :: serve_ctx where
  "sample_ctx = \<lparr>sv_tokenizer = Some (split_tok\<lparr>tk_special_tokens := sample_specials\<rparr>), sv_chat_template = None, sv_model_id = None\<rparr>"

lemma sample_ctx_loaded: "ctx_loaded sample_ctx"
  using sample_specials_reach by (simp add: ctx_loaded_def sample_ctx_def)

text \<open>A request that is not JSON is refused with status 400, and the list of two models found.\<close>

theorem handler_errors_witness:
  "error_response_ok (ge_yy sample_gen_env) (bad_request (ge_yy sample_gen_env) ''Invalid JSON in request body'') \<and>
   rs_status (bad_request (ge_yy sample_gen_env) ''Invalid JSON in request body'') = 400 \<and>
   (\<exists>r. run_handler sample_start_env sample_ctx [(Some ''a/b'', 7), (Some ''c'', 9)] Handle_models None sample_view =
      Some (r, None) \<and>
      r = models_answer (ge_mem (se_env sample_start_env)) (ge_yy (se_env sample_start_env)) [(Some ''a/b'', 7), (Some ''c'', 9)])"
proof -
  have "run_handler sample_start_env sample_ctx [] Handle_completions (Some ''{'') sample_view =
      Some (bad_request (ge_yy sample_gen_env) ''Invalid JSON in request body'', None)"
    by (simp add: run_handler_def handle_completions_def sample_start_env_def sample_ctx_def sample_gen_env_def
        body_json_def respond_def)
  moreover have "rs_status (bad_request (ge_yy sample_gen_env) ''Invalid JSON in request body'') = 400"
    by (simp add: bad_request_def respond_json_error_def respond_json_def serialize_mut_root_def sample_gen_env_def)
  moreover have "se_env sample_start_env = sample_gen_env"
    by (simp add: sample_start_env_def)
  ultimately show ?thesis
    using handler_errors [OF sample_ctx_loaded, where se = sample_start_env and found = "[]" and h = Handle_completions and body = "Some ''{''" and cv = sample_view]
      handler_errors [OF sample_ctx_loaded, where se = sample_start_env and found = "[(Some ''a/b'', 7), (Some ''c'', 9)]" and h = Handle_models and body = None and cv = sample_view]
    by (auto split: option.splits)
qed

end
