(* ===== verification/HttpServer.thy ===== *)
theory HttpServer
  imports HttpConn HttpHandler
begin

text \<open>
  The connections and the shutdown of \<open>src/http/server.c\<close>. A connection is its parser, what
  \<open>conn_io.h\<close> shows of it (\<open>cn_view\<close>: the actions performed, whether it is closing) and the
  generation request that owns it. The callbacks of the loop are operations on the server; \<open>None\<close> is
  the use of a \<open>NULL\<close> pointer. The connections of the loop are a list, in the order of \<open>uv_walk\<close>; a
  closed one stays in the list with its flag.
\<close>

record 'p conn =
  cn_parser :: "'p http_parser_ctx"
  cn_view :: conn_view
  cn_gen_owned :: bool
  cn_request :: "gen_request option"
  cn_posted :: "generate_cmd list"

record 'p server_env =
  sv_start :: start_env
  sv_ll :: "'p llhttp"
  sv_ctx :: serve_ctx
  sv_models :: "(string option \<times> int) list"
  sv_router :: "handler http_router"
  sv_max_body :: nat
  sv_parser_size :: nat
  sv_conn_size :: nat

abbreviation sv_mem :: "'p server_env \<Rightarrow> allocator" where
  "sv_mem env \<equiv> ge_mem (se_env (sv_start env))"

text \<open>The zeroed request that stands for a connection without an observer.\<close>

definition no_request :: gen_request where
  "no_request = \<lparr>gr_stream = None, gr_timer_inited = False, gr_detok = None, gr_state = GR_RUNNING, gr_conn_gone = False,
     gr_suppress_writes = False, gr_conn = False, gr_chat = False, gr_sse = False, gr_include_usage = False,
     gr_logprobs = False, gr_role_sent = False, gr_id = [], gr_model_id = [], gr_created = 0, gr_prompt_tokens = 0,
     gr_completion_tokens = 0, gr_accum = [], gr_accum_cap = 0, gr_lp_entries = [], gr_lp_cap = 0,
     gr_pending_closes = 0, gr_freed = False\<rparr>"

text \<open>An operation of \<open>conn_io.h\<close> on a connection.\<close>

definition on_conn :: "(gsys \<Rightarrow> gsys option) \<Rightarrow> 'p conn \<Rightarrow> 'p conn option" where
  "on_conn f c = map_option (\<lambda>st. c\<lparr>cn_view := snd st, cn_request := map_option (\<lambda>_. fst st) (cn_request c)\<rparr>)
     (f (case cn_request c of None \<Rightarrow> no_request | Some gr \<Rightarrow> gr, cn_view c))"

definition conn_close :: "'p conn \<Rightarrow> 'p conn option" where
  "conn_close c = on_conn close_conn c"

definition queue_write :: "'p server_env \<Rightarrow> 'p conn \<Rightarrow> string \<Rightarrow> bool \<Rightarrow> 'p conn option" where
  "queue_write env c wire close_after = on_conn (http_conn_write (se_env (sv_start env)) wire close_after) c"

definition build_error_wire ::
  "gen_env \<Rightarrow> int \<Rightarrow> string \<Rightarrow> string option \<Rightarrow> string \<Rightarrow> bool \<Rightarrow> string option" where
  "build_error_wire env status ty code msg keep_alive =
     (case serialize_mut_root (ge_yy env) (error_envelope_serialize (Some msg) (Some ty) code) of
        None \<Rightarrow> None
      | Some js \<Rightarrow> http_build_response (ge_mem env) status (Some ''application/json'') js keep_alive)"

text \<open>Write what could be built, or close.\<close>

definition write_or_close :: "'p server_env \<Rightarrow> 'p conn \<Rightarrow> string option \<Rightarrow> bool \<Rightarrow> 'p conn option" where
  "write_or_close env c wire close_after =
     (case wire of None \<Rightarrow> conn_close c | Some w \<Rightarrow> queue_write env c w close_after)"

definition write_error ::
  "'p server_env \<Rightarrow> 'p conn \<Rightarrow> int \<Rightarrow> string \<Rightarrow> string option \<Rightarrow> string \<Rightarrow> bool \<Rightarrow> 'p conn option" where
  "write_error env c status ty code msg keep_alive =
     write_or_close env c (build_error_wire (se_env (sv_start env)) status ty code msg keep_alive) (\<not> keep_alive)"

subsection \<open>Dispatch\<close>

definition dispatch :: "'p server_env \<Rightarrow> 'p conn \<Rightarrow> http_parsed_request \<Rightarrow> 'p conn option" where
  "dispatch env c pr =
     (let ka = pq_keep_alive pr in
      if pq_method pr = ''OPTIONS''
      then write_or_close env c (http_build_preflight (sv_mem env) ka) (\<not> ka)
      else case http_router_match (sv_router env) (pq_method pr) (pq_path pr) of
        Some h \<Rightarrow>
          (case run_handler (sv_start env) (sv_ctx env) (sv_models env) h (pq_body pr) (cn_view c) of
             None \<Rightarrow> None
           | Some (resp, Some ((gr, cv), cmd)) \<Rightarrow>
               Some (c\<lparr>cn_view := cv, cn_request := Some gr, cn_posted := cn_posted c @ [cmd], cn_gen_owned := True\<rparr>)
           | Some (resp, None) \<Rightarrow>
               write_or_close env c
                 (http_build_response (sv_mem env) (rs_status resp) (rs_content_type resp)
                   (case rs_body resp of None \<Rightarrow> [] | Some b \<Rightarrow> b) ka) (\<not> ka))
      | None \<Rightarrow>
          if http_router_path_exists (sv_router env) (pq_path pr)
          then write_error env c 405 ''method_not_allowed'' (Some ''method_not_allowed'') ''Method not allowed'' ka
          else write_error env c 404 ''not_found_error'' (Some ''not_found'') ''Not found'' ka)"

text \<open>The loop over the bytes that were read. A sticky \<open>COMPLETE\<close> leaves the zeroed request, whose method
  is \<open>NULL\<close>. The fuel bounds the rounds; every completed request takes at least one byte.\<close>

fun read_loop :: "'p server_env \<Rightarrow> nat \<Rightarrow> 'p conn \<Rightarrow> string \<Rightarrow> 'p conn option" where
  "read_loop env fuel c data =
     (if data = [] \<or> cv_closing (cn_view c) then Some c
      else case http_parser_feed (sv_mem env) (sv_ll env) (cn_parser c) data of
        (HTTP_PARSE_INCOMPLETE, _, p) \<Rightarrow> Some (c\<lparr>cn_parser := p\<rparr>)
      | (HTTP_PARSE_ERROR, _, p) \<Rightarrow>
          write_error env (c\<lparr>cn_parser := p\<rparr>) 400 ''invalid_request_error'' None ''Malformed HTTP request'' False
      | (HTTP_PARSE_TOO_LARGE, _, p) \<Rightarrow>
          write_error env (c\<lparr>cn_parser := p\<rparr>) 413 ''payload_too_large'' (Some ''payload_too_large'')
            ''Request body too large'' False
      | (HTTP_PARSE_COMPLETE, None, p) \<Rightarrow> None
      | (HTTP_PARSE_COMPLETE, Some pr, p) \<Rightarrow>
          (case dispatch env (c\<lparr>cn_parser := p\<rparr>) pr of
             None \<Rightarrow> None
           | Some c \<Rightarrow>
               if \<not> pq_keep_alive pr \<or> cv_closing (cn_view c) \<or> cn_gen_owned c then Some c
               else (case fuel of
                  0 \<Rightarrow> None
                | Suc fuel \<Rightarrow>
                    read_loop env fuel (c\<lparr>cn_parser := http_parser_reset (sv_ll env) (cn_parser c)\<rparr>)
                      (drop (http_parser_consumed (Some p)) data))))"

declare read_loop.simps [simp del]

text \<open>\<open>None\<close> is an error of the read.\<close>

definition on_read :: "'p server_env \<Rightarrow> 'p conn \<Rightarrow> string option \<Rightarrow> 'p conn option" where
  "on_read env c nread =
     (case nread of
        None \<Rightarrow> conn_close c
      | Some data \<Rightarrow> if data = [] \<or> cn_gen_owned c then Some c else read_loop env (length data) c data)"

definition on_write :: "'p conn \<Rightarrow> bool \<Rightarrow> bool \<Rightarrow> 'p conn option" where
  "on_write c close_after failed = (if close_after \<or> failed then conn_close c else Some c)"

subsection \<open>The server\<close>

record 'p http_server =
  hs_conns :: "'p conn list"
  hs_draining :: bool
  hs_drain_timer_active :: bool
  hs_drain_open_conns :: int
  hs_timer_inits :: nat
  hs_timer_closes :: nat
  hs_listener_closed :: bool
  hs_stop_sent :: bool
  hs_shutdown :: bool

definition drain_check :: "'p http_server \<Rightarrow> 'p http_server" where
  "drain_check srv =
     (if \<not> hs_draining srv \<or> \<not> hs_drain_timer_active srv then srv
      else let n = hs_drain_open_conns srv - 1 in
           if n = 0 then srv\<lparr>hs_drain_open_conns := 0, hs_drain_timer_active := False, hs_timer_closes := hs_timer_closes srv + 1\<rparr>
           else srv\<lparr>hs_drain_open_conns := n\<rparr>)"

text \<open>An operation on the connection at a position; closing it ends with \<open>drain_check\<close>.\<close>

definition with_conn :: "nat \<Rightarrow> ('p conn \<Rightarrow> 'p conn option) \<Rightarrow> 'p http_server \<Rightarrow> 'p http_server option" where
  "with_conn i f srv =
     (let c = hs_conns srv ! i in
      case f c of
        None \<Rightarrow> None
      | Some c' \<Rightarrow>
          (let srv' = srv\<lparr>hs_conns := (hs_conns srv)[i := c']\<rparr> in
           Some (if \<not> cv_closing (cn_view c) \<and> cv_closing (cn_view c') then drain_check srv' else srv')))"

definition on_new_connection :: "'p server_env \<Rightarrow> bool \<Rightarrow> 'p http_server \<Rightarrow> 'p http_server" where
  "on_new_connection env accepted srv =
     (if \<not> sv_mem env (sv_conn_size env) \<or> \<not> accepted then srv
      else case http_parser_create (sv_mem env) (sv_parser_size env) (sv_ll env) (sv_max_body env) of
        None \<Rightarrow> srv
      | Some p \<Rightarrow> srv\<lparr>hs_conns := hs_conns srv @
          [\<lparr>cn_parser = p, cn_view = \<lparr>cv_acts = [], cv_writes = 0, cv_observed = False, cv_closing = False\<rparr>,
            cn_gen_owned = False, cn_request = None, cn_posted = []\<rparr>]\<rparr>)"

text \<open>\<open>uv_walk\<close> over the positions of the connections; a callback skips the ones that are closing.\<close>

fun uv_walk :: "(nat \<Rightarrow> 's \<Rightarrow> 's option) \<Rightarrow> nat list \<Rightarrow> 's \<Rightarrow> 's option" where
  "uv_walk cb [] s = Some s"
| "uv_walk cb (i # is) s = (case cb i s of None \<Rightarrow> None | Some s \<Rightarrow> uv_walk cb is s)"

definition drain_gen :: "'p conn \<Rightarrow> 'p conn option" where
  "drain_gen c =
     (if cv_observed (cn_view c)
      then on_conn (\<lambda>(gr, cv). map_option (\<lambda>gr. (gr, cv)) (gen_request_drain gr)) c
      else Some c)"

text \<open>The state of the walk is the server and the count of the connections left to finish.\<close>

definition walk_drain_cb :: "nat \<Rightarrow> 'p http_server \<times> nat \<Rightarrow> ('p http_server \<times> nat) option" where
  "walk_drain_cb i st = (case st of (srv, n) \<Rightarrow>
     let c = hs_conns srv ! i in
     if cv_closing (cn_view c) then Some (srv, n)
     else if cn_gen_owned c then map_option (\<lambda>srv. (srv, n + 1)) (with_conn i drain_gen srv)
     else map_option (\<lambda>srv. (srv, n)) (with_conn i conn_close srv))"

definition walk_force_close_tcp_cb :: "nat \<Rightarrow> 'p http_server \<Rightarrow> 'p http_server option" where
  "walk_force_close_tcp_cb i srv =
     (if cv_closing (cn_view (hs_conns srv ! i)) then Some srv else with_conn i conn_close srv)"

definition on_stop_async :: "bool \<Rightarrow> 'p http_server \<Rightarrow> 'p http_server option" where
  "on_stop_async timer_ok srv =
     (if hs_draining srv then Some srv
      else case uv_walk walk_drain_cb [0..<length (hs_conns srv)]
                  (srv\<lparr>hs_draining := True, hs_listener_closed := True\<rparr>, 0) of
        None \<Rightarrow> None
      | Some (srv, n) \<Rightarrow>
          (let srv = srv\<lparr>hs_shutdown := True\<rparr> in
           Some (if 0 < n \<and> timer_ok
                 then srv\<lparr>hs_timer_inits := hs_timer_inits srv + 1, hs_drain_open_conns := int n, hs_drain_timer_active := True\<rparr>
                 else srv)))"

definition on_drain_timeout :: "'p http_server \<Rightarrow> 'p http_server option" where
  "on_drain_timeout srv =
     map_option (\<lambda>srv. srv\<lparr>hs_timer_closes := hs_timer_closes srv + 1, hs_shutdown := True\<rparr>)
       (uv_walk walk_force_close_tcp_cb [0..<length (hs_conns srv)] (srv\<lparr>hs_drain_timer_active := False\<rparr>))"

definition http_server_stop :: "'p http_server \<Rightarrow> bool \<times> 'p http_server" where
  "http_server_stop srv = (if hs_stop_sent srv then (False, srv) else (True, srv\<lparr>hs_stop_sent := True\<rparr>))"

end
