(* ===== verification/HttpServerSafe.thy ===== *)
theory HttpServerSafe
  imports HttpServer
begin

text \<open>
  Safety of the server: which requests a connection answers and when its parser may be fed again, the
  invariant of every connection composed with the one of its generation request, and the accounting
  of the graceful shutdown.
\<close>

subsection \<open>A closed connection stays closed\<close>

definition closed_ok :: "gsys option \<Rightarrow> bool" where
  "closed_ok r \<longleftrightarrow> (\<forall>st. r = Some st \<longrightarrow> cv_closing (snd st))"

lemma closed_ok_simps [simp]: "closed_ok (Some st) = cv_closing (snd st)" "closed_ok None"
  by (simp_all add: closed_ok_def)

lemma closed_ok_andthen:
  "closed_ok r \<Longrightarrow> (\<And>st. cv_closing (snd st) \<Longrightarrow> closed_ok (f st)) \<Longrightarrow> closed_ok (andthen r f)"
  by (cases r) (simp_all add: andthen_def)

lemma closed_noop [simp]:
  assumes "cv_closing (snd st)"
  shows "close_conn st = Some st" "http_conn_write env w fin st = Some st" "write_opt env ow fin st = Some st"
    "write_last env ow st = Some st"
proof -
  show c: "close_conn st = Some st" "http_conn_write env w fin st = Some st" for w fin
    using assms by (cases st; simp add: close_conn_def http_conn_write_def)+
  show "write_opt env ow fin st = Some st" "write_last env ow st = Some st"
    by (simp_all add: write_opt_def write_last_def c split: option.split)
qed

lemma closed_teardown: "cv_closing (snd st) \<Longrightarrow> closed_ok (teardown st)"
  by (cases st) (auto simp: teardown_def closed_ok_def)

lemma closed_mark: "cv_closing (snd st) \<Longrightarrow> closed_ok (mark_role_sent st)"
  by (cases st) (simp add: mark_role_sent_def)

lemma detach_closing: "detach_conn st = (b, st') \<Longrightarrow> cv_closing (snd st') = cv_closing (snd st)"
  by (cases st) (auto simp: detach_conn_def split: if_splits)

lemma closed_error: "cv_closing (snd st) \<Longrightarrow> closed_ok (finish_error env msg kind st)"
proof -
  assume c: "cv_closing (snd st)"
  obtain status ty code where e: "error_kind_map kind = (status, ty, code)"
    by (metis prod_cases3)
  obtain attached st' where d: "detach_conn st = (attached, st')"
    by (rule prod.exhaust)
  have "cv_closing (snd st')"
    using c detach_closing [OF d] by simp
  then show ?thesis
    by (simp add: finish_error_def e d closed_ok_andthen [OF _ closed_teardown] closed_ok_andthen)
qed

lemma closed_emit: "cv_closing (snd st) \<Longrightarrow> closed_ok (emit_sse_chunk env txt lp st)"
  by (cases st) (simp add: emit_sse_chunk_def Let_def closed_ok_andthen [OF _ closed_mark] split: option.split)

lemma closed_finish_sse: "cv_closing (snd st) \<Longrightarrow> closed_ok (finish_sse env reason rest st)"
proof -
  have f: "cv_closing (snd st) \<Longrightarrow> closed_ok (finish_flushed env rest st)" for st
    by (cases st) (simp add: finish_flushed_def closed_ok_andthen [OF _ closed_mark] split: option.split)
  have r: "cv_closing (snd st) \<Longrightarrow> closed_ok (finish_role env st)"
    and u: "cv_closing (snd st) \<Longrightarrow> closed_ok (finish_usage env st)" for st
    by (simp_all add: finish_role_def finish_usage_def)
  assume "cv_closing (snd st)"
  then show ?thesis
    unfolding finish_sse_def
    by (intro closed_ok_andthen f) (auto intro!: closed_ok_andthen r u)
qed

lemma closed_response: "cv_closing (snd st) \<Longrightarrow> closed_ok (finish_response env reason st)"
proof (cases st)
  case (Pair gr cv)
  assume c: "cv_closing (snd st)"
  have "closed_ok (case detach_conn (gr', cv) of (attached, st) \<Rightarrow>
      andthen (if \<not> attached then Some st else if gr_suppress_writes (fst st) then close_conn st
         else if gr_sse (fst st) then finish_sse env reason rest st
         else write_last env (full_response env reason (fst st)) st) teardown)" for gr' rest
  proof -
    obtain b st' where d: "detach_conn (gr', cv) = (b, st')"
      by (rule prod.exhaust)
    have "cv_closing (snd st')"
      using detach_closing [OF d] c Pair by simp
    then show ?thesis
      unfolding d by (auto intro!: closed_ok_andthen [OF _ closed_teardown] closed_finish_sse)
  qed
  then show ?thesis
    using c by (simp add: Pair finish_response_def Let_def closed_error split: option.split)
qed

lemma closed_fail: "cv_closing (snd st) \<Longrightarrow> closed_ok (async_fail env msg st)"
  by (cases st) (simp add: async_fail_def closed_error split: option.split)

lemma closed_backpressure: "cv_closing (snd st) \<Longrightarrow> closed_ok (backpressure env st)"
  by (cases st) (auto simp: backpressure_def closed_ok_def)

lemma map_snd_Pair [simp]: "map_option snd (map_option (Pair b) r) = r"
  by (cases r) simp_all

lemma closed_token:
  assumes "cv_closing (snd st)"
  shows "closed_ok (map_option snd (on_token env i lp st))"
proof (cases st)
  case (Pair gr cv)
  have c: "cv_closing cv"
    using assms Pair by simp
  have sse: "closed_ok (andthen (if q then emit_sse_chunk env piece lp (gr', cv) else Some (gr', cv)) (backpressure env))"
    for q piece gr'
    using c by (auto intro!: closed_ok_andthen closed_backpressure closed_emit)
  have fail: "closed_ok (async_fail env msg (gr', cv))" for msg gr'
    using c by (simp add: closed_fail)
  show ?thesis
    by (simp add: Pair on_token_def Let_def c sse fail split: option.split prod.split del: if_not_P)
qed

lemma closed_chunk: "cv_closing (snd st) \<Longrightarrow> closed_ok (map_option snd (on_chunk env c st))"
  by (simp add: on_chunk_def closed_token closed_error closed_response split: chunk.split)

lemma closed_async: "cv_closing (snd st) \<Longrightarrow> closed_ok (gen_on_async env n st)"
proof -
  have "closed_ok (async_loop env n st)" if "cv_closing (snd st)" for st
    using that
  proof (induction n arbitrary: st)
    case 0
    then show ?case
      by (simp add: async_loop.simps split: option.split)
  next
    case (Suc n)
    have "cv_closing (snd st')" if "on_chunk env c (gr, snd st) = Some (b, st')" for c gr b st'
      using closed_chunk [of "(gr, snd st)" env c] Suc.prems that by simp
    then show ?case
      using Suc.prems by (auto simp: async_loop.simps [of env "Suc n"] split: option.split prod.split bool.split intro!: Suc.IH)
  qed
  then show "cv_closing (snd st) \<Longrightarrow> closed_ok (gen_on_async env n st)"
    by (simp add: gen_on_async_def)
qed

subsection \<open>One connection\<close>

text \<open>A connection no generation owns.\<close>

definition idle :: "'p conn \<Rightarrow> bool" where
  "idle c \<longleftrightarrow> cn_request c = None \<and> \<not> cn_gen_owned c \<and> \<not> cv_observed (cn_view c)"

definition is_open :: "'p conn \<Rightarrow> bool" where
  "is_open c \<longleftrightarrow> \<not> cv_closing (cn_view c)"

text \<open>A connection is not owned, and then its parser accepts bytes only while nothing has ended it, or it
  belongs to a request, with the invariant of the request.\<close>

definition conn_inv :: "'p conn \<Rightarrow> bool" where
  "conn_inv c \<longleftrightarrow> (case cn_request c of
     None \<Rightarrow> idle c \<and> (is_open c \<and> hp_last_status (cn_parser c) = HTTP_PARSE_INCOMPLETE \<longrightarrow> still_open (cv_acts (cn_view c)))
   | Some gr \<Rightarrow> cn_gen_owned c \<and> gr_inv (gr, cn_view c))"

text \<open>The connection after one answer: closed, or with one more write.\<close>

definition answered :: "bool \<Rightarrow> 'p conn \<Rightarrow> 'p conn \<Rightarrow> bool" where
  "answered fin c c' \<longleftrightarrow> idle c' \<and> cn_parser c' = cn_parser c \<and>
     (\<not> is_open c' \<or> (\<exists>w. cv_acts (cn_view c') = cv_acts (cn_view c) @ [Wire w fin]))"

lemma close_conn_closes: "close_conn st = Some st' \<Longrightarrow> cv_closing (snd st')"
  by (cases st) (auto simp: close_conn_def Let_def split: if_splits)

lemma conn_close_idle:
  "idle c \<Longrightarrow> \<exists>c'. conn_close c = Some c' \<and> idle c' \<and> \<not> is_open c' \<and> cn_parser c' = cn_parser c"
  by (auto simp: conn_close_def on_conn_def idle_def close_conn_def is_open_def)

lemma conn_close_inv:
  assumes "conn_inv c"
  shows "\<exists>c'. conn_close c = Some c' \<and> conn_inv c' \<and> \<not> is_open c' \<and> cn_gen_owned c' = cn_gen_owned c"
proof (cases "cn_request c")
  case None
  then have "idle c"
    using assms by (simp add: conn_inv_def)
  then show ?thesis
    using conn_close_idle [of c] by (auto simp: conn_inv_def idle_def)
next
  case (Some gr)
  then have inv: "gr_inv (gr, cn_view c)" "cn_gen_owned c"
    using assms by (simp_all add: conn_inv_def)
  from close_conn_inv [OF inv(1)] obtain gr' cv' where
    "close_conn (gr, cn_view c) = Some (gr', cv')" "gr_inv (gr', cv')"
    by (auto simp: leads_def)
  then show ?thesis
    using Some inv close_conn_closes [of "(gr, cn_view c)"]
    by (auto simp: conn_close_def on_conn_def conn_inv_def is_open_def)
qed

lemma queue_write_idle: "idle c \<Longrightarrow> \<exists>c'. queue_write env c w fin = Some c' \<and> answered fin c c'"
  by (auto simp: queue_write_def on_conn_def idle_def http_conn_write_def close_conn_def answered_def is_open_def Let_def)

lemma write_or_close_idle: "idle c \<Longrightarrow> \<exists>c'. write_or_close env c w fin = Some c' \<and> answered fin c c'"
  using conn_close_idle [of c] queue_write_idle [of c env _ fin]
  by (auto simp: write_or_close_def answered_def split: option.splits)

lemma write_error_idle: "idle c \<Longrightarrow> \<exists>c'. write_error env c st ty code msg ka = Some c' \<and> answered (\<not> ka) c c'"
  by (simp add: write_error_def write_or_close_idle)

lemma run_handler_started:
  "run_handler se sctx found h body cv = Some (rs, Some (st, cmd)) \<Longrightarrow>
   \<exists>p. gen_request_start se p cv = Some (Inr (st, cmd))"
  by (auto simp: run_handler_def respond_def handle_chat_completions_def handle_completions_def start_deferred_def Let_def
      split: handler.splits option.splits sum.splits if_splits)

lemma dispatch_cases:
  assumes "idle c" "dispatch env c pr = Some c'"
  obtains (answer) "answered (\<not> pq_keep_alive pr) c c'"
  | (started) p gr cv cmd where "gen_request_start (sv_start env) p (cn_view c) = Some (Inr ((gr, cv), cmd))"
      "cn_request c' = Some gr" "cn_view c' = cv" "cn_gen_owned c'" "cn_parser c' = cn_parser c"
proof -
  note w = write_or_close_idle [OF assms(1), of env _ "\<not> pq_keep_alive pr"] write_error_idle [OF assms(1), of env _ _ _ _ "pq_keep_alive pr"]
  show ?thesis
  proof (cases "pq_method pr = ''OPTIONS''")
    case True
    then show ?thesis
      using assms(2) w(1) [of "http_build_preflight (sv_mem env) (pq_keep_alive pr)"] answer
      by (auto simp: dispatch_def Let_def)
  next
    case False
    show ?thesis
    proof (cases "http_router_match (sv_router env) (pq_method pr) (pq_path pr)")
      case None
      then show ?thesis
        using False assms(2) w(2) [of 405 "''method_not_allowed''" "Some ''method_not_allowed''" "''Method not allowed''"]
          w(2) [of 404 "''not_found_error''" "Some ''not_found''" "''Not found''"] answer
        by (auto simp: dispatch_def Let_def split: if_splits)
    next
      case (Some h)
      show ?thesis
      proof (cases "run_handler (sv_start env) (sv_ctx env) (sv_models env) h (pq_body pr) (cn_view c)")
        case None
        then show ?thesis
          using False Some assms(2) by (simp add: dispatch_def Let_def)
      next
        case r: (Some r)
        obtain resp started where rs: "r = (resp, started)"
          by (rule prod.exhaust)
        show ?thesis
        proof (cases started)
          case None
          then show ?thesis
            using False Some assms(2) r rs answer
              w(1) [of "http_build_response (sv_mem env) (rs_status resp) (rs_content_type resp)
                   (case rs_body resp of None \<Rightarrow> [] | Some b \<Rightarrow> b) (pq_keep_alive pr)"]
            by (auto simp: dispatch_def Let_def)
        next
          case st: (Some st)
          obtain gr cv cmd where t: "st = ((gr, cv), cmd)"
            by (metis prod.exhaust)
          obtain p where "gen_request_start (sv_start env) p (cn_view c) = Some (Inr ((gr, cv), cmd))"
            using run_handler_started r rs st t by blast
          then show ?thesis
            using False Some assms(2) r rs st t by (intro started) (auto simp: dispatch_def Let_def)
        qed
      qed
    qed
  qed
qed

text \<open>A feed answers only a parser that was ready, and a completed one is not ready any more.\<close>

lemma feed_ready:
  assumes "http_parser_feed mem ll p data = (st, out, p')"
  shows "st = HTTP_PARSE_INCOMPLETE \<Longrightarrow> hp_last_status p = HTTP_PARSE_INCOMPLETE"
    "st \<noteq> HTTP_PARSE_INCOMPLETE \<Longrightarrow> hp_last_status p' = st"
    "out = Some pr \<Longrightarrow> hp_last_status p = HTTP_PARSE_INCOMPLETE"
    "hp_last_status p = HTTP_PARSE_INCOMPLETE \<Longrightarrow> st = HTTP_PARSE_COMPLETE \<Longrightarrow> out \<noteq> None"
  using assms by (auto elim!: http_parser_feed_cases)

lemma answered_inv:
  "answered fin c c' \<Longrightarrow> hp_last_status (cn_parser c) \<noteq> HTTP_PARSE_INCOMPLETE \<Longrightarrow> conn_inv c'"
  by (auto simp: answered_def conn_inv_def idle_def)

lemma idle_parser [simp]: "idle (c\<lparr>cn_parser := p\<rparr>) = idle c" "is_open (c\<lparr>cn_parser := p\<rparr>) = is_open c"
  by (simp_all add: idle_def is_open_def)

lemma ready_open:
  "idle c \<Longrightarrow> conn_inv c \<Longrightarrow> is_open c \<Longrightarrow> hp_last_status (cn_parser c) = HTTP_PARSE_INCOMPLETE \<Longrightarrow>
   still_open (cv_acts (cn_view c))"
  by (simp add: conn_inv_def idle_def)

text \<open>One completed request: the invariant, and whether the loop may go on.\<close>

lemma dispatch_inv:
  assumes "idle c" "conn_inv c" "is_open c"
    and feed: "http_parser_feed mem ll (cn_parser c) data = (HTTP_PARSE_COMPLETE, Some pr, p)"
    and disp: "dispatch env (c\<lparr>cn_parser := p\<rparr>) pr = Some c'"
  shows "conn_inv c'"
    "pq_keep_alive pr \<Longrightarrow> is_open c' \<Longrightarrow> \<not> cn_gen_owned c' \<Longrightarrow>
       idle c' \<and> conn_inv (c'\<lparr>cn_parser := http_parser_reset ll (cn_parser c')\<rparr>)"
proof -
  have op: "still_open (cv_acts (cn_view c))" "hp_last_status p = HTTP_PARSE_COMPLETE"
    using ready_open [OF assms(1-3)] feed_ready [OF feed] by auto
  have i: "idle (c\<lparr>cn_parser := p\<rparr>)"
    using assms(1) by simp
  from i disp have "conn_inv c' \<and> (pq_keep_alive pr \<and> is_open c' \<and> \<not> cn_gen_owned c' \<longrightarrow>
       idle c' \<and> conn_inv (c'\<lparr>cn_parser := http_parser_reset ll (cn_parser c')\<rparr>))"
  proof (cases rule: dispatch_cases)
    case answer
    have "conn_inv c'"
      using answered_inv [OF answer] op by simp
    then show ?thesis
      using answer op by (auto simp: answered_def conn_inv_def idle_def)
  next
    case (started q gr cv cmd)
    have "gr_inv (gr, cv)"
      using gen_request_start_inv [OF started(1)] assms(3) op by (simp add: is_open_def)
    then show ?thesis
      using started by (simp add: conn_inv_def)
  qed
  then show "conn_inv c'" "pq_keep_alive pr \<Longrightarrow> is_open c' \<Longrightarrow> \<not> cn_gen_owned c' \<Longrightarrow>
       idle c' \<and> conn_inv (c'\<lparr>cn_parser := http_parser_reset ll (cn_parser c')\<rparr>)"
    by auto
qed

text \<open>A read that is not a completed request.\<close>

definition not_complete :: "'p server_env \<Rightarrow> http_parse_status \<Rightarrow> 'p conn \<Rightarrow> 'p conn option" where
  "not_complete env st c = (case st of
     HTTP_PARSE_ERROR \<Rightarrow> write_error env c 400 ''invalid_request_error'' None ''Malformed HTTP request'' False
   | HTTP_PARSE_TOO_LARGE \<Rightarrow> write_error env c 413 ''payload_too_large'' (Some ''payload_too_large'') ''Request body too large'' False
   | _ \<Rightarrow> Some c)"

lemma not_complete_inv:
  assumes "idle c" "conn_inv c" "is_open c" "http_parser_feed mem ll (cn_parser c) data = (st, out, p)" "st \<noteq> HTTP_PARSE_COMPLETE"
  shows "\<exists>c'. not_complete env st (c\<lparr>cn_parser := p\<rparr>) = Some c' \<and> conn_inv c'"
proof -
  have i: "idle (c\<lparr>cn_parser := p\<rparr>)"
    using assms(1) by simp
  have "conn_inv (c\<lparr>cn_parser := p\<rparr>)" if "st = HTTP_PARSE_INCOMPLETE"
    using that ready_open [OF assms(1-3)] feed_ready(1) [OF assms(4)] assms(1) by (simp add: conn_inv_def idle_def)
  moreover have "conn_inv c'" if "answered f (c\<lparr>cn_parser := p\<rparr>) c'" "st \<noteq> HTTP_PARSE_INCOMPLETE" for f c'
    using answered_inv [OF that(1)] feed_ready(2) [OF assms(4)] that(2) by simp
  ultimately show ?thesis
    using write_error_idle [OF i, of env] assms(5)
    by (cases st) (simp_all add: not_complete_def, blast+)
qed

lemma read_loop_round:
  assumes "data \<noteq> []" "is_open c" "http_parser_feed (sv_mem env) (sv_ll env) (cn_parser c) data = (st, out, p)"
  shows "read_loop env fuel c data =
    (if st \<noteq> HTTP_PARSE_COMPLETE then not_complete env st (c\<lparr>cn_parser := p\<rparr>)
     else case out of None \<Rightarrow> None | Some pr \<Rightarrow>
       (case dispatch env (c\<lparr>cn_parser := p\<rparr>) pr of
          None \<Rightarrow> None
        | Some c \<Rightarrow>
            if \<not> pq_keep_alive pr \<or> cv_closing (cn_view c) \<or> cn_gen_owned c then Some c
            else (case fuel of 0 \<Rightarrow> None
              | Suc fuel \<Rightarrow> read_loop env fuel (c\<lparr>cn_parser := http_parser_reset (sv_ll env) (cn_parser c)\<rparr>) (drop (hp_consumed p) data))))"
  using assms by (cases st) (simp_all add: read_loop.simps [of env fuel c data] is_open_def not_complete_def http_parser_consumed_def
      cong: nat.case_cong split: option.split)

lemma read_loop_done: "data = [] \<or> \<not> is_open c \<Longrightarrow> read_loop env fuel c data = Some c"
  by (auto simp: read_loop.simps is_open_def)

lemma read_loop_inv:
  assumes "idle c" "conn_inv c" "read_loop env fuel c data = Some c'"
  shows "conn_inv c'"
  using assms
proof (induction fuel arbitrary: c data)
  case IH: (Suc fuel c data)
  show ?case
  proof (cases "data = [] \<or> \<not> is_open c")
    case False
    obtain st out p where f: "http_parser_feed (sv_mem env) (sv_ll env) (cn_parser c) data = (st, out, p)"
      by (metis prod_cases3)
    show ?thesis
    proof (cases "st = HTTP_PARSE_COMPLETE")
      case True
      from IH.prems(3) obtain pr c1 where o: "out = Some pr" and d: "dispatch env (c\<lparr>cn_parser := p\<rparr>) pr = Some c1"
        using read_loop_round [OF _ _ f] False True by (auto split: option.splits)
      note inv = dispatch_inv [OF IH.prems(1,2) _ f [unfolded True o] d]
      show ?thesis
      proof (cases "\<not> pq_keep_alive pr \<or> cv_closing (cn_view c1) \<or> cn_gen_owned c1")
        case True
        then show ?thesis
          using IH.prems(3) read_loop_round [OF _ _ f] False \<open>st = HTTP_PARSE_COMPLETE\<close> o d inv(1) by simp
      next
        case cont: False
        then have "idle c1" "conn_inv (c1\<lparr>cn_parser := http_parser_reset (sv_ll env) (cn_parser c1)\<rparr>)"
          using inv(2) False by (auto simp: is_open_def)
        then show ?thesis
          using IH.IH [of "c1\<lparr>cn_parser := http_parser_reset (sv_ll env) (cn_parser c1)\<rparr>" "drop (hp_consumed p) data"]
            IH.prems(3) read_loop_round [OF _ _ f] False \<open>st = HTTP_PARSE_COMPLETE\<close> o d cont by simp
      qed
    next
      case n: False
      then show ?thesis
        using IH.prems(3) read_loop_round [OF _ _ f] False not_complete_inv [OF IH.prems(1,2) _ f n, of env] by auto
    qed
  qed (use IH.prems in \<open>auto simp: read_loop_done\<close>)
next
  case (0 c data)
  show ?case
  proof (cases "data = [] \<or> \<not> is_open c")
    case False
    obtain st out p where f: "http_parser_feed (sv_mem env) (sv_ll env) (cn_parser c) data = (st, out, p)"
      by (metis prod_cases3)
    show ?thesis
    proof (cases "st = HTTP_PARSE_COMPLETE")
      case True
      from 0(3) obtain pr where o: "out = Some pr" and d: "dispatch env (c\<lparr>cn_parser := p\<rparr>) pr = Some c'"
        using read_loop_round [OF _ _ f] False True by (auto split: option.splits if_splits)
      show ?thesis
        using dispatch_inv(1) [OF 0(1,2) _ f [unfolded True o] d] False by simp
    next
      case n: False
      then show ?thesis
        using 0(3) read_loop_round [OF _ _ f] False not_complete_inv [OF 0(1,2) _ f n, of env] by auto
    qed
  qed (use 0 in \<open>auto simp: read_loop_done\<close>)
qed

text \<open>The parser moves past a completed request.\<close>

definition parser_advances :: "'p llhttp \<Rightarrow> bool" where
  "parser_advances ll \<longleftrightarrow> (\<forall>p data n. data \<noteq> [] \<longrightarrow> 0 < ll_error_pos ll p data n)"

lemma feed_advances:
  assumes "parser_advances ll" "data \<noteq> []" "http_parser_feed mem ll p data = (HTTP_PARSE_COMPLETE, Some pr, p')"
  shows "0 < hp_consumed p'"
  using assms by (auto simp: http_parser_feed_def ll_execute_def parser_advances_def Let_def split: if_splits prod.splits)

text \<open>A request whose handler does not return: a completions request whose prompt could not be copied.\<close>

definition request_lost :: "'p server_env \<Rightarrow> http_parsed_request \<Rightarrow> bool" where
  "request_lost env pr \<longleftrightarrow> pq_method pr \<noteq> ''OPTIONS'' \<and>
     http_router_match (sv_router env) (pq_method pr) (pq_path pr) = Some Handle_completions \<and>
     prompt_lost (sv_start env) (sv_ctx env) (pq_body pr)"

lemma dispatch_None:
  assumes "idle c" "ctx_loaded (sv_ctx env)"
  shows "dispatch env c pr = None \<longleftrightarrow> request_lost env pr"
proof -
  note w = write_or_close_idle [OF assms(1), of env] write_error_idle [OF assms(1), of env]
  have e: "write_or_close env c x f \<noteq> None" "write_error env c st ty code msg ka \<noteq> None" for x f st ty code msg ka
    using w(1) [of x f] w(2) [of st ty code msg ka] by auto
  note h = run_handler_None [OF assms(2), of "sv_start env" "sv_models env" _ "pq_body pr" "cn_view c"]
  show ?thesis
  proof (cases "pq_method pr = ''OPTIONS''")
    case True
    then show ?thesis
      by (simp add: dispatch_def request_lost_def Let_def e del: not_None_eq)
  next
    case False
    show ?thesis
    proof (cases "http_router_match (sv_router env) (pq_method pr) (pq_path pr)")
      case None
      then show ?thesis
        using False by (simp add: dispatch_def request_lost_def Let_def e del: not_None_eq)
    next
      case (Some x)
      have "dispatch env c pr = None \<longleftrightarrow>
          run_handler (sv_start env) (sv_ctx env) (sv_models env) x (pq_body pr) (cn_view c) = None"
        using False Some by (simp add: dispatch_def Let_def e del: not_None_eq split: option.split prod.split)
      then show ?thesis
        using False Some h [of x] by (simp add: request_lost_def)
    qed
  qed
qed

text \<open>The requests that the bytes of one read bring to \<open>dispatch\<close>, in order.\<close>

fun dispatched :: "'p server_env \<Rightarrow> nat \<Rightarrow> 'p conn \<Rightarrow> string \<Rightarrow> http_parsed_request list" where
  "dispatched env fuel c data =
     (if data = [] \<or> cv_closing (cn_view c) then []
      else case http_parser_feed (sv_mem env) (sv_ll env) (cn_parser c) data of
        (HTTP_PARSE_COMPLETE, Some pr, p) \<Rightarrow>
          pr # (case dispatch env (c\<lparr>cn_parser := p\<rparr>) pr of
             None \<Rightarrow> []
           | Some c \<Rightarrow>
               if \<not> pq_keep_alive pr \<or> cv_closing (cn_view c) \<or> cn_gen_owned c then []
               else (case fuel of
                  0 \<Rightarrow> []
                | Suc fuel \<Rightarrow>
                    dispatched env fuel (c\<lparr>cn_parser := http_parser_reset (sv_ll env) (cn_parser c)\<rparr>)
                      (drop (http_parser_consumed (Some p)) data)))
      | _ \<Rightarrow> [])"

declare dispatched.simps [simp del]

lemma dispatched_round:
  assumes "data \<noteq> []" "is_open c" "http_parser_feed (sv_mem env) (sv_ll env) (cn_parser c) data = (st, out, p)"
  shows "st \<noteq> HTTP_PARSE_COMPLETE \<Longrightarrow> dispatched env fuel c data = []"
    and "st = HTTP_PARSE_COMPLETE \<Longrightarrow> out = Some pr \<Longrightarrow> dispatched env fuel c data =
      pr # (case dispatch env (c\<lparr>cn_parser := p\<rparr>) pr of
             None \<Rightarrow> []
           | Some c1 \<Rightarrow>
               if \<not> pq_keep_alive pr \<or> cv_closing (cn_view c1) \<or> cn_gen_owned c1 then []
               else (case fuel of
                  0 \<Rightarrow> []
                | Suc fuel \<Rightarrow>
                    dispatched env fuel (c1\<lparr>cn_parser := http_parser_reset (sv_ll env) (cn_parser c1)\<rparr>)
                      (drop (hp_consumed p) data)))"
proof -
  show "st \<noteq> HTTP_PARSE_COMPLETE \<Longrightarrow> dispatched env fuel c data = []"
    using assms by (cases st) (simp_all add: dispatched.simps [of env fuel c data] is_open_def)
qed (use assms in \<open>simp add: dispatched.simps [of env fuel c data] is_open_def http_parser_consumed_def
  cong: nat.case_cong split: option.split\<close>)

lemma dispatched_done: "data = [] \<or> \<not> is_open c \<Longrightarrow> dispatched env fuel c data = []"
  by (auto simp: dispatched.simps [of env fuel c data] is_open_def)

lemma read_loop_None:
  assumes "ctx_loaded (sv_ctx env)" "parser_advances (sv_ll env)" "idle c" "conn_inv c" "length data \<le> fuel"
    "hp_last_status (cn_parser c) \<noteq> HTTP_PARSE_COMPLETE"
  shows "read_loop env fuel c data = None \<longleftrightarrow> (\<exists>pr\<in>set (dispatched env fuel c data). request_lost env pr)"
  using assms(3-6)
proof (induction fuel arbitrary: c data)
  case 0
  then show ?case
    by (simp add: read_loop_done dispatched_done)
next
  case (Suc fuel c data)
  show ?case
  proof (cases "data = [] \<or> \<not> is_open c")
    case False
    then have open_c: "data \<noteq> []" "is_open c"
      by simp_all
    obtain st out p where f: "http_parser_feed (sv_mem env) (sv_ll env) (cn_parser c) data = (st, out, p)"
      by (metis prod_cases3)
    show ?thesis
    proof (cases "st = HTTP_PARSE_COMPLETE")
      case True
      have "hp_last_status (cn_parser c) = HTTP_PARSE_INCOMPLETE"
        using f True Suc.prems(4) by (auto elim!: http_parser_feed_cases)
      then obtain pr where o: "out = Some pr"
        using feed_ready(4) [OF f] True by auto
      note seen = dispatched_round(2) [OF open_c f True o, of "Suc fuel"]
      have "idle (c\<lparr>cn_parser := p\<rparr>)"
        using Suc.prems(1) by simp
      note lost = dispatch_None [OF this assms(1), of pr]
      show ?thesis
      proof (cases "dispatch env (c\<lparr>cn_parser := p\<rparr>) pr")
        case None
        then show ?thesis
          using lost seen read_loop_round [OF open_c f] True o by simp
      next
        case d: (Some c1)
        note inv = dispatch_inv [OF Suc.prems(1,2) _ f [unfolded True o] d]
        have len: "length (drop (hp_consumed p) data) \<le> fuel"
          using feed_advances [OF assms(2) _ f [unfolded True o]] False Suc.prems(3) by simp
        show ?thesis
        proof (cases "\<not> pq_keep_alive pr \<or> cv_closing (cn_view c1) \<or> cn_gen_owned c1")
          case cont: False
          then have "idle c1" "conn_inv (c1\<lparr>cn_parser := http_parser_reset (sv_ll env) (cn_parser c1)\<rparr>)"
            using inv(2) False by (auto simp: is_open_def)
          then show ?thesis
            using Suc.IH [of "c1\<lparr>cn_parser := http_parser_reset (sv_ll env) (cn_parser c1)\<rparr>"] len lost seen
              read_loop_round [OF open_c f] True o d cont by (simp add: http_parser_reset_def)
        qed (use read_loop_round [OF open_c f] True o d lost seen in simp)
      qed
    next
      case n: False
      then show ?thesis
        using read_loop_round [OF open_c f] not_complete_inv [OF Suc.prems(1,2) _ f n, of env] dispatched_round(1) [OF open_c f n] False
        by auto
    qed
  qed (auto simp: read_loop_done dispatched_done)
qed

text \<open>C32. Bytes that arrive on a connection are handled to the end, that is every request they complete is
  dispatched and every handler returns, and the invariant of the connection is kept, with two
  exceptions, which are exact: (1) the last request on the connection asked not to be kept alive and was
  answered; the parser still holds its \<open>COMPLETE\<close>, and further bytes that arrive before the write is
  done make \<open>dispatch\<close> read the \<open>NULL\<close> method of a zeroed request; (2) the bytes complete a valid request
  for completions whose prompt could not be copied, and the handler measures a \<open>NULL\<close> pointer. What is
  assumed: the tokenizer, if there is one, comes from the loader; llhttp (third-party) stops behind the
  first byte of a request it completes; the connection is open, has no generation of its own and is in
  its invariant.\<close>

theorem server_read_outcome:
  assumes "ctx_loaded (sv_ctx env)" "parser_advances (sv_ll env)" "idle c" "conn_inv c" "is_open c" "data \<noteq> []"
  shows "(on_read env c (Some data) = None \<longleftrightarrow> hp_last_status (cn_parser c) = HTTP_PARSE_COMPLETE \<or>
      (\<exists>pr\<in>set (dispatched env (length data) c data). request_lost env pr)) \<and>
    (\<forall>c'. on_read env c (Some data) = Some c' \<longrightarrow> conn_inv c')"
proof -
  have read: "on_read env c (Some data) = read_loop env (length data) c data"
    using assms(3,6) by (simp add: on_read_def idle_def)
  have "read_loop env (length data) c data = None" if "hp_last_status (cn_parser c) = HTTP_PARSE_COMPLETE"
    using that assms(5,6) by (simp add: read_loop.simps [of _ _ c] is_open_def http_parser_feed_def)
  moreover note read_loop_None [OF assms(1-4) le_refl]
  ultimately have "read_loop env (length data) c data = None \<longleftrightarrow> hp_last_status (cn_parser c) = HTTP_PARSE_COMPLETE \<or>
      (\<exists>pr\<in>set (dispatched env (length data) c data). request_lost env pr)"
    by blast
  then show ?thesis
    using read_loop_inv [OF assms(3,4)] unfolding read by blast
qed

definition sample_server :: "unit server_env" where
  "sample_server = \<lparr>sv_start = sample_start_env, sv_ll = echo_llhttp,
     sv_ctx = \<lparr>sv_tokenizer = None, sv_chat_template = None, sv_model_id = None\<rparr>, sv_models = [],
     sv_router = handler_register_all (\<lambda>_. True) (the (http_router_create (\<lambda>_. True))), sv_max_body = 0,
     sv_parser_size = 300, sv_conn_size = 70000\<rparr>"

definition sample_conn :: "http_parse_status \<Rightarrow> unit conn" where
  "sample_conn st = \<lparr>cn_parser = echo_ctx\<lparr>hp_last_status := st\<rparr>, cn_view = sample_view, cn_gen_owned = False,
     cn_request = None, cn_posted = []\<rparr>"

lemma sample_server_returns: "ctx_loaded (sv_ctx sample_server)" "parser_advances (sv_ll sample_server)"
  by (simp_all add: ctx_loaded_def parser_advances_def sample_server_def echo_llhttp_def)

lemma sample_server_lost: "\<not> request_lost sample_server pr"
  by (simp add: request_lost_def prompt_lost_def sample_server_def)

lemma sample_conn_inv: "idle (sample_conn st)" "conn_inv (sample_conn st)" "is_open (sample_conn st)"
  by (simp_all add: sample_conn_def idle_def conn_inv_def is_open_def sample_view_def)

theorem server_read_outcome_witness:
  "on_read sample_server (sample_conn HTTP_PARSE_COMPLETE) (Some ''x'') = None \<and>
   (\<exists>c. on_read sample_server (sample_conn HTTP_PARSE_INCOMPLETE) (Some ''x'') = Some c \<and> conn_inv c)"
proof -
  have st: "hp_last_status (cn_parser (sample_conn st)) = st" for st
    by (simp add: sample_conn_def)
  show ?thesis
    using server_read_outcome [OF sample_server_returns sample_conn_inv, of "''x''" HTTP_PARSE_COMPLETE]
      server_read_outcome [OF sample_server_returns sample_conn_inv, of "''x''" HTTP_PARSE_INCOMPLETE] st sample_server_lost by auto
qed

end
