(* ===== verification/HttpDrain.thy ===== *)
theory HttpDrain
  imports HttpServerSafe
begin

text \<open>
  The server as a whole: its reachable states under the callbacks of the loop, the engine and the
  generation requests, the invariant of its connections, and the accounting of the graceful shutdown.
\<close>

subsection \<open>Steps\<close>

text \<open>What happens to a generation request outside a read: its notifications, timers and handle closes,
  and the engine on its stream.\<close>

inductive request_step :: "gen_env \<Rightarrow> gsys \<Rightarrow> gsys \<Rightarrow> bool" for env where
  async: "gen_on_async env n st = Some st' \<Longrightarrow> request_step env st st'"
| timer: "gr_timer_inited gr \<Longrightarrow> on_timer gr = Some gr' \<Longrightarrow> request_step env (gr, cv) (gr', cv)"
| handle: "0 < gr_pending_closes gr \<Longrightarrow> request_step env (gr, cv) (on_close_cb gr, cv)"
| engine: "gr_stream gr = Some s \<Longrightarrow> s_refcount s = 2 \<Longrightarrow> engine_step s s' \<Longrightarrow>
     request_step env (gr, cv) (gr\<lparr>gr_stream := Some s'\<rparr>, cv)"

definition server_start :: "'p http_server" where
  "server_start = \<lparr>hs_conns = [], hs_draining = False, hs_drain_timer_active = False, hs_drain_open_conns = 0,
     hs_timer_inits = 0, hs_timer_closes = 0, hs_listener_closed = False, hs_stop_sent = False, hs_shutdown = False\<rparr>"

inductive server_reach :: "'p server_env \<Rightarrow> 'p http_server \<Rightarrow> bool" for env where
  start: "server_reach env server_start"
| accept: "server_reach env srv \<Longrightarrow> \<not> hs_listener_closed srv \<Longrightarrow> server_reach env (on_new_connection env ok srv)"
| read: "server_reach env srv \<Longrightarrow> i < length (hs_conns srv) \<Longrightarrow> is_open (hs_conns srv ! i) \<Longrightarrow>
     with_conn i (\<lambda>c. on_read env c nread) srv = Some srv' \<Longrightarrow> server_reach env srv'"
| written: "server_reach env srv \<Longrightarrow> i < length (hs_conns srv) \<Longrightarrow>
     with_conn i (\<lambda>c. on_write c fin failed) srv = Some srv' \<Longrightarrow> server_reach env srv'"
| request: "server_reach env srv \<Longrightarrow> i < length (hs_conns srv) \<Longrightarrow> cn_request (hs_conns srv ! i) = Some gr \<Longrightarrow>
     request_step (se_env (sv_start env)) (gr, cn_view (hs_conns srv ! i)) (gr', cv') \<Longrightarrow>
     with_conn i (\<lambda>c. Some (c\<lparr>cn_request := Some gr', cn_view := cv'\<rparr>)) srv = Some srv' \<Longrightarrow> server_reach env srv'"
| stop: "server_reach env srv \<Longrightarrow> server_reach env (snd (http_server_stop srv))"
| stop_async: "server_reach env srv \<Longrightarrow> on_stop_async timer_ok srv = Some srv' \<Longrightarrow> server_reach env srv'"
| timeout: "server_reach env srv \<Longrightarrow> hs_drain_timer_active srv \<Longrightarrow> on_drain_timeout srv = Some srv' \<Longrightarrow> server_reach env srv'"

lemma request_step_inv:
  assumes "request_step env st st'" "gr_inv st"
  shows "gr_inv st' \<and> (cv_closing (snd st) \<longrightarrow> cv_closing (snd st'))"
  using assms
proof (induction rule: request_step.induct)
  case (async n st st')
  then show ?case
    using gen_on_async_inv [of st env n] closed_async [of st env n] by simp
next
  case (timer gr gr' cv)
  then show ?case
    using on_timer_inv [of gr cv] by simp
next
  case (handle gr cv)
  then have "gr_wf (on_close_cb gr)"
    by (simp add: gr_inv_def gr_wf_close_cb)
  then show ?case
    using handle by (auto simp: gr_inv_def on_close_cb_def Let_def)
next
  case (engine gr s s' cv)
  then show ?case
    using engine_step_refcount [OF engine(3,2)] by (auto simp: gr_inv_def gr_wf_def)
qed

subsection \<open>Invariant\<close>

definition n_open :: "'p http_server \<Rightarrow> nat" where
  "n_open srv = length (filter is_open (hs_conns srv))"

text \<open>The drain: before it, no timer; while the timer runs, it counts the open connections; once it is
  over, none is open. A draining server has only open connections that a generation owns.\<close>

definition drain_inv :: "'p http_server \<Rightarrow> bool" where
  "drain_inv srv \<longleftrightarrow>
     (hs_draining srv \<longrightarrow> hs_listener_closed srv \<and> (\<forall>c\<in>set (hs_conns srv). is_open c \<longrightarrow> cn_gen_owned c)) \<and>
     (\<not> hs_draining srv \<longrightarrow> \<not> hs_drain_timer_active srv \<and> hs_timer_inits srv = 0) \<and>
     hs_timer_inits srv \<le> 1 \<and> hs_timer_closes srv = (if hs_drain_timer_active srv then 0 else hs_timer_inits srv) \<and>
     (hs_drain_timer_active srv \<longrightarrow> hs_timer_inits srv = 1 \<and> hs_drain_open_conns srv = int (n_open srv) \<and> 0 < n_open srv) \<and>
     (hs_timer_closes srv = 1 \<longrightarrow> n_open srv = 0)"

definition server_inv :: "'p http_server \<Rightarrow> bool" where
  "server_inv srv \<longleftrightarrow> (\<forall>c\<in>set (hs_conns srv). conn_inv c) \<and> drain_inv srv"

lemma length_filter_update:
  "i < length xs \<Longrightarrow>
   length (filter P (xs[i := y])) + (if P (xs ! i) then 1 else 0) = length (filter P xs) + (if P y then 1 else 0)"
proof (induction xs arbitrary: i)
  case (Cons x xs)
  then show ?case
    using Cons.IH [of "i - 1"] by (cases i) auto
qed simp

lemma n_open_update:
  "i < length (hs_conns srv) \<Longrightarrow>
   n_open (srv\<lparr>hs_conns := (hs_conns srv)[i := c]\<rparr>) + (if is_open (hs_conns srv ! i) then 1 else 0) =
   n_open srv + (if is_open c then 1 else 0)"
  using length_filter_update [of i "hs_conns srv" is_open c] by (simp add: n_open_def)

lemma set_update_ball: "(\<forall>c\<in>set xs. P c) \<Longrightarrow> P y \<Longrightarrow> \<forall>c\<in>set (xs[i := y]). P c"
  by (auto dest!: set_update_subset_insert [THEN subsetD])

text \<open>An operation on one connection that keeps it well formed, and owned and closed if it was.\<close>

lemma with_conn_inv:
  assumes inv: "server_inv srv" and i: "i < length (hs_conns srv)" and f: "f (hs_conns srv ! i) = Some c"
    and c: "conn_inv c" "is_open c \<longrightarrow> is_open (hs_conns srv ! i)" "cn_gen_owned (hs_conns srv ! i) \<longrightarrow> cn_gen_owned c"
    and w: "with_conn i f srv = Some srv'"
  shows "server_inv srv'"
proof -
  let ?old = "hs_conns srv ! i" and ?mid = "srv\<lparr>hs_conns := (hs_conns srv)[i := c]\<rparr>"
  note n = n_open_update [OF i, of c]
  have srv': "srv' = (if is_open ?old \<and> \<not> is_open c then drain_check ?mid else ?mid)"
    using w f by (simp add: with_conn_def is_open_def Let_def)
  have conns: "hs_conns srv' = (hs_conns srv)[i := c]"
    by (simp add: srv' drain_check_def Let_def)
  have all: "\<forall>d\<in>set (hs_conns srv'). conn_inv d"
    unfolding conns using inv c(1) by (intro set_update_ball) (simp_all add: server_inv_def)
  have old: "is_open ?old \<longrightarrow> cn_gen_owned ?old" if "hs_draining srv"
    using that inv i by (simp add: server_inv_def drain_inv_def)
  have own: "\<forall>d\<in>set (hs_conns srv'). is_open d \<longrightarrow> cn_gen_owned d" if "hs_draining srv"
    unfolding conns using that inv c old by (intro set_update_ball) (auto simp: server_inv_def drain_inv_def)
  have "n_open srv' = n_open ?mid"
    by (simp add: n_open_def conns)
  then have "drain_inv srv'"
    using inv n own c(2) unfolding server_inv_def drain_inv_def
    by (cases "is_open ?old"; cases "is_open c") (auto simp: srv' drain_check_def Let_def split: if_splits)
  then show ?thesis
    using all by (simp add: server_inv_def)
qed

lemma with_conn_plain:
  "\<not> hs_drain_timer_active srv \<Longrightarrow> f (hs_conns srv ! i) = Some c \<Longrightarrow>
   with_conn i f srv = Some (srv\<lparr>hs_conns := (hs_conns srv)[i := c]\<rparr>)"
  by (simp add: with_conn_def drain_check_def Let_def)

subsection \<open>The walks\<close>

text \<open>The walk up to a position: the connections before it are finished with, and counted if open.\<close>

definition walked :: "'p http_server \<Rightarrow> ('p conn \<Rightarrow> bool) \<Rightarrow> nat \<Rightarrow> 'p http_server \<Rightarrow> bool" where
  "walked srv0 P k srv \<longleftrightarrow> srv = srv0\<lparr>hs_conns := hs_conns srv\<rparr> \<and> length (hs_conns srv) = length (hs_conns srv0) \<and>
     (\<forall>c\<in>set (hs_conns srv). conn_inv c) \<and> (\<forall>c\<in>set (take k (hs_conns srv)). is_open c \<longrightarrow> P c)"

lemma walked_step:
  assumes "walked srv0 P k srv" "k < length (hs_conns srv0)" "conn_inv c" "is_open c \<longrightarrow> P c"
  shows "walked srv0 P (Suc k) (srv\<lparr>hs_conns := (hs_conns srv)[k := c]\<rparr>)"
proof -
  have k: "k < length (hs_conns srv)"
    using assms(1,2) by (simp add: walked_def)
  have "take (Suc k) ((hs_conns srv)[k := c]) = take k (hs_conns srv) @ [c]"
    using k by (simp add: take_Suc_conv_app_nth)
  moreover have "\<forall>d\<in>set ((hs_conns srv)[k := c]). conn_inv d"
    using assms(1,3) by (intro set_update_ball) (simp_all add: walked_def)
  ultimately show ?thesis
    using assms(1,4) unfolding walked_def by (cases srv0; cases srv) auto
qed

lemma walked_skip:
  "walked srv0 P k srv \<Longrightarrow> k < length (hs_conns srv0) \<Longrightarrow> \<not> is_open (hs_conns srv ! k) \<Longrightarrow> walked srv0 P (Suc k) srv"
  by (auto simp: walked_def take_Suc_conv_app_nth)

lemma drain_gen_inv:
  assumes "conn_inv c" "cn_gen_owned c"
  shows "\<exists>c'. drain_gen c = Some c' \<and> conn_inv c' \<and> cn_gen_owned c' \<and> cn_view c' = cn_view c"
proof (cases "cv_observed (cn_view c)")
  case True
  then obtain gr where gr: "cn_request c = Some gr" "gr_inv (gr, cn_view c)"
    using assms by (auto simp: conn_inv_def idle_def split: option.splits)
  from drain_inv [OF gr(2)] obtain gr' where "gen_request_drain gr = Some gr'" "gr_inv (gr', cn_view c)"
    by (auto simp: leads_def)
  then show ?thesis
    using True gr assms(2) by (simp add: drain_gen_def on_conn_def conn_inv_def)
qed (use assms in \<open>simp add: drain_gen_def\<close>)

lemma walk_drain:
  assumes "walked srv0 cn_gen_owned k srv" "\<not> hs_drain_timer_active srv0" "k \<le> length (hs_conns srv0)"
    "n = length (filter is_open (take k (hs_conns srv)))"
  shows "\<exists>srv'. uv_walk walk_drain_cb [k..<length (hs_conns srv0)] (srv, n) = Some (srv', n_open srv') \<and>
     walked srv0 cn_gen_owned (length (hs_conns srv0)) srv'"
  using assms
proof (induction "length (hs_conns srv0) - k" arbitrary: k srv n)
  case 0
  then have "k = length (hs_conns srv0)" "length (hs_conns srv) = length (hs_conns srv0)"
    by (simp_all add: walked_def)
  then show ?case
    using 0 by (simp add: n_open_def)
next
  case (Suc m)
  let ?L = "length (hs_conns srv0)" and ?c = "hs_conns srv ! k"
  have k: "k < ?L" "k < length (hs_conns srv)"
    using Suc by (auto simp: walked_def)
  have c: "conn_inv ?c" and act: "\<not> hs_drain_timer_active srv"
    using Suc.prems k by (auto simp: walked_def) (metis http_server.select_convs(3) http_server.surjective http_server.update_convs(1))
  have upt: "[k..<?L] = k # [Suc k..<?L]"
    using k by (simp add: upt_conv_Cons)
  have tk: "take (Suc k) (hs_conns srv) = take k (hs_conns srv) @ [?c]"
    using k by (simp add: take_Suc_conv_app_nth)
  have tk': "take (Suc k) ((hs_conns srv)[k := d]) = take k (hs_conns srv) @ [d]" for d
    using k by (simp add: take_Suc_conv_app_nth)
  have "\<exists>srv1 n1. walk_drain_cb k (srv, n) = Some (srv1, n1) \<and> walked srv0 cn_gen_owned (Suc k) srv1 \<and>
      n1 = length (filter is_open (take (Suc k) (hs_conns srv1)))"
  proof (cases "is_open ?c")
    case False
    then show ?thesis
      using walked_skip [OF Suc.prems(1) k(1) False] Suc.prems(4) tk by (simp add: walk_drain_cb_def is_open_def)
  next
    case True
    show ?thesis
    proof (cases "cn_gen_owned ?c")
      case own: True
      obtain c' where "drain_gen ?c = Some c'" "conn_inv c'" "cn_gen_owned c'" "cn_view c' = cn_view ?c"
        using drain_gen_inv [OF c own] by blast
      then show ?thesis
        using True own walked_step [OF Suc.prems(1) k(1), of c'] Suc.prems(4) tk' [of c']
          with_conn_plain [OF act, of drain_gen k c']
        by (simp add: walk_drain_cb_def is_open_def Let_def)
    next
      case False
      obtain c' where "conn_close ?c = Some c'" "conn_inv c'" "\<not> is_open c'"
        using conn_close_inv [OF c] by blast
      then show ?thesis
        using True False walked_step [OF Suc.prems(1) k(1), of c'] Suc.prems(4) tk' [of c']
          with_conn_plain [OF act, of conn_close k c']
        by (simp add: walk_drain_cb_def is_open_def Let_def)
    qed
  qed
  then obtain srv1 n1 where step: "walk_drain_cb k (srv, n) = Some (srv1, n1)" "walked srv0 cn_gen_owned (Suc k) srv1"
    "n1 = length (filter is_open (take (Suc k) (hs_conns srv1)))"
    by blast
  have "m = ?L - Suc k" "Suc k \<le> ?L"
    using Suc(2) k by simp_all
  from Suc.hyps(1) [OF this(1) step(2) Suc.prems(2) this(2) step(3)] show ?case
    by (simp add: upt step(1))
qed

lemma walk_close:
  assumes "walked srv0 (\<lambda>_. False) k srv" "\<not> hs_drain_timer_active srv0" "k \<le> length (hs_conns srv0)"
  shows "\<exists>srv'. uv_walk walk_force_close_tcp_cb [k..<length (hs_conns srv0)] srv = Some srv' \<and>
     walked srv0 (\<lambda>_. False) (length (hs_conns srv0)) srv'"
  using assms
proof (induction "length (hs_conns srv0) - k" arbitrary: k srv)
  case 0
  then show ?case
    by simp
next
  case (Suc m)
  let ?L = "length (hs_conns srv0)" and ?c = "hs_conns srv ! k"
  have k: "k < ?L" "k < length (hs_conns srv)"
    using Suc by (auto simp: walked_def)
  have c: "conn_inv ?c" and act: "\<not> hs_drain_timer_active srv"
    using Suc.prems k by (auto simp: walked_def) (metis http_server.select_convs(3) http_server.surjective http_server.update_convs(1))
  obtain c' where c': "conn_close ?c = Some c'" "conn_inv c'" "\<not> is_open c'"
    using conn_close_inv [OF c] by blast
  have "\<exists>srv1. walk_force_close_tcp_cb k srv = Some srv1 \<and> walked srv0 (\<lambda>_. False) (Suc k) srv1"
    using c' walked_skip [OF Suc.prems(1) k(1)] walked_step [OF Suc.prems(1) k(1), of c'] with_conn_plain [OF act, of conn_close k c']
    by (cases "is_open ?c") (simp_all add: walk_force_close_tcp_cb_def is_open_def)
  then obtain srv1 where step: "walk_force_close_tcp_cb k srv = Some srv1" "walked srv0 (\<lambda>_. False) (Suc k) srv1"
    by blast
  have "m = ?L - Suc k" "Suc k \<le> ?L" "[k..<?L] = k # [Suc k..<?L]"
    using Suc(2) k by (simp_all add: upt_conv_Cons)
  with Suc.hyps(1) [OF this(1) step(2) Suc.prems(2) this(2)] show ?case
    by (simp add: step(1))
qed

lemma walked_start: "\<forall>c\<in>set (hs_conns srv). conn_inv c \<Longrightarrow> walked srv P 0 srv"
  by (cases srv) (simp add: walked_def)

lemma walked_fields:
  "walked srv0 P k srv \<Longrightarrow> \<exists>cs. srv = srv0\<lparr>hs_conns := cs\<rparr>"
  unfolding walked_def by blast

lemma on_stop_async_inv:
  assumes inv: "server_inv srv"
  shows "\<exists>srv'. on_stop_async timer_ok srv = Some srv' \<and> server_inv srv' \<and> hs_draining srv' \<and>
    length (hs_conns srv') = length (hs_conns srv)"
proof (cases "hs_draining srv")
  case True
  then show ?thesis
    using inv by (simp add: on_stop_async_def)
next
  case False
  have act: "\<not> hs_drain_timer_active srv" "hs_timer_inits srv = 0" "hs_timer_closes srv = 0"
    using inv False by (auto simp: server_inv_def drain_inv_def)
  let ?s = "srv\<lparr>hs_draining := True, hs_listener_closed := True\<rparr>"
  have "walked ?s cn_gen_owned 0 ?s"
    using inv by (intro walked_start) (simp add: server_inv_def)
  from walk_drain [OF this, of 0] act obtain srv' where
    w: "uv_walk walk_drain_cb [0..<length (hs_conns srv)] (?s, 0) = Some (srv', n_open srv')"
      "walked ?s cn_gen_owned (length (hs_conns srv)) srv'"
    by auto
  obtain cs where cs: "srv' = ?s\<lparr>hs_conns := cs\<rparr>"
    using walked_fields [OF w(2)] by blast
  have all: "\<forall>c\<in>set cs. conn_inv c" "\<forall>c\<in>set cs. is_open c \<longrightarrow> cn_gen_owned c" "length cs = length (hs_conns srv)"
    using w(2) cs by (auto simp: walked_def)
  show ?thesis
    using False w(1) all act cs
    by (auto simp: on_stop_async_def server_inv_def drain_inv_def n_open_def Let_def)
qed

lemma on_drain_timeout_inv:
  assumes inv: "server_inv srv" and act: "hs_drain_timer_active srv"
  shows "\<exists>srv'. on_drain_timeout srv = Some srv' \<and> server_inv srv' \<and> n_open srv' = 0"
proof -
  let ?s = "srv\<lparr>hs_drain_timer_active := False\<rparr>"
  have d: "hs_draining srv" "hs_timer_inits srv = 1" "hs_timer_closes srv = 0" "hs_listener_closed srv"
    using inv act by (auto simp: server_inv_def drain_inv_def)
  have "walked ?s (\<lambda>_. False) 0 ?s"
    using inv by (intro walked_start) (simp add: server_inv_def)
  from walk_close [OF this] obtain srv' where
    w: "uv_walk walk_force_close_tcp_cb [0..<length (hs_conns srv)] ?s = Some srv'"
      "walked ?s (\<lambda>_. False) (length (hs_conns srv)) srv'"
    by auto
  obtain cs where cs: "srv' = ?s\<lparr>hs_conns := cs\<rparr>"
    using walked_fields [OF w(2)] by blast
  have all: "\<forall>c\<in>set cs. conn_inv c" "\<forall>c\<in>set cs. \<not> is_open c"
    using w(2) cs by (auto simp: walked_def)
  then have "filter is_open cs = []"
    by simp
  then show ?thesis
    using w(1) all d cs
    by (auto simp: on_drain_timeout_def server_inv_def drain_inv_def n_open_def)
qed

lemma on_new_connection_inv:
  assumes "server_inv srv" "\<not> hs_listener_closed srv"
  shows "server_inv (on_new_connection env ok srv)"
proof (cases "http_parser_create (sv_mem env) (sv_parser_size env) (sv_ll env) (sv_max_body env)")
  case None
  then show ?thesis
    using assms by (simp add: on_new_connection_def)
next
  case (Some p)
  let ?c = "\<lparr>cn_parser = p, cn_view = \<lparr>cv_acts = [], cv_writes = 0, cv_observed = False, cv_closing = False\<rparr>,
            cn_gen_owned = False, cn_request = None, cn_posted = []\<rparr>"
  have "conn_inv ?c"
    by (simp add: conn_inv_def idle_def)
  then show ?thesis
    using assms Some by (auto simp: on_new_connection_def server_inv_def drain_inv_def)
qed

lemma on_read_inv:
  assumes "conn_inv c" "is_open c" "on_read env c nread = Some c'"
  shows "conn_inv c' \<and> (cn_gen_owned c \<longrightarrow> cn_gen_owned c')"
proof (cases nread)
  case None
  then show ?thesis
    using assms conn_close_inv [OF assms(1)] by (auto simp: on_read_def)
next
  case (Some data)
  show ?thesis
  proof (cases "data = [] \<or> cn_gen_owned c")
    case True
    then show ?thesis
      using assms Some by (auto simp: on_read_def)
  next
    case False
    then have "idle c"
      using assms(1) by (auto simp: conn_inv_def split: option.splits)
    then show ?thesis
      using False assms Some read_loop_inv [of c env "length data" data c'] by (simp add: on_read_def)
  qed
qed

lemma server_reach_inv: "server_reach env srv \<Longrightarrow> server_inv srv"
proof (induction rule: server_reach.induct)
  case start
  then show ?case
    by (simp add: server_start_def server_inv_def drain_inv_def)
next
  case (accept srv ok)
  then show ?case
    by (simp add: on_new_connection_inv)
next
  case (read srv i nread srv')
  then obtain c where c: "on_read env (hs_conns srv ! i) nread = Some c"
    by (auto simp: with_conn_def Let_def split: option.splits)
  have "conn_inv (hs_conns srv ! i)"
    using read by (simp add: server_inv_def)
  from on_read_inv [OF this read(3) c] show ?case
    using with_conn_inv [OF read(5,2) c _ _ _ read(4)] read(3) by simp
next
  case (written srv i fin failed srv')
  then obtain c where c: "on_write (hs_conns srv ! i) fin failed = Some c"
    by (auto simp: with_conn_def Let_def split: option.splits)
  have "conn_inv (hs_conns srv ! i)"
    using written by (simp add: server_inv_def)
  then have "conn_inv c \<and> (is_open c \<longrightarrow> is_open (hs_conns srv ! i)) \<and> (cn_gen_owned (hs_conns srv ! i) \<longrightarrow> cn_gen_owned c)"
    using c conn_close_inv [of "hs_conns srv ! i"] by (auto simp: on_write_def split: if_splits)
  then show ?case
    using with_conn_inv [OF written(4,2) c _ _ _ written(3)] by simp
next
  case (request srv i gr gr' cv' srv')
  let ?c = "hs_conns srv ! i"
  have c: "gr_inv (gr, cn_view ?c)" "cn_gen_owned ?c"
    using request by (auto simp: server_inv_def conn_inv_def split: option.splits dest!: nth_mem)
  from request_step_inv [OF request(4) c(1)] have "conn_inv (?c\<lparr>cn_request := Some gr', cn_view := cv'\<rparr>)"
    "is_open (?c\<lparr>cn_request := Some gr', cn_view := cv'\<rparr>) \<longrightarrow> is_open ?c"
    using c by (auto simp: conn_inv_def is_open_def)
  then show ?case
    using with_conn_inv [OF request(6,2) refl _ _ _ request(5)] c by simp
next
  case (stop srv)
  then show ?case
    by (auto simp: http_server_stop_def server_inv_def drain_inv_def n_open_def)
next
  case (stop_async srv timer_ok srv')
  then show ?case
    using on_stop_async_inv [of srv timer_ok] by auto
next
  case (timeout srv srv')
  then show ?case
    using on_drain_timeout_inv [of srv] by auto
qed

text \<open>C33. In every reachable state of the server each connection a generation owns satisfies the safety of
  generation requests; a stop always completes its walk and afterwards only owned connections are
  open; while the drain timer runs, the counter is the number of open connections, so the timer is
  stopped and closed exactly once, when the last one closes or at the deadline, which closes them all.\<close>

theorem server_drain:
  assumes "server_reach env srv"
  shows "(\<forall>c\<in>set (hs_conns srv). \<forall>gr. cn_request c = Some gr \<longrightarrow>
       cn_gen_owned c \<and> acts_ok (cv_acts (cn_view c)) \<and> (gr_conn gr \<longleftrightarrow> still_open (cv_acts (cn_view c)))) \<and>
    (hs_draining srv \<longrightarrow> hs_listener_closed srv \<and> (\<forall>c\<in>set (hs_conns srv). is_open c \<longrightarrow> cn_gen_owned c)) \<and>
    (hs_drain_timer_active srv \<longrightarrow> hs_drain_open_conns srv = int (n_open srv) \<and> 0 < n_open srv) \<and>
    hs_timer_inits srv \<le> 1 \<and> hs_timer_closes srv = (if hs_drain_timer_active srv then 0 else hs_timer_inits srv) \<and>
    (hs_timer_closes srv = 1 \<longrightarrow> n_open srv = 0) \<and>
    (\<exists>srv'. on_stop_async timer_ok srv = Some srv' \<and> hs_draining srv') \<and>
    (hs_drain_timer_active srv \<longrightarrow> (\<exists>srv'. on_drain_timeout srv = Some srv' \<and> n_open srv' = 0))"
proof -
  have inv: "server_inv srv"
    using assms by (rule server_reach_inv)
  have "cn_gen_owned c \<and> acts_ok (cv_acts (cn_view c)) \<and> (gr_conn gr \<longleftrightarrow> still_open (cv_acts (cn_view c)))"
    if "c \<in> set (hs_conns srv)" "cn_request c = Some gr" for c gr
    using inv that by (auto simp: server_inv_def conn_inv_def gr_inv_def view_ok_def dest!: bspec)
  then show ?thesis
    using inv on_stop_async_inv [OF inv, of timer_ok] on_drain_timeout_inv [OF inv]
    by (auto simp: server_inv_def drain_inv_def)
qed

text \<open>A server with one idle connection that is stopped.\<close>

theorem server_drain_witness:
  "\<exists>srv. server_reach sample_server srv \<and> hs_draining srv \<and> hs_listener_closed srv \<and> length (hs_conns srv) = 1 \<and>
     (\<forall>c\<in>set (hs_conns srv). is_open c \<longrightarrow> cn_gen_owned c)"
proof -
  let ?srv = "on_new_connection sample_server True server_start"
  have r: "server_reach sample_server ?srv"
    by (rule server_reach.accept [OF server_reach.start]) (simp add: server_start_def)
  have mem: "sv_mem sample_server n" for n
    by (simp add: sample_server_def sample_start_env_def sample_gen_env_def)
  have one: "length (hs_conns ?srv) = 1" "\<not> hs_draining ?srv"
    by (simp_all add: on_new_connection_def mem http_parser_create_def server_start_def)
  from server_drain [OF r, of True] obtain srv where stop: "on_stop_async True ?srv = Some srv" "hs_draining srv"
    by blast
  have "length (hs_conns srv) = 1"
    using on_stop_async_inv [OF server_reach_inv [OF r], of True] stop(1) one by auto
  then show ?thesis
    using server_drain [OF server_reach.stop_async [OF r stop(1)], of True] stop server_reach.stop_async [OF r stop(1)] by blast
qed

end
