(* ===== verification/TokLoad.thy ===== *)
theory TokLoad
  imports BpeCorrect HttpGen
begin

text \<open>
  The loaders of \<open>src/model/tokenizer.c\<close>: \<open>tokenizer.json\<close>, the legacy pair \<open>vocab.json\<close> and
  \<open>merges.txt\<close>, and the overrides of \<open>tokenizer_config.json\<close>. A failed load is \<open>None\<close>. The JSON reader
  and the files are parameters; the tables are the ones of theory \<open>TokMap\<close>, whose probes return.
\<close>

definition MLXD_TOK_MAX_ID :: int where "MLXD_TOK_MAX_ID = 4194303"

definition MLXD_TOK_MAX_FILE :: nat where "MLXD_TOK_MAX_FILE = 268435456"

text \<open>The bytes of a JSON string with its length, and its length.\<close>

fun json_bytes :: "jval \<Rightarrow> bytes" where
  "json_bytes (Some (JStr s)) = str_bytes s"
| "json_bytes _ = []"

definition is_str_eq :: "jval \<Rightarrow> string \<Rightarrow> bool" where
  "is_str_eq v s \<longleftrightarrow> yyjson_get_str v = Some s"

definition json_arr_or_absent :: "jval \<Rightarrow> bool" where
  "json_arr_or_absent v \<longleftrightarrow> v = None \<or> yyjson_is_arr v \<or> yyjson_is_null v"

text \<open>A store, \<open>None\<close> when it is refused.\<close>

definition str_put :: "allocator \<Rightarrow> str_u32_map \<Rightarrow> bytes \<Rightarrow> u32 \<Rightarrow> str_u32_map option" where
  "str_put mem m k v = (case the (str_u32_map_put mem m k v) of (True, m') \<Rightarrow> Some m' | (False, _) \<Rightarrow> None)"

definition merge_put :: "allocator \<Rightarrow> merge_map \<Rightarrow> bytes \<times> bytes \<Rightarrow> u32 \<Rightarrow> merge_map option" where
  "merge_put mem m k v = (case the (merge_map_put mem m k v) of (True, m') \<Rightarrow> Some m' | (False, _) \<Rightarrow> None)"

subsection \<open>Merges and shapes\<close>

definition parse_merge_pair :: "json \<Rightarrow> (bytes \<times> bytes) option" where
  "parse_merge_pair entry = (case entry of
     JArr (lv # rv # _) \<Rightarrow>
       (if yyjson_is_str (Some lv) \<and> yyjson_is_str (Some rv) then Some (json_bytes (Some lv), json_bytes (Some rv)) else None)
   | JStr s \<Rightarrow>
       (if CHR '' '' \<in> set s
        then Some (str_bytes (takeWhile (\<lambda>c. c \<noteq> CHR '' '') s), str_bytes (tl (dropWhile (\<lambda>c. c \<noteq> CHR '' '') s)))
        else None)
   | _ \<Rightarrow> None)"

lemma size_member: "map_of kvs k = Some v \<Longrightarrow> size v < size (JObj kvs)"
  by (induction kvs) (auto split: if_splits)

lemma size_obj_arr: "yyjson_obj_get (Some pt) k = Some (JArr subs) \<Longrightarrow> size_list size subs < size pt"
  by (cases pt) (auto dest: size_member)

text \<open>Whether a pre-tokenizer contains \<open>ByteLevel\<close>; \<open>None\<close> when a sequence is malformed.\<close>

function has_byte_level :: "json \<Rightarrow> bool option" and any_byte_level :: "json list \<Rightarrow> bool option" where
  "has_byte_level pt =
     (if is_str_eq (yyjson_obj_get (Some pt) ''type'') ''ByteLevel'' then Some True
      else if is_str_eq (yyjson_obj_get (Some pt) ''type'') ''Sequence''
      then (case yyjson_obj_get (Some pt) ''pretokenizers'' of
              Some (JArr subs) \<Rightarrow> any_byte_level subs
            | v \<Rightarrow> if json_arr_or_absent v then Some False else None)
      else Some False)"
| "any_byte_level [] = Some False"
| "any_byte_level (sub # subs) = (case has_byte_level sub of
     None \<Rightarrow> None
   | Some True \<Rightarrow> Some True
   | Some False \<Rightarrow> any_byte_level subs)"
  by pat_completeness auto

termination
  by (relation "measure (\<lambda>x. case x of Inl pt \<Rightarrow> 2 * size pt | Inr subs \<Rightarrow> 2 * size_list size subs + 1)")
    (auto dest: size_obj_arr)

text \<open>U+2581 in UTF-8.\<close>

definition sp_prefix :: string where
  "sp_prefix = [char_of (226 :: nat), char_of (150 :: nat), char_of (129 :: nat)]"

text \<open>The normalizers: the form and whether a dummy prefix is added.\<close>

function parse_normalizer :: "json \<Rightarrow> norm_form \<times> bool \<Rightarrow> (norm_form \<times> bool) option"
  and parse_normalizers :: "json list \<Rightarrow> norm_form \<times> bool \<Rightarrow> (norm_form \<times> bool) option" where
  "parse_normalizer nrm st =
     (case yyjson_get_str (yyjson_obj_get (Some nrm) ''type'') of
        None \<Rightarrow> Some st
      | Some ty \<Rightarrow>
          if ty = ''Prepend''
          then Some (if is_str_eq (yyjson_obj_get (Some nrm) ''prepend'') sp_prefix
                     then (fst st, True) else st)
          else if ty = ''Sequence''
          then (case yyjson_obj_get (Some nrm) ''normalizers'' of
                  Some (JArr subs) \<Rightarrow> parse_normalizers subs st
                | v \<Rightarrow> if json_arr_or_absent v then Some st else None)
          else if ty = ''NFC'' then Some (if fst st \<noteq> NORM_NFKC then NORM_NFC else NORM_NFKC, snd st)
          else if ty = ''NFKC'' then Some (NORM_NFKC, snd st)
          else Some st)"
| "parse_normalizers [] st = Some st"
| "parse_normalizers (sub # subs) st = (case parse_normalizer sub st of
     None \<Rightarrow> None
   | Some st \<Rightarrow> parse_normalizers subs st)"
  by pat_completeness auto

termination
  by (relation "measure (\<lambda>x. case x of Inl (nrm, _) \<Rightarrow> 2 * size nrm | Inr (subs, _) \<Rightarrow> 2 * size_list size subs + 1)")
    (auto dest: size_obj_arr)

subsection \<open>Names\<close>

definition bos_names :: "string list" where
  "bos_names = [''<bos>'', ''<s>'', ''<|begin_of_text|>'', ''<|startoftext|>'', ''[CLS]'']"

definition eos_names :: "string list" where
  "eos_names = [''<eos>'', ''</s>'', ''<|end_of_text|>'', ''<|eot_id|>'', ''<|im_end|>'', ''<|endoftext|>'', ''[SEP]'']"

definition resolve_name :: "str_u32_map \<Rightarrow> str_u32_map \<Rightarrow> string \<Rightarrow> int" where
  "resolve_name special_tokens vocab name =
     (case map_id special_tokens (str_bytes name) of
        Some i \<Rightarrow> i
      | None \<Rightarrow> (case map_id vocab (str_bytes name) of Some i \<Rightarrow> i | None \<Rightarrow> - 1))"

definition resolve_token_name :: "tokenizer \<Rightarrow> string \<Rightarrow> int" where
  "resolve_token_name tok name = resolve_name (tk_special_tokens tok) (tk_vocab tok) name"

text \<open>The first name of a list that resolves.\<close>

fun first_resolved :: "(string \<Rightarrow> int) \<Rightarrow> string list \<Rightarrow> int" where
  "first_resolved res [] = - 1"
| "first_resolved res (n # ns) = (if 0 \<le> res n then res n else first_resolved res ns)"

subsection \<open>Vocabulary and added tokens\<close>

text \<open>An id in range.\<close>

definition json_id :: "jval \<Rightarrow> u32 option" where
  "json_id v = (if yyjson_is_int v \<and> 0 \<le> yyjson_get_sint v \<and> yyjson_get_sint v \<le> MLXD_TOK_MAX_ID
                then Some (word_of_int (yyjson_get_sint v)) else None)"

fun load_vocab :: "allocator \<Rightarrow> (string \<times> json) list \<Rightarrow> str_u32_map \<times> u32 \<Rightarrow> (str_u32_map \<times> u32) option" where
  "load_vocab mem [] st = Some st"
| "load_vocab mem ((key, val) # kvs) st =
     (case json_id (Some val) of
        None \<Rightarrow> None
      | Some i \<Rightarrow>
          (case str_put mem (fst st) (str_bytes key) i of
             None \<Rightarrow> None
           | Some vocab \<Rightarrow> load_vocab mem kvs (vocab, max (snd st) i)))"

record load_maps =
  lm_vocab :: str_u32_map
  lm_specials :: str_u32_map
  lm_added :: str_u32_map
  lm_max_id :: u32

text \<open>One entry of \<open>added_tokens\<close>.\<close>

definition fold_added_entry :: "allocator \<Rightarrow> json \<Rightarrow> load_maps \<Rightarrow> load_maps option" where
  "fold_added_entry mem entry lm =
     (let content = yyjson_obj_get (Some entry) ''content''; key = json_bytes content in
      if \<not> yyjson_is_str content then None
      else if key = [] then Some lm
      else case json_id (yyjson_obj_get (Some entry) ''id'') of
        None \<Rightarrow> None
      | Some i \<Rightarrow>
      (case str_put mem (lm_specials lm) key i of
        None \<Rightarrow> None
      | Some specials \<Rightarrow>
      (case (if yyjson_obj_get (Some entry) ''special'' = Some (JBool True) then str_put mem (lm_added lm) key i
             else Some (lm_added lm)) of
        None \<Rightarrow> None
      | Some added \<Rightarrow>
      (case the (str_u32_map_get (lm_vocab lm) key) of
        None \<Rightarrow>
          (case str_put mem (lm_vocab lm) key i of
             None \<Rightarrow> None
           | Some vocab \<Rightarrow> Some \<lparr>lm_vocab = vocab, lm_specials = specials, lm_added = added, lm_max_id = max (lm_max_id lm) i\<rparr>)
      | Some have \<Rightarrow>
          if have \<noteq> i then None else Some (lm\<lparr>lm_specials := specials, lm_added := added\<rparr>)))))"

fun fold_added :: "allocator \<Rightarrow> json list \<Rightarrow> load_maps \<Rightarrow> load_maps option" where
  "fold_added mem [] lm = Some lm"
| "fold_added mem (entry # entries) lm = (case fold_added_entry mem entry lm of
     None \<Rightarrow> None
   | Some lm \<Rightarrow> fold_added mem entries lm)"

text \<open>The strings of the ids, as C strings, in document order.\<close>

fun fill_vocab :: "(string \<times> json) list \<Rightarrow> bytes option list \<Rightarrow> bytes option list" where
  "fill_vocab [] table = table"
| "fill_vocab ((key, val) # kvs) table =
     fill_vocab kvs (table[nat (yyjson_get_sint (Some val)) := Some (str_bytes (c_str key))])"

fun fill_added :: "json list \<Rightarrow> bytes option list \<Rightarrow> bytes option list option" where
  "fill_added [] table = Some table"
| "fill_added (entry # entries) table =
     (let content = yyjson_obj_get (Some entry) ''content'' in
      if json_bytes content = [] then fill_added entries table
      else let s = str_bytes (the (yyjson_get_str content));
               i = nat (yyjson_get_sint (yyjson_obj_get (Some entry) ''id'')) in
           (case table ! i of
              Some have \<Rightarrow> if have \<noteq> s then None else fill_added entries (table[i := Some s])
            | None \<Rightarrow> fill_added entries (table[i := Some s])))"

fun load_merges :: "allocator \<Rightarrow> u32 \<Rightarrow> json list \<Rightarrow> merge_map \<Rightarrow> merge_map option" where
  "load_merges mem idx [] m = Some m"
| "load_merges mem idx (entry # entries) m = (case parse_merge_pair entry of
     None \<Rightarrow> load_merges mem (idx + 1) entries m
   | Some lr \<Rightarrow> (case merge_put mem m lr idx of
       None \<Rightarrow> None
     | Some m \<Rightarrow> load_merges mem (idx + 1) entries m))"

subsection \<open>Byte fallback\<close>

definition hex_upper :: "nat \<Rightarrow> char" where
  "hex_upper d = (if d < 10 then char_of (48 + d) else char_of (55 + d))"

definition fallback_name :: "nat \<Rightarrow> string" where
  "fallback_name b = ''<0x'' @ [hex_upper (b div 16), hex_upper (b mod 16)] @ ''>''"

definition fallback_ids :: "tokenizer_type \<Rightarrow> uc_bytes_unicode \<Rightarrow> str_u32_map \<Rightarrow> int list" where
  "fallback_ids ty bu vocab = map (\<lambda>b.
     case (case ty of
             TOKENIZER_BPE \<Rightarrow> map_id vocab (uc_encode_codepoint (word_of_nat (byte_to_cp bu ! b)))
           | TOKENIZER_SENTENCEPIECE_BPE \<Rightarrow> map_id vocab (str_bytes (fallback_name b))
           | _ \<Rightarrow> None) of
       Some i \<Rightarrow> i | None \<Rightarrow> - 1) [0..<256]"

subsection \<open>The JSON loader\<close>

definition map_hint :: "nat \<Rightarrow> u32" where
  "map_hint n = of_nat (min (2 ^ 30) (if n \<noteq> 0 then n * 2 else 16))"

definition load_type :: "jval \<Rightarrow> jval \<Rightarrow> tokenizer_type option" where
  "load_type model_type pre_tokenizer =
     (if is_str_eq model_type ''WordPiece'' then Some TOKENIZER_WORDPIECE
      else if is_str_eq model_type ''BPE''
      then map_option (\<lambda>bl. if bl then TOKENIZER_BPE else TOKENIZER_SENTENCEPIECE_BPE)
             (case pre_tokenizer of None \<Rightarrow> Some False | Some pt \<Rightarrow> has_byte_level pt)
      else None)"

definition load_cleanup :: "jval \<Rightarrow> bool" where
  "load_cleanup decoder =
     (let cl = yyjson_obj_get decoder ''cleanup'' in
      if is_str_eq (yyjson_obj_get decoder ''type'') ''WordPiece'' \<and> yyjson_is_bool cl then yyjson_get_bool cl else True)"

definition init_maps :: "allocator \<Rightarrow> nat \<Rightarrow> nat \<Rightarrow> (load_maps \<times> merge_map) option" where
  "init_maps mem vocab_count merge_count =
     (case (str_u32_map_init mem (map_hint vocab_count), merge_map_init mem (map_hint merge_count),
            str_u32_map_init mem 16) of
        (Some vocab, Some merges, Some m) \<Rightarrow>
          Some (\<lparr>lm_vocab = vocab, lm_specials = m, lm_added = m, lm_max_id = 0\<rparr>, merges)
      | _ \<Rightarrow> None)"

text \<open>BOS, EOS and the unknown token, after the added tokens were folded in.\<close>

definition pick_bos :: "tokenizer_type \<Rightarrow> load_maps \<Rightarrow> int" where
  "pick_bos ty lm =
     (let res = resolve_name (lm_specials lm) (lm_vocab lm) in
      first_resolved res ((if ty = TOKENIZER_WORDPIECE then [''[CLS]''] else []) @ bos_names))"

definition pick_eos :: "tokenizer_type \<Rightarrow> load_maps \<Rightarrow> int" where
  "pick_eos ty lm =
     (let res = resolve_name (lm_specials lm) (lm_vocab lm) in
      first_resolved res ((if ty = TOKENIZER_WORDPIECE then [''[SEP]''] else []) @ eos_names))"

definition pick_unk :: "tokenizer_type \<Rightarrow> str_u32_map \<Rightarrow> str_u32_map \<Rightarrow> int" where
  "pick_unk ty vocab0 vocab =
     (let base = (case map_id vocab0 (str_bytes ''<unk>'') of Some i \<Rightarrow> i | None \<Rightarrow> - 1) in
      if ty = TOKENIZER_WORDPIECE
      then (case map_id vocab (str_bytes ''[UNK]'') of Some i \<Rightarrow> i | None \<Rightarrow> base) else base)"

text \<open>The table of the strings; empty when there is no token.\<close>

definition id_table :: "allocator \<Rightarrow> load_maps \<Rightarrow> (string \<times> json) list \<Rightarrow> json list \<Rightarrow> bytes option list option" where
  "id_table mem lm kvs added =
     (if oa_count (lm_vocab lm) = 0 then Some []
      else let cap = unat (lm_max_id lm + 1) in
           if \<not> mem (cap * 8) then None else fill_added added (fill_vocab kvs (replicate cap None)))"

definition load_root :: "allocator \<Rightarrow> nat \<Rightarrow> json \<Rightarrow> tokenizer option" where
  "load_root mem tok_size rt =
     (let model = yyjson_obj_get (Some rt) ''model''; merges_val = yyjson_obj_get model ''merges'';
          added_val = yyjson_obj_get (Some rt) ''added_tokens''; prefix_val = yyjson_obj_get model ''continuing_subword_prefix''
      in case yyjson_obj_get model ''vocab'' of
        Some (JObj kvs) \<Rightarrow>
          if \<not> json_arr_or_absent merges_val \<or> \<not> mem tok_size then None
          else (case init_maps mem (length kvs) (length (yyjson_arr_items merges_val)) of
            None \<Rightarrow> None
          | Some (lm0, merges0) \<Rightarrow>
          (case load_type (yyjson_obj_get model ''type'') (yyjson_obj_get (Some rt) ''pre_tokenizer'') of
            None \<Rightarrow> None
          | Some ty \<Rightarrow>
          (case (case yyjson_obj_get (Some rt) ''normalizer'' of
                   None \<Rightarrow> Some (NORM_NONE, False) | Some nrm \<Rightarrow> parse_normalizer nrm (NORM_NONE, False)) of
            None \<Rightarrow> None
          | Some (form, dummy) \<Rightarrow>
          (case load_vocab mem kvs (lm_vocab lm0, 0) of
            None \<Rightarrow> None
          | Some (vocab0, max0) \<Rightarrow>
          if \<not> json_arr_or_absent added_val then None
          else case fold_added mem (yyjson_arr_items added_val) (lm0\<lparr>lm_vocab := vocab0, lm_max_id := max0\<rparr>) of
            None \<Rightarrow> None
          | Some lm \<Rightarrow>
          (case id_table mem lm kvs (yyjson_arr_items added_val) of
            None \<Rightarrow> None
          | Some table \<Rightarrow>
          (case load_merges mem 0 (yyjson_arr_items merges_val) merges0 of
            None \<Rightarrow> None
          | Some merges \<Rightarrow>
              Some \<lparr>tk_type = ty, tk_vocab = lm_vocab lm, tk_merges = merges, tk_special_tokens = lm_specials lm,
                tk_added_special = lm_added lm, tk_id_to_token = table,
                tk_vocab_size = c_int (uint (oa_count (lm_vocab lm))), tk_bos_id = pick_bos ty lm,
                tk_eos_id = pick_eos ty lm, tk_unk_id = pick_unk ty vocab0 (lm_vocab lm), tk_norm_form = form,
                tk_add_dummy_prefix = dummy,
                tk_wp_prefix = (if yyjson_is_str prefix_val then json_bytes prefix_val else str_bytes ''##''),
                tk_wp_cleanup = load_cleanup (yyjson_obj_get (Some rt) ''decoder''),
                tk_byte_fallback_ids = fallback_ids ty uc_build_bytes_to_unicode (lm_vocab lm),
                tk_bytes_unicode = uc_build_bytes_to_unicode\<rparr>))))))
      | _ \<Rightarrow> None)"

definition tokenizer_load_json :: "allocator \<Rightarrow> yyjson_api \<Rightarrow> nat \<Rightarrow> string \<Rightarrow> tokenizer option" where
  "tokenizer_load_json mem yy tok_size json =
     (case yy_read yy json of None \<Rightarrow> None | Some rt \<Rightarrow> load_root mem tok_size rt)"

subsection \<open>Files\<close>

text \<open>A path: nothing there, a failing open or read, or its bytes.\<close>

datatype disk_file = Absent | Unreadable | Contents string

type_synonym files = "string \<Rightarrow> disk_file"

text \<open>The bytes, and whether the file does not exist.\<close>

definition read_file :: "allocator \<Rightarrow> files \<Rightarrow> string \<Rightarrow> string option \<times> bool" where
  "read_file mem files path = (case files path of
     Absent \<Rightarrow> (None, True)
   | Unreadable \<Rightarrow> (None, False)
   | Contents s \<Rightarrow> (if length s \<le> MLXD_TOK_MAX_FILE \<and> mem (max 1 (length s)) then Some s else None, False))"

definition path_join :: "allocator \<Rightarrow> string \<Rightarrow> string \<Rightarrow> string option" where
  "path_join mem dir name = (if mem (length dir + 1 + length name + 1) then Some (dir @ ''/'' @ name) else None)"

definition read_in_dir :: "allocator \<Rightarrow> files \<Rightarrow> string \<Rightarrow> string \<Rightarrow> string option" where
  "read_in_dir mem files dir name = (case path_join mem dir name of None \<Rightarrow> None | Some p \<Rightarrow> fst (read_file mem files p))"

definition tokenizer_load :: "allocator \<Rightarrow> yyjson_api \<Rightarrow> nat \<Rightarrow> files \<Rightarrow> string option \<Rightarrow> tokenizer option" where
  "tokenizer_load mem yy tok_size files path = (case path of
     None \<Rightarrow> None
   | Some p \<Rightarrow> (case fst (read_file mem files p) of None \<Rightarrow> None | Some buf \<Rightarrow> tokenizer_load_json mem yy tok_size buf))"

subsection \<open>The legacy pair\<close>

text \<open>\<open>strchr\<close> on the blanks also finds the terminating NUL.\<close>

definition is_blank :: "char \<Rightarrow> bool" where
  "is_blank c \<longleftrightarrow> c = CHR '' '' \<or> c = CHR 0x09 \<or> c = CHR 0x0D \<or> c = CHR 0x00"

definition trim_blanks :: "string \<Rightarrow> string" where
  "trim_blanks s = rev (dropWhile is_blank (rev (dropWhile is_blank s)))"

lemma tl_dropWhile_shorter: "s \<noteq> [] \<Longrightarrow> length (tl (dropWhile P s)) < length s"
  using length_dropWhile_le [of P s] by (cases s) (auto simp: le_less_trans)

function merge_lines :: "string \<Rightarrow> json list" where
  "merge_lines s =
     (if s = [] then []
      else let line = trim_blanks (takeWhile (\<lambda>c. c \<noteq> CHR 0x0A) s);
               rst = tl (dropWhile (\<lambda>c. c \<noteq> CHR 0x0A) s)
           in (if line = [] \<or> hd line = CHR ''#'' then [] else [JStr line]) @ merge_lines rst)"
  by pat_completeness auto

termination
  by (relation "measure length") (simp_all add: tl_dropWhile_shorter del: length_tl)

declare merge_lines.simps [simp del]

definition legacy_names :: "string list" where
  "legacy_names = bos_names @ eos_names @ [''<unk>'', ''<pad>'']"

definition legacy_added :: "json \<Rightarrow> json list" where
  "legacy_added vocab = concat (map (\<lambda>name.
     let idv = yyjson_obj_get (Some vocab) name in
     if yyjson_is_int idv
     then [JObj [(''id'', JInt (yyjson_get_sint idv)), (''content'', JStr name), (''special'', JBool True)]]
     else []) legacy_names)"

definition legacy_root :: "json \<Rightarrow> string \<Rightarrow> json" where
  "legacy_root vocab merges_txt =
     JObj [(''pre_tokenizer'', JObj [(''type'', JStr ''ByteLevel'')]),
       (''model'', JObj [(''type'', JStr ''BPE''), (''vocab'', vocab), (''merges'', JArr (merge_lines merges_txt))]),
       (''added_tokens'', JArr (legacy_added vocab))]"

definition tokenizer_load_dir_legacy :: "allocator \<Rightarrow> yyjson_api \<Rightarrow> nat \<Rightarrow> files \<Rightarrow> string \<Rightarrow> tokenizer option" where
  "tokenizer_load_dir_legacy mem yy tok_size files dir =
     (case read_in_dir mem files dir ''vocab.json'' of
        None \<Rightarrow> None
      | Some vocab_json \<Rightarrow>
      (case read_in_dir mem files dir ''merges.txt'' of
        None \<Rightarrow> None
      | Some merges_txt \<Rightarrow>
      (case yy_read yy vocab_json of
        None \<Rightarrow> None
      | Some vocab \<Rightarrow>
      if \<not> yy_new yy then None
      else case yy_write yy (legacy_root vocab merges_txt) of
        None \<Rightarrow> None
      | Some out \<Rightarrow> tokenizer_load_json mem yy tok_size out)))"

subsection \<open>Directories\<close>

text \<open>An override by a string or an object with a string content.\<close>

definition apply_one_override :: "tokenizer \<Rightarrow> jval \<Rightarrow> int \<Rightarrow> int" where
  "apply_one_override tok v slot =
     (let sv = (if yyjson_is_obj v then yyjson_obj_get v ''content'' else v) in
      if \<not> yyjson_is_str sv \<or> json_bytes sv = [] then slot
      else let i = resolve_token_name tok (the (yyjson_get_str sv)) in if 0 \<le> i then i else slot)"

definition apply_config_overrides :: "allocator \<Rightarrow> yyjson_api \<Rightarrow> files \<Rightarrow> tokenizer \<Rightarrow> string \<Rightarrow> tokenizer" where
  "apply_config_overrides mem yy files tok dir =
     (case read_in_dir mem files dir ''tokenizer_config.json'' of
        None \<Rightarrow> tok
      | Some buf \<Rightarrow>
          (case yy_read yy buf of
             None \<Rightarrow> tok
           | Some rt \<Rightarrow>
               if \<not> yyjson_is_obj (Some rt) then tok
               else tok\<lparr>tk_bos_id := apply_one_override tok (yyjson_obj_get (Some rt) ''bos_token'') (tk_bos_id tok),
                 tk_eos_id := apply_one_override tok (yyjson_obj_get (Some rt) ''eos_token'') (tk_eos_id tok)\<rparr>))"

definition tokenizer_load_dir :: "allocator \<Rightarrow> yyjson_api \<Rightarrow> nat \<Rightarrow> files \<Rightarrow> string option \<Rightarrow> tokenizer option" where
  "tokenizer_load_dir mem yy tok_size files dir_path =
     (case dir_path of
        None \<Rightarrow> None
      | Some dir \<Rightarrow>
          (case path_join mem dir ''tokenizer.json'' of
             None \<Rightarrow> None
           | Some tj \<Rightarrow>
               map_option (\<lambda>tok. apply_config_overrides mem yy files tok dir)
                 (case read_file mem files tj of
                    (Some buf, _) \<Rightarrow> tokenizer_load_json mem yy tok_size buf
                  | (None, not_found) \<Rightarrow>
                      if not_found then tokenizer_load_dir_legacy mem yy tok_size files dir else None)))"

subsection \<open>Getters\<close>

definition tokenizer_type_of :: "tokenizer option \<Rightarrow> tokenizer_type" where
  "tokenizer_type_of tok = (case tok of None \<Rightarrow> TOKENIZER_UNKNOWN | Some t \<Rightarrow> tk_type t)"

definition tokenizer_vocab_size :: "tokenizer option \<Rightarrow> int" where
  "tokenizer_vocab_size tok = (case tok of None \<Rightarrow> 0 | Some t \<Rightarrow> tk_vocab_size t)"

definition tokenizer_add_dummy_prefix :: "tokenizer option \<Rightarrow> bool" where
  "tokenizer_add_dummy_prefix tok = (case tok of None \<Rightarrow> False | Some t \<Rightarrow> tk_add_dummy_prefix t)"

end
