(* ===== verification/TokLoadSafe.thy ===== *)
theory TokLoadSafe
  imports TokLoad
begin

text \<open>
  What a load of a tokenizer guarantees: the tables are ones a program can hold, every id in them has its
  string, the added tokens decode to their contents, and the special ids are ids or -1.
\<close>

subsection \<open>Stores\<close>

lemma str_putD:
  assumes "str_put mem m k v = Some m'" "str_u32_map_reach m"
  shows "str_u32_map_reach m'" "oa_abs m' = (oa_abs m)(k \<mapsto> v)"
proof -
  obtain b m1 where p: "str_u32_map_put mem m k v = Some (b, m1)" "oa_inv fnv1a m1"
    "oa_abs m1 = (if b then (oa_abs m)(k \<mapsto> v) else oa_abs m)"
    using str_kv.put_law [OF str_u32_map_reach_inv [OF assms(2)], of mem k v] by blast
  have "b \<and> m1 = m'"
    using assms(1) p(1) by (simp add: str_put_def split: bool.splits)
  then show "str_u32_map_reach m'" "oa_abs m' = (oa_abs m)(k \<mapsto> v)"
    using p str_u32_map_reach.put [OF assms(2) p(1)] by auto
qed

lemma merge_putD:
  assumes "merge_put mem m k v = Some m'" "merge_map_reach m"
  shows "merge_map_reach m'"
proof -
  obtain b m1 where p: "merge_map_put mem m k v = Some (b, m1)"
    using merge_kv.put_law [OF merge_map_reach_inv [OF assms(2)], of mem k v] by blast
  then show ?thesis
    using assms(1) merge_map_reach.put [OF assms(2) p] by (simp add: merge_put_def split: bool.splits)
qed

lemma load_merges_reach: "merge_map_reach m \<Longrightarrow> load_merges mem idx entries m = Some m' \<Longrightarrow> merge_map_reach m'"
  by (induction entries arbitrary: idx m) (auto split: option.splits dest: merge_putD)

subsection \<open>Ids\<close>

lemma json_idD:
  assumes "json_id v = Some i"
  shows "nat (yyjson_get_sint v) = unat i" "unat i \<le> 4194303"
proof -
  let ?n = "yyjson_get_sint v"
  have r: "0 \<le> ?n" "?n \<le> 4194303" "i = word_of_int ?n"
    using assms by (auto simp: json_id_def MLXD_TOK_MAX_ID_def split: if_splits)
  then have "uint i = ?n"
    by (simp add: uint_word_of_int_eq take_bit_int_eq_self)
  then show "nat ?n = unat i" "unat i \<le> 4194303"
    using r by (simp_all flip: nat_uint_eq)
qed

lemma map_id_small:
  assumes "str_u32_map_reach m" "\<And>k i. oa_abs m k = Some i \<Longrightarrow> unat i \<le> 4194303" "map_id m key = Some x"
  shows "\<exists>i. oa_abs m key = Some i \<and> x = int (unat i)"
proof -
  obtain i where i: "oa_abs m key = Some i" "x = c_int (uint i)"
    using assms(3) by (auto simp: map_id_def str_u32_map_get_abs [OF assms(1)])
  have "uint i \<le> 4194303"
    using assms(2) [OF i(1)] by (simp flip: nat_uint_eq)
  moreover have "0 \<le> uint i"
    by simp
  ultimately have "c_int (uint i) = int (unat i)"
    using order_trans [of "- 2147483648" 0 "uint i"] by (subst c_int_id) (simp_all add: INT_MIN_def INT_MAX_def)
  then show ?thesis
    using i by simp
qed

subsection \<open>The vocabulary\<close>

text \<open>A vocabulary with the bound of its ids.\<close>

definition vocab_ok :: "str_u32_map \<Rightarrow> u32 \<Rightarrow> bool" where
  "vocab_ok vocab mx \<longleftrightarrow> str_u32_map_reach vocab \<and> unat mx \<le> 4194303 \<and> (\<forall>k i. oa_abs vocab k = Some i \<longrightarrow> i \<le> mx)"

lemma vocab_ok_put:
  assumes "vocab_ok vocab mx" "str_u32_map_reach vocab'" "oa_abs vocab' = (oa_abs vocab)(k \<mapsto> i)" "unat i \<le> 4194303"
  shows "vocab_ok vocab' (max mx i)"
proof -
  have "unat (max mx i) \<le> 4194303"
    using assms by (simp add: vocab_ok_def max_def)
  then show ?thesis
    using assms by (auto simp: vocab_ok_def le_max_iff_disj)
qed

lemma load_vocab_ok:
  assumes "load_vocab mem kvs (vocab, mx) = Some (vocab', mx')" "vocab_ok vocab mx"
  shows "vocab_ok vocab' mx' \<and> mx \<le> mx' \<and> (\<forall>(k, v)\<in>set kvs. \<exists>i. json_id (Some v) = Some i \<and> i \<le> mx') \<and>
    (\<forall>k i. oa_abs vocab' k = Some i \<longrightarrow> oa_abs vocab k = Some i \<or>
       (\<exists>key v. (key, v) \<in> set kvs \<and> k = str_bytes key \<and> json_id (Some v) = Some i))"
  using assms
proof (induction kvs arbitrary: vocab mx)
  case (Cons kv kvs)
  obtain key v where kv: "kv = (key, v)"
    by (cases kv)
  obtain i m1 where s: "json_id (Some v) = Some i" "str_put mem vocab (str_bytes key) i = Some m1"
    "load_vocab mem kvs (m1, max mx i) = Some (vocab', mx')"
    using Cons.prems(1) by (auto simp: kv split: option.splits)
  have m1: "str_u32_map_reach m1" "oa_abs m1 = (oa_abs vocab)(str_bytes key \<mapsto> i)"
    using str_putD [OF s(2)] Cons.prems(2) by (auto simp: vocab_ok_def)
  have "vocab_ok m1 (max mx i)"
    using Cons.prems(2) m1 json_idD(2) [OF s(1)] by (rule vocab_ok_put)
  note IH = Cons.IH [OF s(3) this]
  have "oa_abs vocab k = Some j \<or> (\<exists>key v. (key, v) \<in> set (kv # kvs) \<and> k = str_bytes key \<and> json_id (Some v) = Some j)"
    if "oa_abs vocab' k = Some j" for k j
  proof -
    from that IH have "oa_abs m1 k = Some j \<or> (\<exists>key v. (key, v) \<in> set kvs \<and> k = str_bytes key \<and> json_id (Some v) = Some j)"
      by blast
    then show ?thesis
      using m1(2) s(1) by (auto simp: kv split: if_splits)
  qed
  then show ?case
    using IH s(1) by (auto simp: kv)
qed simp

subsection \<open>Added tokens\<close>

definition entry_key :: "json \<Rightarrow> bytes" where
  "entry_key e = json_bytes (yyjson_obj_get (Some e) ''content'')"

definition entry_id :: "json \<Rightarrow> u32 option" where
  "entry_id e = json_id (yyjson_obj_get (Some e) ''id'')"

text \<open>The maps while the added tokens are folded in.\<close>

definition maps_ok :: "load_maps \<Rightarrow> bool" where
  "maps_ok lm \<longleftrightarrow> vocab_ok (lm_vocab lm) (lm_max_id lm) \<and> str_u32_map_reach (lm_specials lm) \<and>
     str_u32_map_reach (lm_added lm) \<and>
     (\<forall>k i. oa_abs (lm_specials lm) k = Some i \<longrightarrow> oa_abs (lm_vocab lm) k = Some i) \<and>
     (\<forall>k i. oa_abs (lm_added lm) k = Some i \<longrightarrow> oa_abs (lm_specials lm) k = Some i)"

lemma fold_added_entry_ok:
  assumes "fold_added_entry mem e lm = Some lm'" "maps_ok lm"
  shows "maps_ok lm' \<and> lm_max_id lm \<le> lm_max_id lm' \<and>
    (entry_key e = [] \<and> lm' = lm \<or>
     entry_key e \<noteq> [] \<and> yyjson_is_str (yyjson_obj_get (Some e) ''content'') \<and>
     (\<exists>i. entry_id e = Some i \<and> oa_abs (lm_vocab lm') = (oa_abs (lm_vocab lm))(entry_key e \<mapsto> i) \<and>
       (oa_abs (lm_vocab lm) (entry_key e) = None \<or> oa_abs (lm_vocab lm) (entry_key e) = Some i) \<and>
       oa_abs (lm_specials lm') = (oa_abs (lm_specials lm))(entry_key e \<mapsto> i)))"
proof (cases "entry_key e = []")
  case True
  then show ?thesis
    using assms by (auto simp: fold_added_entry_def Let_def entry_key_def split: if_splits)
next
  case False
  let ?k = "entry_key e"
  obtain i specials added where s: "yyjson_is_str (yyjson_obj_get (Some e) ''content'')" "entry_id e = Some i"
    "str_put mem (lm_specials lm) ?k i = Some specials"
    "(if yyjson_obj_get (Some e) ''special'' = Some (JBool True) then str_put mem (lm_added lm) ?k i else Some (lm_added lm)) = Some added"
    and r: "(case the (str_u32_map_get (lm_vocab lm) ?k) of
        None \<Rightarrow>
          (case str_put mem (lm_vocab lm) ?k i of
             None \<Rightarrow> None
           | Some vocab \<Rightarrow> Some \<lparr>lm_vocab = vocab, lm_specials = specials, lm_added = added, lm_max_id = max (lm_max_id lm) i\<rparr>)
      | Some have \<Rightarrow>
          if have \<noteq> i then None else Some (lm\<lparr>lm_specials := specials, lm_added := added\<rparr>)) = Some lm'"
    using assms(1) False unfolding fold_added_entry_def Let_def entry_key_def entry_id_def
    by (auto split: if_splits option.splits)
  have ok: "vocab_ok (lm_vocab lm) (lm_max_id lm)" "str_u32_map_reach (lm_specials lm)" "str_u32_map_reach (lm_added lm)"
    "str_u32_map_reach (lm_vocab lm)"
    "\<And>k i. oa_abs (lm_specials lm) k = Some i \<Longrightarrow> oa_abs (lm_vocab lm) k = Some i"
    "\<And>k i. oa_abs (lm_added lm) k = Some i \<Longrightarrow> oa_abs (lm_specials lm) k = Some i"
    using assms(2) by (auto simp: maps_ok_def vocab_ok_def)
  note sp = str_putD [OF s(3) ok(2)]
  have ad: "str_u32_map_reach added" "\<And>k j. oa_abs added k = Some j \<Longrightarrow> oa_abs (lm_added lm) k = Some j \<or> k = ?k \<and> j = i"
    using s(4) ok(3) str_putD [of mem "lm_added lm" ?k i added] by (auto split: if_splits)
  have small: "unat i \<le> 4194303"
    using json_idD(2) s(2) by (simp add: entry_id_def)
  have get: "the (str_u32_map_get (lm_vocab lm) ?k) = oa_abs (lm_vocab lm) ?k"
    by (simp add: str_u32_map_get_abs [OF ok(4)])
  show ?thesis
  proof (cases "oa_abs (lm_vocab lm) ?k")
    case None
    then obtain vocab where v: "str_put mem (lm_vocab lm) ?k i = Some vocab"
      "lm' = \<lparr>lm_vocab = vocab, lm_specials = specials, lm_added = added, lm_max_id = max (lm_max_id lm) i\<rparr>"
      using r get by (auto split: option.splits)
    note vo = str_putD [OF v(1) ok(4)]
    have "vocab_ok vocab (max (lm_max_id lm) i)"
      using ok(1) vo small by (rule vocab_ok_put)
    moreover have "oa_abs (lm_specials lm) ?k = None" "oa_abs (lm_added lm) ?k = None"
      using None ok(5,6) by (metis option.exhaust)+
    ultimately have "maps_ok lm'"
      using vo sp ad(1) by (auto simp: maps_ok_def v(2) dest!: ad(2) dest: ok(5,6) ok(5) [OF ok(6)])
    then show ?thesis
      using False s(1,2) vo sp None by (auto simp: v(2))
  next
    case (Some hv)
    then have h: "hv = i" "lm' = lm\<lparr>lm_specials := specials, lm_added := added\<rparr>"
      using r get by (auto split: if_splits)
    have "maps_ok lm'"
      using sp ad(1) ok(1) Some h by (auto simp: maps_ok_def dest!: ad(2) dest: ok(5,6) ok(5) [OF ok(6)])
    then show ?thesis
      using False s(1,2) sp Some h by (auto simp: fun_upd_idem)
  qed
qed

definition entry_ok :: "json \<Rightarrow> bool" where
  "entry_ok e \<longleftrightarrow> entry_key e \<noteq> [] \<longrightarrow> yyjson_is_str (yyjson_obj_get (Some e) ''content'') \<and> entry_id e \<noteq> None"

lemma fold_added_ok:
  assumes "fold_added mem es lm = Some lm'" "maps_ok lm"
  shows "maps_ok lm' \<and> lm_max_id lm \<le> lm_max_id lm' \<and> (\<forall>e\<in>set es. entry_ok e) \<and>
    (\<forall>k i. oa_abs (lm_vocab lm) k = Some i \<longrightarrow> oa_abs (lm_vocab lm') k = Some i) \<and>
    (\<forall>e\<in>set es. \<forall>i. entry_key e \<noteq> [] \<and> entry_id e = Some i \<longrightarrow> oa_abs (lm_vocab lm') (entry_key e) = Some i) \<and>
    (\<forall>k i. oa_abs (lm_vocab lm') k = Some i \<longrightarrow> oa_abs (lm_vocab lm) k = Some i \<or>
       (\<exists>e\<in>set es. entry_key e = k \<and> k \<noteq> [] \<and> entry_id e = Some i)) \<and>
    (\<forall>k i. oa_abs (lm_specials lm') k = Some i \<longrightarrow> oa_abs (lm_specials lm) k = Some i \<or>
       (\<exists>e\<in>set es. entry_key e = k \<and> k \<noteq> [] \<and> entry_id e = Some i))"
  using assms
proof (induction es arbitrary: lm)
  case (Cons e es)
  obtain lm1 where s: "fold_added_entry mem e lm = Some lm1" "fold_added mem es lm1 = Some lm'"
    using Cons.prems(1) by (auto split: option.splits)
  note E = fold_added_entry_ok [OF s(1) Cons.prems(2)]
  note IH = Cons.IH [OF s(2) conjunct1 [OF E]]
  show ?case
  proof (cases "entry_key e = []")
    case True
    then have "lm1 = lm"
      using E by simp
    then show ?thesis
      using IH True by (auto simp: entry_ok_def)
  next
    case False
    then obtain i where i: "yyjson_is_str (yyjson_obj_get (Some e) ''content'')" "entry_id e = Some i"
      "oa_abs (lm_vocab lm1) = (oa_abs (lm_vocab lm))(entry_key e \<mapsto> i)"
      "oa_abs (lm_vocab lm) (entry_key e) = None \<or> oa_abs (lm_vocab lm) (entry_key e) = Some i"
      "oa_abs (lm_specials lm1) = (oa_abs (lm_specials lm))(entry_key e \<mapsto> i)"
      using E by auto
    have keep: "oa_abs (lm_vocab lm1) k = Some j" if "oa_abs (lm_vocab lm) k = Some j" for k j
      using that i(3,4) by auto
    have new: "oa_abs (lm_vocab lm) k = Some j \<or> entry_key e = k \<and> j = i" if "oa_abs (lm_vocab lm1) k = Some j" for k j
      using that i(3) by (auto split: if_splits)
    have new': "oa_abs (lm_specials lm) k = Some j \<or> entry_key e = k \<and> j = i" if "oa_abs (lm_specials lm1) k = Some j" for k j
      using that i(5) by (auto split: if_splits)
    have "oa_abs (lm_vocab lm1) (entry_key e) = Some i"
      using i(3) by simp
    have "\<exists>d\<in>set (e # es). entry_key d = k \<and> k \<noteq> [] \<and> entry_id d = Some j"
      if "oa_abs (lm_vocab lm') k = Some j" "oa_abs (lm_vocab lm) k \<noteq> Some j" for k j
    proof (cases "oa_abs (lm_vocab lm1) k = Some j")
      case True
      then show ?thesis
        using new [OF True] that(2) False i(2) by auto
    qed (use IH that(1) in auto)
    moreover have "\<exists>d\<in>set (e # es). entry_key d = k \<and> k \<noteq> [] \<and> entry_id d = Some j"
      if "oa_abs (lm_specials lm') k = Some j" "oa_abs (lm_specials lm) k \<noteq> Some j" for k j
    proof (cases "oa_abs (lm_specials lm1) k = Some j")
      case True
      then show ?thesis
        using new' [OF True] that(2) False i(2) by auto
    qed (use IH that(1) in auto)
    moreover have "lm_max_id lm \<le> lm_max_id lm'"
      using IH E by (meson order_trans)
    moreover have "\<forall>d\<in>set (e # es). entry_ok d"
      using IH i(1,2) by (auto simp: entry_ok_def)
    moreover have "oa_abs (lm_vocab lm') k = Some j" if "oa_abs (lm_vocab lm) k = Some j" for k j
      using IH keep [OF that] by blast
    moreover have "oa_abs (lm_vocab lm') (entry_key d) = Some j"
      if "d \<in> set (e # es)" "entry_key d \<noteq> []" "entry_id d = Some j" for d j
    proof (cases "d = e")
      case True
      then show ?thesis
        using IH i(2) that(3) \<open>oa_abs (lm_vocab lm1) (entry_key e) = Some i\<close> by auto
    next
      case False
      then have "d \<in> set es"
        using that(1) by simp
      then show ?thesis
        using IH that(2,3) by blast
    qed
    ultimately show ?thesis
      using IH by blast
  qed
qed simp

subsection \<open>The strings of the ids\<close>

lemma fill_vocab_keeps:
  "length (fill_vocab kvs t) = length t" "j < length t \<Longrightarrow> t ! j \<noteq> None \<Longrightarrow> fill_vocab kvs t ! j \<noteq> None"
proof -
  show len: "length (fill_vocab kvs t) = length t"
    by (induction kvs t rule: fill_vocab.induct) auto
  show "j < length t \<Longrightarrow> t ! j \<noteq> None \<Longrightarrow> fill_vocab kvs t ! j \<noteq> None"
  proof (induction kvs t rule: fill_vocab.induct)
    case (2 key val kvs t)
    then show ?case
      by (cases "j = nat (yyjson_get_sint (Some val))") simp_all
  qed simp
qed

lemma fill_vocab_has:
  "(key, v) \<in> set kvs \<Longrightarrow> nat (yyjson_get_sint (Some v)) < length t \<Longrightarrow> fill_vocab kvs t ! nat (yyjson_get_sint (Some v)) \<noteq> None"
proof (induction kvs t rule: fill_vocab.induct)
  case (2 k w kvs t)
  then show ?case
    using fill_vocab_keeps(2) [of "nat (yyjson_get_sint (Some v))" "t[nat (yyjson_get_sint (Some w)) := Some (str_bytes (c_str k))]" kvs]
    by auto
qed simp

definition entry_text :: "json \<Rightarrow> bytes" where
  "entry_text e = str_bytes (the (yyjson_get_str (yyjson_obj_get (Some e) ''content'')))"

lemma str_bytes_c_str: "str_bytes (c_str s) = takeWhile (\<lambda>b. b \<noteq> 0) (str_bytes s)"
proof -
  have "(of_char c :: byte) = 0 \<longleftrightarrow> c = CHR 0x00" for c
    using unat_of_char [of c] of_char_eq_iff [of c "CHR 0x00", where ?'a = nat] unat_eq_0 [of "of_char c :: byte"] by simp
  then show ?thesis
    by (simp add: str_bytes_def c_str_def takeWhile_map comp_def)
qed

lemma entry_text_key: "yyjson_is_str (yyjson_obj_get (Some e) ''content'') \<Longrightarrow> entry_text e = takeWhile (\<lambda>b. b \<noteq> 0) (entry_key e)"
  by (auto simp: entry_text_def entry_key_def str_bytes_c_str elim!: yyjson_is_strE)

lemma fill_added_keeps:
  "fill_added es t = Some t' \<Longrightarrow> length t' = length t \<and> (\<forall>j s. j < length t \<longrightarrow> t ! j = Some s \<longrightarrow> t' ! j = Some s)"
proof (induction es arbitrary: t)
  case (Cons e es)
  let ?i = "nat (yyjson_get_sint (yyjson_obj_get (Some e) ''id''))"
  show ?case
  proof (cases "entry_key e = []")
    case True
    then show ?thesis
      using Cons by (simp add: entry_key_def)
  next
    case False
    then have f: "fill_added es (t[?i := Some (entry_text e)]) = Some t'" "t ! ?i = None \<or> t ! ?i = Some (entry_text e)"
      using Cons.prems by (auto simp: entry_key_def entry_text_def Let_def split: option.splits if_splits)
    have "t[?i := Some (entry_text e)] ! j = Some s" if "j < length t" "t ! j = Some s" for j s
      using that f(2) by (cases "j = ?i") auto
    then show ?thesis
      using Cons.IH [OF f(1)] by simp
  qed
qed simp

lemma fill_added_has:
  "fill_added es t = Some t' \<Longrightarrow> e \<in> set es \<Longrightarrow> entry_key e \<noteq> [] \<Longrightarrow>
   nat (yyjson_get_sint (yyjson_obj_get (Some e) ''id'')) < length t \<Longrightarrow>
   t' ! nat (yyjson_get_sint (yyjson_obj_get (Some e) ''id'')) = Some (entry_text e)"
proof (induction es arbitrary: t)
  case (Cons d es)
  let ?i = "\<lambda>e. nat (yyjson_get_sint (yyjson_obj_get (Some e) ''id''))"
  show ?case
  proof (cases "entry_key d = []")
    case True
    then show ?thesis
      using Cons by (auto simp: entry_key_def)
  next
    case False
    then have f: "fill_added es (t[?i d := Some (entry_text d)]) = Some t'"
      using Cons.prems by (auto simp: entry_key_def entry_text_def Let_def split: option.splits if_splits)
    show ?thesis
    proof (cases "e = d")
      case True
      then show ?thesis
        using fill_added_keeps [OF f] Cons.prems(4) by auto
    next
      case False
      then show ?thesis
        using Cons.IH [OF f] Cons.prems by simp
    qed
  qed
qed simp

subsection \<open>A loaded tokenizer\<close>

text \<open>An id that decodes, or -1.\<close>

definition id_or_none :: "tokenizer \<Rightarrow> int \<Rightarrow> bool" where
  "id_or_none tok x \<longleftrightarrow> x = - 1 \<or> tokenizer_decode_token tok x \<noteq> None"

definition tokenizer_wf :: "tokenizer \<Rightarrow> bool" where
  "tokenizer_wf tok \<longleftrightarrow> tk_type tok \<noteq> TOKENIZER_UNKNOWN \<and>
     str_u32_map_reach (tk_vocab tok) \<and> str_u32_map_reach (tk_special_tokens tok) \<and>
     str_u32_map_reach (tk_added_special tok) \<and> merge_map_reach (tk_merges tok) \<and>
     length (tk_id_to_token tok) \<le> 4194304 \<and> length (tk_byte_fallback_ids tok) = 256 \<and>
     tk_bytes_unicode tok = uc_build_bytes_to_unicode \<and>
     (\<forall>k i. map_id (tk_vocab tok) k = Some i \<longrightarrow> tokenizer_decode_token tok i \<noteq> None) \<and>
     (\<forall>k i. map_id (tk_special_tokens tok) k = Some i \<longrightarrow>
        map_id (tk_vocab tok) k = Some i \<and> tokenizer_decode_token tok i = Some (takeWhile (\<lambda>b. b \<noteq> 0) k)) \<and>
     (\<forall>k i. map_id (tk_added_special tok) k = Some i \<longrightarrow> map_id (tk_special_tokens tok) k = Some i) \<and>
     (\<forall>x\<in>{tk_bos_id tok, tk_eos_id tok, tk_unk_id tok} \<union> set (tk_byte_fallback_ids tok). id_or_none tok x)"

lemma first_resolved_cases: "first_resolved res ns = - 1 \<or> (\<exists>n. first_resolved res ns = res n \<and> 0 \<le> res n)"
  by (induction ns) auto

lemma resolve_name_cases:
  "resolve_name sp vc n = - 1 \<or> map_id sp (str_bytes n) = Some (resolve_name sp vc n) \<or>
   map_id vc (str_bytes n) = Some (resolve_name sp vc n)"
  by (auto simp: resolve_name_def split: option.splits)

lemma first_resolved_id:
  "first_resolved (resolve_name sp vc) ns = - 1 \<or>
   (\<exists>k. map_id sp k = Some (first_resolved (resolve_name sp vc) ns) \<or> map_id vc k = Some (first_resolved (resolve_name sp vc) ns))"
  using first_resolved_cases [of "resolve_name sp vc" ns] resolve_name_cases [of sp vc] by metis

lemma map_id_sub:
  assumes "str_u32_map_reach m" "str_u32_map_reach m'" "\<And>k i. oa_abs m k = Some i \<Longrightarrow> oa_abs m' k = Some i" "map_id m k = Some x"
  shows "map_id m' k = Some x"
  using assms(3,4) by (auto simp: map_id_def str_u32_map_get_abs [OF assms(1)] str_u32_map_get_abs [OF assms(2)])

text \<open>The table of strings covers the vocabulary and gives every added token its content.\<close>

lemma id_table_ok:
  assumes "id_table mem lm kvs es = Some t" "maps_ok lm" "\<forall>e\<in>set es. entry_ok e"
    "\<forall>k i. oa_abs (lm_vocab lm) k = Some i \<longrightarrow> (\<exists>key v. (key, v) \<in> set kvs \<and> json_id (Some v) = Some i) \<or>
       (\<exists>e\<in>set es. entry_key e \<noteq> [] \<and> entry_id e = Some i)"
  shows "length t \<le> 4194304" "oa_abs (lm_vocab lm) k = Some i \<Longrightarrow> unat i < length t \<and> t ! unat i \<noteq> None"
    "e \<in> set es \<Longrightarrow> entry_key e \<noteq> [] \<Longrightarrow> entry_id e = Some i \<Longrightarrow> oa_abs (lm_vocab lm) (entry_key e) = Some i \<Longrightarrow>
       t ! unat i = Some (takeWhile (\<lambda>b. b \<noteq> 0) (entry_key e))"
proof -
  have reach: "str_u32_map_reach (lm_vocab lm)" and mx: "unat (lm_max_id lm) \<le> 4194303"
    and le: "\<And>k i. oa_abs (lm_vocab lm) k = Some i \<Longrightarrow> unat i \<le> unat (lm_max_id lm)"
    using assms(2) by (auto simp: maps_ok_def vocab_ok_def word_le_nat_alt)
  have cap: "unat (lm_max_id lm + 1) = unat (lm_max_id lm) + 1"
    using mx unat_Suc_u32 [of "lm_max_id lm" "lm_max_id lm + 1"] by (simp add: unat_add_lem [THEN iffD1])
  let ?t0 = "replicate (unat (lm_max_id lm) + 1) (None :: bytes option)"
  have some: "fill_added es (fill_vocab kvs ?t0) = Some t" if "oa_abs (lm_vocab lm) k = Some i" for k i
  proof -
    have "occupied (oa_entries (lm_vocab lm)) = unat (oa_count (lm_vocab lm))"
      using str_u32_map_reach_inv [OF reach] by (simp add: oa_inv_def)
    moreover have "oa_items (oa_entries (lm_vocab lm)) \<noteq> []"
      using that by (auto simp: oa_abs_def)
    then have "occupied (oa_entries (lm_vocab lm)) \<noteq> 0"
      by (auto simp: oa_items_def occupied_def filter_empty_conv split: option.splits)
    ultimately have "oa_count (lm_vocab lm) \<noteq> 0"
      by auto
    then show ?thesis
      using assms(1) cap by (simp add: id_table_def Let_def split: if_splits)
  qed
  show "length t \<le> 4194304"
    using assms(1) cap mx fill_added_keeps [of es "fill_vocab kvs ?t0" t] fill_vocab_keeps(1) [of kvs ?t0]
    by (auto simp: id_table_def Let_def split: if_splits)
  have len: "length t = unat (lm_max_id lm) + 1" if "oa_abs (lm_vocab lm) k = Some i" for k i
    using fill_added_keeps [OF some [OF that]] by (simp add: fill_vocab_keeps(1))
  have has: "t ! unat i = Some (entry_text e)"
    if "oa_abs (lm_vocab lm) k = Some i" "e \<in> set es" "entry_key e \<noteq> []" "entry_id e = Some i" for k i e
    using fill_added_has [OF some [OF that(1)] that(2,3)] json_idD(1) [of "yyjson_obj_get (Some e) ''id''" i] that(4) le [OF that(1)]
    by (simp add: entry_id_def fill_vocab_keeps(1))
  show "unat i < length t \<and> t ! unat i \<noteq> None" if i: "oa_abs (lm_vocab lm) k = Some i"
  proof -
    have "t ! unat i \<noteq> None"
    proof (cases "\<exists>e\<in>set es. entry_key e \<noteq> [] \<and> entry_id e = Some i")
      case True
      then show ?thesis
        using has [OF i] by auto
    next
      case False
      then obtain key v where v: "(key, v) \<in> set kvs" "json_id (Some v) = Some i"
        using assms(4) i by blast
      have n: "nat (yyjson_get_sint (Some v)) = unat i" "unat i < length ?t0"
        using json_idD(1) [OF v(2)] le [OF i] by simp_all
      then have "fill_vocab kvs ?t0 ! unat i \<noteq> None"
        using fill_vocab_has [OF v(1), of ?t0] by simp
      then show ?thesis
        using fill_added_keeps [OF some [OF i]] n(2) by (auto simp: fill_vocab_keeps(1))
    qed
    then show ?thesis
      using len [OF i] le [OF i] by simp
  qed
  show "t ! unat i = Some (takeWhile (\<lambda>b. b \<noteq> 0) (entry_key e))"
    if "e \<in> set es" "entry_key e \<noteq> []" "entry_id e = Some i" "oa_abs (lm_vocab lm) (entry_key e) = Some i"
    using has [OF that(4,1,2,3)] entry_text_key [of e] assms(3) that(1,2) by (auto simp: entry_ok_def)
qed

lemma init_maps_ok:
  assumes "init_maps mem a b = Some (lm, merges)"
  shows "merge_map_reach merges" "maps_ok lm" "oa_abs (lm_vocab lm) = Map.empty" "oa_abs (lm_specials lm) = Map.empty"
    "lm_max_id lm = 0"
proof -
  obtain vocab m where i: "str_u32_map_init mem (map_hint a) = Some vocab" "merge_map_init mem (map_hint b) = Some merges"
    "str_u32_map_init mem 16 = Some m" "lm = \<lparr>lm_vocab = vocab, lm_specials = m, lm_added = m, lm_max_id = 0\<rparr>"
    using assms by (auto simp: init_maps_def split: option.splits)
  have e: "oa_abs vocab = Map.empty" "oa_abs m = Map.empty"
    using i by (auto simp: str_u32_map_init_def oa_init_correct)
  show "merge_map_reach merges"
    using i(2) by (rule merge_map_reach.init)
  show "maps_ok lm"
    using e str_u32_map_reach.init [OF i(1)] str_u32_map_reach.init [OF i(3)] by (simp add: i(4) maps_ok_def vocab_ok_def)
  show "oa_abs (lm_vocab lm) = Map.empty" "oa_abs (lm_specials lm) = Map.empty" "lm_max_id lm = 0"
    using e by (simp_all add: i(4))
qed

lemma load_type_known: "load_type a b = Some ty \<Longrightarrow> ty \<noteq> TOKENIZER_UNKNOWN"
  by (auto simp: load_type_def split: if_splits)

text \<open>A chain of steps that succeeds: every step does.\<close>

lemma chain_Some: "(case x of None \<Rightarrow> None | Some a \<Rightarrow> f a) = Some r \<longleftrightarrow> (\<exists>a. x = Some a \<and> f a = Some r)"
  by (cases x) simp_all

lemma chain_guard: "(if b then None else y) = Some r \<longleftrightarrow> \<not> b \<and> y = Some r"
  by simp

lemma chain_obj: "(case j of JObj kvs \<Rightarrow> f kvs | _ \<Rightarrow> None) = Some r \<longleftrightarrow> (\<exists>kvs. j = JObj kvs \<and> f kvs = Some r)"
  by (cases j) simp_all

lemma load_root_wf:
  assumes "load_root mem tok_size rt = Some tok"
  shows "tokenizer_wf tok"
proof -
  define es where "es = yyjson_arr_items (yyjson_obj_get (Some rt) ''added_tokens'')"
  obtain kvs lm0 merges0 ty form dummy vocab0 max0 lm table merges where
    init: "init_maps mem (length kvs) (length (yyjson_arr_items (yyjson_obj_get (yyjson_obj_get (Some rt) ''model'') ''merges''))) = Some (lm0, merges0)"
    and ty: "load_type (yyjson_obj_get (yyjson_obj_get (Some rt) ''model'') ''type'') (yyjson_obj_get (Some rt) ''pre_tokenizer'') = Some ty"
    and voc: "load_vocab mem kvs (lm_vocab lm0, 0) = Some (vocab0, max0)"
    and add: "fold_added mem es (lm0\<lparr>lm_vocab := vocab0, lm_max_id := max0\<rparr>) = Some lm"
    and tab: "id_table mem lm kvs es = Some table"
    and mrg: "load_merges mem 0 (yyjson_arr_items (yyjson_obj_get (yyjson_obj_get (Some rt) ''model'') ''merges'')) merges0 = Some merges"
    and tok: "tk_type tok = ty" "tk_vocab tok = lm_vocab lm" "tk_merges tok = merges" "tk_special_tokens tok = lm_specials lm"
      "tk_added_special tok = lm_added lm" "tk_id_to_token tok = table" "tk_bos_id tok = pick_bos ty lm" "tk_eos_id tok = pick_eos ty lm"
      "tk_unk_id tok = pick_unk ty vocab0 (lm_vocab lm)" "tk_byte_fallback_ids tok = fallback_ids ty uc_build_bytes_to_unicode (lm_vocab lm)"
      "tk_bytes_unicode tok = uc_build_bytes_to_unicode"
    using assms unfolding load_root_def Let_def es_def chain_obj chain_Some chain_guard split_paired_Ex prod.case option.inject
    by (elim exE conjE, hypsubst) (rule that [unfolded es_def], assumption+, simp_all only: tokenizer.simps)
  note I = init_maps_ok [OF init]
  have "vocab_ok (lm_vocab lm0) 0"
    using I by (simp add: maps_ok_def)
  note V = load_vocab_ok [OF voc this]
  have lm1: "maps_ok (lm0\<lparr>lm_vocab := vocab0, lm_max_id := max0\<rparr>)"
    using V I by (auto simp: maps_ok_def)
  note A = fold_added_ok [OF add lm1]
  have ok: "maps_ok lm" "\<forall>e\<in>set es. entry_ok e"
    using A by blast+
  have source: "\<forall>k i. oa_abs (lm_vocab lm) k = Some i \<longrightarrow> (\<exists>key v. (key, v) \<in> set kvs \<and> json_id (Some v) = Some i) \<or>
       (\<exists>e\<in>set es. entry_key e \<noteq> [] \<and> entry_id e = Some i)"
    using A V I(3) by simp blast
  note T = id_table_ok [OF tab ok source]
  have reach: "str_u32_map_reach (lm_vocab lm)" "str_u32_map_reach (lm_specials lm)" "str_u32_map_reach (lm_added lm)"
    "\<And>k i. oa_abs (lm_vocab lm) k = Some i \<Longrightarrow> unat i \<le> 4194303"
    using ok(1) by (auto simp: maps_ok_def vocab_ok_def word_le_nat_alt intro: order_trans)
  have sub: "\<And>k i. oa_abs (lm_specials lm) k = Some i \<Longrightarrow> oa_abs (lm_vocab lm) k = Some i"
    "\<And>k i. oa_abs (lm_added lm) k = Some i \<Longrightarrow> oa_abs (lm_specials lm) k = Some i"
    using ok(1) by (auto simp: maps_ok_def)
  have dec: "tokenizer_decode_token tok x \<noteq> None" if x: "map_id (lm_vocab lm) k = Some x" for k x
  proof -
    obtain i where i: "oa_abs (lm_vocab lm) k = Some i" "x = int (unat i)"
      using map_id_small [OF reach(1) _ x] reach(4) by blast
    show ?thesis
      using T(2) [OF i(1)] by (simp add: tokenizer_decode_token_def tok i(2))
  qed
  have ionv: "id_or_none tok x" if "map_id (lm_vocab lm) k = Some x" for k x
    using dec [OF that] by (simp add: id_or_none_def)
  have none: "id_or_none tok (- 1)"
    by (simp add: id_or_none_def)
  have sp: "map_id (lm_vocab lm) k = Some x" if "map_id (lm_specials lm) k = Some x" for k x
    using map_id_sub [OF reach(2,1) sub(1) that] .
  have spd: "tokenizer_decode_token tok x = Some (takeWhile (\<lambda>b. b \<noteq> 0) k)" if x: "map_id (lm_specials lm) k = Some x" for k x
  proof -
    obtain i where i: "oa_abs (lm_specials lm) k = Some i" "x = int (unat i)"
      using map_id_small [OF reach(2) _ x] reach(4) sub(1) by blast
    obtain e where e: "e \<in> set es" "entry_key e = k" "k \<noteq> []" "entry_id e = Some i"
      using A i(1) I(4) by simp blast
    have "table ! unat i = Some (takeWhile (\<lambda>b. b \<noteq> 0) k)" "unat i < length table"
      using T(3) [OF e(1) _ e(4)] T(2) [OF sub(1) [OF i(1)]] e(2,3) sub(1) [OF i(1)] by simp_all
    then show ?thesis
      by (simp add: tokenizer_decode_token_def tok i(2))
  qed
  have id: "id_or_none tok (first_resolved (resolve_name (lm_specials lm) (lm_vocab lm)) ns)" for ns
    using first_resolved_id [of "lm_specials lm" "lm_vocab lm" ns] dec sp by (auto simp: id_or_none_def)
  have "map_id (lm_vocab lm) k = Some x" if "map_id vocab0 k = Some x" for k x
  proof (rule map_id_sub [OF _ reach(1) _ that])
    show "str_u32_map_reach vocab0"
      using V by (simp add: vocab_ok_def)
    show "oa_abs (lm_vocab lm) k = Some i" if "oa_abs vocab0 k = Some i" for k i
      using A that by simp
  qed
  then have unk: "id_or_none tok (tk_unk_id tok)"
    using dec by (auto simp: tok pick_unk_def id_or_none_def Let_def split: option.splits)
  have fall: "id_or_none tok x" if "x \<in> set (tk_byte_fallback_ids tok)" for x
    using that none by (auto simp: tok fallback_ids_def intro: ionv split: option.splits tokenizer_type.splits)
  show ?thesis
    unfolding tokenizer_wf_def
    using load_type_known [OF ty] reach load_merges_reach [OF I(1) mrg] T(1) dec sp spd
      map_id_sub [OF reach(3,2) sub(2)] id unk fall
    by (auto simp: tok pick_bos_def pick_eos_def Let_def fallback_ids_def)
qed

lemma resolve_decodes:
  assumes "tokenizer_wf tok"
  shows "id_or_none tok (resolve_token_name tok n)"
proof -
  have "id_or_none tok i" if "map_id (tk_special_tokens tok) k = Some i \<or> map_id (tk_vocab tok) k = Some i" for k i
    using that assms unfolding tokenizer_wf_def id_or_none_def by blast
  moreover have "id_or_none tok (- 1)"
    by (simp add: id_or_none_def)
  ultimately show ?thesis
    using resolve_name_cases [of "tk_special_tokens tok" "tk_vocab tok" n] by (metis resolve_token_name_def)
qed

lemma override_wf: "tokenizer_wf tok \<Longrightarrow> id_or_none tok slot \<Longrightarrow> id_or_none tok (apply_one_override tok v slot)"
  by (simp add: apply_one_override_def Let_def resolve_decodes)

lemma overrides_wf:
  assumes "tokenizer_wf tok"
  shows "tokenizer_wf (apply_config_overrides mem yy files tok dir)"
proof -
  have s: "id_or_none tok (tk_bos_id tok)" "id_or_none tok (tk_eos_id tok)"
    using assms unfolding tokenizer_wf_def by blast+
  have e: "tokenizer_decode_token (tok\<lparr>tk_bos_id := b, tk_eos_id := e\<rparr>) = tokenizer_decode_token tok"
    "id_or_none (tok\<lparr>tk_bos_id := b, tk_eos_id := e\<rparr>) = id_or_none tok" for b e
    by (auto simp: tokenizer_decode_token_def id_or_none_def fun_eq_iff)
  have "tokenizer_wf (tok\<lparr>tk_bos_id := b, tk_eos_id := e\<rparr>)" if "id_or_none tok b" "id_or_none tok e" for b e
    using assms that unfolding tokenizer_wf_def e by simp
  then show ?thesis
    using assms override_wf [OF assms s(1)] override_wf [OF assms s(2)]
    by (simp add: apply_config_overrides_def split: option.split)
qed

text \<open>C34. Whatever file a tokenizer is loaded from, a load that succeeds gives a well-formed tokenizer: its
  tables are ones that probes terminate on, every id of the vocabulary decodes, every added token is
  in the vocabulary and decodes to its own content (up to a NUL), and the BOS, EOS, unknown and byte
  fallback ids are -1 or decode; the string table has at most 2^22 entries.\<close>

theorem tokenizer_load_wf:
  assumes "tokenizer_load_json mem yy tok_size text = Some tok \<or> tokenizer_load mem yy tok_size files path = Some tok \<or>
    tokenizer_load_dir mem yy tok_size files path = Some tok"
  shows "tokenizer_wf tok"
proof -
  have json: "tokenizer_wf t" if "tokenizer_load_json mem yy tok_size s = Some t" for s t
    using that load_root_wf by (auto simp: tokenizer_load_json_def split: option.splits)
  have legacy: "tokenizer_wf t" if "tokenizer_load_dir_legacy mem yy tok_size files dir = Some t" for dir t
    using that json by (auto simp: tokenizer_load_dir_legacy_def split: option.splits if_splits)
  have dir: "tokenizer_wf t" if d: "tokenizer_load_dir mem yy tok_size files p = Some t" for p t
  proof -
    obtain d tj t0 where t0: "t = apply_config_overrides mem yy files t0 d"
      "(case read_file mem files tj of (Some buf, _) \<Rightarrow> tokenizer_load_json mem yy tok_size buf
        | (None, not_found) \<Rightarrow> if not_found then tokenizer_load_dir_legacy mem yy tok_size files d else None) = Some t0"
      using d by (auto simp: tokenizer_load_dir_def chain_Some)
    have "tokenizer_wf t0"
      using t0(2) json legacy by (auto split: prod.splits option.splits if_splits)
    then show ?thesis
      unfolding t0(1) by (rule overrides_wf)
  qed
  show ?thesis
    using assms json dir by (auto simp: tokenizer_load_def chain_Some)
qed

text \<open>A WordPiece model with two entries and an added token that is one of them.\<close>

definition sample_kvs :: "(string \<times> json) list" where
  "sample_kvs = [(''a'', JInt 0), (''[CLS]'', JInt 1)]"

definition sample_added :: "json list" where
  "sample_added = [JObj [(''id'', JInt 1), (''content'', JStr ''[CLS]''), (''special'', JBool True)]]"

definition sample_model :: json where
  "sample_model = JObj [(''model'', JObj [(''type'', JStr ''WordPiece''), (''vocab'', JObj sample_kvs)]),
     (''added_tokens'', JArr sample_added)]"

definition sample_vocab0 :: str_u32_map where
  "sample_vocab0 = the (str_u32_map_init (\<lambda>_. True) 4)"

definition sample_set0 :: str_u32_map where
  "sample_set0 = the (str_u32_map_init (\<lambda>_. True) 16)"

definition sample_mergesx :: merge_map where
  "sample_mergesx = the (merge_map_init (\<lambda>_. True) 16)"

definition sample_vocab1 :: str_u32_map where
  "sample_vocab1 = snd (the (str_u32_map_put (\<lambda>_. True) sample_vocab0 [97] 0))"

definition sample_vocab2 :: str_u32_map where
  "sample_vocab2 = snd (the (str_u32_map_put (\<lambda>_. True) sample_vocab1 [91, 67, 76, 83, 93] 1))"

lemma sample_inits:
  "str_u32_map_init (\<lambda>_. True) 4 = Some sample_vocab0"
  "str_u32_map_init (\<lambda>_. True) 16 = Some sample_set0"
  "merge_map_init (\<lambda>_. True) 16 = Some sample_mergesx"
  by code_simp+

lemma sample_puts:
  "str_u32_map_put (\<lambda>_. True) sample_vocab0 [97] 0 = Some (True, sample_vocab1)"
  "str_u32_map_put (\<lambda>_. True) sample_vocab1 [91, 67, 76, 83, 93] 1 = Some (True, sample_vocab2)"
  by code_simp+

definition sample_set1 :: str_u32_map where
  "sample_set1 = snd (the (str_u32_map_put (\<lambda>_. True) sample_set0 [91, 67, 76, 83, 93] 1))"

lemma sample_set_put: "str_u32_map_put (\<lambda>_. True) sample_set0 [91, 67, 76, 83, 93] 1 = Some (True, sample_set1)"
  by code_simp

lemma sample_has: "str_u32_map_get sample_vocab2 [91, 67, 76, 83, 93] = Some (Some 1)" "oa_count sample_vocab2 = 2"
  by code_simp+

lemma sample_bytes: "str_bytes ''a'' = [97]" "str_bytes ''[CLS]'' = [91, 67, 76, 83, 93]" "c_str ''a'' = ''a''" "c_str ''[CLS]'' = ''[CLS]''"
  by code_simp+

lemma sample_get:
  "yyjson_obj_get (Some sample_model) ''model'' = Some (JObj [(''type'', JStr ''WordPiece''), (''vocab'', JObj sample_kvs)])"
  "yyjson_obj_get (Some sample_model) ''added_tokens'' = Some (JArr sample_added)"
  "yyjson_obj_get (Some sample_model) ''pre_tokenizer'' = None"
  "yyjson_obj_get (Some sample_model) ''normalizer'' = None"
  by (simp_all add: sample_model_def)

lemma sample_maps: "init_maps (\<lambda>_. True) 2 0 =
    Some (\<lparr>lm_vocab = sample_vocab0, lm_specials = sample_set0, lm_added = sample_set0, lm_max_id = 0\<rparr>, sample_mergesx)"
  using sample_inits by (simp add: init_maps_def map_hint_def)

lemma sample_vocab: "load_vocab (\<lambda>_. True) sample_kvs (sample_vocab0, 0) = Some (sample_vocab2, 1)"
  by (simp add: sample_kvs_def json_id_def MLXD_TOK_MAX_ID_def str_put_def sample_bytes sample_puts)

lemma sample_fold: "fold_added (\<lambda>_. True) sample_added
    \<lparr>lm_vocab = sample_vocab2, lm_specials = sample_set0, lm_added = sample_set0, lm_max_id = 1\<rparr> =
    Some \<lparr>lm_vocab = sample_vocab2, lm_specials = sample_set1, lm_added = sample_set1, lm_max_id = 1\<rparr>"
  by (simp add: sample_added_def fold_added_entry_def json_id_def MLXD_TOK_MAX_ID_def str_put_def sample_bytes sample_set_put sample_has)

lemma sample_two: "replicate 2 x = [x, x]"
  by (simp add: numeral_2_eq_2)

lemma sample_table: "id_table (\<lambda>_. True) \<lparr>lm_vocab = sample_vocab2, lm_specials = sample_set1, lm_added = sample_set1, lm_max_id = 1\<rparr>
    sample_kvs sample_added = Some [Some [97], Some [91, 67, 76, 83, 93]]"
  by (simp add: id_table_def sample_has sample_kvs_def sample_added_def sample_bytes sample_two)

lemma sample_loads: "\<exists>tok. load_root (\<lambda>_. True) 256 sample_model = Some tok \<and> tk_vocab tok = sample_vocab2"
proof -
  have n: "length sample_kvs = 2"
    by (simp add: sample_kvs_def)
  show ?thesis
    unfolding load_root_def Let_def sample_get
    by (simp add: json_arr_or_absent_def n sample_maps load_type_def is_str_eq_def c_str_def sample_vocab sample_fold sample_table)
qed

text \<open>A reader that parses any text to the sample.\<close>

definition sample_yy :: "yyjson_api" where
  "sample_yy = \<lparr>yy_new = True, yy_read = \<lambda>_. Some sample_model, yy_write = \<lambda>_. None\<rparr>"

theorem tokenizer_load_wf_witness:
  "\<exists>tok. tokenizer_load (\<lambda>_. True) sample_yy 256 (\<lambda>_. Contents ''{}'') (Some ''t.json'') = Some tok \<and> tokenizer_wf tok \<and>
     tk_vocab tok = sample_vocab2"
proof -
  obtain tok where t: "load_root (\<lambda>_. True) 256 sample_model = Some tok" "tk_vocab tok = sample_vocab2"
    using sample_loads by blast
  then have "tokenizer_load (\<lambda>_. True) sample_yy 256 (\<lambda>_. Contents ''{}'') (Some ''t.json'') = Some tok"
    by (simp add: tokenizer_load_def read_file_def MLXD_TOK_MAX_FILE_def tokenizer_load_json_def sample_yy_def)
  then show ?thesis
    using tokenizer_load_wf [of "\<lambda>_. True" sample_yy 256 _ tok "\<lambda>_. Contents ''{}''" "Some ''t.json''"] t(2) by blast
qed

end
