(* ===== verification/KvCache.thy ===== *)
theory KvCache
  imports Prelude
begin

text \<open>
  The per-layer key/value cache of \<open>src/engine/kvcache.c\<close>. The arrays of MLX are values of a
  type \<open>'a\<close> with the operations the code calls as a parameter; a call that fails is \<open>None\<close>.
  Reference counts of arrays are not modelled. A result \<open>None\<close> of a cache operation is a signed
  overflow of the C code; the status is 0 or -1 as in the code.
\<close>

subsection \<open>MLX\<close>

text \<open>The operations; slices have stride 1. The element function is the value the arrays hold, the cast
  function is what MLX does to a value when it is stored in an array of another element type.\<close>

record ('a, 'v) mlx_api =
  mlx_ndim :: "'a \<Rightarrow> nat"
  mlx_dim :: "'a \<Rightarrow> nat \<Rightarrow> int"
  mlx_dtype :: "'a \<Rightarrow> nat"
  mlx_zeros :: "int list \<Rightarrow> nat \<Rightarrow> 'a option"
  mlx_slice :: "'a \<Rightarrow> int list \<Rightarrow> int list \<Rightarrow> 'a option"
  mlx_slice_upd :: "'a \<Rightarrow> 'a \<Rightarrow> int list \<Rightarrow> int list \<Rightarrow> 'a option"
  mlx_array_set :: "'a \<Rightarrow> 'a option"
  mlx_elem :: "'a \<Rightarrow> int list \<Rightarrow> 'v"
  mlx_cast :: "nat \<Rightarrow> 'v \<Rightarrow> 'v"

definition mlx_shape :: "('a, 'v) mlx_api \<Rightarrow> 'a \<Rightarrow> int list" where
  "mlx_shape api a = map (mlx_dim api a) [0..<mlx_ndim api a]"

definition in_box :: "int list \<Rightarrow> int list \<Rightarrow> int list \<Rightarrow> bool" where
  "in_box lo hi idx \<longleftrightarrow> list_all2 (\<le>) lo idx \<and> list_all2 (<) idx hi"

definition slice_ok :: "int list \<Rightarrow> int list \<Rightarrow> int list \<Rightarrow> bool" where
  "slice_ok lo hi sh \<longleftrightarrow> list_all (\<lambda>x. 0 \<le> x) lo \<and> list_all2 (\<le>) lo hi \<and> list_all2 (\<le>) hi sh"

text \<open>What MLX documents of calls that succeed on bounds within the shape. A slice has the element type of
  its array; a slice update has the element type of the array that is updated, and the update is cast to
  it. Casting to the type a value already has changes nothing.\<close>

definition mlx_laws :: "('a, 'v) mlx_api \<Rightarrow> bool" where
  "mlx_laws api \<longleftrightarrow>
     (\<forall>a i. 0 \<le> mlx_dim api a i) \<and>
     (\<forall>a idx. mlx_cast api (mlx_dtype api a) (mlx_elem api a idx) = mlx_elem api a idx) \<and>
     (\<forall>sh dt a. mlx_zeros api sh dt = Some a \<longrightarrow> mlx_shape api a = sh \<and> mlx_dtype api a = dt) \<and>
     (\<forall>a r. mlx_array_set api a = Some r \<longrightarrow> mlx_shape api r = mlx_shape api a \<and> mlx_elem api r = mlx_elem api a \<and>
        mlx_dtype api r = mlx_dtype api a) \<and>
     (\<forall>a lo hi r. mlx_slice api a lo hi = Some r \<and> slice_ok lo hi (mlx_shape api a) \<longrightarrow>
        mlx_shape api r = map2 (-) hi lo \<and> mlx_dtype api r = mlx_dtype api a \<and>
        (\<forall>idx. in_box (map (\<lambda>_. 0) lo) (mlx_shape api r) idx \<longrightarrow> mlx_elem api r idx = mlx_elem api a (map2 (+) lo idx))) \<and>
     (\<forall>a u lo hi r. mlx_slice_upd api a u lo hi = Some r \<and> slice_ok lo hi (mlx_shape api a) \<and>
          mlx_shape api u = map2 (-) hi lo \<longrightarrow>
        mlx_shape api r = mlx_shape api a \<and> mlx_dtype api r = mlx_dtype api a \<and>
        (\<forall>idx. in_box (map (\<lambda>_. 0) lo) (mlx_shape api a) idx \<longrightarrow>
           mlx_elem api r idx = (if in_box lo hi idx then mlx_cast api (mlx_dtype api a) (mlx_elem api u (map2 (-) idx lo))
             else mlx_elem api a idx)))"

subsection \<open>The cache\<close>

record 'a kv_entry =
  kv_keys :: "'a option"
  kv_values :: "'a option"
  kv_offset :: int
  kv_capacity :: int
  kv_heads :: int
  kv_head_dim :: int
  kv_initialized :: bool

record 'a kvcache =
  kv_entries :: "'a kv_entry list option"
  kv_num_layers :: int

definition kv_entry0 :: "'a kv_entry" where
  "kv_entry0 = \<lparr>kv_keys = None, kv_values = None, kv_offset = 0, kv_capacity = 0, kv_heads = 0, kv_head_dim = 0,
     kv_initialized = False\<rparr>"

text \<open>The size of an entry in bytes is a parameter.\<close>

definition kvcache_init :: "allocator \<Rightarrow> nat \<Rightarrow> int \<Rightarrow> 'a kvcache option" where
  "kvcache_init mem entry_size num_layers =
     (if num_layers \<le> 0 \<or> \<not> mem (nat num_layers * entry_size) then None
      else Some \<lparr>kv_entries = Some (replicate (nat num_layers) kv_entry0), kv_num_layers = num_layers\<rparr>)"

definition kvcache_free :: "'a kvcache \<Rightarrow> 'a kvcache" where
  "kvcache_free kv = (case kv_entries kv of None \<Rightarrow> kv | Some _ \<Rightarrow> \<lparr>kv_entries = None, kv_num_layers = 0\<rparr>)"

definition kv_layer :: "'a kvcache \<Rightarrow> int \<Rightarrow> 'a kv_entry option" where
  "kv_layer kv layer = (case kv_entries kv of
     None \<Rightarrow> None
   | Some es \<Rightarrow> if layer < 0 \<or> kv_num_layers kv \<le> layer then None else Some (es ! nat layer))"

definition kvcache_layer_offset :: "'a kvcache \<Rightarrow> int \<Rightarrow> int" where
  "kvcache_layer_offset kv layer = (case kv_layer kv layer of None \<Rightarrow> - 1 | Some e \<Rightarrow> kv_offset e)"

definition kvcache_capacity :: "'a kvcache \<Rightarrow> int \<Rightarrow> int" where
  "kvcache_capacity kv layer = (case kv_layer kv layer of None \<Rightarrow> - 1 | Some e \<Rightarrow> kv_capacity e)"

text \<open>The doubling loop; \<open>None\<close> when the capacity leaves the range of \<open>int\<close> or the loop never ends.\<close>

function grow_capacity :: "int \<Rightarrow> int \<Rightarrow> int option" where
  "grow_capacity nc needed =
     (if nc < needed then (if nc \<le> 0 \<or> INT_MAX < nc * 2 then None else grow_capacity (nc * 2) needed) else Some nc)"
  by pat_completeness auto

termination
  by (relation "measure (\<lambda>(nc, needed). nat (needed - nc))") auto

declare grow_capacity.simps [simp del]

text \<open>Old rows copied into a new array of the grown capacity.\<close>

definition move_rows :: "('a, 'v) mlx_api \<Rightarrow> 'a option \<Rightarrow> 'a \<Rightarrow> int list \<Rightarrow> 'a option" where
  "move_rows api old fresh stop = (case mlx_slice api (the old) [0, 0, 0, 0] stop of
     None \<Rightarrow> None
   | Some old_rows \<Rightarrow> mlx_slice_upd api fresh old_rows [0, 0, 0, 0] stop)"

text \<open>Outer \<open>None\<close>: overflow; inner \<open>None\<close>: status -1.\<close>

definition grow_entry :: "('a, 'v) mlx_api \<Rightarrow> 'a kv_entry \<Rightarrow> int \<Rightarrow> int \<Rightarrow> int \<Rightarrow> int \<Rightarrow> nat \<Rightarrow> 'a kv_entry option option" where
  "grow_entry api e B H D needed dt =
     (case grow_capacity (if 0 < kv_capacity e then kv_capacity e else 1) needed of
        None \<Rightarrow> None
      | Some nc \<Rightarrow> Some (
          case (mlx_zeros api [B, H, nc, D] dt, mlx_zeros api [B, H, nc, D] dt) of
            (Some new_keys, Some new_vals) \<Rightarrow>
              (case (if kv_initialized e \<and> 0 < kv_offset e
                     then (move_rows api (kv_keys e) new_keys [B, H, kv_offset e, D],
                           move_rows api (kv_values e) new_vals [B, H, kv_offset e, D])
                     else (Some new_keys, Some new_vals)) of
                 (Some ks, Some vs) \<Rightarrow>
                   Some (e\<lparr>kv_keys := Some ks, kv_values := Some vs, kv_capacity := nc, kv_initialized := True\<rparr>)
               | _ \<Rightarrow> None)
          | _ \<Rightarrow> None))"

definition set_layer :: "'a kvcache \<Rightarrow> int \<Rightarrow> 'a kv_entry \<Rightarrow> 'a kvcache" where
  "set_layer kv layer e = kv\<lparr>kv_entries := map_option (\<lambda>es. es[nat layer := e]) (kv_entries kv)\<rparr>"

definition update_args_ok :: "('a, 'v) mlx_api \<Rightarrow> 'a kv_entry \<Rightarrow> 'a \<Rightarrow> 'a \<Rightarrow> int \<Rightarrow> bool" where
  "update_args_ok api e new_k new_v max_kv \<longleftrightarrow>
     0 \<le> max_kv \<and> mlx_ndim api new_k = 4 \<and> mlx_ndim api new_v = 4 \<and>
     (kv_initialized e \<longrightarrow> mlx_dim api new_k 1 = kv_heads e \<and> mlx_dim api new_k 3 = kv_head_dim e) \<and>
     mlx_dim api new_v 1 = mlx_dim api new_k 1 \<and> mlx_dim api new_v 3 = mlx_dim api new_k 3 \<and>
     mlx_dim api new_k 0 = mlx_dim api new_v 0 \<and> mlx_dim api new_k 2 = mlx_dim api new_v 2"

text \<open>The first row of a view that is capped on decode steps.\<close>

definition view_start :: "int \<Rightarrow> int \<Rightarrow> int \<Rightarrow> int" where
  "view_start max_kv new_len off = (if 0 < max_kv \<and> new_len = 1 \<and> max_kv < off then off - max_kv else 0)"

definition view_of :: "('a, 'v) mlx_api \<Rightarrow> 'a \<Rightarrow> int \<Rightarrow> int list \<Rightarrow> int \<Rightarrow> 'a option" where
  "view_of api a capacity stop start =
     (if stop ! 2 = capacity \<and> start = 0 then mlx_array_set api a else mlx_slice api a [0, 0, start, 0] stop)"

text \<open>The rows of the step are written and the views taken; the entry is replaced last.\<close>

definition append_rows :: "('a, 'v) mlx_api \<Rightarrow> 'a kv_entry \<Rightarrow> 'a \<Rightarrow> 'a \<Rightarrow> int \<Rightarrow> ('a kv_entry \<times> 'a \<times> 'a) option" where
  "append_rows api e new_k new_v max_kv =
     (let B = mlx_dim api new_k 0; H = mlx_dim api new_k 1; D = mlx_dim api new_k 3; new_len = mlx_dim api new_k 2;
          new_off = kv_offset e + new_len; start = [0, 0, kv_offset e, 0]; stop = [B, H, new_off, D];
          vs = view_start max_kv new_len new_off
      in case (mlx_slice_upd api (the (kv_keys e)) new_k start stop,
               mlx_slice_upd api (the (kv_values e)) new_v start stop) of
           (Some updated_k, Some updated_v) \<Rightarrow>
             (case (view_of api updated_k (kv_capacity e) stop vs, view_of api updated_v (kv_capacity e) stop vs) of
                (Some kview, Some vview) \<Rightarrow>
                  Some (e\<lparr>kv_keys := Some updated_k, kv_values := Some updated_v, kv_offset := new_off\<rparr>, kview, vview)
              | _ \<Rightarrow> None)
         | _ \<Rightarrow> None)"

definition kvcache_update :: "('a, 'v) mlx_api \<Rightarrow> 'a kvcache \<Rightarrow> int \<Rightarrow> 'a \<Rightarrow> 'a \<Rightarrow> int \<Rightarrow> 'a \<Rightarrow> 'a \<Rightarrow>
    (int \<times> 'a kvcache \<times> 'a \<times> 'a) option" where
  "kvcache_update api kv layer new_k new_v max_kv k_view v_view =
     (case kv_layer kv layer of
        None \<Rightarrow> Some (- 1, kv, k_view, v_view)
      | Some e \<Rightarrow>
          if \<not> update_args_ok api e new_k new_v max_kv then Some (- 1, kv, k_view, v_view)
          else let B = mlx_dim api new_k 0; H = mlx_dim api new_k 1; D = mlx_dim api new_k 3;
                   needed = kv_offset e + mlx_dim api new_k 2 in
            if INT_MAX < needed then None
            else case (if \<not> kv_initialized e \<or> kv_capacity e < needed
                       then map_option (map_option (\<lambda>e. e\<lparr>kv_heads := H, kv_head_dim := D\<rparr>))
                              (grow_entry api e B H D needed (mlx_dtype api new_k))
                       else Some (Some e)) of
                None \<Rightarrow> None
              | Some None \<Rightarrow> Some (- 1, kv, k_view, v_view)
              | Some (Some e) \<Rightarrow> Some (
                  case append_rows api e new_k new_v max_kv of
                    None \<Rightarrow> (- 1, set_layer kv layer e, k_view, v_view)
                  | Some (e, kview, vview) \<Rightarrow> (0, set_layer kv layer e, kview, vview)))"

definition kvcache_view :: "('a, 'v) mlx_api \<Rightarrow> 'a kvcache \<Rightarrow> int \<Rightarrow> int \<Rightarrow> int \<Rightarrow> ('a \<times> 'a) option" where
  "kvcache_view api kv layer max_kv q_len =
     (case kv_layer kv layer of
        None \<Rightarrow> None
      | Some e \<Rightarrow>
          if max_kv < 0 \<or> \<not> kv_initialized e \<or> kv_offset e \<le> 0 then None
          else let stop = [mlx_dim api (the (kv_keys e)) 0, kv_heads e, kv_offset e, kv_head_dim e];
                   vs = view_start max_kv q_len (kv_offset e) in
            case (view_of api (the (kv_keys e)) (kv_capacity e) stop vs, view_of api (the (kv_values e)) (kv_capacity e) stop vs) of
              (Some kview, Some vview) \<Rightarrow> Some (kview, vview)
            | _ \<Rightarrow> None)"

subsection \<open>Rows\<close>

text \<open>A four-dimensional array as the list of its rows along the sequence axis.\<close>

definition kv_row :: "('a, 'v) mlx_api \<Rightarrow> 'a \<Rightarrow> int \<Rightarrow> int \<times> int \<times> int \<Rightarrow> 'v option" where
  "kv_row api a l = (\<lambda>(b, h, d).
     if 0 \<le> b \<and> b < mlx_dim api a 0 \<and> 0 \<le> h \<and> h < mlx_dim api a 1 \<and> 0 \<le> d \<and> d < mlx_dim api a 3
     then Some (mlx_elem api a [b, h, l, d]) else None)"

definition kv_rows_of :: "('a, 'v) mlx_api \<Rightarrow> 'a \<Rightarrow> (int \<times> int \<times> int \<Rightarrow> 'v option) list" where
  "kv_rows_of api a = map (\<lambda>l. kv_row api a (int l)) [0..<nat (mlx_dim api a 2)]"

text \<open>A row whose values are cast to an element type.\<close>

definition kv_cast :: "('a, 'v) mlx_api \<Rightarrow> nat \<Rightarrow> (int \<times> int \<times> int \<Rightarrow> 'v option) \<Rightarrow> int \<times> int \<times> int \<Rightarrow> 'v option" where
  "kv_cast api d row = (\<lambda>p. map_option (mlx_cast api d) (row p))"

lemma cast_own_rows: "mlx_laws api \<Longrightarrow> mlx_dtype api a = d \<Longrightarrow> map (kv_cast api d) (kv_rows_of api a) = kv_rows_of api a"
proof -
  assume "mlx_laws api" "mlx_dtype api a = d"
  then have "mlx_cast api d (mlx_elem api a idx) = mlx_elem api a idx" for idx
    unfolding mlx_laws_def by blast
  then show ?thesis
    by (simp add: kv_rows_of_def kv_row_def kv_cast_def fun_eq_iff)
qed

lemma shape4: "mlx_shape api a = [B, H, L, D] \<longleftrightarrow>
    mlx_ndim api a = 4 \<and> mlx_dim api a 0 = B \<and> mlx_dim api a 1 = H \<and> mlx_dim api a 2 = L \<and> mlx_dim api a 3 = D"
proof -
  have "mlx_ndim api a = 4" if "mlx_shape api a = [B, H, L, D]"
    using arg_cong [OF that, of length] by (simp add: mlx_shape_def)
  moreover have "[0..<4] = [0, 1, 2, 3 :: nat]"
    by (simp add: upt_rec)
  ultimately show ?thesis
    by (auto simp: mlx_shape_def)
qed

lemma length_kv_rows: "mlx_shape api a = [B, H, L, D] \<Longrightarrow> length (kv_rows_of api a) = nat L"
  by (simp add: kv_rows_of_def shape4)

lemma nth_kv_rows: "mlx_shape api a = [B, H, L, D] \<Longrightarrow> i < nat L \<Longrightarrow> kv_rows_of api a ! i = kv_row api a (int i)"
  by (simp add: kv_rows_of_def shape4)

lemma mlx_nonneg: "mlx_laws api \<Longrightarrow> mlx_shape api a = [B, H, L, D] \<Longrightarrow> 0 \<le> B \<and> 0 \<le> H \<and> 0 \<le> L \<and> 0 \<le> D"
  unfolding mlx_laws_def shape4 by blast

lemma mlx_zeros_shape: "mlx_laws api \<Longrightarrow> mlx_zeros api sh dt = Some a \<Longrightarrow> mlx_shape api a = sh \<and> mlx_dtype api a = dt"
  unfolding mlx_laws_def by blast

lemma mlx_set_rows:
  assumes "mlx_laws api" "mlx_array_set api a = Some r" "mlx_shape api a = [B, H, L, D]"
  shows "mlx_shape api r = [B, H, L, D]" "kv_rows_of api r = kv_rows_of api a" "mlx_dtype api r = mlx_dtype api a"
proof -
  have *: "mlx_shape api r = mlx_shape api a" "mlx_elem api r = mlx_elem api a" "mlx_dtype api r = mlx_dtype api a"
    using assms(1,2) unfolding mlx_laws_def by blast+
  then show "mlx_dtype api r = mlx_dtype api a"
    by simp
  show sr: "mlx_shape api r = [B, H, L, D]"
    using assms(3) *(1) by simp
  show "kv_rows_of api r = kv_rows_of api a"
    using assms(3) sr *(2) by (simp add: kv_rows_of_def kv_row_def shape4 fun_eq_iff)
qed

lemma mlx_slice_rows:
  assumes "mlx_laws api" "mlx_slice api a [0, 0, s, 0] [B, H, t, D] = Some r" "mlx_shape api a = [B, H, L, D]"
    "0 \<le> s" "s \<le> t" "t \<le> L"
  shows "mlx_shape api r = [B, H, t - s, D]" "kv_rows_of api r = take (nat (t - s)) (drop (nat s) (kv_rows_of api a))"
    "mlx_dtype api r = mlx_dtype api a"
proof -
  have ok: "slice_ok [0, 0, s, 0] [B, H, t, D] (mlx_shape api a)"
    using mlx_nonneg [OF assms(1,3)] assms(3-) by (simp add: slice_ok_def)
  have sl: "mlx_slice api a lo hi = Some r \<Longrightarrow> slice_ok lo hi (mlx_shape api a) \<Longrightarrow>
      mlx_shape api r = map2 (-) hi lo \<and> mlx_dtype api r = mlx_dtype api a \<and>
      (\<forall>idx. in_box (map (\<lambda>_. 0) lo) (mlx_shape api r) idx \<longrightarrow> mlx_elem api r idx = mlx_elem api a (map2 (+) lo idx))" for lo hi
    using assms(1) unfolding mlx_laws_def by blast
  show sh: "mlx_shape api r = [B, H, t - s, D]"
    using sl [OF assms(2) ok] by simp
  show "mlx_dtype api r = mlx_dtype api a"
    using sl [OF assms(2) ok] by simp
  have el: "mlx_elem api r [b, h, l, d] = mlx_elem api a [b, h, s + l, d]"
    if "0 \<le> b" "b < B" "0 \<le> h" "h < H" "0 \<le> l" "l < t - s" "0 \<le> d" "d < D" for b h l d
    using conjunct2 [OF conjunct2 [OF sl [OF assms(2) ok]], rule_format, of "[b, h, l, d]"] that by (simp add: sh in_box_def)
  show "kv_rows_of api r = take (nat (t - s)) (drop (nat s) (kv_rows_of api a))"
  proof (rule nth_equalityI)
    show "length (kv_rows_of api r) = length (take (nat (t - s)) (drop (nat s) (kv_rows_of api a)))"
      using assms(4-) by (simp add: length_kv_rows [OF sh] length_kv_rows [OF assms(3)])
    fix i assume i: "i < length (kv_rows_of api r)"
    then have "i < nat (t - s)"
      by (simp add: length_kv_rows [OF sh])
    moreover from this have "nat s + i < nat L" "int (nat s + i) = s + int i"
      using assms(4-) by linarith+
    ultimately show "kv_rows_of api r ! i = take (nat (t - s)) (drop (nat s) (kv_rows_of api a)) ! i"
      using assms(3,4) sh
      by (auto simp: nth_kv_rows [OF sh] nth_kv_rows [OF assms(3)] length_kv_rows [OF assms(3)] kv_row_def fun_eq_iff shape4 el)
  qed
qed

lemma mlx_update_rows:
  assumes "mlx_laws api" "mlx_slice_upd api a u [0, 0, s, 0] [B, H, s + n, D] = Some r" "mlx_shape api a = [B, H, L, D]"
    "mlx_shape api u = [B, H, n, D]" "0 \<le> s" "s + n \<le> L"
  shows "mlx_shape api r = [B, H, L, D]"
    "kv_rows_of api r = take (nat s) (kv_rows_of api a) @ map (kv_cast api (mlx_dtype api a)) (kv_rows_of api u) @
       drop (nat (s + n)) (kv_rows_of api a)"
    "mlx_dtype api r = mlx_dtype api a"
proof -
  let ?c = "mlx_cast api (mlx_dtype api a)" and ?u = "map (kv_cast api (mlx_dtype api a)) (kv_rows_of api u)"
  have n: "0 \<le> n"
    using mlx_nonneg [OF assms(1,4)] by simp
  have ok: "slice_ok [0, 0, s, 0] [B, H, s + n, D] (mlx_shape api a)"
    using mlx_nonneg [OF assms(1,3)] assms(3-) n by (simp add: slice_ok_def)
  have up: "mlx_slice_upd api a u lo hi = Some r \<Longrightarrow> slice_ok lo hi (mlx_shape api a) \<Longrightarrow> mlx_shape api u = map2 (-) hi lo \<Longrightarrow>
      mlx_shape api r = mlx_shape api a \<and> mlx_dtype api r = mlx_dtype api a \<and>
        (\<forall>idx. in_box (map (\<lambda>_. 0) lo) (mlx_shape api a) idx \<longrightarrow>
           mlx_elem api r idx = (if in_box lo hi idx then ?c (mlx_elem api u (map2 (-) idx lo)) else mlx_elem api a idx))" for lo hi
    using assms(1) unfolding mlx_laws_def by blast
  have uu: "mlx_shape api u = map2 (-) [B, H, s + n, D] [0, 0, s, 0]"
    using assms(4) by simp
  show sh: "mlx_shape api r = [B, H, L, D]"
    using up [OF assms(2) ok uu] assms(3) by simp
  show "mlx_dtype api r = mlx_dtype api a"
    using up [OF assms(2) ok uu] by simp
  have el: "mlx_elem api r [b, h, l, d] = (if s \<le> l \<and> l < s + n then ?c (mlx_elem api u [b, h, l - s, d]) else mlx_elem api a [b, h, l, d])"
    if "0 \<le> b" "b < B" "0 \<le> h" "h < H" "0 \<le> l" "l < L" "0 \<le> d" "d < D" for b h l d
    using conjunct2 [OF conjunct2 [OF up [OF assms(2) ok uu]], rule_format, of "[b, h, l, d]"] that assms(3) by (simp add: in_box_def)
  show "kv_rows_of api r = take (nat s) (kv_rows_of api a) @ ?u @ drop (nat (s + n)) (kv_rows_of api a)"
  proof (rule nth_equalityI)
    show "length (kv_rows_of api r) =
        length (take (nat s) (kv_rows_of api a) @ ?u @ drop (nat (s + n)) (kv_rows_of api a))"
      using assms(5,6) n by (simp add: length_kv_rows [OF sh] length_kv_rows [OF assms(3)] length_kv_rows [OF assms(4)])
    fix i assume i: "i < length (kv_rows_of api r)"
    have L: "i < nat L"
      using i by (simp add: length_kv_rows [OF sh])
    note len = length_kv_rows [OF assms(3)] length_kv_rows [OF assms(4)]
    have r: "kv_rows_of api r ! i = (if nat s \<le> i \<and> i < nat (s + n) then kv_cast api (mlx_dtype api a) (kv_row api u (int i - s)) else kv_row api a (int i))"
      using L assms(3,4,5) sh n by (auto simp: nth_kv_rows [OF sh] kv_row_def kv_cast_def fun_eq_iff shape4 el)
    consider "i < nat s" | "nat s \<le> i" "i < nat (s + n)" | "nat (s + n) \<le> i"
      by linarith
    then show "kv_rows_of api r ! i =
        (take (nat s) (kv_rows_of api a) @ ?u @ drop (nat (s + n)) (kv_rows_of api a)) ! i"
    proof cases
      case 1
      then show ?thesis
        using L assms(5,6) n by (simp add: r nth_append len nth_kv_rows [OF assms(3)])
    next
      case 2
      then have "i - nat s < nat n" "int (i - nat s) = int i - s"
        using assms(5) n by linarith+
      then show ?thesis
        using 2 L assms(5,6) n by (simp add: r nth_append len nth_kv_rows [OF assms(4)])
    next
      case 3
      then have "nat s \<le> i" "i - nat s - nat n = i - nat (s + n)" "\<not> i - nat s < nat n"
        using assms(5) n by linarith+
      then show ?thesis
        using 3 L assms(5,6) n by (simp add: r nth_append len nth_kv_rows [OF assms(3)])
    qed
  qed
qed

lemma mlx_view_rows:
  assumes "mlx_laws api" "view_of api a cap [B, H, off, D] s = Some r" "mlx_shape api a = [B, H, cap, D]" "0 \<le> s" "s \<le> off" "off \<le> cap"
  shows "kv_rows_of api r = drop (nat s) (take (nat off) (kv_rows_of api a)) \<and> mlx_dtype api r = mlx_dtype api a"
proof (cases "off = cap \<and> s = 0")
  case True
  then show ?thesis
    using assms mlx_set_rows [OF assms(1) _ assms(3)] length_kv_rows [OF assms(3)] by (simp add: view_of_def)
next
  case False
  then have "mlx_slice api a [0, 0, s, 0] [B, H, off, D] = Some r"
    using assms(2) by (simp add: view_of_def split: if_splits)
  then have "kv_rows_of api r = take (nat (off - s)) (drop (nat s) (kv_rows_of api a))" "mlx_dtype api r = mlx_dtype api a"
    using mlx_slice_rows(2,3) [OF assms(1) _ assms(3)] assms(4-) by blast+
  then show ?thesis
    using assms(4,5) by (simp add: drop_take nat_diff_distrib)
qed

subsection \<open>Growing\<close>

lemma grow_capacity_step:
  "grow_capacity nc n = (if nc < n then (if nc \<le> 0 \<or> INT_MAX < nc * 2 then None else grow_capacity (nc * 2) n) else Some nc)"
  by (rule grow_capacity.simps)

lemma grow_capacity_ge: "grow_capacity nc n = Some r \<Longrightarrow> nc \<le> INT_MAX \<Longrightarrow> n \<le> r \<and> nc \<le> r \<and> r \<le> INT_MAX \<and> (nc < n \<longrightarrow> r < 2 * n)"
proof (induction nc n rule: grow_capacity.induct)
  case (1 nc n)
  show ?case
  proof (cases "nc < n")
    case True
    then have nc: "0 < nc" "nc * 2 \<le> INT_MAX" "grow_capacity (nc * 2) n = Some r"
      using "1.prems" by (simp_all add: grow_capacity_step [of nc] split: if_splits)
    have "n \<le> r \<and> nc * 2 \<le> r \<and> r \<le> INT_MAX \<and> (nc * 2 < n \<longrightarrow> r < 2 * n)"
      using "1.IH" True nc by simp
    moreover have "r = nc * 2" if "\<not> nc * 2 < n"
      using nc(3) that by (simp add: grow_capacity_step [of "nc * 2"])
    ultimately show ?thesis
      using True nc(1) by auto
  next
    case False
    then show ?thesis
      using "1.prems" by (simp add: grow_capacity_step [of nc])
  qed
qed

lemma grow_capacity_returns: "0 < nc \<Longrightarrow> n \<le> 2 ^ 30 \<Longrightarrow> grow_capacity nc n \<noteq> None"
proof (induction nc n rule: grow_capacity.induct)
  case (1 nc n)
  then show ?case
    by (subst grow_capacity_step) (auto simp: INT_MAX_def)
qed

subsection \<open>Invariant and content\<close>

definition entry_inv :: "('a, 'v) mlx_api \<Rightarrow> int \<Rightarrow> 'a kv_entry \<Rightarrow> bool" where
  "entry_inv api B e \<longleftrightarrow> 0 \<le> kv_offset e \<and> kv_offset e \<le> kv_capacity e \<and> kv_capacity e \<le> INT_MAX \<and>
     (if kv_initialized e
      then (\<exists>k v. kv_keys e = Some k \<and> kv_values e = Some v \<and>
              mlx_shape api k = [B, kv_heads e, kv_capacity e, kv_head_dim e] \<and>
              mlx_shape api v = [B, kv_heads e, kv_capacity e, kv_head_dim e] \<and> mlx_dtype api v = mlx_dtype api k)
      else kv_capacity e = 0)"

text \<open>The element type of a layer's storage, keys and values alike.\<close>

definition entry_dtype :: "('a, 'v) mlx_api \<Rightarrow> 'a kv_entry \<Rightarrow> nat option" where
  "entry_dtype api e = (if kv_initialized e then Some (mlx_dtype api (the (kv_keys e))) else None)"

definition kv_inv :: "('a, 'v) mlx_api \<Rightarrow> int \<Rightarrow> 'a kvcache \<Rightarrow> bool" where
  "kv_inv api B kv \<longleftrightarrow> (\<exists>es. kv_entries kv = Some es \<and> length es = nat (kv_num_layers kv) \<and> (\<forall>e\<in>set es. entry_inv api B e))"

text \<open>What a layer holds: the rows of the keys and of the values written so far.\<close>

definition cached :: "('a, 'v) mlx_api \<Rightarrow> 'a kv_entry \<Rightarrow>
    (int \<times> int \<times> int \<Rightarrow> 'v option) list \<times> (int \<times> int \<times> int \<Rightarrow> 'v option) list" where
  "cached api e = (if kv_initialized e
     then (take (nat (kv_offset e)) (kv_rows_of api (the (kv_keys e))), take (nat (kv_offset e)) (kv_rows_of api (the (kv_values e))))
     else ([], []))"

definition kv_content :: "('a, 'v) mlx_api \<Rightarrow> 'a kvcache \<Rightarrow>
    ((int \<times> int \<times> int \<Rightarrow> 'v option) list \<times> (int \<times> int \<times> int \<Rightarrow> 'v option) list) list" where
  "kv_content api kv = map (cached api) (the (kv_entries kv))"

text \<open>Both lists of a layer cast to an element type.\<close>

definition recast :: "('a, 'v) mlx_api \<Rightarrow> nat \<Rightarrow>
    (int \<times> int \<times> int \<Rightarrow> 'v option) list \<times> (int \<times> int \<times> int \<Rightarrow> 'v option) list \<Rightarrow>
    (int \<times> int \<times> int \<Rightarrow> 'v option) list \<times> (int \<times> int \<times> int \<Rightarrow> 'v option) list" where
  "recast api d kvs = map_prod (map (kv_cast api d)) (map (kv_cast api d)) kvs"

lemma recast_simps [simp]: "recast api d (ks, vs) = (map (kv_cast api d) ks, map (kv_cast api d) vs)"
  by (simp add: recast_def)

lemma recast_cached:
  assumes "mlx_laws api" "entry_inv api B e" "entry_dtype api e = Some d"
  shows "recast api d (cached api e) = cached api e"
proof -
  obtain k v where "kv_keys e = Some k" "kv_values e = Some v" "mlx_dtype api k = d" "mlx_dtype api v = d"
    using assms(2,3) by (auto simp: entry_inv_def entry_dtype_def split: if_splits)
  then show ?thesis
    using cast_own_rows [OF assms(1), of k d] cast_own_rows [OF assms(1), of v d]
    by (simp add: cached_def flip: take_map)
qed

lemma move_rows_keeps:
  assumes "mlx_laws api" "move_rows api (Some a) fresh [B, H, off, D] = Some r" "mlx_shape api a = [B, H, cap, D]"
    "mlx_shape api fresh = [B, H, nc, D]" "0 \<le> off" "off \<le> cap" "off \<le> nc"
  shows "mlx_shape api r = [B, H, nc, D]" "mlx_dtype api r = mlx_dtype api fresh"
    "take (nat off) (kv_rows_of api r) = map (kv_cast api (mlx_dtype api fresh)) (take (nat off) (kv_rows_of api a))"
proof -
  obtain u where u: "mlx_slice api a [0, 0, 0, 0] [B, H, off, D] = Some u" "mlx_slice_upd api fresh u [0, 0, 0, 0] [B, H, 0 + off, D] = Some r"
    using assms(2) by (auto simp: move_rows_def split: option.splits)
  have s: "mlx_shape api u = [B, H, off, D]" "kv_rows_of api u = take (nat off) (kv_rows_of api a)"
    using mlx_slice_rows [OF assms(1) u(1) assms(3)] assms(5,6) by simp_all
  show "mlx_shape api r = [B, H, nc, D]" "mlx_dtype api r = mlx_dtype api fresh"
    "take (nat off) (kv_rows_of api r) = map (kv_cast api (mlx_dtype api fresh)) (take (nat off) (kv_rows_of api a))"
    using mlx_update_rows [OF assms(1) u(2) assms(4) s(1)] assms(5-) length_kv_rows [OF s(1)] s(2) by simp_all
qed

lemma grow_entry_ok:
  assumes laws: "mlx_laws api" and e: "entry_inv api B e" and g: "grow_entry api e B H D needed dt = Some (Some e')"
    and same: "kv_initialized e \<longrightarrow> H = kv_heads e \<and> D = kv_head_dim e" and n: "kv_offset e \<le> needed"
  shows "entry_inv api B (e'\<lparr>kv_heads := H, kv_head_dim := D\<rparr>)"
    "cached api (e'\<lparr>kv_heads := H, kv_head_dim := D\<rparr>) = recast api dt (cached api e)" "entry_dtype api e' = Some dt"
    "kv_initialized e'" "kv_offset e' = kv_offset e" "needed \<le> kv_capacity e'"
proof -
  obtain nc nk nv ks vs where nc: "grow_capacity (if 0 < kv_capacity e then kv_capacity e else 1) needed = Some nc"
    and z: "mlx_zeros api [B, H, nc, D] dt = Some nk" "mlx_zeros api [B, H, nc, D] dt = Some nv"
    and m: "(if kv_initialized e \<and> 0 < kv_offset e
       then (move_rows api (kv_keys e) nk [B, H, kv_offset e, D], move_rows api (kv_values e) nv [B, H, kv_offset e, D])
       else (Some nk, Some nv)) = (Some ks, Some vs)"
    and e': "e' = e\<lparr>kv_keys := Some ks, kv_values := Some vs, kv_capacity := nc, kv_initialized := True\<rparr>"
    using g unfolding grow_entry_def by (auto split: option.splits prod.splits)
  have cap: "kv_offset e \<le> kv_capacity e" "0 \<le> kv_offset e" "kv_capacity e \<le> INT_MAX"
    using e by (simp_all add: entry_inv_def)
  have "(if 0 < kv_capacity e then kv_capacity e else 1) \<le> INT_MAX"
    using cap(3) by (simp add: INT_MAX_def)
  then have ge: "needed \<le> nc" "nc \<le> INT_MAX" "kv_offset e \<le> nc"
    using grow_capacity_ge [OF nc] n by auto
  have sh: "mlx_shape api nk = [B, H, nc, D]" "mlx_shape api nv = [B, H, nc, D]" and d: "mlx_dtype api nk = dt" "mlx_dtype api nv = dt"
    using mlx_zeros_shape [OF laws] z by blast+
  have rows: "mlx_shape api ks = [B, H, nc, D] \<and> mlx_shape api vs = [B, H, nc, D] \<and> mlx_dtype api ks = dt \<and> mlx_dtype api vs = dt \<and>
      (take (nat (kv_offset e)) (kv_rows_of api ks), take (nat (kv_offset e)) (kv_rows_of api vs)) = recast api dt (cached api e)"
  proof (cases "kv_initialized e \<and> 0 < kv_offset e")
    case True
    then obtain k v where kv: "kv_keys e = Some k" "kv_values e = Some v"
      "mlx_shape api k = [B, H, kv_capacity e, D]" "mlx_shape api v = [B, H, kv_capacity e, D]"
      using e same by (auto simp: entry_inv_def)
    have mv: "move_rows api (Some k) nk [B, H, kv_offset e, D] = Some ks" "move_rows api (Some v) nv [B, H, kv_offset e, D] = Some vs"
      using m True kv by simp_all
    show ?thesis
      using move_rows_keeps [OF laws mv(1) kv(3) sh(1)] move_rows_keeps [OF laws mv(2) kv(4) sh(2)] True cap ge kv(1,2) d
      by (simp add: cached_def)
  next
    case False
    then show ?thesis
      using m sh d cap e by (auto simp: cached_def entry_inv_def split: if_splits)
  qed
  show "entry_inv api B (e'\<lparr>kv_heads := H, kv_head_dim := D\<rparr>)"
    using rows ge cap by (simp add: entry_inv_def e')
  show "cached api (e'\<lparr>kv_heads := H, kv_head_dim := D\<rparr>) = recast api dt (cached api e)" "entry_dtype api e' = Some dt"
    using rows by (simp_all add: cached_def entry_dtype_def e')
  show "kv_initialized e'" "kv_offset e' = kv_offset e" "needed \<le> kv_capacity e'"
    using ge by (simp_all add: e')
qed

text \<open>The window of rows a view shows.\<close>

definition kv_window :: "int \<Rightarrow> int \<Rightarrow> 'r list \<Rightarrow> 'r list" where
  "kv_window max_kv new_len rs = drop (nat (view_start max_kv new_len (int (length rs)))) rs"

lemma view_start_range: "0 \<le> off \<Longrightarrow> 0 \<le> view_start max_kv n off \<and> view_start max_kv n off \<le> off"
  by (simp add: view_start_def)

lemma append_rows_ok:
  assumes laws: "mlx_laws api" and e: "entry_inv api B e" and i: "kv_initialized e" and args: "update_args_ok api e nk nv max_kv"
    and B: "mlx_dim api nk 0 = B" and n: "kv_offset e + mlx_dim api nk 2 \<le> kv_capacity e"
    and a: "append_rows api e nk nv max_kv = Some (e', kview, vview)" and d: "entry_dtype api e = Some d"
  shows "entry_inv api B e'" "entry_dtype api e' = Some d" "mlx_dtype api kview = d" "mlx_dtype api vview = d"
    "cached api e' = (fst (cached api e) @ map (kv_cast api d) (kv_rows_of api nk),
       snd (cached api e) @ map (kv_cast api d) (kv_rows_of api nv))"
    "kv_rows_of api kview = kv_window max_kv (mlx_dim api nk 2) (fst (cached api e'))"
    "kv_rows_of api vview = kv_window max_kv (mlx_dim api nk 2) (snd (cached api e'))"
proof -
  define off n where "off = kv_offset e" and "n = mlx_dim api nk 2"
  obtain k v where kv: "kv_keys e = Some k" "kv_values e = Some v"
    "mlx_shape api k = [B, kv_heads e, kv_capacity e, kv_head_dim e]" "mlx_shape api v = [B, kv_heads e, kv_capacity e, kv_head_dim e]"
    using e i by (auto simp: entry_inv_def)
  have dt: "mlx_dtype api k = d" "mlx_dtype api v = d"
    using d e i kv(1,2) by (auto simp: entry_dtype_def entry_inv_def)
  have sh: "mlx_shape api nk = [B, kv_heads e, n, kv_head_dim e]" "mlx_shape api nv = [B, kv_heads e, n, kv_head_dim e]"
    using args i B by (simp_all add: update_args_ok_def shape4 n_def)
  have off: "0 \<le> off" "0 \<le> n" "off + n \<le> kv_capacity e" "kv_capacity e \<le> INT_MAX"
    using e n mlx_nonneg [OF laws sh(1)] by (simp_all add: entry_inv_def off_def n_def)
  obtain uk uv where u: "mlx_slice_upd api k nk [0, 0, off, 0] [B, kv_heads e, off + n, kv_head_dim e] = Some uk"
      "mlx_slice_upd api v nv [0, 0, off, 0] [B, kv_heads e, off + n, kv_head_dim e] = Some uv"
    and w: "view_of api uk (kv_capacity e) [B, kv_heads e, off + n, kv_head_dim e] (view_start max_kv n (off + n)) = Some kview"
      "view_of api uv (kv_capacity e) [B, kv_heads e, off + n, kv_head_dim e] (view_start max_kv n (off + n)) = Some vview"
    and e': "e' = e\<lparr>kv_keys := Some uk, kv_values := Some uv, kv_offset := off + n\<rparr>"
    using a sh(1) by (auto simp: append_rows_def Let_def kv off_def shape4 split: option.splits prod.splits)
  note uk = mlx_update_rows [OF laws u(1) kv(3) sh(1) off(1,3)]
  note uv = mlx_update_rows [OF laws u(2) kv(4) sh(2) off(1,3)]
  show "entry_inv api B e'" "entry_dtype api e' = Some d"
    using uk(1,3) uv(1,3) off dt by (simp_all add: entry_inv_def entry_dtype_def e' i)
  have t: "take (nat (off + n)) (take (nat off) (kv_rows_of api x) @ map f (kv_rows_of api y) @ drop (nat (off + n)) (kv_rows_of api x)) =
      take (nat off) (kv_rows_of api x) @ map f (kv_rows_of api y)"
    if "mlx_shape api x = [B, kv_heads e, kv_capacity e, kv_head_dim e]" "mlx_shape api y = [B, kv_heads e, n, kv_head_dim e]" for x y f
    using off by (simp add: length_kv_rows [OF that(1)] length_kv_rows [OF that(2)] nat_add_distrib)
  show c: "cached api e' = (fst (cached api e) @ map (kv_cast api d) (kv_rows_of api nk),
       snd (cached api e) @ map (kv_cast api d) (kv_rows_of api nv))"
    using t [OF kv(3) sh(1)] t [OF kv(4) sh(2)] uk(2) uv(2) by (simp add: cached_def e' i kv dt flip: off_def)
  have len: "int (length (fst (cached api e'))) = off + n" "int (length (snd (cached api e'))) = off + n"
    using off uk(1) uv(1) by (simp_all add: cached_def e' i length_kv_rows [OF uk(1)] length_kv_rows [OF uv(1)])
  have "kv_rows_of api kview = drop (nat (view_start max_kv n (off + n))) (take (nat (off + n)) (kv_rows_of api uk))"
      "kv_rows_of api vview = drop (nat (view_start max_kv n (off + n))) (take (nat (off + n)) (kv_rows_of api uv))"
    using mlx_view_rows [OF laws w(1) uk(1)] mlx_view_rows [OF laws w(2) uv(1)] view_start_range [of "off + n"] off by auto
  moreover show "mlx_dtype api kview = d" "mlx_dtype api vview = d"
    using mlx_view_rows [OF laws w(1) uk(1)] mlx_view_rows [OF laws w(2) uv(1)] view_start_range [of "off + n"] off uk(3) uv(3) dt by auto
  ultimately show "kv_rows_of api kview = kv_window max_kv (mlx_dim api nk 2) (fst (cached api e'))"
      "kv_rows_of api vview = kv_window max_kv (mlx_dim api nk 2) (snd (cached api e'))"
    using len by (simp_all add: kv_window_def flip: n_def) (simp_all add: cached_def e' i)
qed

subsection \<open>The operations refine appending\<close>

lemma kv_layer_Some:
  assumes "kv_inv api B kv" "kv_layer kv layer = Some e"
  shows "entry_inv api B e" "nat layer < length (kv_content api kv)" "kv_content api kv ! nat layer = cached api e"
    "entry_inv api B e' \<Longrightarrow> kv_inv api B (set_layer kv layer e')"
    "kv_content api (set_layer kv layer e') = (kv_content api kv)[nat layer := cached api e']"
proof -
  obtain es where es: "kv_entries kv = Some es" "length es = nat (kv_num_layers kv)" "\<forall>e\<in>set es. entry_inv api B e"
    using assms(1) by (auto simp: kv_inv_def)
  then have l: "nat layer < length es" "e = es ! nat layer"
    using assms(2) by (auto simp: kv_layer_def split: if_splits)
  then show "entry_inv api B e" "nat layer < length (kv_content api kv)" "kv_content api kv ! nat layer = cached api e"
    using es by (auto simp: kv_content_def)
  show "kv_content api (set_layer kv layer e') = (kv_content api kv)[nat layer := cached api e']"
    by (simp add: kv_content_def set_layer_def es map_update)
  show "kv_inv api B (set_layer kv layer e')" if "entry_inv api B e'"
    using es that by (auto simp: kv_inv_def set_layer_def dest: set_update_subset_insert [THEN subsetD])
qed

text \<open>The element type of the storage a step is written to: growing makes it the type of the new keys.\<close>

definition step_dtype :: "('a, 'v) mlx_api \<Rightarrow> 'a kv_entry \<Rightarrow> 'a \<Rightarrow> nat" where
  "step_dtype api e new_k =
     (if \<not> kv_initialized e \<or> kv_capacity e < kv_offset e + mlx_dim api new_k 2 then mlx_dtype api new_k
      else mlx_dtype api (the (kv_keys e)))"

lemma kv_grown:
  assumes laws: "mlx_laws api" and e: "entry_inv api B e" and args: "update_args_ok api e nk nv max_kv"
    and g: "(if \<not> kv_initialized e \<or> kv_capacity e < kv_offset e + mlx_dim api nk 2
      then map_option (map_option (\<lambda>e. e\<lparr>kv_heads := mlx_dim api nk 1, kv_head_dim := mlx_dim api nk 3\<rparr>))
             (grow_entry api e B (mlx_dim api nk 1) (mlx_dim api nk 3) (kv_offset e + mlx_dim api nk 2) (mlx_dtype api nk))
      else Some (Some e)) = Some (Some e')"
    and n: "0 \<le> mlx_dim api nk 2"
  shows "entry_inv api B e' \<and> cached api e' = recast api (step_dtype api e nk) (cached api e) \<and>
    entry_dtype api e' = Some (step_dtype api e nk) \<and> kv_initialized e' \<and> kv_offset e' = kv_offset e \<and>
    kv_offset e + mlx_dim api nk 2 \<le> kv_capacity e' \<and> update_args_ok api e' nk nv max_kv"
proof (cases "\<not> kv_initialized e \<or> kv_capacity e < kv_offset e + mlx_dim api nk 2")
  case True
  then obtain e1 where e1: "grow_entry api e B (mlx_dim api nk 1) (mlx_dim api nk 3) (kv_offset e + mlx_dim api nk 2)
        (mlx_dtype api nk) = Some (Some e1)"
      "e' = e1\<lparr>kv_heads := mlx_dim api nk 1, kv_head_dim := mlx_dim api nk 3\<rparr>"
    using g by auto
  have "step_dtype api e nk = mlx_dtype api nk"
    using True by (simp add: step_dtype_def)
  then show ?thesis
    using grow_entry_ok [OF laws e e1(1)] n args by (auto simp: update_args_ok_def e1(2) entry_dtype_def)
next
  case False
  then have "e' = e" "entry_dtype api e = Some (step_dtype api e nk)"
    using g by (auto simp: step_dtype_def entry_dtype_def)
  then show ?thesis
    using False recast_cached [OF laws e] e args by auto
qed

text \<open>A step of the element type of the storage is appended as it is.\<close>

lemma same_dtype:
  assumes "mlx_laws api" "entry_inv api B e" "mlx_dtype api new_v = mlx_dtype api new_k"
    "entry_dtype api e = None \<or> entry_dtype api e = Some (mlx_dtype api new_k)"
  shows "step_dtype api e new_k = mlx_dtype api new_k"
    "recast api (step_dtype api e new_k) (cached api e) = cached api e"
    "map (kv_cast api (step_dtype api e new_k)) (kv_rows_of api new_k) = kv_rows_of api new_k"
    "map (kv_cast api (step_dtype api e new_k)) (kv_rows_of api new_v) = kv_rows_of api new_v"
proof -
  show d: "step_dtype api e new_k = mlx_dtype api new_k"
    using assms(4) by (auto simp: step_dtype_def entry_dtype_def split: if_splits)
  show "recast api (step_dtype api e new_k) (cached api e) = cached api e"
  proof (cases "entry_dtype api e")
    case None
    then show ?thesis
      by (simp add: cached_def entry_dtype_def split: if_splits)
  next
    case (Some t)
    then show ?thesis
      using recast_cached [OF assms(1,2)] assms(4) d by simp
  qed
  show "map (kv_cast api (step_dtype api e new_k)) (kv_rows_of api new_k) = kv_rows_of api new_k"
    "map (kv_cast api (step_dtype api e new_k)) (kv_rows_of api new_v) = kv_rows_of api new_v"
    unfolding d using cast_own_rows [OF assms(1) refl, of new_k] cast_own_rows [OF assms(1) assms(3)] by simp_all
qed

text \<open>What an update does to a layer's entry, in terms of its content.\<close>

definition step_result :: "('a, 'v) mlx_api \<Rightarrow> nat \<Rightarrow> 'a \<Rightarrow> 'a \<Rightarrow>
    (int \<times> int \<times> int \<Rightarrow> 'v option) list \<times> (int \<times> int \<times> int \<Rightarrow> 'v option) list \<Rightarrow>
    (int \<times> int \<times> int \<Rightarrow> 'v option) list \<times> (int \<times> int \<times> int \<Rightarrow> 'v option) list" where
  "step_result api d new_k new_v kvs =
     recast api d (fst kvs @ kv_rows_of api new_k, snd kvs @ kv_rows_of api new_v)"

text \<open>C35. The exact effect of an update of a layer, the element types of MLX included. With status -1
  neither view changes, the layer keeps its rows, at most cast to the storage type of this step (when
  growing succeeded and the append failed), and the other layers are untouched. With status 0 the layer
  holds the rows it had followed by the rows of the step, keys and values, all in one element type: the
  type of the new keys when the storage had to grow (or was empty), otherwise the type the storage has;
  the other layers are untouched, and the views have that type and show the last rows (all of them
  outside decode steps or without a cap). In particular, when the new keys and the new values have the
  element type of the storage (any type, for an empty layer), a failed update changes nothing, a
  successful one appends the rows unchanged, and growing the storage is not observable; the code checks
  neither type.\<close>

theorem kvcache_update_appends:
  assumes "mlx_laws api" and "kv_inv api B kv" and "mlx_dim api new_k 0 = B"
    and "kvcache_update api kv layer new_k new_v max_kv k_view v_view = Some (rc, kv', k_view', v_view')"
  shows "kv_inv api B kv' \<and>
    (case kv_layer kv layer of
       None \<Rightarrow> rc = - 1 \<and> kv' = kv \<and> k_view' = k_view \<and> v_view' = v_view
     | Some e \<Rightarrow>
        (let c = kv_content api kv ! nat layer; d = step_dtype api e new_k; n = mlx_dim api new_k 2;
             c' = step_result api d new_k new_v c;
             same = (mlx_dtype api new_v = mlx_dtype api new_k \<and>
               (entry_dtype api e = None \<or> entry_dtype api e = Some (mlx_dtype api new_k))) in
          nat layer < length (kv_content api kv) \<and>
          (if rc = - 1
           then k_view' = k_view \<and> v_view' = v_view \<and>
             (kv_content api kv' = kv_content api kv \<or>
              kv_content api kv' = (kv_content api kv)[nat layer := recast api d c]) \<and>
             (same \<longrightarrow> kv_content api kv' = kv_content api kv)
           else rc = 0 \<and> kv_content api kv' = (kv_content api kv)[nat layer := c'] \<and>
             map_option (entry_dtype api) (kv_layer kv' layer) = Some (Some d) \<and>
             mlx_dtype api k_view' = d \<and> mlx_dtype api v_view' = d \<and>
             kv_rows_of api k_view' = kv_window max_kv n (fst c') \<and>
             kv_rows_of api v_view' = kv_window max_kv n (snd c') \<and>
             (same \<longrightarrow> d = mlx_dtype api new_k \<and>
                c' = (fst c @ kv_rows_of api new_k, snd c @ kv_rows_of api new_v)))))"
proof (cases "kv_layer kv layer")
  case None
  then show ?thesis
    using assms(2,4) by (simp add: kvcache_update_def)
next
  case (Some e)
  note L = kv_layer_Some [OF assms(2) Some]
  show ?thesis
  proof (cases "update_args_ok api e new_k new_v max_kv")
    case False
    then show ?thesis
      using assms(2,4) Some L(2) by (simp add: kvcache_update_def Let_def)
  next
    case args: True
    define needed where "needed = kv_offset e + mlx_dim api new_k 2"
    define d where "d = step_dtype api e new_k"
    have n: "0 \<le> mlx_dim api new_k 2"
      using assms(1) unfolding mlx_laws_def by blast
    have upd: "\<not> INT_MAX < needed"
    proof
      assume "INT_MAX < needed"
      then show False
        using assms(4) args unfolding kvcache_update_def Some option.case Let_def needed_def by simp
    qed
    obtain r where r: "(if \<not> kv_initialized e \<or> kv_capacity e < needed
        then map_option (map_option (\<lambda>e. e\<lparr>kv_heads := mlx_dim api new_k 1, kv_head_dim := mlx_dim api new_k 3\<rparr>))
               (grow_entry api e B (mlx_dim api new_k 1) (mlx_dim api new_k 3) needed (mlx_dtype api new_k))
        else Some (Some e)) = Some r"
      and res: "(case r of None \<Rightarrow> (- 1, kv, k_view, v_view)
        | Some e1 \<Rightarrow> (case append_rows api e1 new_k new_v max_kv of
            None \<Rightarrow> (- 1, set_layer kv layer e1, k_view, v_view)
          | Some (e, kview, vview) \<Rightarrow> (0, set_layer kv layer e, kview, vview))) = (rc, kv', k_view', v_view')"
      using assms(4) upd
      unfolding kvcache_update_def Some option.case needed_def [symmetric] assms(3) Let_def using args
      by (auto split: option.splits simp del: map_option_eq_Some)
    note sd = same_dtype [OF assms(1) L(1), of new_v new_k, folded d_def]
    note same_lay = L(2,3)
    show ?thesis
    proof (cases r)
      case None
      then show ?thesis
        using res assms(2) Some L(2) by (simp add: Let_def)
    next
      case r1: (Some e1)
      note G = kv_grown [OF assms(1) L(1) args r [unfolded r1 needed_def] n, folded d_def]
      show ?thesis
      proof (cases "append_rows api e1 new_k new_v max_kv")
        case None
        have "(kv_content api kv)[nat layer := cached api e] = kv_content api kv"
          using L(2,3) by (simp add: list_update_same_conv)
        then show ?thesis
          using res r1 None L(2,3) L(4) [of e1] L(5) [of e1] G Some sd(2) by (auto simp: Let_def simp flip: d_def)
      next
        case a: (Some x)
        obtain e2 kw vw where x: "x = (e2, kw, vw)"
          by (cases x)
        have n1: "kv_offset e1 + mlx_dim api new_k 2 \<le> kv_capacity e1"
          using G by simp
        have init: "kv_initialized e1" and inv1: "entry_inv api B e1" and args1: "update_args_ok api e1 new_k new_v max_kv"
          and d1: "entry_dtype api e1 = Some d"
          using G by blast+
        note A = append_rows_ok [OF assms(1) inv1 init args1 assms(3) n1 a [unfolded x] d1]
        have c2: "cached api e2 = step_result api d new_k new_v (kv_content api kv ! nat layer)"
          unfolding L(3) step_result_def A(5) using G by (cases "cached api e") simp
        have res2: "rc = 0" "kv' = set_layer kv layer e2" "k_view' = kw" "v_view' = vw"
          using res r1 a x by simp_all
        have lay: "kv_layer kv' layer = Some e2"
          using Some L(2) by (auto simp: kv_layer_def res2 set_layer_def kv_content_def split: option.splits if_splits)
        have same: "step_result api d new_k new_v c = (fst c @ kv_rows_of api new_k, snd c @ kv_rows_of api new_v)"
          if "mlx_dtype api new_v = mlx_dtype api new_k" "entry_dtype api e = None \<or> entry_dtype api e = Some (mlx_dtype api new_k)"
            "c = cached api e" for c
          using sd(2-4) [OF that(1,2)] by (cases c) (simp add: step_result_def that(3))
        show ?thesis
          using A(1-4) A(6,7) lay L(2) L(4) [of e2] L(5) [of e2] sd(1) same [OF _ _ L(3)]
          by (simp add: Some res2(1,3,4) Let_def c2 flip: d_def) (simp add: res2(2))
      qed
    qed
  qed
qed

text \<open>A later view of the layer shows the same window as the update that wrote it.\<close>

lemma kvcache_view_window:
  assumes "mlx_laws api" "kv_inv api B kv" "kvcache_view api kv layer max_kv q_len = Some (kw, vw)"
  shows "kv_rows_of api kw = kv_window max_kv q_len (fst (kv_content api kv ! nat layer))"
    "kv_rows_of api vw = kv_window max_kv q_len (snd (kv_content api kv ! nat layer))"
proof -
  obtain e where e: "kv_layer kv layer = Some e" "kv_initialized e"
    using assms(3) by (auto simp: kvcache_view_def Let_def split: option.splits if_splits)
  note L = kv_layer_Some [OF assms(2) e(1)]
  obtain k v where kv: "kv_keys e = Some k" "kv_values e = Some v"
    "mlx_shape api k = [B, kv_heads e, kv_capacity e, kv_head_dim e]" "mlx_shape api v = [B, kv_heads e, kv_capacity e, kv_head_dim e]"
    and off: "0 \<le> kv_offset e" "kv_offset e \<le> kv_capacity e"
    using L(1) e(2) by (auto simp: entry_inv_def)
  have "mlx_dim api k 0 = B"
    using kv(3) by (simp add: shape4)
  then have w: "view_of api k (kv_capacity e) [B, kv_heads e, kv_offset e, kv_head_dim e] (view_start max_kv q_len (kv_offset e)) = Some kw"
    "view_of api v (kv_capacity e) [B, kv_heads e, kv_offset e, kv_head_dim e] (view_start max_kv q_len (kv_offset e)) = Some vw"
    using assms(3) e kv(1,2) by (auto simp: kvcache_view_def Let_def split: option.splits if_splits prod.splits)
  have len: "int (length (fst (cached api e))) = kv_offset e" "int (length (snd (cached api e))) = kv_offset e"
    using off e(2) kv by (simp_all add: cached_def length_kv_rows [OF kv(3)] length_kv_rows [OF kv(4)])
  show "kv_rows_of api kw = kv_window max_kv q_len (fst (kv_content api kv ! nat layer))"
    "kv_rows_of api vw = kv_window max_kv q_len (snd (kv_content api kv ! nat layer))"
    using mlx_view_rows [OF assms(1) w(1) kv(3)] mlx_view_rows [OF assms(1) w(2) kv(4)] view_start_range [OF off(1)] off(2) len
    by (simp_all add: L(3) kv_window_def) (simp_all add: cached_def e(2) kv)
qed

text \<open>Updates do not overflow while the cache stays below 2^30 rows.\<close>

lemma kvcache_update_returns:
  assumes "kv_inv api B kv" "\<And>e. kv_layer kv layer = Some e \<Longrightarrow> kv_offset e + mlx_dim api new_k 2 \<le> 2 ^ 30"
  shows "kvcache_update api kv layer new_k new_v max_kv k_view v_view \<noteq> None"
proof (cases "kv_layer kv layer")
  case None
  then show ?thesis
    by (simp add: kvcache_update_def)
next
  case (Some e)
  note n = assms(2) [OF Some]
  have "0 < (if 0 < kv_capacity e then kv_capacity e else 1)"
    by simp
  then obtain nc where nc: "grow_capacity (if 0 < kv_capacity e then kv_capacity e else 1) (kv_offset e + mlx_dim api new_k 2) = Some nc"
    using grow_capacity_returns [OF _ n] by blast
  obtain r where "grow_entry api e (mlx_dim api new_k 0) (mlx_dim api new_k 1) (mlx_dim api new_k 3)
      (kv_offset e + mlx_dim api new_k 2) (mlx_dtype api new_k) = Some r"
    unfolding grow_entry_def nc option.case by blast
  then show ?thesis
    using n by (auto simp: kvcache_update_def Some INT_MAX_def Let_def split: option.splits)
qed

subsection \<open>Concrete tensors\<close>

text \<open>Tensors of integers with two element types: type 0 holds every value, type 1 the last byte.\<close>

type_synonym tensor = "int list \<times> nat \<times> (int list \<Rightarrow> int)"

definition tensor_cast :: "nat \<Rightarrow> int \<Rightarrow> int" where
  "tensor_cast d v = (if d = 1 then v mod 256 else v)"

definition tensor_elem :: "tensor \<Rightarrow> int list \<Rightarrow> int" where
  "tensor_elem a idx = tensor_cast (fst (snd a)) (snd (snd a) idx)"

definition tensor_api :: "(tensor, int) mlx_api" where
  "tensor_api = \<lparr>mlx_ndim = \<lambda>a. length (fst a), mlx_dim = \<lambda>a i. if i < length (fst a) then \<bar>fst a ! i\<bar> else 0,
     mlx_dtype = \<lambda>a. fst (snd a),
     mlx_zeros = \<lambda>sh d. if list_all (\<lambda>x. 0 \<le> x) sh then Some (sh, d, \<lambda>_. 0) else None,
     mlx_slice = \<lambda>a lo hi. if list_all2 (\<le>) lo hi
       then Some (map2 (-) hi lo, fst (snd a), \<lambda>idx. tensor_elem a (map2 (+) lo idx)) else None,
     mlx_slice_upd = \<lambda>a u lo hi. Some (fst a, fst (snd a),
       \<lambda>idx. if in_box lo hi idx then tensor_elem u (map2 (-) idx lo) else tensor_elem a idx),
     mlx_array_set = \<lambda>a. Some a, mlx_elem = tensor_elem, mlx_cast = tensor_cast\<rparr>"

lemma tensor_cast_idem [simp]: "tensor_cast d (tensor_cast d v) = tensor_cast d v"
  by (simp add: tensor_cast_def)

lemma tensor_shape: "mlx_shape tensor_api a = map abs (fst a)"
  by (rule nth_equalityI) (simp_all add: mlx_shape_def tensor_api_def)

lemma abs_id: "list_all (\<lambda>x. 0 \<le> x) xs \<Longrightarrow> map abs xs = (xs :: int list)"
  by (induction xs) auto

lemma abs_diff: "list_all2 (\<le>) lo hi \<Longrightarrow> (x, y) \<in> set (zip hi lo) \<Longrightarrow> \<bar>x - y\<bar> = x - (y :: int)"
  by (auto simp: list_all2_conv_all_nth set_zip)

lemma tensor_laws: "mlx_laws tensor_api"
  unfolding mlx_laws_def tensor_shape
  by (auto simp: tensor_api_def abs_id abs_diff tensor_elem_def split: if_splits)

definition sample_keys :: tensor where
  "sample_keys = ([1, 1, 2, 1], 0, \<lambda>idx. idx ! 2 + 10)"

definition sample_values :: tensor where
  "sample_values = ([1, 1, 2, 1], 0, \<lambda>idx. idx ! 2 + 20)"

definition sample_cache :: "tensor kvcache" where
  "sample_cache = \<lparr>kv_entries = Some [kv_entry0], kv_num_layers = 1\<rparr>"

lemma sample_cache_inv: "kv_inv tensor_api 1 sample_cache" "kv_content tensor_api sample_cache = [([], [])]"
  by (simp_all add: kv_inv_def sample_cache_def entry_inv_def kv_entry0_def INT_MAX_def kv_content_def cached_def)

lemma sample_grow: "grow_capacity 1 2 = Some 2"
  by (simp add: grow_capacity_step [of 1] grow_capacity_step [of 2] INT_MAX_def)

lemma sample_update: "\<exists>kv' kw vw. kvcache_update tensor_api sample_cache 0 sample_keys sample_values 0 sample_keys sample_keys = Some (0, kv', kw, vw)"
  by (simp add: kvcache_update_def kv_layer_def sample_cache_def kv_entry0_def update_args_ok_def tensor_api_def sample_keys_def
      sample_values_def Let_def grow_entry_def INT_MAX_def sample_grow append_rows_def view_of_def view_start_def)

theorem kvcache_update_appends_witness:
  "\<exists>kv' kw vw. kvcache_update tensor_api sample_cache 0 sample_keys sample_values 0 sample_keys sample_keys = Some (0, kv', kw, vw) \<and>
     kv_content tensor_api kv' = [(kv_rows_of tensor_api sample_keys, kv_rows_of tensor_api sample_values)]"
proof -
  obtain kv' kw vw where u: "kvcache_update tensor_api sample_cache 0 sample_keys sample_values 0 sample_keys sample_keys = Some (0, kv', kw, vw)"
    using sample_update by blast
  have "mlx_dim tensor_api sample_keys 0 = 1"
    by (simp add: tensor_api_def sample_keys_def)
  moreover have lay: "kv_layer sample_cache 0 = Some kv_entry0" "entry_dtype tensor_api kv_entry0 = None"
    "mlx_dtype tensor_api sample_values = mlx_dtype tensor_api sample_keys"
    by (simp_all add: kv_layer_def sample_cache_def entry_dtype_def kv_entry0_def tensor_api_def sample_keys_def sample_values_def)
  ultimately have "kv_content tensor_api kv' = [(kv_rows_of tensor_api sample_keys, kv_rows_of tensor_api sample_values)]"
    using kvcache_update_appends [OF tensor_laws sample_cache_inv(1) _ u] by (simp add: Let_def sample_cache_inv(2)) metis
  with u show ?thesis
    by blast
qed

text \<open>With mixed element types the cast is real: values of the wide type that come with keys of the narrow
  type are stored narrow (300 becomes 44).\<close>

definition narrow_keys :: tensor where
  "narrow_keys = ([1, 1, 1, 1], 1, \<lambda>idx. 7)"

definition wide_values :: tensor where
  "wide_values = ([1, 1, 1, 1], 0, \<lambda>idx. 300)"

theorem values_cast_to_keys:
  "\<exists>kv' kw vw. kvcache_update tensor_api sample_cache 0 narrow_keys wide_values 0 narrow_keys narrow_keys = Some (0, kv', kw, vw) \<and>
     mlx_dtype tensor_api vw = 1 \<and> mlx_elem tensor_api wide_values [0, 0, 0, 0] = 300 \<and> mlx_elem tensor_api vw [0, 0, 0, 0] = 44"
  by (simp add: kvcache_update_def kv_layer_def sample_cache_def kv_entry0_def update_args_ok_def tensor_api_def narrow_keys_def
      wide_values_def Let_def grow_entry_def INT_MAX_def grow_capacity_step [of 1] append_rows_def view_of_def view_start_def
      tensor_elem_def tensor_cast_def in_box_def)

end
