(* ===== verification/Registry.thy ===== *)
theory Registry
  imports Json
begin

text \<open>
  The model registry: specifications, cache paths, the download plan, downloads, pulls and resolution
  (\<open>src/registry/registry.c\<close>, \<open>src/registry/hub_client.c\<close>). The file system is a map from paths to nodes;
  the environment, the reader and writer of JSON, the HTTP server behind curl and the permission to write
  are parameters. C strings are strings without NUL.
\<close>

subsection \<open>The world\<close>

text \<open>A regular file with its bytes or a directory, each with its modification time.\<close>

datatype node = Regular string int | Directory int

type_synonym file_system = "string \<Rightarrow> node option"

text \<open>What curl reports of one request: whether the transfer was aborted by the progress callback, its
  result, the status, the total of a \<open>Content-Range: bytes */N\<close> header (-1 when there is none) and the chunks of the body.\<close>

record reply =
  rp_aborted :: bool
  rp_ok :: bool
  rp_code :: int
  rp_range_total :: int
  rp_chunks :: "string list"

text \<open>The server answers the n-th request to a URL with an authorization header and a first byte.\<close>

record reg_env =
  re_getenv :: "string \<Rightarrow> string option"
  re_listing :: "file_system \<Rightarrow> string \<Rightarrow> string list option"
  re_writable :: "string \<Rightarrow> bool"
  re_now :: int
  re_read :: "string \<Rightarrow> json option"
  re_write :: "json \<Rightarrow> string option"
  re_server :: "nat \<Rightarrow> string \<Rightarrow> string option \<Rightarrow> nat \<Rightarrow> reply"

definition is_regular :: "file_system \<Rightarrow> string \<Rightarrow> bool" where
  "is_regular fs p = (case fs p of Some (Regular _ _) \<Rightarrow> True | _ \<Rightarrow> False)"

definition contents :: "file_system \<Rightarrow> string \<Rightarrow> string" where
  "contents fs p = (case fs p of Some (Regular s _) \<Rightarrow> s | _ \<Rightarrow> [])"

definition node_mtime :: "node \<Rightarrow> int" where
  "node_mtime nd = (case nd of Regular _ t \<Rightarrow> t | Directory t \<Rightarrow> t)"

subsection \<open>Strings and paths\<close>

definition reg_path_join :: "allocator \<Rightarrow> string \<Rightarrow> string \<Rightarrow> string option" where
  "reg_path_join mem dir name = (if mem (length dir + 1 + length name + 1) then Some (dir @ ''/'' @ name) else None)"

definition reg_dir_has_config_json :: "allocator \<Rightarrow> file_system \<Rightarrow> string \<Rightarrow> bool" where
  "reg_dir_has_config_json mem fs dir = (case reg_path_join mem dir ''config.json'' of None \<Rightarrow> False | Some p \<Rightarrow> is_regular fs p)"

definition reg_spec_char_ok :: "char \<Rightarrow> bool" where
  "reg_spec_char_ok c \<longleftrightarrow>
     (let n = of_char c :: nat in 65 \<le> n \<and> n \<le> 90 \<or> 97 \<le> n \<and> n \<le> 122 \<or> 48 \<le> n \<and> n \<le> 57) \<or>
     c = CHR ''.'' \<or> c = CHR ''_'' \<or> c = CHR ''-''"

definition reg_spec_charset_ok :: "string \<Rightarrow> bool" where
  "reg_spec_charset_ok s \<longleftrightarrow> list_all reg_spec_char_ok s"

subsection \<open>Specifications\<close>

record reg_spec =
  sp_org :: "string option"
  sp_model :: "string option"
  sp_revision :: "string option"
  sp_local_path :: "string option"

text \<open>The text before and after the first occurrence of a character.\<close>

definition before :: "char \<Rightarrow> string \<Rightarrow> string" where
  "before c s = takeWhile (\<lambda>x. x \<noteq> c) s"

definition after :: "char \<Rightarrow> string \<Rightarrow> string" where
  "after c s = tl (dropWhile (\<lambda>x. x \<noteq> c) s)"

definition local_spec :: "string option \<Rightarrow> reg_spec option" where
  "local_spec p = map_option (\<lambda>p. \<lparr>sp_org = None, sp_model = None, sp_revision = None, sp_local_path = Some p\<rparr>) p"

definition reg_spec_parse :: "allocator \<Rightarrow> reg_env \<Rightarrow> string \<Rightarrow> reg_spec option" where
  "reg_spec_parse mem env spec =
     (if spec = [] then None
      else if hd spec = CHR ''~''
      then (if tl spec \<noteq> [] \<and> hd (tl spec) \<noteq> CHR ''/'' then None
            else case re_getenv env ''HOME'' of
              None \<Rightarrow> None
            | Some home \<Rightarrow>
                if home = [] then None
                else if tl spec = [] then local_spec (c_strdup mem home)
                else local_spec (reg_path_join mem home (drop 2 spec)))
      else if hd spec = CHR ''.'' \<or> hd spec = CHR ''/'' then local_spec (c_strdup mem spec)
      else if CHR ''/'' \<notin> set spec then None
      else let org = before CHR ''/'' spec; after_slash = after CHR ''/'' spec; model = before CHR '':'' after_slash;
               revision = (if CHR '':'' \<in> set after_slash then Some (after CHR '':'' after_slash) else None) in
        if org = [] \<or> CHR ''/'' \<in> set after_slash then None
        else if (\<exists>rev. revision = Some rev \<and> (rev = [] \<or> \<not> reg_spec_charset_ok rev \<or> \<not> mem (length rev + 1))) then None
        else if model = [] \<or> \<not> reg_spec_charset_ok org \<or> \<not> reg_spec_charset_ok model then None
        else if \<not> mem (length org + 1) \<or> \<not> mem (length model + 1) then None
        else Some \<lparr>sp_org = Some org, sp_model = Some model, sp_revision = revision, sp_local_path = None\<rparr>)"

definition reg_cache_root :: "allocator \<Rightarrow> reg_env \<Rightarrow> string option" where
  "reg_cache_root mem env = (case re_getenv env ''MLXD_CACHE_DIR'' of
     Some (c # cs) \<Rightarrow> c_strdup mem (c # cs)
   | _ \<Rightarrow> (case re_getenv env ''HOME'' of
       None \<Rightarrow> None
     | Some home \<Rightarrow> if mem (length home + 13) then Some (home @ ''/.cache/mlxd'') else None))"

definition reg_model_cache_dir :: "allocator \<Rightarrow> reg_env \<Rightarrow> string \<Rightarrow> string \<Rightarrow> string option" where
  "reg_model_cache_dir mem env org model = (case reg_cache_root mem env of
     None \<Rightarrow> None
   | Some rt \<Rightarrow>
       if mem (length rt + 8 + length org + 2 + length model + 1)
       then Some (rt @ ''/models/'' @ org @ ''--'' @ model) else None)"

definition reg_endpoint :: "allocator \<Rightarrow> reg_env \<Rightarrow> string option" where
  "reg_endpoint mem env = (case re_getenv env ''HF_ENDPOINT'' of
     Some (c # cs) \<Rightarrow> c_strdup mem (c # cs)
   | _ \<Rightarrow> c_strdup mem ''https://huggingface.co'')"

subsection \<open>The files of a model\<close>

definition EXACT_FILES :: "string list" where
  "EXACT_FILES = [''config.json'', ''tokenizer.json'', ''tokenizer_config.json'', ''generation_config.json'',
     ''special_tokens_map.json'', ''chat_template.jinja'', ''chat_template.json'', ''tokenizer.model'', ''vocab.json'', ''merges.txt'']"

definition has_suffix :: "string \<Rightarrow> string \<Rightarrow> bool" where
  "has_suffix s suffix \<longleftrightarrow> length suffix \<le> length s \<and> drop (length s - length suffix) s = suffix"

definition reg_file_wanted :: "string \<Rightarrow> bool" where
  "reg_file_wanted rfilename \<longleftrightarrow> rfilename \<in> set EXACT_FILES \<or> has_suffix rfilename ''.safetensors'' \<or>
     has_suffix rfilename ''.safetensors.index.json''"

fun has_dotdot :: "string \<Rightarrow> bool" where
  "has_dotdot (a # b # s) = (a = CHR ''.'' \<and> b = CHR ''.'' \<or> has_dotdot (b # s))"
| "has_dotdot _ = False"

definition reg_rfilename_safe :: "string \<Rightarrow> bool" where
  "reg_rfilename_safe rfilename \<longleftrightarrow>
     rfilename \<noteq> [] \<and> hd rfilename \<noteq> CHR ''/'' \<and> \<not> has_dotdot rfilename \<and> CHR 0x5C \<notin> set rfilename"

text \<open>The planned names, or \<open>None\<close> on an error; the sizes are not used by a pull.\<close>

fun plan_items :: "allocator \<Rightarrow> json list \<Rightarrow> (string \<times> int) list option" where
  "plan_items mem [] = Some []"
| "plan_items mem (item # items) =
     (let sv = yyjson_obj_get (Some item) ''size'' in
      case yyjson_get_str (yyjson_obj_get (Some item) ''rfilename'') of
        None \<Rightarrow> plan_items mem items
      | Some name \<Rightarrow>
          if \<not> reg_rfilename_safe name \<or> \<not> reg_file_wanted name then plan_items mem items
          else case c_strdup mem name of
            None \<Rightarrow> None
          | Some f \<Rightarrow> map_option ((#) (f, if yyjson_is_int sv then yyjson_get_sint sv else - 1)) (plan_items mem items))"

definition reg_parse_file_plan :: "allocator \<Rightarrow> reg_env \<Rightarrow> string \<Rightarrow> (string \<times> int) list option" where
  "reg_parse_file_plan mem env json = (case re_read env json of
     None \<Rightarrow> None
   | Some rt \<Rightarrow>
       (case yyjson_obj_get (Some rt) ''siblings'' of
          Some (JArr items) \<Rightarrow>
            (if items = [] then Some [] else if \<not> mem (length items * 8) then None else plan_items mem items)
        | _ \<Rightarrow> None))"

subsection \<open>Directories and metadata\<close>

definition mkdir :: "reg_env \<Rightarrow> file_system \<Rightarrow> string \<Rightarrow> file_system option" where
  "mkdir env fs p =
     (if fs p \<noteq> None then Some fs
      else if re_writable env p then Some (fs(p \<mapsto> Directory (re_now env))) else None)"

text \<open>Every ancestor, then the directory; \<open>None\<close> when one of them cannot be made.\<close>

fun mkdir_list :: "reg_env \<Rightarrow> string list \<Rightarrow> file_system \<Rightarrow> file_system \<times> bool" where
  "mkdir_list env [] fs = (fs, True)"
| "mkdir_list env (p # ps) fs = (case mkdir env fs p of None \<Rightarrow> (fs, False) | Some fs \<Rightarrow> mkdir_list env ps fs)"

definition mkdirs :: "reg_env \<Rightarrow> file_system \<Rightarrow> string \<Rightarrow> file_system \<times> bool" where
  "mkdirs env fs path =
     (if 4096 \<le> length path then (fs, False)
      else mkdir_list env (map (\<lambda>i. take i path) (filter (\<lambda>i. path ! i = CHR ''/'') [1..<length path]) @ [path]) fs)"

definition meta_name :: string where
  "meta_name = ''.mlxd-meta.json''"

text \<open>The result is not looked at by the caller.\<close>

definition write_meta_json :: "allocator \<Rightarrow> reg_env \<Rightarrow> file_system \<Rightarrow> string \<Rightarrow> string \<Rightarrow> string option \<Rightarrow> file_system" where
  "write_meta_json mem env fs dir revision commit =
     (case re_write env (JObj ((''revision'', JStr revision) # (case commit of None \<Rightarrow> [] | Some c \<Rightarrow> [(''commit'', JStr c)]))) of
        None \<Rightarrow> fs
      | Some json \<Rightarrow>
          (case reg_path_join mem dir meta_name of
             None \<Rightarrow> fs
           | Some p \<Rightarrow> if re_writable env p then fs(p \<mapsto> Regular (c_str json) (re_now env)) else fs))"

definition meta_read_field :: "allocator \<Rightarrow> reg_env \<Rightarrow> file_system \<Rightarrow> string \<Rightarrow> string \<Rightarrow> string option" where
  "meta_read_field mem env fs dir field = (case reg_path_join mem dir meta_name of
     None \<Rightarrow> None
   | Some p \<Rightarrow>
       if \<not> is_regular fs p \<or> contents fs p = [] \<or> \<not> mem (length (contents fs p) + 1) then None
       else case re_read env (contents fs p) of
         None \<Rightarrow> None
       | Some rt \<Rightarrow> Option.bind (yyjson_get_str (yyjson_obj_get (Some rt) field)) (c_strdup mem))"

definition reg_meta_read_revision :: "allocator \<Rightarrow> reg_env \<Rightarrow> file_system \<Rightarrow> string \<Rightarrow> string option" where
  "reg_meta_read_revision mem env fs dir = meta_read_field mem env fs dir ''revision''"

subsection \<open>Downloads\<close>

text \<open>The file system and the number of requests made.\<close>

type_synonym reg_state = "file_system \<times> nat"

text \<open>The header is formatted into 512 bytes.\<close>

definition auth_header :: "string option \<Rightarrow> string option" where
  "auth_header token = map_option (\<lambda>t. take 511 (''Authorization: Bearer '' @ t)) token"

text \<open>The body written to the part file: a 200 to a range request starts it over at its first chunk.\<close>

definition write_body :: "nat \<Rightarrow> string \<Rightarrow> reply \<Rightarrow> string" where
  "write_body resume part rp =
     (if 0 < resume \<and> rp_code rp = 200 \<and> rp_chunks rp \<noteq> [] then concat (rp_chunks rp) else part @ concat (rp_chunks rp))"

definition rename :: "reg_env \<Rightarrow> file_system \<Rightarrow> string \<Rightarrow> string \<Rightarrow> file_system \<times> bool" where
  "rename env fs old new =
     (if re_writable env new \<and> (\<forall>t. fs new \<noteq> Some (Directory t)) then (fs(new := fs old, old := None), True) else (fs, False))"

text \<open>One attempt; \<open>None\<close> asks for the retry.\<close>

definition download_attempt :: "reg_env \<Rightarrow> string \<Rightarrow> string \<Rightarrow> string option \<Rightarrow> bool \<Rightarrow> reg_state \<Rightarrow> reg_state \<times> bool option" where
  "download_attempt env url dest token retried = (\<lambda>(fs, n).
     let part_path = dest @ ''.part''; part = contents fs part_path; resume = length part in
     if \<not> re_writable env part_path \<or> (\<exists>t. fs part_path = Some (Directory t)) then ((fs, n), Some False)
     else let rp = re_server env n url (auth_header (if token = Some [] then None else token)) resume;
              body = write_body resume part rp; fs = fs(part_path \<mapsto> Regular body (re_now env)); n = Suc n in
       if rp_aborted rp \<or> \<not> rp_ok rp then ((fs, n), Some False)
       else if rp_code rp = 416
       then (if 0 < rp_range_total rp \<and> int (length body) = rp_range_total rp
             then ((fst (rename env fs part_path dest), n), Some True)
             else ((fs(part_path := None), n), if retried then Some False else None))
       else if rp_code rp < 200 \<or> 300 \<le> rp_code rp then ((fs(part_path := None), n), Some False)
       else let (fs, ok) = rename env fs part_path dest in ((fs, n), Some ok))"

definition reg_download_file :: "reg_env \<Rightarrow> string \<Rightarrow> string \<Rightarrow> string option \<Rightarrow> reg_state \<Rightarrow> reg_state \<times> bool" where
  "reg_download_file env url dest token st =
     (if 4096 \<le> length dest + 5 then (st, False)
      else case download_attempt env url dest token False st of
        (st, Some ok) \<Rightarrow> (st, ok)
      | (st, None) \<Rightarrow> (case download_attempt env url dest token True st of (st, r) \<Rightarrow> (st, r = Some True)))"

subsection \<open>Pulling\<close>

text \<open>The buffer of the answer of the API; a refused \<open>realloc\<close> fails the transfer.\<close>

record membuf =
  mb_buf :: string
  mb_cap :: nat

definition membuf_write :: "allocator \<Rightarrow> string \<Rightarrow> membuf \<Rightarrow> membuf option" where
  "membuf_write mem data m =
     (if mb_cap m < length (mb_buf m) + length data + 1
      then (let newcap = (mb_cap m + length data + 1) * 2 in
            if mem newcap then Some \<lparr>mb_buf = mb_buf m @ data, mb_cap = newcap\<rparr> else None)
      else Some (m\<lparr>mb_buf := mb_buf m @ data\<rparr>))"

fun membuf_chunks :: "allocator \<Rightarrow> string list \<Rightarrow> membuf \<Rightarrow> membuf option" where
  "membuf_chunks mem [] m = Some m"
| "membuf_chunks mem (d # ds) m = (case membuf_write mem d m of None \<Rightarrow> None | Some m \<Rightarrow> membuf_chunks mem ds m)"

record pull_opts =
  po_revision :: "string option"
  po_token :: "string option"

definition pull_revision :: "pull_opts option \<Rightarrow> reg_spec \<Rightarrow> string" where
  "pull_revision opts s = (case sp_revision s of
     Some r \<Rightarrow> r
   | None \<Rightarrow> (case opts of Some po \<Rightarrow> (case po_revision po of Some r \<Rightarrow> r | None \<Rightarrow> ''main'') | None \<Rightarrow> ''main''))"

definition pull_token :: "reg_env \<Rightarrow> pull_opts option \<Rightarrow> string option" where
  "pull_token env opts = (case Option.bind opts po_token of
     Some t \<Rightarrow> Some t
   | None \<Rightarrow> (case re_getenv env ''HF_TOKEN'' of Some (c # cs) \<Rightarrow> Some (c # cs) | _ \<Rightarrow> None))"

text \<open>The document of the model, or \<open>None\<close>.\<close>

definition fetch_info :: "allocator \<Rightarrow> reg_env \<Rightarrow> string \<Rightarrow> string option \<Rightarrow> reg_state \<Rightarrow> reg_state \<times> string option" where
  "fetch_info mem env url token = (\<lambda>(fs, n).
     if 2048 \<le> length url \<or> \<not> mem 4096 then ((fs, n), None)
     else let rp = re_server env n url (auth_header token) 0 in
       ((fs, Suc n),
        case membuf_chunks mem (rp_chunks rp) \<lparr>mb_buf = [], mb_cap = 4096\<rparr> of
          None \<Rightarrow> None
        | Some m \<Rightarrow> if \<not> rp_ok rp \<or> rp_code rp < 200 \<or> 300 \<le> rp_code rp then None else Some (mb_buf m)))"

text \<open>Whether the cached files belong to another commit or revision.\<close>

definition force_redownload :: "allocator \<Rightarrow> reg_env \<Rightarrow> file_system \<Rightarrow> string \<Rightarrow> string option \<Rightarrow> string \<Rightarrow> bool" where
  "force_redownload mem env fs cache_dir commit_sha revision =
     (case commit_sha of
        Some (c # cs) \<Rightarrow>
          (case meta_read_field mem env fs cache_dir ''commit'' of Some cached \<Rightarrow> cached \<noteq> c # cs | None \<Rightarrow> False)
      | _ \<Rightarrow> (case reg_meta_read_revision mem env fs cache_dir of Some cached \<Rightarrow> cached \<noteq> revision | None \<Rightarrow> False))"

definition parent_dir :: "string \<Rightarrow> string" where
  "parent_dir p = rev (tl (dropWhile (\<lambda>c. c \<noteq> CHR ''/'') (rev p)))"

definition pull_file :: "allocator \<Rightarrow> reg_env \<Rightarrow> string \<Rightarrow> string \<Rightarrow> string option \<Rightarrow> bool \<Rightarrow> string \<Rightarrow> reg_state \<Rightarrow> reg_state \<times> bool" where
  "pull_file mem env cache_dir base_url token force file st =
     (case reg_path_join mem cache_dir file of
        None \<Rightarrow> (st, False)
      | Some dest \<Rightarrow>
          if \<not> force \<and> is_regular (fst st) dest \<and> contents (fst st) dest \<noteq> [] then (st, True)
          else let (fs, ok) = (if CHR ''/'' \<in> set file then mkdirs env (fst st) (parent_dir dest) else (fst st, True)); st = (fs, snd st);
                   file_url = base_url @ ''/'' @ file in
            if \<not> ok \<or> 2048 \<le> length file_url then (st, False) else reg_download_file env file_url dest token st)"

fun pull_files :: "allocator \<Rightarrow> reg_env \<Rightarrow> string \<Rightarrow> string \<Rightarrow> string option \<Rightarrow> bool \<Rightarrow> string list \<Rightarrow> reg_state \<Rightarrow> reg_state \<times> bool" where
  "pull_files mem env cache_dir base_url token force [] st = (st, True)"
| "pull_files mem env cache_dir base_url token force (file # files) st =
     (case pull_file mem env cache_dir base_url token force file st of
        (st, True) \<Rightarrow> pull_files mem env cache_dir base_url token force files st
      | (st, False) \<Rightarrow> (st, False))"

text \<open>The downloads into a cache directory, from the document of the model.\<close>

definition pull_plan :: "allocator \<Rightarrow> reg_env \<Rightarrow> reg_spec \<Rightarrow> string \<Rightarrow> string \<Rightarrow> string option \<Rightarrow> string \<Rightarrow> reg_state \<Rightarrow>
    reg_state \<times> string option" where
  "pull_plan mem env s endpoint revision token info st =
     (let org = the (sp_org s); model = the (sp_model s) in
      case reg_parse_file_plan mem env info of
        None \<Rightarrow> (st, None)
      | Some plan \<Rightarrow>
          if plan = [] then (st, None)
          else let commit = (case re_read env info of None \<Rightarrow> None | Some rt \<Rightarrow> yyjson_get_str (yyjson_obj_get (Some rt) ''sha'')) in
            case reg_model_cache_dir mem env org model of
              None \<Rightarrow> (st, None)
            | Some cache_dir \<Rightarrow>
                (case mkdirs env (fst st) cache_dir of
                   (fs, False) \<Rightarrow> ((fs, snd st), None)
                 | (fs, True) \<Rightarrow>
                     (case pull_files mem env cache_dir (endpoint @ ''/'' @ org @ ''/'' @ model @ ''/resolve/'' @ revision) token
                             (force_redownload mem env fs cache_dir commit revision) (map fst plan) (fs, snd st) of
                        (st, False) \<Rightarrow> (st, None)
                      | (st, True) \<Rightarrow> ((write_meta_json mem env (fst st) cache_dir revision commit, snd st), Some cache_dir))))"

definition registry_pull :: "allocator \<Rightarrow> reg_env \<Rightarrow> string \<Rightarrow> pull_opts option \<Rightarrow> reg_state \<Rightarrow> reg_state \<times> string option" where
  "registry_pull mem env spec opts st =
     (case reg_spec_parse mem env spec of
        None \<Rightarrow> (st, None)
      | Some s \<Rightarrow>
          if sp_local_path s \<noteq> None then (st, None)
          else let revision = pull_revision opts s; token = pull_token env opts in
            case reg_endpoint mem env of
              None \<Rightarrow> (st, None)
            | Some endpoint \<Rightarrow>
                (case fetch_info mem env (endpoint @ ''/api/models/'' @ the (sp_org s) @ ''/'' @ the (sp_model s) @ ''/revision/'' @
                         revision @ ''?blobs=true'') token st of
                   (st, None) \<Rightarrow> (st, None)
                 | (st, Some info) \<Rightarrow> pull_plan mem env s endpoint revision token info st))"

subsection \<open>Resolving\<close>

definition reg_hf_hub_dir :: "allocator \<Rightarrow> reg_env \<Rightarrow> string option" where
  "reg_hf_hub_dir mem env = (case re_getenv env ''MLXD_HF_HUB_DIR'' of
     Some (c # cs) \<Rightarrow> c_strdup mem (c # cs)
   | _ \<Rightarrow> (case re_getenv env ''HF_HOME'' of
       Some (c # cs) \<Rightarrow> reg_path_join mem (c # cs) ''hub''
     | _ \<Rightarrow> (case re_getenv env ''HOME'' of None \<Rightarrow> None | Some home \<Rightarrow> reg_path_join mem home ''.cache/huggingface/hub'')))"

text \<open>The latest directory of a listing that has a \<open>config.json\<close>; the first of those with the same time.\<close>

fun latest_snapshot :: "allocator \<Rightarrow> file_system \<Rightarrow> string \<Rightarrow> string list \<Rightarrow> (string \<times> int) option \<Rightarrow> string option" where
  "latest_snapshot mem fs snap_dir [] best = map_option fst best"
| "latest_snapshot mem fs snap_dir (name # names) best =
     (if name \<noteq> [] \<and> hd name = CHR ''.'' then latest_snapshot mem fs snap_dir names best
      else case reg_path_join mem snap_dir name of
        None \<Rightarrow> latest_snapshot mem fs snap_dir names best
      | Some full \<Rightarrow>
          if \<not> reg_dir_has_config_json mem fs full then latest_snapshot mem fs snap_dir names best
          else case fs full of
            None \<Rightarrow> latest_snapshot mem fs snap_dir names best
          | Some nd \<Rightarrow> latest_snapshot mem fs snap_dir names
              (if best = None \<or> snd (the best) < node_mtime nd then Some (full, node_mtime nd) else best))"

definition reg_find_latest_snapshot :: "allocator \<Rightarrow> reg_env \<Rightarrow> file_system \<Rightarrow> string \<Rightarrow> string option" where
  "reg_find_latest_snapshot mem env fs model_dir = (case reg_path_join mem model_dir ''snapshots'' of
     None \<Rightarrow> None
   | Some snap_dir \<Rightarrow> (case re_listing env fs snap_dir of
       None \<Rightarrow> None
     | Some names \<Rightarrow> latest_snapshot mem fs snap_dir names None))"

definition resolve_hub_fallback :: "allocator \<Rightarrow> reg_env \<Rightarrow> file_system \<Rightarrow> string \<Rightarrow> string \<Rightarrow> string option" where
  "resolve_hub_fallback mem env fs org model = (case reg_hf_hub_dir mem env of
     None \<Rightarrow> None
   | Some hub \<Rightarrow>
       if \<not> mem (8 + length org + 2 + length model + 1) then None
       else case reg_path_join mem hub (''models--'' @ org @ ''--'' @ model) of
         None \<Rightarrow> None
       | Some model_dir \<Rightarrow> reg_find_latest_snapshot mem env fs model_dir)"

definition registry_resolve :: "allocator \<Rightarrow> reg_env \<Rightarrow> file_system \<Rightarrow> string \<Rightarrow> string option" where
  "registry_resolve mem env fs specifier = (case reg_spec_parse mem env specifier of
     None \<Rightarrow> None
   | Some s \<Rightarrow>
       (case sp_local_path s of
          Some p \<Rightarrow> if reg_dir_has_config_json mem fs p then c_strdup mem p else None
        | None \<Rightarrow>
            let dir = (case reg_model_cache_dir mem env (the (sp_org s)) (the (sp_model s)) of
                         None \<Rightarrow> None
                       | Some dir \<Rightarrow>
                           if \<not> reg_dir_has_config_json mem fs dir then None
                           else if sp_revision s \<noteq> None \<and> reg_meta_read_revision mem env fs dir \<noteq> sp_revision s then None
                           else Some dir)
            in case dir of
                 Some d \<Rightarrow> Some d
               | None \<Rightarrow> resolve_hub_fallback mem env fs (the (sp_org s)) (the (sp_model s))))"

end
