(* ===== verification/RegistrySafe.thy ===== *)
theory RegistrySafe
  imports Registry
begin

text \<open>
  What the registry promises: a specification is parsed back from its text, and whatever the server and
  the repository contain, a pull changes nothing outside the cache directory of its model.
\<close>

subsection \<open>Specifications\<close>

lemma charset_chars:
  assumes "reg_spec_charset_ok s"
  shows "CHR ''/'' \<notin> set s" "CHR '':'' \<notin> set s" "CHR ''~'' \<notin> set s"
  using assms by (auto simp: reg_spec_charset_ok_def list_all_iff reg_spec_char_ok_def)

lemma before_after:
  "c \<notin> set a \<Longrightarrow> before c (a @ c # b) = a" "c \<notin> set a \<Longrightarrow> after c (a @ c # b) = b" "c \<notin> set a \<Longrightarrow> before c a = a"
  by (induction a) (auto simp: before_def after_def)

lemma split_at: "c \<in> set s \<Longrightarrow> s = before c s @ c # after c s"
  by (induction s) (auto simp: before_def after_def)

lemma before_notin: "c \<notin> set (before c s)"
  by (auto simp: before_def dest: set_takeWhileD)

text \<open>The text of a specification.\<close>

definition spec_text :: "string \<Rightarrow> string \<Rightarrow> string option \<Rightarrow> string" where
  "spec_text org model revision = org @ ''/'' @ model @ (case revision of None \<Rightarrow> [] | Some r \<Rightarrow> CHR '':'' # r)"

definition name_ok :: "string \<Rightarrow> bool" where
  "name_ok s \<longleftrightarrow> s \<noteq> [] \<and> reg_spec_charset_ok s"

text \<open>C37. A specification is accepted as a remote model exactly when it is the text of an organisation, a
  model and an optional revision, all of them nonempty and over the allowed characters, the organisation not
  starting with a period; the parts are the ones of the text.\<close>

theorem reg_spec_parse_text:
  "reg_spec_parse (\<lambda>_. True) env spec = Some \<lparr>sp_org = Some org, sp_model = Some model, sp_revision = revision, sp_local_path = None\<rparr> \<longleftrightarrow>
   spec = spec_text org model revision \<and> name_ok org \<and> name_ok model \<and> pred_option name_ok revision \<and> hd org \<noteq> CHR ''.''"
  (is "?L = ?R")
proof
  assume ?R
  then have ok: "reg_spec_charset_ok org" "reg_spec_charset_ok model" "org \<noteq> []" "model \<noteq> []" "hd org \<noteq> CHR ''.''"
    "\<And>r. revision = Some r \<Longrightarrow> r \<noteq> [] \<and> reg_spec_charset_ok r" and spec: "spec = spec_text org model revision"
    by (auto simp: name_ok_def)
  have hd: "hd spec = hd org" "spec \<noteq> []" "hd org \<in> set org"
    using ok(3) by (simp_all add: spec spec_text_def)
  have hd_other: "hd org \<noteq> CHR ''/''" "hd org \<noteq> CHR ''~''"
    using hd(3) charset_chars [OF ok(1)] by metis+
  define rest where "rest = model @ (case revision of None \<Rightarrow> [] | Some r \<Rightarrow> CHR '':'' # r)"
  have rest: "before CHR ''/'' spec = org" "after CHR ''/'' spec = rest" "CHR ''/'' \<in> set spec"
    using before_after(1,2) [OF charset_chars(1) [OF ok(1)], of rest] by (simp_all add: spec spec_text_def rest_def)
  have noslash: "CHR ''/'' \<notin> set rest"
    using charset_chars(1) ok(2,6) by (auto simp: rest_def split: option.splits)
  have model: "before CHR '':'' rest = model" "(if CHR '':'' \<in> set rest then Some (after CHR '':'' rest) else None) = revision"
    using before_after [OF charset_chars(2) [OF ok(2)]] charset_chars(2) [OF ok(2)]
    by (auto simp: rest_def split: option.splits)
  show ?L
    using hd(2) ok noslash hd_other by (auto simp: reg_spec_parse_def hd(1) rest model Let_def)
next
  assume L: ?L
  define rest where "rest = after CHR ''/'' spec"
  have spec: "spec \<noteq> []" "hd spec \<noteq> CHR ''.''" "CHR ''/'' \<in> set spec" "CHR ''/'' \<notin> set rest"
    and parts: "org = before CHR ''/'' spec" "model = before CHR '':'' rest"
      "revision = (if CHR '':'' \<in> set rest then Some (after CHR '':'' rest) else None)"
    and ok: "name_ok org" "name_ok model" "pred_option name_ok revision"
    using L by (auto simp: reg_spec_parse_def local_spec_def name_ok_def Let_def rest_def split: if_splits option.splits)
  have "spec = org @ CHR ''/'' # rest"
    using split_at [OF spec(3)] by (simp add: parts rest_def)
  moreover have "rest = model @ (case revision of None \<Rightarrow> [] | Some r \<Rightarrow> CHR '':'' # r)"
    using split_at [of "CHR '':''" rest] before_after(3) [of "CHR '':''" rest] by (auto simp: parts)
  moreover have "hd org \<noteq> CHR ''.''"
    using spec ok(1) by (cases org) (auto simp: calculation name_ok_def)
  ultimately show ?R
    using ok by (simp add: spec_text_def)
qed

subsection \<open>Paths that a pull may change\<close>

lemma has_dotdot_append:
  "has_dotdot (xs @ ys) \<longleftrightarrow> has_dotdot xs \<or> has_dotdot ys \<or> xs \<noteq> [] \<and> ys \<noteq> [] \<and> last xs = CHR ''.'' \<and> hd ys = CHR ''.''"
proof (induction xs)
  case (Cons a xs)
  then show ?case
    by (cases xs; cases ys) auto
qed simp

lemma has_dotdot_take: "\<not> has_dotdot s \<Longrightarrow> \<not> has_dotdot (take n s)"
  using has_dotdot_append [of "take n s" "drop n s"] by simp

definition slash_prefix :: "string \<Rightarrow> string \<Rightarrow> bool" where
  "slash_prefix p path \<longleftrightarrow> p = path \<or> (\<exists>i<length path. path ! i = CHR ''/'' \<and> p = take i path)"

text \<open>The directory, its ancestors, and the paths below it that never climb.\<close>

definition pull_path :: "string \<Rightarrow> string \<Rightarrow> bool" where
  "pull_path dir p \<longleftrightarrow> slash_prefix p dir \<or> (\<exists>rel. p = dir @ ''/'' @ rel \<and> \<not> has_dotdot rel)"

definition confined :: "string \<Rightarrow> file_system \<Rightarrow> file_system \<Rightarrow> bool" where
  "confined dir fs fs' \<longleftrightarrow> (\<forall>p. fs' p = fs p \<or> pull_path dir p)"

lemma confined_refl [simp]: "confined dir fs fs"
  by (simp add: confined_def)

lemma confined_trans: "confined dir fs fs1 \<Longrightarrow> confined dir fs1 fs2 \<Longrightarrow> confined dir fs fs2"
  unfolding confined_def by metis

lemma confined_upd: "pull_path dir p \<Longrightarrow> confined dir fs (fs(p := x))"
  by (simp add: confined_def)

lemma pull_path_below: "\<not> has_dotdot rel \<Longrightarrow> pull_path dir (dir @ ''/'' @ rel)"
  by (auto simp: pull_path_def)

lemma pull_path_prefix:
  assumes "slash_prefix p (dir @ ''/'' @ rel)" "\<not> has_dotdot rel"
  shows "pull_path dir p"
proof (cases "p = dir @ ''/'' @ rel")
  case True
  then show ?thesis
    using assms(2) by (simp add: pull_path_below [simplified])
next
  case False
  then obtain i where i: "i < length (dir @ ''/'' @ rel)" "(dir @ ''/'' @ rel) ! i = CHR ''/''" "p = take i (dir @ ''/'' @ rel)"
    using assms(1) by (auto simp: slash_prefix_def)
  consider "i < length dir" | "i = length dir" | n where "i = length dir + Suc n"
    by (metis add_Suc_right less_iff_Suc_add linorder_neqE_nat)
  then show ?thesis
  proof cases
    case 1
    then show ?thesis
      using i by (auto simp: pull_path_def slash_prefix_def nth_append)
  next
    case 2
    then show ?thesis
      using i by (simp add: pull_path_def slash_prefix_def)
  next
    case 3
    then have "p = dir @ ''/'' @ take n rel"
      using i(3) by simp
    then show ?thesis
      using pull_path_below has_dotdot_take [OF assms(2)] by blast
  qed
qed

lemma mkdir_list_changes: "mkdir_list env ps fs = (fs', ok) \<Longrightarrow> fs' p \<noteq> fs p \<Longrightarrow> p \<in> set ps"
proof (induction ps arbitrary: fs)
  case (Cons q ps)
  then show ?case
    by (cases "p = q") (auto simp: mkdir_def split: if_splits option.splits)
qed simp

lemma mkdirs_changes:
  assumes "mkdirs env fs path = (fs', ok)" "fs' p \<noteq> fs p"
  shows "slash_prefix p path"
proof -
  have "mkdir_list env (map (\<lambda>i. take i path) (filter (\<lambda>i. path ! i = CHR ''/'') [1..<length path]) @ [path]) fs = (fs', ok)"
    using assms by (auto simp: mkdirs_def split: if_splits)
  from mkdir_list_changes [OF this assms(2)]
  have "p \<in> set (map (\<lambda>i. take i path) (filter (\<lambda>i. path ! i = CHR ''/'') [1..<length path]) @ [path])" .
  then show ?thesis
    by (auto simp: slash_prefix_def)
qed

subsection \<open>Planned files\<close>

lemma plan_items_safe: "plan_items mem items = Some plan \<Longrightarrow> (f, n) \<in> set plan \<Longrightarrow> reg_rfilename_safe f \<and> reg_file_wanted f"
proof (induction items arbitrary: plan)
  case (Cons item items)
  have c: "yyjson_get_str v = Some name \<Longrightarrow> c_str name = name" for v name
    by (cases v rule: yyjson_get_str.cases) (auto simp: c_str_id c_str_no_nul)
  show ?case
    using Cons c by (auto simp: Let_def c_strdup_def split: option.splits if_splits)
qed simp

lemma wanted_last:
  assumes "reg_file_wanted f"
  shows "last f \<noteq> CHR ''.''" "f \<noteq> []"
proof -
  have "f \<noteq> [] \<and> last f \<noteq> CHR ''.''"
  proof (cases "f \<in> set EXACT_FILES")
    case True
    then show ?thesis
      by (auto simp: EXACT_FILES_def)
  next
    case False
    then obtain s where s: "has_suffix f s" "s = ''.safetensors'' \<or> s = ''.safetensors.index.json''"
      using assms by (auto simp: reg_file_wanted_def)
    obtain t where t: "f = t @ s"
      using s(1) by (metis append_take_drop_id has_suffix_def)
    show ?thesis
      using s(2) by (elim disjE) (simp_all add: t)
  qed
  then show "last f \<noteq> CHR ''.''" "f \<noteq> []"
    by blast+
qed

lemma planned_path:
  assumes "reg_rfilename_safe f" "reg_file_wanted f"
  shows "pull_path dir (dir @ ''/'' @ f)" "pull_path dir ((dir @ ''/'' @ f) @ ''.part'')"
proof -
  have "\<not> has_dotdot f"
    using assms(1) by (simp add: reg_rfilename_safe_def)
  moreover have "\<not> has_dotdot (f @ ''.part'')"
    using calculation wanted_last [OF assms(2)] by (simp add: has_dotdot_append)
  ultimately show "pull_path dir (dir @ ''/'' @ f)" "pull_path dir ((dir @ ''/'' @ f) @ ''.part'')"
    using pull_path_below [of f dir] pull_path_below [of "f @ ''.part''" dir] by simp_all
qed

subsection \<open>A pull is confined\<close>

lemma rename_confined: "rename env fs old new = (fs', ok) \<Longrightarrow> pull_path dir old \<Longrightarrow> pull_path dir new \<Longrightarrow> confined dir fs fs'"
  by (auto simp: rename_def confined_def split: if_splits)

lemma download_attempt_confined:
  assumes "pull_path dir dest" "pull_path dir (dest @ ''.part'')" "download_attempt env url dest token retried (fs, n) = ((fs', n'), r)"
  shows "confined dir fs fs'"
proof -
  have r: "confined dir fs (fst (rename env (fs(dest @ ''.part'' \<mapsto> x)) (dest @ ''.part'') dest))" for x
    using confined_trans [OF confined_upd [OF assms(2)] rename_confined [OF prod.collapse [symmetric] assms(2,1)]] .
  have u: "confined dir fs (fs(dest @ ''.part'' \<mapsto> x))" "confined dir fs (fs(dest @ ''.part'' := None))" for x
    using assms(2) by (rule confined_upd)+
  show ?thesis
    using assms(3) u r by (auto simp: download_attempt_def Let_def split: if_splits prod.splits) (metis fst_conv)+
qed

lemma download_confined:
  assumes "pull_path dir dest" "pull_path dir (dest @ ''.part'')" "reg_download_file env url dest token (fs, n) = ((fs', n'), ok)"
  shows "confined dir fs fs'"
  using assms(3)
  by (auto simp: reg_download_file_def split: if_splits prod.splits option.splits)
    (metis download_attempt_confined [OF assms(1,2)] confined_trans)+

lemma parent_below:
  assumes "CHR ''/'' \<in> set f" "\<not> has_dotdot f"
  shows "\<exists>g. parent_dir (dir @ ''/'' @ f) = dir @ ''/'' @ g \<and> \<not> has_dotdot g"
proof -
  have f: "rev f = takeWhile (\<lambda>c. c \<noteq> CHR ''/'') (rev f) @ CHR ''/'' # after (CHR ''/'') (rev f)"
    using split_at [of "CHR ''/''" "rev f"] assms(1) by (simp add: before_def)
  define g where "g = rev (after (CHR ''/'') (rev f))"
  have "f = g @ CHR ''/'' # rev (takeWhile (\<lambda>c. c \<noteq> CHR ''/'') (rev f))"
    using arg_cong [OF f, of rev] by (simp add: g_def)
  then have "\<not> has_dotdot g"
    using assms(2) by (metis has_dotdot_append)
  moreover have "parent_dir (dir @ ''/'' @ f) = dir @ ''/'' @ g"
    using assms(1) by (simp add: parent_dir_def dropWhile_append g_def after_def)
  ultimately show ?thesis
    by blast
qed

lemma pull_file_confined:
  assumes "reg_rfilename_safe f" "reg_file_wanted f" "pull_file mem env dir url token force f (fs, n) = ((fs', n'), ok)"
  shows "confined dir fs fs'"
proof -
  have nd: "\<not> has_dotdot f"
    using assms(1) by (simp add: reg_rfilename_safe_def)
  have m: "confined dir fs fs1" if "mkdirs env fs (parent_dir (dir @ ''/'' @ f)) = (fs1, b)" "CHR ''/'' \<in> set f" for fs1 b
    using parent_below [OF that(2) nd, of dir] mkdirs_changes [OF that(1)] pull_path_prefix by (metis confined_def)
  have d: "confined dir fs1 fs2" if "reg_download_file env u (dir @ ''/'' @ f) token (fs1, k) = ((fs2, k'), b)" for u fs1 k fs2 k' b
    using download_confined [OF planned_path [OF assms(1,2)] that] .
  show ?thesis
    using assms(3) by (auto simp: pull_file_def reg_path_join_def Let_def simp del: append_Cons append_Nil
        split: if_splits option.splits prod.splits dest!: m [simplified] d [simplified] intro: confined_trans)
qed

lemma pull_files_confined:
  assumes "\<And>f. f \<in> set files \<Longrightarrow> reg_rfilename_safe f \<and> reg_file_wanted f"
    "pull_files mem env dir url token force files (fs, n) = ((fs', n'), ok)"
  shows "confined dir fs fs'"
  using assms
proof (induction files arbitrary: fs n)
  case (Cons f files)
  obtain fs1 n1 b where f: "pull_file mem env dir url token force f (fs, n) = ((fs1, n1), b)"
    by (metis prod.collapse)
  have "confined dir fs fs1"
    using pull_file_confined [OF _ _ f] Cons.prems(1) by simp
  then show ?case
    using Cons.IH [of fs1 n1] Cons.prems f by (cases b) (auto intro: confined_trans)
qed simp

lemma pull_plan_confined:
  assumes "pull_plan mem env s endpoint revision token info (fs, n) = ((fs', n'), r)"
  shows "fs' = fs \<or> (\<exists>dir. reg_model_cache_dir mem env (the (sp_org s)) (the (sp_model s)) = Some dir \<and> confined dir fs fs')"
proof (cases "reg_parse_file_plan mem env info")
  case None
  then show ?thesis
    using assms by (simp add: pull_plan_def)
next
  case plan: (Some plan)
  show ?thesis
  proof (cases "plan = [] \<or> reg_model_cache_dir mem env (the (sp_org s)) (the (sp_model s)) = None")
    case True
    then show ?thesis
      using assms plan by (auto simp: pull_plan_def Let_def split: if_splits)
  next
    case False
    then obtain dir where dir: "plan \<noteq> []" "reg_model_cache_dir mem env (the (sp_org s)) (the (sp_model s)) = Some dir"
      by blast
    obtain fs1 b where m: "mkdirs env fs dir = (fs1, b)"
      by (cases "mkdirs env fs dir")
    have m1: "confined dir fs fs1"
      using mkdirs_changes [OF m] by (auto simp: confined_def pull_path_def)
    have safe: "reg_rfilename_safe f \<and> reg_file_wanted f" if "f \<in> set (map fst plan)" for f
      using that plan plan_items_safe by (auto simp: reg_parse_file_plan_def split: option.splits json.splits if_splits)
    have meta: "confined dir g (write_meta_json mem env g dir revision c)" for g c
      using pull_path_below [of meta_name dir]
      by (auto simp: write_meta_json_def reg_path_join_def meta_name_def intro: confined_upd split: option.splits)
    have "confined dir fs fs'"
    proof (cases b)
      case False
      then show ?thesis
        using assms plan dir m m1 by (simp add: pull_plan_def Let_def)
    next
      case True
      obtain fs2 n2 b2 c where p: "pull_files mem env dir (endpoint @ ''/'' @ the (sp_org s) @ ''/'' @ the (sp_model s) @ ''/resolve/'' @ revision) token
          (force_redownload mem env fs1 dir c revision) (map fst plan) (fs1, n) = ((fs2, n2), b2)"
        and r: "fs' = fs2 \<or> fs' = write_meta_json mem env fs2 dir revision c"
        using assms plan dir m True by (auto simp: pull_plan_def Let_def split: prod.splits bool.splits)
      show ?thesis
        using confined_trans [OF m1 pull_files_confined [OF safe p]] r meta by (metis confined_trans)
    qed
    then show ?thesis
      using dir by blast
  qed
qed

text \<open>C36. Whatever a repository lists, whatever the server answers and whichever call fails: a pull leaves every path
  of the file system as it was, except the cache directory of the model named by the specification, its ancestors
  and paths below it without two successive periods.\<close>

theorem registry_pull_confined:
  "\<forall>p. fst (fst (registry_pull mem env spec opts (fs, n))) p = fs p \<or>
     (\<exists>s dir. reg_spec_parse mem env spec = Some s \<and> sp_local_path s = None \<and>
        reg_model_cache_dir mem env (the (sp_org s)) (the (sp_model s)) = Some dir \<and> pull_path dir p)"
proof -
  obtain fs' n' r where p: "registry_pull mem env spec opts (fs, n) = ((fs', n'), r)"
    by (metis prod.collapse)
  have "fs' = fs \<or> (\<exists>s dir. reg_spec_parse mem env spec = Some s \<and> sp_local_path s = None \<and>
      reg_model_cache_dir mem env (the (sp_org s)) (the (sp_model s)) = Some dir \<and> confined dir fs fs')"
    using p pull_plan_confined
    by (fastforce simp: registry_pull_def fetch_info_def Let_def split: option.splits if_splits prod.splits)
  then show ?thesis
    unfolding p confined_def by auto
qed

subsection \<open>What a pull and a resolution do not promise\<close>

text \<open>Different models can share a cache directory: two hyphens are allowed in both names.\<close>

lemma cache_dir_shared: "reg_model_cache_dir mem env ''a--b'' ''c'' = reg_model_cache_dir mem env ''a'' ''b--c''"
  by (simp add: reg_model_cache_dir_def split: option.split)

text \<open>A revision that is not the cached one is resolved to the latest snapshot of the hub, whatever the revision.\<close>

lemma resolve_other_revision:
  assumes "reg_spec_parse mem env spec = Some s" "sp_local_path s = None" "sp_revision s \<noteq> None"
    "reg_model_cache_dir mem env (the (sp_org s)) (the (sp_model s)) = Some dir" "reg_meta_read_revision mem env fs dir \<noteq> sp_revision s"
  shows "registry_resolve mem env fs spec = resolve_hub_fallback mem env fs (the (sp_org s)) (the (sp_model s))"
  using assms by (simp add: registry_resolve_def Let_def)

text \<open>A resumed download keeps the bytes of the part file, from whichever revision they came.\<close>

lemma resume_keeps_part:
  assumes "\<forall>p. re_writable env p" "fs (dest @ ''.part'') = Some (Regular part t)" "part \<noteq> []" "fs dest = None"
    "re_server env n url (auth_header (if token = Some [] then None else token)) (length part) = \<lparr>rp_aborted = False, rp_ok = True, rp_code = 206, rp_range_total = - 1, rp_chunks = [body]\<rparr>"
  shows "\<exists>fs'. download_attempt env url dest token False (fs, n) = ((fs', Suc n), Some True) \<and> contents fs' dest = part @ body"
  using assms by (simp add: download_attempt_def Let_def contents_def write_body_def rename_def)

end
