(* ===== verification/Discover.thy ===== *)
theory Discover
  imports RegistrySafe
begin

text \<open>
  Listing the cached models (\<open>src/registry/discover.c\<close>). The list grows in a buffer whose length is
  part of the state; a store past the buffer is \<open>None\<close> (undefined in C).
\<close>

record model_info =
  mi_id :: string
  mi_path :: string
  mi_size :: nat
  mi_mtime :: int

subsection \<open>Names\<close>

text \<open>The text before and after the first \<open>--\<close>.\<close>

fun split_dashes :: "string \<Rightarrow> (string \<times> string) option" where
  "split_dashes (a # b # s) =
     (if a = CHR ''-'' \<and> b = CHR ''-'' then Some ([], s)
      else map_option (\<lambda>(org, model). (a # org, model)) (split_dashes (b # s)))"
| "split_dashes _ = None"

definition id_from_dirname :: "allocator \<Rightarrow> string \<Rightarrow> string option" where
  "id_from_dirname mem dirname = (case split_dashes dirname of
     None \<Rightarrow> None
   | Some (org, model) \<Rightarrow>
       if org = [] \<or> model = [] \<or> \<not> mem (length org + 1 + length model + 1) then None else Some (org @ ''/'' @ model))"

definition hub_id_from_dirname :: "allocator \<Rightarrow> string \<Rightarrow> string option" where
  "hub_id_from_dirname mem dirname =
     (if take 8 dirname \<noteq> ''models--'' then None else id_from_dirname mem (drop 8 dirname))"

subsection \<open>Sizes\<close>

text \<open>The sizes of the regular files whose names do not start with a period, and the latest modification.\<close>

fun dir_stats :: "allocator \<Rightarrow> file_system \<Rightarrow> string \<Rightarrow> string list \<Rightarrow> nat \<times> int \<Rightarrow> nat \<times> int" where
  "dir_stats mem fs dir [] acc = acc"
| "dir_stats mem fs dir (name # names) acc =
     dir_stats mem fs dir names
       (if name \<noteq> [] \<and> hd name = CHR ''.'' then acc
        else case reg_path_join mem dir name of
          None \<Rightarrow> acc
        | Some full \<Rightarrow> (case fs full of
            Some (Regular s t) \<Rightarrow> ((fst acc + length s) mod 2 ^ 64, max (snd acc) t)
          | _ \<Rightarrow> acc))"

definition scan_dir_stats :: "allocator \<Rightarrow> reg_env \<Rightarrow> file_system \<Rightarrow> string \<Rightarrow> nat \<times> int" where
  "scan_dir_stats mem env fs dir = (case re_listing env fs dir of None \<Rightarrow> (0, 0) | Some names \<Rightarrow> dir_stats mem fs dir names (0, 0))"

definition info_of :: "allocator \<Rightarrow> reg_env \<Rightarrow> file_system \<Rightarrow> string \<Rightarrow> string \<Rightarrow> model_info" where
  "info_of mem env fs i path =
     (let (sz, mt) = scan_dir_stats mem env fs path in \<lparr>mi_id = i, mi_path = path, mi_size = sz, mi_mtime = mt\<rparr>)"

subsection \<open>The growing list\<close>

text \<open>The entries, the capacity the code believes in, and the entries the buffer really has. The size
  of an entry is a parameter.\<close>

record model_list =
  ml_items :: "model_info list"
  ml_cap :: nat
  ml_room :: nat

text \<open>Room for one more: \<open>None\<close> when the buffer cannot grow, with the capacity already doubled.\<close>

definition list_reserve :: "allocator \<Rightarrow> nat \<Rightarrow> model_list \<Rightarrow> model_list \<times> bool" where
  "list_reserve mem esz ml =
     (if length (ml_items ml) < ml_cap ml then (ml, True)
      else let cap = ml_cap ml * 2 in
           if mem (cap * esz) then (ml\<lparr>ml_cap := cap, ml_room := cap\<rparr>, True) else (ml\<lparr>ml_cap := cap\<rparr>, False))"

definition list_store :: "model_list \<Rightarrow> model_info \<Rightarrow> model_list option" where
  "list_store ml i = (if length (ml_items ml) < ml_room ml then Some (ml\<lparr>ml_items := ml_items ml @ [i]\<rparr>) else None)"

definition list_push :: "allocator \<Rightarrow> nat \<Rightarrow> model_list \<Rightarrow> model_info \<Rightarrow> model_list option" where
  "list_push mem esz ml i = (case list_reserve mem esz ml of (ml, True) \<Rightarrow> list_store ml i | (ml, False) \<Rightarrow> Some ml)"

fun scan_models :: "allocator \<Rightarrow> nat \<Rightarrow> reg_env \<Rightarrow> file_system \<Rightarrow> string \<Rightarrow> string list \<Rightarrow> model_list \<Rightarrow> model_list option" where
  "scan_models mem esz env fs dir [] ml = Some ml"
| "scan_models mem esz env fs dir (name # names) ml =
     (case (if name \<noteq> [] \<and> hd name = CHR ''.'' then None else reg_path_join mem dir name) of
        None \<Rightarrow> scan_models mem esz env fs dir names ml
      | Some full \<Rightarrow>
          (case (if reg_dir_has_config_json mem fs full then id_from_dirname mem name else None) of
             None \<Rightarrow> scan_models mem esz env fs dir names ml
           | Some i \<Rightarrow> Option.bind (list_push mem esz ml (info_of mem env fs i full)) (scan_models mem esz env fs dir names)))"

text \<open>The outer option is an undefined store, the inner one the \<open>NULL\<close> list.\<close>

definition scan_mlxd_cache :: "allocator \<Rightarrow> nat \<Rightarrow> reg_env \<Rightarrow> file_system \<Rightarrow> model_list option option" where
  "scan_mlxd_cache mem esz env fs =
     (case Option.bind (reg_cache_root mem env) (\<lambda>rt. reg_path_join mem rt ''models'') of
        None \<Rightarrow> Some None
      | Some dir \<Rightarrow>
          (case re_listing env fs dir of
             None \<Rightarrow> Some None
           | Some names \<Rightarrow>
               if \<not> mem (8 * esz) then Some None
               else map_option (\<lambda>ml. if ml_items ml = [] then None else Some ml)
                      (scan_models mem esz env fs dir names \<lparr>ml_items = [], ml_cap = 8, ml_room = 8\<rparr>)))"

definition id_in_list :: "model_info list \<Rightarrow> string \<Rightarrow> bool" where
  "id_in_list arr i \<longleftrightarrow> (\<exists>m\<in>set arr. mi_id m = i)"

fun scan_hub :: "allocator \<Rightarrow> nat \<Rightarrow> reg_env \<Rightarrow> file_system \<Rightarrow> string \<Rightarrow> string list \<Rightarrow> model_list option \<Rightarrow> model_list option option" where
  "scan_hub mem esz env fs hub [] ml = Some ml"
| "scan_hub mem esz env fs hub (name # names) ml =
     (case (if name \<noteq> [] \<and> hd name = CHR ''.'' then None else hub_id_from_dirname mem name) of
        None \<Rightarrow> scan_hub mem esz env fs hub names ml
      | Some i \<Rightarrow>
          if (case ml of None \<Rightarrow> False | Some l \<Rightarrow> id_in_list (ml_items l) i) then scan_hub mem esz env fs hub names ml
          else case Option.bind (reg_path_join mem hub name) (reg_find_latest_snapshot mem env fs) of
            None \<Rightarrow> scan_hub mem esz env fs hub names ml
          | Some snap \<Rightarrow>
              (case (case ml of Some l \<Rightarrow> Some l
                     | None \<Rightarrow> if mem (8 * esz) then Some \<lparr>ml_items = [], ml_cap = 8, ml_room = 8\<rparr> else None) of
                 None \<Rightarrow> scan_hub mem esz env fs hub names None
               | Some l \<Rightarrow> Option.bind (list_push mem esz l (info_of mem env fs i snap))
                   (\<lambda>l. scan_hub mem esz env fs hub names (Some l))))"

definition scan_hub_cache :: "allocator \<Rightarrow> nat \<Rightarrow> reg_env \<Rightarrow> file_system \<Rightarrow> model_list option \<Rightarrow> model_list option option" where
  "scan_hub_cache mem esz env fs ml =
     (case reg_hf_hub_dir mem env of
        None \<Rightarrow> Some ml
      | Some hub \<Rightarrow> (case re_listing env fs hub of None \<Rightarrow> Some ml | Some names \<Rightarrow> scan_hub mem esz env fs hub names ml))"

text \<open>The second scan starts from a capacity computed from the number of entries.\<close>

definition registry_discover :: "allocator \<Rightarrow> nat \<Rightarrow> reg_env \<Rightarrow> file_system \<Rightarrow> model_info list option" where
  "registry_discover mem esz env fs =
     (case scan_mlxd_cache mem esz env fs of
        None \<Rightarrow> None
      | Some ml \<Rightarrow>
          map_option (\<lambda>ml. case ml of None \<Rightarrow> [] | Some l \<Rightarrow> ml_items l)
            (scan_hub_cache mem esz env fs (map_option (\<lambda>l. l\<lparr>ml_cap := max 8 (length (ml_items l))\<rparr>) ml)))"

subsection \<open>Identifiers\<close>

lemma split_dashes_text: "split_dashes s = Some (org, model) \<Longrightarrow> s = org @ ''--'' @ model"
  by (induction s arbitrary: org model rule: split_dashes.induct) (auto split: if_splits)

lemma id_from_dirnameD:
  assumes "id_from_dirname mem d = Some i" "CHR ''/'' \<notin> set d"
  shows "d = before CHR ''/'' i @ ''--'' @ after CHR ''/'' i"
proof -
  obtain org model where s: "split_dashes d = Some (org, model)" "i = org @ CHR ''/'' # model"
    using assms(1) by (auto simp: id_from_dirname_def split: option.splits prod.splits if_splits)
  have d: "d = org @ ''--'' @ model"
    using split_dashes_text [OF s(1)] .
  then have "CHR ''/'' \<notin> set org"
    using assms(2) by auto
  then show ?thesis
    using before_after(1,2) [of "CHR ''/''" org model] d s(2) by simp
qed

lemma id_from_dirname_inj:
  "id_from_dirname mem d = Some i \<Longrightarrow> id_from_dirname mem d' = Some i \<Longrightarrow> CHR ''/'' \<notin> set d \<Longrightarrow> CHR ''/'' \<notin> set d' \<Longrightarrow> d = d'"
  using id_from_dirnameD by metis

subsection \<open>What is listed\<close>

definition models_ok :: "allocator \<Rightarrow> file_system \<Rightarrow> model_info list \<Rightarrow> bool" where
  "models_ok mem fs ms \<longleftrightarrow> distinct (map mi_id ms) \<and> (\<forall>m\<in>set ms. reg_dir_has_config_json mem fs (mi_path m))"

lemma info_of_fields [simp]: "mi_id (info_of mem env fs i path) = i" "mi_path (info_of mem env fs i path) = path"
  by (simp_all add: info_of_def split: prod.split)

lemma list_push_items: "list_push mem esz ml i = Some ml' \<Longrightarrow> ml_items ml' = ml_items ml \<or> ml_items ml' = ml_items ml @ [i]"
  by (auto simp: list_push_def list_reserve_def list_store_def Let_def split: if_splits prod.splits)

lemma models_ok_push:
  assumes "list_push mem esz ml (info_of mem env fs i path) = Some ml'" "models_ok mem fs (ml_items ml)"
    "i \<notin> mi_id ` set (ml_items ml)" "reg_dir_has_config_json mem fs path"
  shows "models_ok mem fs (ml_items ml')" "mi_id ` set (ml_items ml') \<subseteq> insert i (mi_id ` set (ml_items ml))"
  using list_push_items [OF assms(1)] assms(2-) by (auto simp: models_ok_def)

lemma scan_models_ok:
  assumes "scan_models mem esz env fs dir names ml = Some ml'" "distinct names" "\<forall>n\<in>set names. CHR ''/'' \<notin> set n"
    "models_ok mem fs (ml_items ml)" "\<forall>n\<in>set names. \<forall>i. id_from_dirname mem n = Some i \<longrightarrow> i \<notin> mi_id ` set (ml_items ml)"
  shows "models_ok mem fs (ml_items ml')"
  using assms
proof (induction names arbitrary: ml)
  case (Cons name names)
  show ?case
  proof (cases "\<exists>i full ml1. id_from_dirname mem name = Some i \<and> reg_dir_has_config_json mem fs full \<and>
      list_push mem esz ml (info_of mem env fs i full) = Some ml1 \<and> scan_models mem esz env fs dir names ml1 = Some ml'")
    case True
    then obtain i full ml1 where i: "id_from_dirname mem name = Some i" "reg_dir_has_config_json mem fs full"
      "list_push mem esz ml (info_of mem env fs i full) = Some ml1" "scan_models mem esz env fs dir names ml1 = Some ml'"
      by blast
    have fresh: "i \<notin> mi_id ` set (ml_items ml)"
      using Cons.prems(5) i(1) by auto
    note P = models_ok_push [OF i(3) Cons.prems(4) fresh i(2)]
    have "k \<notin> mi_id ` set (ml_items ml1)" if n: "n \<in> set names" "id_from_dirname mem n = Some k" for n k
    proof -
      have "k \<noteq> i"
        using id_from_dirname_inj [OF n(2), of name] i(1) n(1) Cons.prems(2,3) by auto
      moreover have "k \<notin> mi_id ` set (ml_items ml)"
        using Cons.prems(5) n by auto
      ultimately show ?thesis
        using P(2) by blast
    qed
    then show ?thesis
      using Cons.IH [OF i(4)] Cons.prems P(1) by auto
  next
    case False
    then have "scan_models mem esz env fs dir names ml = Some ml'"
      using Cons.prems(1) by (auto split: if_splits option.splits bind_splits)
    then show ?thesis
      using Cons.IH Cons.prems by auto
  qed
qed simp

lemma latest_snapshot_ok:
  "latest_snapshot mem fs dir names best = Some p \<Longrightarrow> (\<forall>q t. best = Some (q, t) \<longrightarrow> reg_dir_has_config_json mem fs q) \<Longrightarrow>
    reg_dir_has_config_json mem fs p"
  by (induction names arbitrary: best) (fastforce split: if_splits option.splits)+

definition no_models :: model_list where
  "no_models = \<lparr>ml_items = [], ml_cap = 8, ml_room = 8\<rparr>"

lemma scan_hub_step:
  assumes "scan_hub mem esz env fs hub (name # names) ml = Some ml'"
  obtains "scan_hub mem esz env fs hub names ml = Some ml'"
  | i p l l1 where "ml = Some l \<and> i \<notin> mi_id ` set (ml_items l) \<or> ml = None \<and> l = no_models" "reg_dir_has_config_json mem fs p"
      "list_push mem esz l (info_of mem env fs i p) = Some l1" "scan_hub mem esz env fs hub names (Some l1) = Some ml'"
proof (cases "if name \<noteq> [] \<and> hd name = CHR ''.'' then None else hub_id_from_dirname mem name")
  case None
  then show ?thesis
    using assms that(1) by simp
next
  case i: (Some i)
  show ?thesis
  proof (cases "case ml of None \<Rightarrow> False | Some l \<Rightarrow> id_in_list (ml_items l) i")
    case True
    then show ?thesis
      using assms i that(1) by simp
  next
    case fresh: False
    show ?thesis
    proof (cases "Option.bind (reg_path_join mem hub name) (reg_find_latest_snapshot mem env fs)")
      case None
      then show ?thesis
        using assms i fresh that(1) by simp
    next
      case p: (Some p)
      have cfg: "reg_dir_has_config_json mem fs p"
        using p latest_snapshot_ok [of mem fs _ _ None p] by (auto simp: reg_find_latest_snapshot_def split: bind_splits option.splits)
      show ?thesis
      proof (cases ml)
        case None
        show ?thesis
        proof (cases "mem (8 * esz)")
          case True
          have "Option.bind (list_push mem esz no_models (info_of mem env fs i p)) (\<lambda>l. scan_hub mem esz env fs hub names (Some l)) = Some ml'"
            using assms unfolding scan_hub.simps i option.case None p no_models_def if_P [OF True] by simp
          then obtain l1 where "list_push mem esz no_models (info_of mem env fs i p) = Some l1"
              "scan_hub mem esz env fs hub names (Some l1) = Some ml'"
            unfolding bind_eq_Some_conv by blast
          then show ?thesis
            using that(2) [of no_models i p l1] None cfg by simp
        next
          case False
          then show ?thesis
            using assms that(1) unfolding scan_hub.simps i option.case None p if_not_P [OF False] by simp
        qed
      next
        case (Some l)
        have "Option.bind (list_push mem esz l (info_of mem env fs i p)) (\<lambda>l. scan_hub mem esz env fs hub names (Some l)) = Some ml'"
          using assms unfolding scan_hub.simps i option.case Some p if_not_P [OF fresh [unfolded Some option.case]] .
        then obtain l1 where "list_push mem esz l (info_of mem env fs i p) = Some l1"
            "scan_hub mem esz env fs hub names (Some l1) = Some ml'"
          unfolding bind_eq_Some_conv by blast
        then show ?thesis
          using that(2) [of l i p l1] Some fresh cfg by (auto simp: id_in_list_def)
      qed
    qed
  qed
qed

lemma scan_hub_ok:
  assumes "scan_hub mem esz env fs hub names ml = Some ml'" "\<forall>l. ml = Some l \<longrightarrow> models_ok mem fs (ml_items l)"
  shows "\<forall>l. ml' = Some l \<longrightarrow> models_ok mem fs (ml_items l)"
  using assms
proof (induction names arbitrary: ml)
  case (Cons name names)
  from Cons.prems(1) show ?case
  proof (cases rule: scan_hub_step)
    case 1
    then show ?thesis
      using Cons.IH Cons.prems(2) by blast
  next
    case (2 i p l l1)
    then have "models_ok mem fs (ml_items l1)"
      using Cons.prems(2) models_ok_push(1) [OF 2(3)] by (auto simp: no_models_def models_ok_def)
    then have "\<forall>l. Some l1 = Some l \<longrightarrow> models_ok mem fs (ml_items l)"
      by blast
    then show ?thesis
      by (rule Cons.IH [OF 2(4)])
  qed
qed simp

subsection \<open>Room\<close>

definition room_ok :: "model_list \<Rightarrow> bool" where
  "room_ok ml \<longleftrightarrow> 8 \<le> ml_cap ml \<and> ml_cap ml \<le> ml_room ml \<and> length (ml_items ml) \<le> ml_cap ml"

lemma list_push_room: "room_ok ml \<Longrightarrow> \<exists>ml'. list_push (\<lambda>_. True) esz ml i = Some ml' \<and> room_ok ml'"
  by (auto simp: list_push_def list_reserve_def list_store_def room_ok_def Let_def)

lemma scan_models_room: "room_ok ml \<Longrightarrow> \<exists>ml'. scan_models (\<lambda>_. True) esz env fs dir names ml = Some ml' \<and> room_ok ml'"
proof (induction names arbitrary: ml)
  case (Cons name names)
  have "\<exists>ml'. Option.bind (list_push (\<lambda>_. True) esz ml x) (scan_models (\<lambda>_. True) esz env fs dir names) = Some ml' \<and> room_ok ml'" for x
    using list_push_room [OF Cons.prems, of esz x] Cons.IH by auto
  then show ?case
    using Cons.IH [OF Cons.prems] by (auto split: option.split)
qed simp

lemma scan_hub_room:
  "\<forall>l. ml = Some l \<longrightarrow> room_ok l \<Longrightarrow> scan_hub (\<lambda>_. True) esz env fs hub names ml \<noteq> None"
proof (induction names arbitrary: ml)
  case (Cons name names)
  have "Option.bind (list_push (\<lambda>_. True) esz l x) (\<lambda>l. scan_hub (\<lambda>_. True) esz env fs hub names (Some l)) \<noteq> None" if "room_ok l" for l x
    using list_push_room [OF that, of esz x] Cons.IH by auto
  moreover have "room_ok \<lparr>ml_items = [], ml_cap = 8, ml_room = 8\<rparr>"
    by (simp add: room_ok_def)
  ultimately show ?case
    using Cons.IH Cons.prems by (auto split: option.split)
qed simp

text \<open>C38. With a file system that lists each entry of a directory once, every listed model has a directory with a
  \<open>config.json\<close>, no identifier appears twice, and with memory the list is complete: no store leaves its buffer.\<close>

theorem registry_discover_ok:
  assumes "\<And>p names. re_listing env fs p = Some names \<Longrightarrow> distinct names \<and> (\<forall>n\<in>set names. CHR ''/'' \<notin> set n)"
  shows "registry_discover (\<lambda>_. True) esz env fs \<noteq> None \<and>
    (\<forall>ms. registry_discover mem esz env fs = Some ms \<longrightarrow> models_ok mem fs ms)"
proof -
  have start: "models_ok mem fs []" for mem
    by (simp add: models_ok_def)
  have cache: "\<forall>l. ml = Some l \<longrightarrow> models_ok mem fs (ml_items l)" if c: "scan_mlxd_cache mem esz env fs = Some ml" for mem ml
    using c assms scan_models_ok [of mem esz env fs _ _ "\<lparr>ml_items = [], ml_cap = 8, ml_room = 8\<rparr>"] start
    by (auto simp: scan_mlxd_cache_def split: option.splits if_splits)
  have ok: "models_ok mem fs ms" if d: "registry_discover mem esz env fs = Some ms" for ms
  proof -
    obtain ml where ml1: "scan_mlxd_cache mem esz env fs = Some ml"
      using d unfolding registry_discover_def by (cases "scan_mlxd_cache mem esz env fs") simp_all
    obtain ml' where ml': "scan_hub_cache mem esz env fs (map_option (\<lambda>l. l\<lparr>ml_cap := max 8 (length (ml_items l))\<rparr>) ml) = Some ml'"
      "ms = (case ml' of None \<Rightarrow> [] | Some l \<Rightarrow> ml_items l)"
      using d unfolding registry_discover_def ml1 option.case map_option_eq_Some by blast
    have "\<forall>l. map_option (\<lambda>l. l\<lparr>ml_cap := max 8 (length (ml_items l))\<rparr>) ml = Some l \<longrightarrow> models_ok mem fs (ml_items l)"
      using cache [OF ml1] by auto
    then have "\<forall>l. ml' = Some l \<longrightarrow> models_ok mem fs (ml_items l)"
      using ml'(1) scan_hub_ok unfolding scan_hub_cache_def by (metis (no_types, lifting) option.case_eq_if option.inject)
    then show ?thesis
      using ml'(2) start by (auto split: option.split)
  qed
  have total: "registry_discover (\<lambda>_. True) esz env fs \<noteq> None"
  proof -
    have "\<exists>ml. scan_mlxd_cache (\<lambda>_. True) esz env fs = Some ml \<and> (\<forall>l. ml = Some l \<longrightarrow> room_ok l)"
    proof (cases "Option.bind (reg_cache_root (\<lambda>_. True) env) (\<lambda>rt. reg_path_join (\<lambda>_. True) rt ''models'')")
      case None
      then show ?thesis
        by (simp add: scan_mlxd_cache_def)
    next
      case dir: (Some dir)
      show ?thesis
      proof (cases "re_listing env fs dir")
        case None
        then show ?thesis
          by (simp add: scan_mlxd_cache_def dir)
      next
        case (Some names)
        have "room_ok \<lparr>ml_items = [], ml_cap = 8, ml_room = 8\<rparr>"
          by (simp add: room_ok_def)
        then obtain l where l: "scan_models (\<lambda>_. True) esz env fs dir names \<lparr>ml_items = [], ml_cap = 8, ml_room = 8\<rparr> = Some l" "room_ok l"
          using scan_models_room by blast
        show ?thesis
          by (rule exI [of _ "if ml_items l = [] then None else Some l"]) (simp add: scan_mlxd_cache_def dir Some l)
      qed
    qed
    then obtain ml where ml: "scan_mlxd_cache (\<lambda>_. True) esz env fs = Some ml" "\<forall>l. ml = Some l \<longrightarrow> room_ok l"
      by blast
    then have "\<forall>l. map_option (\<lambda>l. l\<lparr>ml_cap := max 8 (length (ml_items l))\<rparr>) ml = Some l \<longrightarrow> room_ok l"
      by (auto simp: room_ok_def)
    from scan_hub_room [OF this] show ?thesis
      by (auto simp: registry_discover_def ml(1) scan_hub_cache_def split: option.split)
  qed
  show ?thesis
    using ok total by blast
qed

text \<open>After a \<open>realloc\<close> that failed the code believes in a buffer it does not have: the next model is
  stored behind the end.\<close>

lemma discover_overflow:
  assumes "length items = 8"
  shows "list_push (\<lambda>n. n \<noteq> 16 * esz) esz \<lparr>ml_items = items, ml_cap = 8, ml_room = 8\<rparr> i = Some \<lparr>ml_items = items, ml_cap = 16, ml_room = 8\<rparr>"
    "list_push (\<lambda>n. n \<noteq> 16 * esz) esz \<lparr>ml_items = items, ml_cap = 16, ml_room = 8\<rparr> j = None"
  using assms by (simp_all add: list_push_def list_reserve_def list_store_def Let_def)

subsection \<open>A cache with one model\<close>

definition sample_fs :: file_system where
  "sample_fs = (\<lambda>p. if p = ''/c/models/a--b'' then Some (Directory 5)
     else if p = ''/c/models/a--b/config.json'' then Some (Regular ''{}'' 5) else None)"

definition sample_reg_env :: reg_env where
  "sample_reg_env = \<lparr>re_getenv = \<lambda>v. if v = ''MLXD_CACHE_DIR'' then Some ''/c'' else None,
     re_listing = \<lambda>_ p. if p = ''/c/models'' then Some [''a--b''] else if p = ''/c/models/a--b'' then Some [''config.json''] else None,
     re_writable = \<lambda>_. True, re_now = 6, re_read = \<lambda>_. None, re_write = \<lambda>_. None,
     re_server = \<lambda>_ _ _ _. \<lparr>rp_aborted = False, rp_ok = False, rp_code = 0, rp_range_total = - 1, rp_chunks = []\<rparr>\<rparr>"

definition sample_info :: model_info where
  "sample_info = \<lparr>mi_id = ''a/b'', mi_path = ''/c/models/a--b'', mi_size = 2, mi_mtime = 5\<rparr>"

lemma sample_hub: "reg_hf_hub_dir mem sample_reg_env = None"
  by (simp add: reg_hf_hub_dir_def sample_reg_env_def)

lemma sample_cached: "scan_mlxd_cache (\<lambda>_. True) 32 sample_reg_env sample_fs = Some (Some \<lparr>ml_items = [sample_info], ml_cap = 8, ml_room = 8\<rparr>)"
  by (simp add: scan_mlxd_cache_def reg_cache_root_def sample_reg_env_def c_str_def reg_path_join_def reg_dir_has_config_json_def
      is_regular_def sample_fs_def id_from_dirname_def list_push_def list_reserve_def list_store_def info_of_def
      scan_dir_stats_def sample_info_def c_strdup_def)

lemma sample_discovered: "registry_discover (\<lambda>_. True) 32 sample_reg_env sample_fs = Some [sample_info]"
  by (simp add: registry_discover_def scan_hub_cache_def sample_hub sample_cached)

theorem registry_discover_ok_witness: "models_ok (\<lambda>_. True) sample_fs [sample_info]"
proof -
  have "distinct names \<and> (\<forall>n\<in>set names. CHR ''/'' \<notin> set n)" if "re_listing sample_reg_env sample_fs p = Some names" for p names
    using that by (auto simp: sample_reg_env_def split: if_splits)
  note law = this
  show ?thesis
    using registry_discover_ok [where env = sample_reg_env and fs = sample_fs and esz = 32 and mem = "\<lambda>_. True"] law sample_discovered
    by blast
qed

end
