(* ===== verification/ModelConfig.thy ===== *)
theory ModelConfig
  imports Sampler
begin

text \<open>
  Model configurations (\<open>src/model/model.c\<close>, \<open>src/model/model.h\<close>): \<open>config.json\<close> and \<open>generation_config.json\<close>,
  the defaults of the model families, and the queries on layers. Reading a file as JSON is a parameter.
  A load that fails is \<open>None\<close>; lists of fixed length stand for the arrays of the struct.
\<close>

definition MLXD_MAX_LAYERS :: nat where "MLXD_MAX_LAYERS = 128"
definition MLXD_MAX_EOS_TOKENS :: nat where "MLXD_MAX_EOS_TOKENS = 8"

datatype model_family = MODEL_FAMILY_UNKNOWN | MODEL_GEMMA3 | MODEL_GEMMA4 | MODEL_QWEN2 | MODEL_QWEN3 | MODEL_QWEN3_5
  | MODEL_QWEN3_5_MOE | MODEL_LLAMA | MODEL_MISTRAL | MODEL_LFM2 | MODEL_NEMOTRON_H | MODEL_DEEPSEEK_V3
  | MODEL_DEEPSEEK_V32 | MODEL_DEEPSEEK_V4 | MODEL_BERT

datatype hidden_act = HIDDEN_ACT_SILU | HIDDEN_ACT_GELU_APPROX | HIDDEN_ACT_RELU_SQ

datatype quant_mode = QUANT_MODE_AFFINE

datatype layer_kind = LAYER_KIND_ATTENTION | LAYER_KIND_GATED_CONV | LAYER_KIND_MAMBA2 | LAYER_KIND_MLP | LAYER_KIND_MOE

subsection \<open>The configuration\<close>

record config_core =
  mc_model_type :: string
  mc_architectures :: "string option"
  mc_vocab_size :: int
  mc_hidden_size :: int
  mc_num_hidden_layers :: int
  mc_num_attention_heads :: int
  mc_num_key_value_heads :: int
  mc_max_position_embeddings :: int
  mc_family :: model_family
  mc_weight_prefix :: string
  mc_intermediate_size :: int
  mc_head_dim :: int
  mc_rms_norm_eps :: cfloat
  mc_query_pre_attn_scalar :: int

record config_rope = config_core +
  mc_rope_theta :: cfloat
  mc_rope_local_base_freq :: cfloat
  mc_rope_scaling_type :: "string option"
  mc_rope_scaling_factor :: cfloat
  mc_rope_low_freq_factor :: cfloat
  mc_rope_high_freq_factor :: cfloat
  mc_rope_scaling_mscale_all_dim :: cfloat
  mc_rope_original_max_position_embeddings :: int
  mc_rope_proportional :: bool
  mc_rope_proportional_factor :: cfloat
  mc_partial_rotary_factor :: cfloat
  mc_partial_rotary_factor_global :: cfloat

record config_attention = config_rope +
  mc_has_sliding_window :: bool
  mc_sliding_window :: int
  mc_sliding_window_pattern :: int
  mc_has_explicit_layer_types :: bool
  mc_layer_is_global :: "bool list"
  mc_attention_bias :: bool
  mc_quant_bits :: int
  mc_quant_group_size :: int
  mc_quant_mode :: quant_mode
  mc_tie_word_embeddings :: bool
  mc_hidden_act :: hidden_act
  mc_norm_has_offset :: bool
  mc_scale_embeddings :: bool
  mc_has_pre_ff_norm :: bool
  mc_has_qk_norm :: bool

record config_moe = config_attention +
  mc_num_experts :: int
  mc_num_experts_per_tok :: int
  mc_moe_intermediate_size :: int
  mc_shared_expert_intermediate_size :: int
  mc_n_routed_experts :: int
  mc_n_shared_experts :: int
  mc_routed_scaling_factor :: cfloat
  mc_moe_layer_freq :: int
  mc_first_k_dense_replace :: int
  mc_n_group :: int
  mc_topk_group :: int
  mc_norm_topk_prob :: bool

record config_mla = config_moe +
  mc_q_lora_rank :: int
  mc_kv_lora_rank :: int
  mc_qk_rope_head_dim :: int
  mc_qk_nope_head_dim :: int
  mc_v_head_dim :: int
  mc_index_head_dim :: int
  mc_index_n_heads :: int
  mc_index_topk :: int

record config_linear = config_mla +
  mc_linear_num_key_heads :: int
  mc_linear_num_value_heads :: int
  mc_linear_key_head_dim :: int
  mc_linear_value_head_dim :: int
  mc_linear_conv_kernel_dim :: int
  mc_full_attention_interval :: int
  mc_attn_output_gate :: bool
  mc_has_hybrid_layers :: bool
  mc_layer_kinds :: "layer_kind list"
  mc_lfm_conv_kernel :: int
  mc_lfm_conv_dim :: int

record config_mamba = config_linear +
  mc_mamba_num_heads :: int
  mc_mamba_head_dim :: int
  mc_mamba_n_groups :: int
  mc_ssm_state_size :: int
  mc_mamba_conv_kernel :: int
  mc_mamba_expand :: int
  mc_time_step_min :: cfloat
  mc_time_step_max :: cfloat
  mc_mamba_chunk_size :: int
  mc_mamba_mlp_act :: hidden_act

record model_config = config_mamba +
  mc_use_double_wide_mlp :: bool
  mc_global_head_dim :: int
  mc_num_global_key_value_heads :: int
  mc_num_kv_shared_layers :: int
  mc_final_logit_softcapping :: cfloat
  mc_hidden_size_per_layer_input :: int
  mc_has_v_norm :: bool
  mc_attention_k_eq_v :: bool
  mc_attn_scale_one :: bool
  mc_is_encoder_only :: bool
  mc_layer_norm_eps :: cfloat
  mc_type_vocab_size :: int
  mc_eos_token_ids :: "u32 list"
  mc_gen :: gen_defaults

text \<open>The zeroed struct with the nonzero defaults of the loader.\<close>

definition config_defaults :: model_config where
  "config_defaults = \<lparr>mc_model_type = [], mc_architectures = None, mc_vocab_size = 0, mc_hidden_size = 0, mc_num_hidden_layers = 0,
     mc_num_attention_heads = 0, mc_num_key_value_heads = 0, mc_max_position_embeddings = 0, mc_family = MODEL_FAMILY_UNKNOWN,
     mc_weight_prefix = ''model'', mc_intermediate_size = 0, mc_head_dim = 0, mc_rms_norm_eps = f32_round (1 / 10 ^ 6),
     mc_query_pre_attn_scalar = 0,
     mc_rope_theta = Fin (10 ^ 6), mc_rope_local_base_freq = Fin (10 ^ 4), mc_rope_scaling_type = None, mc_rope_scaling_factor = Fin 1,
     mc_rope_low_freq_factor = Fin 1, mc_rope_high_freq_factor = Fin 1, mc_rope_scaling_mscale_all_dim = Fin 0,
     mc_rope_original_max_position_embeddings = 0, mc_rope_proportional = False, mc_rope_proportional_factor = Fin 1,
     mc_partial_rotary_factor = Fin 1, mc_partial_rotary_factor_global = Fin 1,
     mc_has_sliding_window = False, mc_sliding_window = 0, mc_sliding_window_pattern = 0, mc_has_explicit_layer_types = False,
     mc_layer_is_global = replicate MLXD_MAX_LAYERS False, mc_attention_bias = False, mc_quant_bits = 0, mc_quant_group_size = 64, mc_quant_mode = QUANT_MODE_AFFINE,
     mc_tie_word_embeddings = False, mc_hidden_act = HIDDEN_ACT_SILU, mc_norm_has_offset = False, mc_scale_embeddings = False,
     mc_has_pre_ff_norm = False, mc_has_qk_norm = False,
     mc_num_experts = 0, mc_num_experts_per_tok = 0, mc_moe_intermediate_size = 0, mc_shared_expert_intermediate_size = 0,
     mc_n_routed_experts = 0, mc_n_shared_experts = 0, mc_routed_scaling_factor = Fin 0, mc_moe_layer_freq = 0,
     mc_first_k_dense_replace = 0, mc_n_group = 0, mc_topk_group = 0, mc_norm_topk_prob = False,
     mc_q_lora_rank = 0, mc_kv_lora_rank = 0, mc_qk_rope_head_dim = 0, mc_qk_nope_head_dim = 0, mc_v_head_dim = 0,
     mc_index_head_dim = 0, mc_index_n_heads = 0, mc_index_topk = 0,
     mc_linear_num_key_heads = 0, mc_linear_num_value_heads = 0, mc_linear_key_head_dim = 128, mc_linear_value_head_dim = 128,
     mc_linear_conv_kernel_dim = 4, mc_full_attention_interval = 0, mc_attn_output_gate = False, mc_has_hybrid_layers = False,
     mc_layer_kinds = replicate MLXD_MAX_LAYERS LAYER_KIND_ATTENTION, mc_lfm_conv_kernel = 3, mc_lfm_conv_dim = 0,
     mc_mamba_num_heads = 0, mc_mamba_head_dim = 0, mc_mamba_n_groups = 8, mc_ssm_state_size = 128, mc_mamba_conv_kernel = 4,
     mc_mamba_expand = 2, mc_time_step_min = Fin 0, mc_time_step_max = PInf, mc_mamba_chunk_size = 256,
     mc_mamba_mlp_act = HIDDEN_ACT_RELU_SQ,
     mc_use_double_wide_mlp = False, mc_global_head_dim = 0, mc_num_global_key_value_heads = 0, mc_num_kv_shared_layers = 0,
     mc_final_logit_softcapping = Fin 0, mc_hidden_size_per_layer_input = 0, mc_has_v_norm = False, mc_attention_k_eq_v = False,
     mc_attn_scale_one = False, mc_is_encoder_only = False, mc_layer_norm_eps = f32_round (1 / 10 ^ 12), mc_type_vocab_size = 0,
     mc_eos_token_ids = [],
     mc_gen = \<lparr>has_gen_temperature = False, gen_temperature = Fin 0, has_gen_top_p = False, gen_top_p = Fin 0,
       has_gen_top_k = False, gen_top_k = 0\<rparr>\<rparr>"

subsection \<open>Typed members\<close>

text \<open>Absent or null: the default; \<open>None\<close> is the error of the code.\<close>

definition get_int_from :: "int \<Rightarrow> jval \<Rightarrow> string \<Rightarrow> int \<Rightarrow> int option" where
  "get_int_from lo obj key def =
     (let v = yyjson_obj_get obj key in
      if v = None \<or> yyjson_is_null v then Some def
      else if yyjson_is_int v \<and> lo \<le> yyjson_get_sint v \<and> yyjson_get_sint v \<le> INT_MAX then Some (yyjson_get_sint v) else None)"

definition get_dim_int :: "jval \<Rightarrow> string \<Rightarrow> int \<Rightarrow> int option" where
  "get_dim_int = get_int_from 1"

definition get_int_nonneg :: "jval \<Rightarrow> string \<Rightarrow> int \<Rightarrow> int option" where
  "get_int_nonneg = get_int_from 0"

definition get_f32 :: "jval \<Rightarrow> string \<Rightarrow> cfloat \<Rightarrow> cfloat option" where
  "get_f32 obj key def =
     (let v = yyjson_obj_get obj key in
      if v = None \<or> yyjson_is_null v then Some def
      else if yyjson_is_num v \<and> cfloat_isfinite (double_to_float (yyjson_get_num v)) then Some (double_to_float (yyjson_get_num v)) else None)"

definition get_bool :: "jval \<Rightarrow> string \<Rightarrow> bool \<Rightarrow> bool option" where
  "get_bool obj key def =
     (let v = yyjson_obj_get obj key in
      if v = None \<or> yyjson_is_null v then Some def else if yyjson_is_bool v then Some (yyjson_get_bool v) else None)"

text \<open>A step of the loader, and steps in a row up to the first that fails.\<close>

type_synonym step = "model_config \<Rightarrow> model_config option"

fun all_steps :: "step list \<Rightarrow> step" where
  "all_steps [] c = Some c"
| "all_steps (f # fs) c = (case f c of None \<Rightarrow> None | Some c \<Rightarrow> all_steps fs c)"

definition dim_step :: "jval \<Rightarrow> string \<Rightarrow> ((int \<Rightarrow> int) \<Rightarrow> model_config \<Rightarrow> model_config) \<Rightarrow> (model_config \<Rightarrow> int) \<Rightarrow> step" where
  "dim_step obj key upd def = (\<lambda>c. map_option (\<lambda>n. upd (\<lambda>_. n) c) (get_dim_int obj key (def c)))"

definition nonneg_step :: "jval \<Rightarrow> string \<Rightarrow> ((int \<Rightarrow> int) \<Rightarrow> model_config \<Rightarrow> model_config) \<Rightarrow> (model_config \<Rightarrow> int) \<Rightarrow> step" where
  "nonneg_step obj key upd def = (\<lambda>c. map_option (\<lambda>n. upd (\<lambda>_. n) c) (get_int_nonneg obj key (def c)))"

definition f32_step :: "jval \<Rightarrow> string \<Rightarrow> ((cfloat \<Rightarrow> cfloat) \<Rightarrow> model_config \<Rightarrow> model_config) \<Rightarrow> (model_config \<Rightarrow> cfloat) \<Rightarrow> step" where
  "f32_step obj key upd def = (\<lambda>c. map_option (\<lambda>x. upd (\<lambda>_. x) c) (get_f32 obj key (def c)))"

definition bool_step :: "jval \<Rightarrow> string \<Rightarrow> ((bool \<Rightarrow> bool) \<Rightarrow> model_config \<Rightarrow> model_config) \<Rightarrow> (model_config \<Rightarrow> bool) \<Rightarrow> step" where
  "bool_step obj key upd def = (\<lambda>c. map_option (\<lambda>b. upd (\<lambda>_. b) c) (get_bool obj key (def c)))"

text \<open>A step under a condition.\<close>

definition upd_if :: "bool \<Rightarrow> (model_config \<Rightarrow> model_config) \<Rightarrow> model_config \<Rightarrow> model_config" where
  "upd_if b f c = (if b then f c else c)"

subsection \<open>EOS tokens\<close>

definition add_eos :: "u32 \<Rightarrow> u32 list \<Rightarrow> u32 list" where
  "add_eos i eos = (if i \<in> set eos \<or> MLXD_MAX_EOS_TOKENS \<le> length eos then eos else eos @ [i])"

definition eos_id :: "json \<Rightarrow> u32 option" where
  "eos_id v = (if yyjson_is_int (Some v) \<and> 0 \<le> yyjson_get_sint (Some v) \<and> yyjson_get_sint (Some v) \<le> 4294967295
     then Some (word_of_int (yyjson_get_sint (Some v))) else None)"

text \<open>The tokens added so far are kept when an item is malformed.\<close>

fun eos_items :: "json list \<Rightarrow> u32 list \<Rightarrow> u32 list \<times> bool" where
  "eos_items [] eos = (eos, True)"
| "eos_items (item # items) eos = (case eos_id item of None \<Rightarrow> (eos, False) | Some i \<Rightarrow> eos_items items (add_eos i eos))"

definition parse_eos_value :: "jval \<Rightarrow> u32 list \<Rightarrow> u32 list \<times> bool" where
  "parse_eos_value v eos = (case v of
     Some (JInt n) \<Rightarrow> eos_items [JInt n] eos
   | Some (JArr items) \<Rightarrow> eos_items items eos
   | _ \<Rightarrow> (eos, True))"

definition eos_step :: "jval \<Rightarrow> step" where
  "eos_step v c = (case parse_eos_value v (mc_eos_token_ids c) of
     (eos, True) \<Rightarrow> Some (c\<lparr>mc_eos_token_ids := eos\<rparr>) | (_, False) \<Rightarrow> None)"

definition ensure_gemma_terminators :: "model_config \<Rightarrow> model_config" where
  "ensure_gemma_terminators c = c\<lparr>mc_eos_token_ids := add_eos 106 (add_eos 1 (mc_eos_token_ids c))\<rparr>"

subsection \<open>Families\<close>

definition model_family_from_type :: "string option \<Rightarrow> model_family" where
  "model_family_from_type model_type = (case model_type of None \<Rightarrow> MODEL_FAMILY_UNKNOWN
   | Some ty \<Rightarrow>
      if ty \<in> {''gemma3'', ''gemma3_text''} then MODEL_GEMMA3
      else if ty \<in> {''gemma4'', ''gemma4_text'', ''gemma4_unified'', ''gemma4_unified_text''} then MODEL_GEMMA4
      else if ty = ''qwen2'' then MODEL_QWEN2
      else if ty = ''qwen3'' then MODEL_QWEN3
      else if ty \<in> {''qwen3_5'', ''qwen3_5_text''} then MODEL_QWEN3_5
      else if ty \<in> {''qwen3_5_moe'', ''qwen3_5_moe_text''} then MODEL_QWEN3_5_MOE
      else if ty = ''llama'' then MODEL_LLAMA
      else if ty = ''mistral'' then MODEL_MISTRAL
      else if take 4 ty = ''lfm2'' then MODEL_LFM2
      else if ty = ''nemotron_h'' then MODEL_NEMOTRON_H
      else if ty = ''deepseek_v3'' then MODEL_DEEPSEEK_V3
      else if ty \<in> {''deepseek_v3_2'', ''deepseek_v32''} then MODEL_DEEPSEEK_V32
      else if ty = ''deepseek_v4'' then MODEL_DEEPSEEK_V4
      else if ty = ''bert'' then MODEL_BERT
      else MODEL_FAMILY_UNKNOWN)"

text \<open>Whether a key is absent (a null is present).\<close>

definition absent :: "jval \<Rightarrow> string \<Rightarrow> bool" where
  "absent obj key \<longleftrightarrow> yyjson_obj_get obj key = None"

definition unset :: "jval \<Rightarrow> string \<Rightarrow> bool" where
  "unset obj key \<longleftrightarrow> yyjson_obj_get obj key = None \<or> yyjson_is_null (yyjson_obj_get obj key)"

definition apply_hidden_act_string :: "jval \<Rightarrow> step" where
  "apply_hidden_act_string obj c =
     (case yyjson_obj_get obj ''hidden_act'' of
        None \<Rightarrow> Some c
      | Some v \<Rightarrow> (case yyjson_get_str (Some v) of
          None \<Rightarrow> None
        | Some s \<Rightarrow> Some (if s = ''silu'' then c\<lparr>mc_hidden_act := HIDDEN_ACT_SILU\<rparr>
                         else if s = ''gelu_pytorch_tanh'' then c\<lparr>mc_hidden_act := HIDDEN_ACT_GELU_APPROX\<rparr> else c)))"

definition derive_head_dim :: "model_config \<Rightarrow> model_config" where
  "derive_head_dim c = (if 0 < mc_num_attention_heads c then c\<lparr>mc_head_dim := mc_hidden_size c div mc_num_attention_heads c\<rparr> else c)"

definition derive_query_scalar :: "jval \<Rightarrow> model_config \<Rightarrow> model_config" where
  "derive_query_scalar obj c = (if absent obj ''query_pre_attn_scalar'' then c\<lparr>mc_query_pre_attn_scalar := mc_head_dim c\<rparr> else c)"

definition set_llama_style_defaults :: "jval \<Rightarrow> step" where
  "set_llama_style_defaults obj c =
     (let c = c\<lparr>mc_weight_prefix := ''model'', mc_norm_has_offset := False, mc_scale_embeddings := False, mc_has_pre_ff_norm := False,
                mc_has_qk_norm := False, mc_rope_local_base_freq := mc_rope_theta c\<rparr>;
          c = upd_if (absent obj ''head_dim'') derive_head_dim c
      in map_option (derive_query_scalar obj) (apply_hidden_act_string obj c))"

text \<open>A sliding window that the configuration does not mention.\<close>

definition default_window :: "bool \<Rightarrow> model_config \<Rightarrow> model_config" where
  "default_window key_present c = (if key_present then c
     else c\<lparr>mc_has_sliding_window := True, mc_sliding_window := (if mc_sliding_window c = 0 then 1024 else mc_sliding_window c)\<rparr>)"

definition gemma3_rope :: "jval \<Rightarrow> model_config \<Rightarrow> model_config" where
  "gemma3_rope obj c =
     (let rs = yyjson_obj_get obj ''rope_scaling'' in
      if cfloat_eq (mc_rope_scaling_factor c) (Fin 1) \<and> (rs = None \<or> \<not> yyjson_is_obj rs \<or> absent rs ''factor'')
      then c\<lparr>mc_rope_scaling_factor := Fin 8\<rparr> else c)"

definition gemma3_defaults :: "jval \<Rightarrow> bool \<Rightarrow> bool \<Rightarrow> step" where
  "gemma3_defaults obj has_text window_key c =
     (let c = upd_if (absent obj ''num_attention_heads'') (mc_num_attention_heads_update (\<lambda>_. 8)) c;
          c = upd_if (absent obj ''num_key_value_heads'') (mc_num_key_value_heads_update (\<lambda>_. 4)) c;
          c = upd_if (absent obj ''head_dim'') (mc_head_dim_update (\<lambda>_. 256)) c;
          c = c\<lparr>mc_weight_prefix := (if has_text then ''language_model.model'' else ''model''), mc_tie_word_embeddings := True,
                mc_hidden_act := HIDDEN_ACT_GELU_APPROX, mc_norm_has_offset := True, mc_scale_embeddings := True,
                mc_has_pre_ff_norm := True, mc_has_qk_norm := True\<rparr>;
          c = default_window window_key c;
          c = upd_if (absent obj ''sliding_window_pattern'') (mc_sliding_window_pattern_update (\<lambda>_. 6)) c
      in Some (ensure_gemma_terminators (derive_query_scalar obj (gemma3_rope obj c))))"

definition gemma4_defaults :: "jval \<Rightarrow> bool \<Rightarrow> step" where
  "gemma4_defaults obj window_key c =
     (case apply_hidden_act_string obj (c\<lparr>mc_weight_prefix := ''language_model.model'', mc_hidden_act := HIDDEN_ACT_GELU_APPROX\<rparr>) of
        None \<Rightarrow> None
      | Some c \<Rightarrow>
          let c = c\<lparr>mc_norm_has_offset := False, mc_scale_embeddings := True, mc_has_pre_ff_norm := True, mc_has_qk_norm := True,
                    mc_has_v_norm := True, mc_attn_scale_one := True, mc_rope_scaling_factor := Fin 1\<rparr>;
              c = derive_query_scalar obj (default_window window_key c);
              c = upd_if (unset obj ''final_logit_softcapping'') (mc_final_logit_softcapping_update (\<lambda>_. Fin 30)) c;
              c = upd_if (unset obj ''hidden_size_per_layer_input'') (mc_hidden_size_per_layer_input_update (\<lambda>_. 256)) c
          in Some (ensure_gemma_terminators c))"

definition qwen3_5_defaults :: "jval \<Rightarrow> bool \<Rightarrow> step" where
  "qwen3_5_defaults obj has_text c =
     (let c = c\<lparr>mc_weight_prefix := (if has_text then ''language_model.model'' else ''model''), mc_norm_has_offset := False,
                mc_scale_embeddings := False, mc_has_pre_ff_norm := False, mc_has_qk_norm := True, mc_hidden_act := HIDDEN_ACT_SILU,
                mc_has_sliding_window := False\<rparr>;
          c = upd_if (absent obj ''attn_output_gate'') (mc_attn_output_gate_update (\<lambda>_. True)) c;
          c = c\<lparr>mc_rope_scaling_factor := Fin 1, mc_rope_local_base_freq := mc_rope_theta c\<rparr>
      in Some (derive_query_scalar obj (upd_if (absent obj ''head_dim'') derive_head_dim c)))"

text \<open>An epsilon under another name; the flag tells whether a member that is no number is an error.\<close>

definition alt_eps :: "jval \<Rightarrow> string \<Rightarrow> bool \<Rightarrow> step" where
  "alt_eps obj key strict c =
     (let v = yyjson_obj_get obj key in
      if \<not> absent obj ''rms_norm_eps'' \<or> v = None then Some c
      else if \<not> yyjson_is_num v then (if strict then None else Some c)
      else if cfloat_isfinite (double_to_float (yyjson_get_num v)) then Some (c\<lparr>mc_rms_norm_eps := double_to_float (yyjson_get_num v)\<rparr>) else None)"

definition lfm2_tie :: "jval \<Rightarrow> step" where
  "lfm2_tie obj c = (case yyjson_obj_get obj ''tie_embedding'' of
     None \<Rightarrow> Some c
   | Some te \<Rightarrow> if yyjson_is_bool (Some te) then Some (c\<lparr>mc_tie_word_embeddings := yyjson_get_bool (Some te)\<rparr>) else None)"

definition lfm2_kernel :: "jval \<Rightarrow> step" where
  "lfm2_kernel obj c = map_option (\<lambda>n. if 0 < n then c\<lparr>mc_lfm_conv_kernel := n\<rparr> else c) (get_int_nonneg obj ''conv_L_cache'' (mc_lfm_conv_kernel c))"

text \<open>The first 128 items of a list of layer types, all strings.\<close>

definition layer_names :: "jval \<Rightarrow> string list option" where
  "layer_names v = (case v of
     None \<Rightarrow> Some []
   | Some JNull \<Rightarrow> Some []
   | Some (JArr items) \<Rightarrow>
       (let xs = take MLXD_MAX_LAYERS items in
        if list_all (\<lambda>x. yyjson_is_str (Some x)) xs then Some (map (\<lambda>x. the (yyjson_get_str (Some x))) xs) else None)
   | _ \<Rightarrow> None)"

definition lfm2_layers :: "jval \<Rightarrow> step" where
  "lfm2_layers obj c = map_option (\<lambda>names.
     c\<lparr>mc_layer_kinds := map (\<lambda>s. if s = ''conv'' then LAYER_KIND_GATED_CONV else LAYER_KIND_ATTENTION) names @
         drop (length names) (mc_layer_kinds c)\<rparr>) (layer_names (yyjson_obj_get obj ''layer_types''))"

definition lfm2_defaults :: "jval \<Rightarrow> bool \<Rightarrow> step" where
  "lfm2_defaults obj has_text c =
     (let c = c\<lparr>mc_weight_prefix := (if has_text then ''language_model.model'' else ''model''), mc_hidden_act := HIDDEN_ACT_SILU,
                mc_norm_has_offset := False, mc_scale_embeddings := False, mc_has_pre_ff_norm := False, mc_has_qk_norm := True,
                mc_has_sliding_window := False, mc_has_hybrid_layers := True, mc_rope_scaling_factor := Fin 1,
                mc_rope_local_base_freq := mc_rope_theta c\<rparr>;
          c = upd_if (mc_head_dim c = 0) derive_head_dim c;
          c = c\<lparr>mc_query_pre_attn_scalar := mc_head_dim c, mc_tie_word_embeddings := True\<rparr>
      in all_steps [lfm2_tie obj, alt_eps obj ''norm_eps'' True, nonneg_step obj ''conv_dim'' mc_lfm_conv_dim_update mc_lfm_conv_dim,
           lfm2_kernel obj, lfm2_layers obj] c)"

definition nemotron_time :: "jval \<Rightarrow> step" where
  "nemotron_time obj c = (case yyjson_obj_get obj ''time_step_limit'' of
     None \<Rightarrow> Some c
   | Some (JArr (a # b # _)) \<Rightarrow>
       (if yyjson_is_num (Some a) \<and> yyjson_is_num (Some b)
        then Some (c\<lparr>mc_time_step_min := double_to_float (yyjson_get_num (Some a)), mc_time_step_max := double_to_float (yyjson_get_num (Some b))\<rparr>)
        else None)
   | Some (JArr _) \<Rightarrow> Some c
   | _ \<Rightarrow> None)"

definition pattern_kind :: "char \<Rightarrow> layer_kind" where
  "pattern_kind ch = (if ch = CHR ''M'' then LAYER_KIND_MAMBA2 else if ch = CHR ''-'' then LAYER_KIND_MLP
     else if ch = CHR ''*'' then LAYER_KIND_ATTENTION else if ch = CHR ''E'' then LAYER_KIND_MOE else LAYER_KIND_ATTENTION)"

definition nemotron_layers :: "jval \<Rightarrow> step" where
  "nemotron_layers obj c = (case yyjson_obj_get obj ''hybrid_override_pattern'' of
     None \<Rightarrow> Some c
   | Some v \<Rightarrow> (case yyjson_get_str (Some v) of
       None \<Rightarrow> None
     | Some s \<Rightarrow> (let ks = map pattern_kind (take MLXD_MAX_LAYERS s)
                 in Some (c\<lparr>mc_layer_kinds := ks @ drop (length ks) (mc_layer_kinds c)\<rparr>))))"

definition nemotron_defaults :: "jval \<Rightarrow> step" where
  "nemotron_defaults obj c =
     (let c = c\<lparr>mc_weight_prefix := ''backbone'', mc_hidden_act := HIDDEN_ACT_SILU, mc_mamba_mlp_act := HIDDEN_ACT_RELU_SQ,
                mc_norm_has_offset := False, mc_scale_embeddings := False, mc_has_pre_ff_norm := False, mc_has_qk_norm := False,
                mc_has_sliding_window := False, mc_has_hybrid_layers := True, mc_rope_scaling_factor := Fin 1,
                mc_rope_local_base_freq := mc_rope_theta c, mc_query_pre_attn_scalar := mc_head_dim c\<rparr>
      in all_steps [alt_eps obj ''layer_norm_epsilon'' False,
           nonneg_step obj ''mamba_num_heads'' mc_mamba_num_heads_update mc_mamba_num_heads,
           nonneg_step obj ''mamba_head_dim'' mc_mamba_head_dim_update mc_mamba_head_dim,
           nonneg_step obj ''n_groups'' mc_mamba_n_groups_update mc_mamba_n_groups,
           nonneg_step obj ''ssm_state_size'' mc_ssm_state_size_update mc_ssm_state_size,
           nonneg_step obj ''conv_kernel'' mc_mamba_conv_kernel_update mc_mamba_conv_kernel,
           nonneg_step obj ''expand'' mc_mamba_expand_update mc_mamba_expand,
           nonneg_step obj ''chunk_size'' mc_mamba_chunk_size_update mc_mamba_chunk_size,
           nemotron_time obj, nemotron_layers obj] c)"

definition deepseek_defaults :: "jval \<Rightarrow> step" where
  "deepseek_defaults obj c = map_option (\<lambda>c.
     upd_if (unset obj ''routed_scaling_factor'') (mc_routed_scaling_factor_update (\<lambda>_. Fin 1))
       (upd_if (unset obj ''norm_topk_prob'') (mc_norm_topk_prob_update (\<lambda>_. True)) (c\<lparr>mc_hidden_act := HIDDEN_ACT_SILU\<rparr>)))
     (set_llama_style_defaults obj c)"

definition bert_eps :: "jval \<Rightarrow> step" where
  "bert_eps obj c =
     (let v = yyjson_obj_get obj ''layer_norm_eps'' in
      if v = None \<or> yyjson_is_null v then Some c
      else if yyjson_is_num v \<and> cfloat_isfinite (double_to_float (yyjson_get_num v)) then Some (c\<lparr>mc_layer_norm_eps := double_to_float (yyjson_get_num v)\<rparr>)
      else None)"

definition bert_types :: "jval \<Rightarrow> step" where
  "bert_types obj c =
     (let v = yyjson_obj_get obj ''type_vocab_size'' in
      if v = None \<or> yyjson_is_null v then Some c
      else if \<not> yyjson_is_int v then None
      else Some (if 0 \<le> yyjson_get_sint v \<and> yyjson_get_sint v \<le> INT_MAX then c\<lparr>mc_type_vocab_size := yyjson_get_sint v\<rparr> else c))"

definition bert_defaults :: "jval \<Rightarrow> step" where
  "bert_defaults obj c =
     (let c = derive_head_dim (c\<lparr>mc_is_encoder_only := True, mc_weight_prefix := [], mc_hidden_act := HIDDEN_ACT_GELU_APPROX,
                mc_tie_word_embeddings := True, mc_has_sliding_window := False, mc_has_pre_ff_norm := False, mc_has_qk_norm := False,
                mc_scale_embeddings := False, mc_norm_has_offset := False\<rparr>)
      in all_steps [bert_eps obj, bert_types obj]
           (c\<lparr>mc_num_key_value_heads := mc_num_attention_heads c, mc_query_pre_attn_scalar := mc_head_dim c\<rparr>))"

definition family_defaults :: "model_family \<Rightarrow> jval \<Rightarrow> bool \<Rightarrow> bool \<Rightarrow> step" where
  "family_defaults fam obj has_text window_key = (case fam of
     MODEL_GEMMA3 \<Rightarrow> gemma3_defaults obj has_text window_key
   | MODEL_GEMMA4 \<Rightarrow> gemma4_defaults obj window_key
   | MODEL_QWEN3_5 \<Rightarrow> qwen3_5_defaults obj has_text
   | MODEL_QWEN3_5_MOE \<Rightarrow> qwen3_5_defaults obj has_text
   | MODEL_QWEN3 \<Rightarrow> (\<lambda>c. map_option (mc_has_qk_norm_update (\<lambda>_. True)) (set_llama_style_defaults obj c))
   | MODEL_QWEN2 \<Rightarrow> (\<lambda>c. map_option (upd_if (absent obj ''attention_bias'') (mc_attention_bias_update (\<lambda>_. True))) (set_llama_style_defaults obj c))
   | MODEL_LFM2 \<Rightarrow> lfm2_defaults obj has_text
   | MODEL_NEMOTRON_H \<Rightarrow> nemotron_defaults obj
   | MODEL_DEEPSEEK_V3 \<Rightarrow> deepseek_defaults obj
   | MODEL_DEEPSEEK_V32 \<Rightarrow> deepseek_defaults obj
   | MODEL_DEEPSEEK_V4 \<Rightarrow> deepseek_defaults obj
   | MODEL_BERT \<Rightarrow> bert_defaults obj
   | _ \<Rightarrow> set_llama_style_defaults obj)"

text \<open>A dense family with experts is its mixture family.\<close>

definition apply_family_defaults :: "jval \<Rightarrow> bool \<Rightarrow> bool \<Rightarrow> step" where
  "apply_family_defaults obj has_text window_key c =
     (let fam = model_family_from_type (Some (mc_model_type c)) in
      map_option (\<lambda>c. if mc_family c = MODEL_QWEN3_5 \<and> 0 < mc_num_experts c then c\<lparr>mc_family := MODEL_QWEN3_5_MOE\<rparr> else c)
        (family_defaults fam obj has_text window_key (c\<lparr>mc_family := fam\<rparr>)))"

subsection \<open>Generation defaults\<close>

definition gen_temperature_of :: "jval \<Rightarrow> gen_defaults \<Rightarrow> gen_defaults" where
  "gen_temperature_of v g =
     (let t = double_to_float (yyjson_get_num v) in
      if yyjson_is_num v \<and> cfloat_le (Fin 0) t \<and> cfloat_le t (Fin 2) then g\<lparr>has_gen_temperature := True, gen_temperature := t\<rparr> else g)"

definition gen_top_p_of :: "jval \<Rightarrow> gen_defaults \<Rightarrow> gen_defaults" where
  "gen_top_p_of v g =
     (let p = double_to_float (yyjson_get_num v) in
      if yyjson_is_num v \<and> cfloat_less (Fin 0) p \<and> cfloat_le p (Fin 1) then g\<lparr>has_gen_top_p := True, gen_top_p := p\<rparr> else g)"

definition gen_top_k_of :: "jval \<Rightarrow> gen_defaults \<Rightarrow> gen_defaults" where
  "gen_top_k_of v g =
     (if yyjson_is_int v \<and> 0 < yyjson_get_sint v \<and> yyjson_get_sint v \<le> 1000
      then g\<lparr>has_gen_top_k := True, gen_top_k := yyjson_get_sint v\<rparr> else g)"

text \<open>Reading a file as JSON; \<open>None\<close> when there is none or it does not parse.\<close>

type_synonym read_json = "string \<Rightarrow> json option"

definition config_path :: "allocator \<Rightarrow> string \<Rightarrow> string \<Rightarrow> string option" where
  "config_path mem dir name = (if mem (length dir + 1 + length name + 1) then Some (dir @ ''/'' @ name) else None)"

definition read_in :: "allocator \<Rightarrow> read_json \<Rightarrow> string \<Rightarrow> string \<Rightarrow> json option" where
  "read_in mem rd dir name = Option.bind (config_path mem dir name) rd"

definition parse_generation_config :: "allocator \<Rightarrow> read_json \<Rightarrow> string \<Rightarrow> model_config \<Rightarrow> model_config" where
  "parse_generation_config mem rd dir c =
     (let rt = read_in mem rd dir ''generation_config.json'' in
      if \<not> yyjson_is_obj rt then c
      else c\<lparr>mc_gen := gen_top_k_of (yyjson_obj_get rt ''top_k'') (gen_top_p_of (yyjson_obj_get rt ''top_p'')
               (gen_temperature_of (yyjson_obj_get rt ''temperature'') (mc_gen c))),
             mc_eos_token_ids := fst (parse_eos_value (yyjson_obj_get rt ''eos_token_id'') (mc_eos_token_ids c))\<rparr>)"

subsection \<open>The loader\<close>

definition core_steps :: "jval \<Rightarrow> step list" where
  "core_steps o1 =
     [dim_step o1 ''vocab_size'' mc_vocab_size_update (\<lambda>_. 0),
      dim_step o1 ''hidden_size'' mc_hidden_size_update (\<lambda>_. 0),
      dim_step o1 ''num_hidden_layers'' mc_num_hidden_layers_update (\<lambda>_. 0),
      dim_step o1 ''num_attention_heads'' mc_num_attention_heads_update (\<lambda>_. 0),
      dim_step o1 ''num_key_value_heads'' mc_num_key_value_heads_update mc_num_attention_heads,
      dim_step o1 ''max_position_embeddings'' mc_max_position_embeddings_update (\<lambda>_. 0),
      nonneg_step o1 ''intermediate_size'' mc_intermediate_size_update (\<lambda>_. 0),
      dim_step o1 ''head_dim'' mc_head_dim_update (\<lambda>_. 0),
      f32_step o1 ''rms_norm_eps'' mc_rms_norm_eps_update mc_rms_norm_eps,
      f32_step o1 ''rope_theta'' mc_rope_theta_update mc_rope_theta,
      dim_step o1 ''query_pre_attn_scalar'' mc_query_pre_attn_scalar_update (\<lambda>_. 0)]"

definition moe_steps :: "jval \<Rightarrow> step list" where
  "moe_steps o1 =
     [nonneg_step o1 ''num_experts'' mc_num_experts_update (\<lambda>_. 0),
      nonneg_step o1 ''num_experts_per_tok'' mc_num_experts_per_tok_update (\<lambda>_. 0),
      nonneg_step o1 ''moe_intermediate_size'' mc_moe_intermediate_size_update (\<lambda>_. 0),
      nonneg_step o1 ''shared_expert_intermediate_size'' mc_shared_expert_intermediate_size_update (\<lambda>_. 0),
      nonneg_step o1 ''q_lora_rank'' mc_q_lora_rank_update (\<lambda>_. 0),
      nonneg_step o1 ''kv_lora_rank'' mc_kv_lora_rank_update (\<lambda>_. 0),
      nonneg_step o1 ''qk_rope_head_dim'' mc_qk_rope_head_dim_update (\<lambda>_. 0),
      nonneg_step o1 ''qk_nope_head_dim'' mc_qk_nope_head_dim_update (\<lambda>_. 0),
      nonneg_step o1 ''v_head_dim'' mc_v_head_dim_update (\<lambda>_. 0),
      nonneg_step o1 ''n_routed_experts'' mc_n_routed_experts_update (\<lambda>_. 0),
      nonneg_step o1 ''n_shared_experts'' mc_n_shared_experts_update (\<lambda>_. 0),
      f32_step o1 ''routed_scaling_factor'' mc_routed_scaling_factor_update mc_routed_scaling_factor,
      nonneg_step o1 ''moe_layer_freq'' mc_moe_layer_freq_update (\<lambda>_. 0),
      nonneg_step o1 ''first_k_dense_replace'' mc_first_k_dense_replace_update (\<lambda>_. 0),
      nonneg_step o1 ''n_group'' mc_n_group_update (\<lambda>_. 0),
      nonneg_step o1 ''topk_group'' mc_topk_group_update (\<lambda>_. 0),
      bool_step o1 ''norm_topk_prob'' mc_norm_topk_prob_update mc_norm_topk_prob,
      nonneg_step o1 ''index_head_dim'' mc_index_head_dim_update (\<lambda>_. 0),
      nonneg_step o1 ''index_n_heads'' mc_index_n_heads_update (\<lambda>_. 0),
      nonneg_step o1 ''index_topk'' mc_index_topk_update (\<lambda>_. 0)]"

definition attention_steps :: "jval \<Rightarrow> step list" where
  "attention_steps o1 =
     [nonneg_step o1 ''linear_num_key_heads'' mc_linear_num_key_heads_update (\<lambda>_. 0),
      nonneg_step o1 ''linear_num_value_heads'' mc_linear_num_value_heads_update (\<lambda>_. 0),
      nonneg_step o1 ''linear_key_head_dim'' mc_linear_key_head_dim_update mc_linear_key_head_dim,
      nonneg_step o1 ''linear_value_head_dim'' mc_linear_value_head_dim_update mc_linear_value_head_dim,
      nonneg_step o1 ''linear_conv_kernel_dim'' mc_linear_conv_kernel_dim_update mc_linear_conv_kernel_dim,
      nonneg_step o1 ''full_attention_interval'' mc_full_attention_interval_update (\<lambda>_. 0),
      bool_step o1 ''attn_output_gate'' mc_attn_output_gate_update (\<lambda>_. False),
      dim_step o1 ''sliding_window_pattern'' mc_sliding_window_pattern_update mc_sliding_window_pattern,
      f32_step o1 ''rope_local_base_freq'' mc_rope_local_base_freq_update mc_rope_local_base_freq,
      bool_step o1 ''attention_bias'' mc_attention_bias_update (\<lambda>_. False)]"

text \<open>The alias for the experts per token, the alias for the number of experts and the bound on the layers.\<close>

definition experts_step :: "jval \<Rightarrow> step" where
  "experts_step o1 c =
     (let tke = yyjson_obj_get o1 ''top_k_experts'' in
      if yyjson_is_int tke
      then (if yyjson_get_sint tke < 0 \<or> INT_MAX < yyjson_get_sint tke then None else Some (c\<lparr>mc_num_experts_per_tok := yyjson_get_sint tke\<rparr>))
      else if tke = None \<or> yyjson_is_null tke then Some c else None)"

definition layers_step :: step where
  "layers_step c =
     (let c = upd_if (0 < mc_n_routed_experts c \<and> mc_num_experts c = 0) (mc_num_experts_update (\<lambda>_. mc_n_routed_experts c)) c in
      if int MLXD_MAX_LAYERS < mc_num_hidden_layers c then None else Some c)"

definition window_step :: "jval \<Rightarrow> step" where
  "window_step o1 c = (case yyjson_obj_get o1 ''sliding_window'' of
     None \<Rightarrow> Some c
   | Some JNull \<Rightarrow> Some (c\<lparr>mc_has_sliding_window := False\<rparr>)
   | Some (JInt n) \<Rightarrow>
       (let n = yyjson_get_sint (Some (JInt n)) in
        if n < 0 \<or> INT_MAX < n then None else Some (c\<lparr>mc_sliding_window := n, mc_has_sliding_window := True\<rparr>))
   | _ \<Rightarrow> None)"

definition rope_type_step :: "allocator \<Rightarrow> jval \<Rightarrow> step" where
  "rope_type_step mem rs c =
     (case (case yyjson_obj_get rs ''rope_type'' of None \<Rightarrow> yyjson_obj_get rs ''type'' | v \<Rightarrow> v) of
        None \<Rightarrow> Some c
      | Some v \<Rightarrow> (case yyjson_get_str (Some v) of
          None \<Rightarrow> None
        | Some s \<Rightarrow> map_option (\<lambda>t. c\<lparr>mc_rope_scaling_type := Some t\<rparr>) (c_strdup mem s)))"

definition rope_scaling_step :: "allocator \<Rightarrow> jval \<Rightarrow> step" where
  "rope_scaling_step mem o1 c =
     (let rs = yyjson_obj_get o1 ''rope_scaling'' in
      if rs = None \<or> yyjson_is_null rs then Some c
      else if \<not> yyjson_is_obj rs then None
      else all_steps [rope_type_step mem rs,
        f32_step rs ''factor'' mc_rope_scaling_factor_update mc_rope_scaling_factor,
        f32_step rs ''low_freq_factor'' mc_rope_low_freq_factor_update mc_rope_low_freq_factor,
        f32_step rs ''high_freq_factor'' mc_rope_high_freq_factor_update mc_rope_high_freq_factor,
        f32_step rs ''mscale_all_dim'' mc_rope_scaling_mscale_all_dim_update mc_rope_scaling_mscale_all_dim,
        nonneg_step rs ''original_max_position_embeddings'' mc_rope_original_max_position_embeddings_update (\<lambda>_. 0)] c)"

definition full_rope_step :: "jval \<Rightarrow> step" where
  "full_rope_step fa =
     all_steps ([f32_step fa ''rope_theta'' mc_rope_theta_update mc_rope_theta,
        f32_step fa ''partial_rotary_factor'' mc_partial_rotary_factor_global_update mc_partial_rotary_factor_global] @
       (if yyjson_get_str (yyjson_obj_get fa ''rope_type'') = Some ''proportional''
        then [\<lambda>c. Some (c\<lparr>mc_rope_proportional := True\<rparr>),
              f32_step fa ''factor'' mc_rope_proportional_factor_update mc_rope_proportional_factor] else []))"

definition rope_parameters_step :: "jval \<Rightarrow> step" where
  "rope_parameters_step o1 c =
     (let rp = yyjson_obj_get o1 ''rope_parameters''; fa = yyjson_obj_get rp ''full_attention''; sa = yyjson_obj_get rp ''sliding_attention'' in
      if yyjson_is_obj rp
      then all_steps ((if yyjson_is_obj fa then [full_rope_step fa] else []) @
             (if yyjson_is_obj sa then [f32_step sa ''rope_theta'' mc_rope_local_base_freq_update mc_rope_local_base_freq] else []) @
             (if yyjson_is_obj fa \<or> yyjson_is_obj sa then []
              else [f32_step rp ''rope_theta'' mc_rope_theta_update mc_rope_theta,
                    f32_step rp ''partial_rotary_factor'' mc_partial_rotary_factor_update mc_partial_rotary_factor])) c
      else if rp = None \<or> yyjson_is_null rp then Some c else None)"

definition layer_types_step :: "jval \<Rightarrow> step" where
  "layer_types_step o1 c = map_option (\<lambda>names.
     if yyjson_is_arr (yyjson_obj_get o1 ''layer_types'')
     then c\<lparr>mc_has_explicit_layer_types := True,
            mc_layer_is_global := map (\<lambda>s. s = ''full_attention'') names @ drop (length names) (mc_layer_is_global c)\<rparr> else c)
     (layer_names (yyjson_obj_get o1 ''layer_types''))"

definition gemma4_steps :: "jval \<Rightarrow> step list" where
  "gemma4_steps o1 =
     [nonneg_step o1 ''global_head_dim'' mc_global_head_dim_update (\<lambda>_. 0),
      nonneg_step o1 ''num_global_key_value_heads'' mc_num_global_key_value_heads_update (\<lambda>_. 0),
      nonneg_step o1 ''num_kv_shared_layers'' mc_num_kv_shared_layers_update (\<lambda>_. 0),
      bool_step o1 ''attention_k_eq_v'' mc_attention_k_eq_v_update (\<lambda>_. False),
      bool_step o1 ''use_double_wide_mlp'' mc_use_double_wide_mlp_update mc_use_double_wide_mlp,
      f32_step o1 ''final_logit_softcapping'' mc_final_logit_softcapping_update (\<lambda>_. Fin 0),
      nonneg_step o1 ''hidden_size_per_layer_input'' mc_hidden_size_per_layer_input_update (\<lambda>_. 0)]"

text \<open>The member of the nested configuration wins over the one of the root.\<close>

definition tie_step :: "jval \<Rightarrow> step" where
  "tie_step tc c = (case yyjson_obj_get tc ''tie_word_embeddings'' of
     None \<Rightarrow> Some c
   | Some tw \<Rightarrow> if yyjson_is_bool (Some tw) then Some (c\<lparr>mc_tie_word_embeddings := yyjson_get_bool (Some tw)\<rparr>) else None)"

definition position_step :: "jval \<Rightarrow> step" where
  "position_step rt c =
     (if mc_max_position_embeddings c = 0 then dim_step rt ''max_position_embeddings'' mc_max_position_embeddings_update (\<lambda>_. 0) c else Some c)"

definition quant_step :: "jval \<Rightarrow> step" where
  "quant_step rt c =
     (let q = yyjson_obj_get rt ''quantization'' in
      if q = None \<or> yyjson_is_null q then Some c
      else if \<not> yyjson_is_obj q then None
      else all_steps [nonneg_step q ''bits'' mc_quant_bits_update (\<lambda>_. 0),
        nonneg_step q ''group_size'' mc_quant_group_size_update mc_quant_group_size,
        \<lambda>c. case yyjson_obj_get q ''mode'' of
          None \<Rightarrow> Some c
        | Some m \<Rightarrow> if yyjson_get_str (Some m) = Some ''affine'' then Some (c\<lparr>mc_quant_mode := QUANT_MODE_AFFINE\<rparr>) else None] c)"

text \<open>The configuration object is the root, or its member for the text model.\<close>

definition load_steps :: "allocator \<Rightarrow> jval \<Rightarrow> jval \<Rightarrow> bool \<Rightarrow> step list" where
  "load_steps mem rt o1 has_text =
     core_steps o1 @ moe_steps o1 @ attention_steps o1 @
     [experts_step o1, layers_step, window_step o1, rope_scaling_step mem o1, rope_parameters_step o1, layer_types_step o1] @
     gemma4_steps o1 @
     [bool_step rt ''tie_word_embeddings'' mc_tie_word_embeddings_update (\<lambda>_. False)] @
     (if has_text then [tie_step o1, position_step rt] else []) @
     [quant_step rt, eos_step (yyjson_obj_get rt ''eos_token_id'')] @
     (if has_text then [eos_step (yyjson_obj_get o1 ''eos_token_id'')] else []) @
     [apply_family_defaults o1 has_text (yyjson_obj_get o1 ''sliding_window'' \<noteq> None)]"

text \<open>The first architecture, if it is a string.\<close>

definition architecture_step :: "allocator \<Rightarrow> jval \<Rightarrow> step" where
  "architecture_step mem rt c = (case yyjson_arr_items (yyjson_obj_get rt ''architectures'') of
     [] \<Rightarrow> Some c
   | first # _ \<Rightarrow> (case yyjson_get_str (Some first) of
       None \<Rightarrow> Some c
     | Some s \<Rightarrow> map_option (\<lambda>a. c\<lparr>mc_architectures := Some a\<rparr>) (c_strdup mem s)))"

definition config_of :: "allocator \<Rightarrow> jval \<Rightarrow> model_config option" where
  "config_of mem rt =
     (if \<not> yyjson_is_obj rt then None
      else case Option.bind (yyjson_get_str (yyjson_obj_get rt ''model_type'')) (c_strdup mem) of
        None \<Rightarrow> None
      | Some ty \<Rightarrow>
          let tc = yyjson_obj_get rt ''text_config''; has_text = yyjson_is_obj tc; o1 = (if has_text then tc else rt) in
          all_steps (architecture_step mem rt # load_steps mem rt o1 has_text) (config_defaults\<lparr>mc_model_type := ty\<rparr>))"

definition model_config_load :: "allocator \<Rightarrow> read_json \<Rightarrow> string option \<Rightarrow> model_config option" where
  "model_config_load mem rd model_dir = (case model_dir of
     None \<Rightarrow> None
   | Some dir \<Rightarrow> map_option (parse_generation_config mem rd dir) (config_of mem (read_in mem rd dir ''config.json'')))"

subsection \<open>Layers\<close>

text \<open>The remainder of C has the sign of the dividend.\<close>

definition c_rem :: "int \<Rightarrow> int \<Rightarrow> int" where
  "c_rem a b = sgn a * (\<bar>a\<bar> mod \<bar>b\<bar>)"

definition model_layer_is_global :: "model_config option \<Rightarrow> int \<Rightarrow> bool" where
  "model_layer_is_global cfg layer = (case cfg of
     None \<Rightarrow> True
   | Some c \<Rightarrow>
       if mc_has_explicit_layer_types c
       then (if layer < 0 \<or> int MLXD_MAX_LAYERS \<le> layer then True else mc_layer_is_global c ! nat layer)
       else if \<not> mc_has_sliding_window c then True
       else if mc_sliding_window_pattern c \<le> 0 then False
       else c_rem layer (mc_sliding_window_pattern c) = mc_sliding_window_pattern c - 1)"

definition model_layer_head_dim :: "model_config option \<Rightarrow> int \<Rightarrow> int" where
  "model_layer_head_dim cfg layer = (case cfg of
     None \<Rightarrow> 0
   | Some c \<Rightarrow> if 0 < mc_global_head_dim c \<and> model_layer_is_global cfg layer then mc_global_head_dim c else mc_head_dim c)"

definition model_layer_kv_heads :: "model_config option \<Rightarrow> int \<Rightarrow> int" where
  "model_layer_kv_heads cfg layer = (case cfg of
     None \<Rightarrow> 0
   | Some c \<Rightarrow>
       if mc_attention_k_eq_v c \<and> 0 < mc_num_global_key_value_heads c \<and> model_layer_is_global cfg layer
       then mc_num_global_key_value_heads c else mc_num_key_value_heads c)"

definition model_layer_kv_shared :: "model_config option \<Rightarrow> int \<Rightarrow> bool" where
  "model_layer_kv_shared cfg layer = (case cfg of
     None \<Rightarrow> False
   | Some c \<Rightarrow> if mc_num_kv_shared_layers c \<le> 0 then False else mc_num_hidden_layers c - mc_num_kv_shared_layers c \<le> layer)"

text \<open>The last layer at or below \<open>i\<close> of a kind.\<close>

fun last_layer :: "model_config option \<Rightarrow> bool \<Rightarrow> nat \<Rightarrow> int" where
  "last_layer cfg global 0 = - 1"
| "last_layer cfg global (Suc i) = (if model_layer_is_global cfg (int i) = global then int i else last_layer cfg global i)"

definition model_kv_source_layer :: "model_config option \<Rightarrow> int \<Rightarrow> int" where
  "model_kv_source_layer cfg layer = (case cfg of
     None \<Rightarrow> - 1
   | Some c \<Rightarrow>
       if mc_num_kv_shared_layers c \<le> 0 then - 1
       else let boundary = mc_num_hidden_layers c - mc_num_kv_shared_layers c in
         if layer < boundary then - 1 else last_layer cfg (model_layer_is_global cfg layer) (nat boundary))"

end
