(* ===== verification/ModelConfigSafe.thy ===== *)
theory ModelConfigSafe
  imports ModelConfig
begin

text \<open>
  A configuration that loads is well formed, and a layer that shares the keys and values of another one
  takes them from the last earlier layer of its kind.
\<close>

definition int_ok :: "int \<Rightarrow> bool" where
  "int_ok n \<longleftrightarrow> 0 \<le> n \<and> n \<le> INT_MAX"

definition gen_ok :: "gen_defaults \<Rightarrow> bool" where
  "gen_ok g \<longleftrightarrow>
     (has_gen_temperature g \<longrightarrow> cfloat_le (Fin 0) (gen_temperature g) \<and> cfloat_le (gen_temperature g) (Fin 2)) \<and>
     (has_gen_top_p g \<longrightarrow> cfloat_less (Fin 0) (gen_top_p g) \<and> cfloat_le (gen_top_p g) (Fin 1)) \<and>
     (has_gen_top_k g \<longrightarrow> 1 \<le> gen_top_k g \<and> gen_top_k g \<le> 1000)"

text \<open>What every step of the loader keeps.\<close>

definition config_ok :: "int \<Rightarrow> model_config \<Rightarrow> bool" where
  "config_ok N c \<longleftrightarrow> mc_num_hidden_layers c \<le> N \<and>
     int_ok (mc_vocab_size c) \<and> int_ok (mc_hidden_size c) \<and> int_ok (mc_num_hidden_layers c) \<and>
     int_ok (mc_num_attention_heads c) \<and> int_ok (mc_num_key_value_heads c) \<and> int_ok (mc_head_dim c) \<and>
     int_ok (mc_query_pre_attn_scalar c) \<and> int_ok (mc_sliding_window c) \<and> int_ok (mc_sliding_window_pattern c) \<and>
     int_ok (mc_num_experts c) \<and> int_ok (mc_n_routed_experts c) \<and> int_ok (mc_num_experts_per_tok c) \<and>
     int_ok (mc_global_head_dim c) \<and> int_ok (mc_num_global_key_value_heads c) \<and> int_ok (mc_num_kv_shared_layers c) \<and>
     int_ok (mc_lfm_conv_kernel c) \<and> cfloat_isfinite (mc_rope_theta c) \<and> cfloat_isfinite (mc_rope_local_base_freq c) \<and>
     cfloat_isfinite (mc_rope_scaling_factor c) \<and>
     length (mc_layer_is_global c) = MLXD_MAX_LAYERS \<and> length (mc_layer_kinds c) = MLXD_MAX_LAYERS \<and>
     length (mc_eos_token_ids c) \<le> MLXD_MAX_EOS_TOKENS \<and> distinct (mc_eos_token_ids c) \<and> gen_ok (mc_gen c)"

definition keeps :: "(model_config \<Rightarrow> bool) \<Rightarrow> step \<Rightarrow> bool" where
  "keeps P f \<longleftrightarrow> (\<forall>c c'. P c \<longrightarrow> f c = Some c' \<longrightarrow> P c')"

lemma keepsD: "keeps P f \<Longrightarrow> P c \<Longrightarrow> f c = Some c' \<Longrightarrow> P c'"
  by (simp add: keeps_def)

lemma keeps_all: "list_all (keeps P) fs \<Longrightarrow> keeps P (all_steps fs)"
proof (induction fs)
  case (Cons f fs)
  then have f: "keeps P f" and fs: "keeps P (all_steps fs)"
    by simp_all
  have "P c'" if p: "P c" and q: "all_steps (f # fs) c = Some c'" for c c'
  proof -
    obtain c1 where "f c = Some c1" "all_steps fs c1 = Some c'"
      using q by (cases "f c") simp_all
    then show ?thesis
      using keepsD [OF fs] keepsD [OF f p] by blast
  qed
  then show ?case
    unfolding keeps_def by blast
qed (simp add: keeps_def)

lemma all_steps_append: "all_steps (fs @ gs) c = Option.bind (all_steps fs c) (all_steps gs)"
proof (induction fs arbitrary: c)
  case (Cons f fs)
  then show ?case
    by (cases "f c") simp_all
qed simp

lemma get_int_ok: "get_int_from lo o1 key d = Some n \<Longrightarrow> 0 \<le> lo \<Longrightarrow> n = d \<or> int_ok n"
  by (auto simp: get_int_from_def Let_def int_ok_def split: if_splits)

lemma keeps_dim:
  assumes "\<And>c n. P c \<Longrightarrow> int_ok n \<or> n = d c \<Longrightarrow> P (upd (\<lambda>_. n) c)"
  shows "keeps P (dim_step o1 key upd d)" "keeps P (nonneg_step o1 key upd d)"
proof -
  have "P (upd (\<lambda>_. n) c)" if "P c" "get_int_from lo o1 key (d c) = Some n" "0 \<le> lo" for c n lo
    using assms [OF that(1), of n] get_int_ok [OF that(2,3)] by blast
  then show "keeps P (dim_step o1 key upd d)" "keeps P (nonneg_step o1 key upd d)"
    by (auto simp: keeps_def dim_step_def nonneg_step_def get_dim_int_def get_int_nonneg_def)
qed

lemma keeps_f32:
  assumes "\<And>c x. P c \<Longrightarrow> cfloat_isfinite x \<or> x = d c \<Longrightarrow> P (upd (\<lambda>_. x) c)"
  shows "keeps P (f32_step o1 key upd d)"
  using assms by (auto simp: keeps_def f32_step_def get_f32_def Let_def split: if_splits)

lemma keeps_bool: "(\<And>c b. P c \<Longrightarrow> P (upd (\<lambda>_. b) c)) \<Longrightarrow> keeps P (bool_step o1 key upd d)"
  by (auto simp: keeps_def bool_step_def)

lemmas keeps_steps = keeps_dim keeps_f32 keeps_bool

lemma int_okD: "int_ok n \<Longrightarrow> n \<le> INT_MAX"
  by (simp add: int_ok_def)

lemma INT_MAX_nonneg [simp]: "0 \<le> INT_MAX"
  by (simp add: INT_MAX_def)

lemma int_ok_simps [simp]: "int_ok 0" "int_ok 1" "int_ok 3" "int_ok 4" "int_ok 6" "int_ok 8" "int_ok 256" "int_ok 1024"
  by (simp_all add: int_ok_def INT_MAX_def)

lemma int_ok_div: "int_ok a \<Longrightarrow> 0 < b \<Longrightarrow> int_ok (a div b)"
proof -
  assume "int_ok a" "0 < b"
  then have "0 \<le> a div b" "a div b \<le> a"
    using zdiv_mono2 [of a 1 b] by (simp_all add: int_ok_def pos_imp_zdiv_nonneg_iff)
  then show "int_ok (a div b)"
    using \<open>int_ok a\<close> by (simp add: int_ok_def)
qed

subsection \<open>The steps keep the configuration well formed\<close>

lemma core_keeps: "list_all (keeps (config_ok INT_MAX)) (core_steps o1)"
  unfolding core_steps_def list.pred_inject
  by (intro conjI keeps_steps TrueI; auto simp: config_ok_def dest: int_okD)

lemma moe_keeps: "list_all (keeps (config_ok N)) (moe_steps o1)"
  unfolding moe_steps_def list.pred_inject
  by (intro conjI keeps_steps TrueI; auto simp: config_ok_def)

lemma attention_keeps: "list_all (keeps (config_ok N)) (attention_steps o1)"
  unfolding attention_steps_def list.pred_inject
  by (intro conjI keeps_steps TrueI; auto simp: config_ok_def)

lemma gemma4_keeps: "list_all (keeps (config_ok N)) (gemma4_steps o1)"
  unfolding gemma4_steps_def list.pred_inject
  by (intro conjI keeps_steps TrueI; auto simp: config_ok_def)

lemma keepsI: "(\<And>c c'. P c \<Longrightarrow> f c = Some c' \<Longrightarrow> P c') \<Longrightarrow> keeps P f"
  by (auto simp: keeps_def)

lemma experts_keeps: "keeps (config_ok N) (experts_step o1)"
proof (rule keepsI)
  fix c c' assume c: "config_ok N c" "experts_step o1 c = Some c'"
  have "c' = c \<or> (\<exists>n. int_ok n \<and> c' = c\<lparr>mc_num_experts_per_tok := n\<rparr>)"
    using c(2) unfolding experts_step_def Let_def int_ok_def by (metis not_less option.distinct(1) option.inject)
  then show "config_ok N c'"
    using c(1) by (auto simp: config_ok_def)
qed

lemma layers_bound: "config_ok N c \<Longrightarrow> layers_step c = Some c' \<Longrightarrow> config_ok (int MLXD_MAX_LAYERS) c'"
  by (auto simp: layers_step_def Let_def config_ok_def upd_if_def split: if_splits)

lemma window_step_cases:
  assumes "window_step o1 c = Some c'"
  shows "c' = c \<or> c' = c\<lparr>mc_has_sliding_window := False\<rparr> \<or>
    (\<exists>n. int_ok n \<and> c' = c\<lparr>mc_sliding_window := n, mc_has_sliding_window := True\<rparr>)"
proof (cases "yyjson_obj_get o1 ''sliding_window''")
  case None
  then show ?thesis
    using assms by (simp add: window_step_def)
next
  case (Some v)
  show ?thesis
  proof (cases v)
    case (JInt n)
    define k where "k = yyjson_get_sint (Some (JInt n))"
    have "window_step o1 c = (if k < 0 \<or> INT_MAX < k then None else Some (c\<lparr>mc_sliding_window := k, mc_has_sliding_window := True\<rparr>))"
      by (simp add: window_step_def Some JInt Let_def k_def)
    then have "int_ok k \<and> c' = c\<lparr>mc_sliding_window := k, mc_has_sliding_window := True\<rparr>"
      using assms by (simp add: int_ok_def split: if_splits)
    then show ?thesis
      by blast
  qed (use assms Some in \<open>simp_all add: window_step_def\<close>)
qed

lemma window_keeps: "keeps (config_ok N) (window_step o1)"
  by (rule keepsI) (auto simp: config_ok_def dest!: window_step_cases)

lemma rope_type_keeps: "keeps (config_ok N) (rope_type_step mem rs)"
  by (rule keepsI) (auto simp: rope_type_step_def config_ok_def split: option.splits)

lemma rope_scaling_keeps: "keeps (config_ok N) (rope_scaling_step mem o1)"
proof (rule keepsI)
  fix c c' assume c: "config_ok N c" "rope_scaling_step mem o1 c = Some c'"
  have "list_all (keeps (config_ok N)) [rope_type_step mem rs,
        f32_step rs ''factor'' mc_rope_scaling_factor_update mc_rope_scaling_factor,
        f32_step rs ''low_freq_factor'' mc_rope_low_freq_factor_update mc_rope_low_freq_factor,
        f32_step rs ''high_freq_factor'' mc_rope_high_freq_factor_update mc_rope_high_freq_factor,
        f32_step rs ''mscale_all_dim'' mc_rope_scaling_mscale_all_dim_update mc_rope_scaling_mscale_all_dim,
        nonneg_step rs ''original_max_position_embeddings'' mc_rope_original_max_position_embeddings_update (\<lambda>_. 0)]" for rs
    unfolding list.pred_inject
    by (intro conjI rope_type_keeps keeps_steps TrueI; auto simp: config_ok_def)
  from keepsD [OF keeps_all [OF this] c(1)] show "config_ok N c'"
    using c by (auto simp: rope_scaling_step_def Let_def simp del: all_steps.simps split: if_splits)
qed

lemma full_rope_keeps: "keeps (config_ok N) (full_rope_step fa)"
proof -
  have "keeps (config_ok N) (\<lambda>c. Some (c\<lparr>mc_rope_proportional := True\<rparr>))"
    by (rule keepsI) (auto simp: config_ok_def)
  then show ?thesis
    unfolding full_rope_step_def
    by (intro keeps_all) (auto simp: config_ok_def intro!: keeps_steps)
qed

lemma rope_parameters_keeps: "keeps (config_ok N) (rope_parameters_step o1)"
proof (rule keepsI)
  fix c c' assume c: "config_ok N c" "rope_parameters_step o1 c = Some c'"
  let ?rp = "yyjson_obj_get o1 ''rope_parameters''"
  let ?fs = "(if yyjson_is_obj (yyjson_obj_get ?rp ''full_attention'') then [full_rope_step (yyjson_obj_get ?rp ''full_attention'')] else []) @
    (if yyjson_is_obj (yyjson_obj_get ?rp ''sliding_attention'')
     then [f32_step (yyjson_obj_get ?rp ''sliding_attention'') ''rope_theta'' mc_rope_local_base_freq_update mc_rope_local_base_freq] else []) @
    (if yyjson_is_obj (yyjson_obj_get ?rp ''full_attention'') \<or> yyjson_is_obj (yyjson_obj_get ?rp ''sliding_attention'') then []
     else [f32_step ?rp ''rope_theta'' mc_rope_theta_update mc_rope_theta,
           f32_step ?rp ''partial_rotary_factor'' mc_partial_rotary_factor_update mc_partial_rotary_factor])"
  have "list_all (keeps (config_ok N)) ?fs"
    by (auto simp: config_ok_def intro!: full_rope_keeps keeps_steps)
  from keepsD [OF keeps_all [OF this] c(1)] show "config_ok N c'"
    using c unfolding rope_parameters_step_def Let_def by (metis option.distinct(1) option.inject)
qed

lemma layer_names_length: "layer_names v = Some names \<Longrightarrow> length names \<le> MLXD_MAX_LAYERS"
  by (auto simp: layer_names_def Let_def split: option.splits json.splits if_splits)

lemma layer_types_keeps: "keeps (config_ok N) (layer_types_step o1)"
  by (rule keepsI) (auto simp: layer_types_step_def config_ok_def dest: layer_names_length)

lemma tie_keeps: "keeps (config_ok N) (tie_step tc)"
  by (rule keepsI) (auto simp: tie_step_def config_ok_def split: option.splits if_splits)

lemma position_keeps: "keeps (config_ok N) (position_step rt)"
proof -
  have "keeps (config_ok N) (dim_step rt ''max_position_embeddings'' mc_max_position_embeddings_update (\<lambda>_. 0))"
    by (intro keeps_steps) (auto simp: config_ok_def)
  then show ?thesis
    by (auto simp: keeps_def position_step_def)
qed

lemma quant_keeps: "keeps (config_ok N) (quant_step rt)"
proof (rule keepsI)
  fix c c' assume c: "config_ok N c" "quant_step rt c = Some c'"
  have "list_all (keeps (config_ok N)) [nonneg_step q ''bits'' mc_quant_bits_update (\<lambda>_. 0),
        nonneg_step q ''group_size'' mc_quant_group_size_update mc_quant_group_size,
        \<lambda>c. case yyjson_obj_get q ''mode'' of
          None \<Rightarrow> Some c
        | Some m \<Rightarrow> if yyjson_get_str (Some m) = Some ''affine'' then Some (c\<lparr>mc_quant_mode := QUANT_MODE_AFFINE\<rparr>) else None]" for q
    unfolding list.pred_inject
    by (intro conjI keeps_steps TrueI; auto simp: config_ok_def keeps_def split: option.splits if_splits)
  from keepsD [OF keeps_all [OF this] c(1)] show "config_ok N c'"
    using c by (auto simp: quant_step_def Let_def simp del: all_steps.simps split: if_splits)
qed

lemma add_eos_ok: "length eos \<le> MLXD_MAX_EOS_TOKENS \<and> distinct eos \<Longrightarrow> length (add_eos i eos) \<le> MLXD_MAX_EOS_TOKENS \<and> distinct (add_eos i eos)"
  by (auto simp: add_eos_def)

lemma eos_items_ok: "length eos \<le> MLXD_MAX_EOS_TOKENS \<and> distinct eos \<Longrightarrow>
    length (fst (eos_items items eos)) \<le> MLXD_MAX_EOS_TOKENS \<and> distinct (fst (eos_items items eos))"
proof (induction items arbitrary: eos)
  case (Cons item items)
  then show ?case
    using add_eos_ok [OF Cons.prems] by (auto split: option.split)
qed simp

lemma parse_eos_ok: "length eos \<le> MLXD_MAX_EOS_TOKENS \<and> distinct eos \<Longrightarrow>
    length (fst (parse_eos_value v eos)) \<le> MLXD_MAX_EOS_TOKENS \<and> distinct (fst (parse_eos_value v eos))"
  using eos_items_ok by (auto simp: parse_eos_value_def simp del: eos_items.simps split: option.split json.split)

lemma eos_keeps: "keeps (config_ok N) (eos_step v)"
proof (rule keepsI)
  fix c c' assume c: "config_ok N c" "eos_step v c = Some c'"
  then have "c' = c\<lparr>mc_eos_token_ids := fst (parse_eos_value v (mc_eos_token_ids c))\<rparr>"
    by (auto simp: eos_step_def split: prod.splits bool.splits)
  then show "config_ok N c'"
    using c(1) parse_eos_ok [of "mc_eos_token_ids c" v] by (simp add: config_ok_def)
qed

subsection \<open>Families\<close>

text \<open>Updates of members that are not constrained, and of the constrained ones.\<close>

lemma config_ok_other [simp]:
  "config_ok N (c\<lparr>mc_model_type := s\<rparr>) = config_ok N c" "config_ok N (c\<lparr>mc_family := fam\<rparr>) = config_ok N c"
  "config_ok N (c\<lparr>mc_architectures := arch\<rparr>) = config_ok N c" "config_ok N (c\<lparr>mc_weight_prefix := s\<rparr>) = config_ok N c"
  "config_ok N (c\<lparr>mc_norm_has_offset := b\<rparr>) = config_ok N c" "config_ok N (c\<lparr>mc_scale_embeddings := b\<rparr>) = config_ok N c"
  "config_ok N (c\<lparr>mc_has_pre_ff_norm := b\<rparr>) = config_ok N c" "config_ok N (c\<lparr>mc_has_qk_norm := b\<rparr>) = config_ok N c"
  "config_ok N (c\<lparr>mc_hidden_act := h\<rparr>) = config_ok N c" "config_ok N (c\<lparr>mc_tie_word_embeddings := b\<rparr>) = config_ok N c"
  "config_ok N (c\<lparr>mc_has_sliding_window := b\<rparr>) = config_ok N c" "config_ok N (c\<lparr>mc_attention_bias := b\<rparr>) = config_ok N c"
  "config_ok N (c\<lparr>mc_attn_output_gate := b\<rparr>) = config_ok N c" "config_ok N (c\<lparr>mc_has_hybrid_layers := b\<rparr>) = config_ok N c"
  "config_ok N (c\<lparr>mc_has_v_norm := b\<rparr>) = config_ok N c" "config_ok N (c\<lparr>mc_attn_scale_one := b\<rparr>) = config_ok N c"
  by (simp_all add: config_ok_def)

lemma config_ok_more [simp]:
  "config_ok N (c\<lparr>mc_final_logit_softcapping := x\<rparr>) = config_ok N c" "config_ok N (c\<lparr>mc_hidden_size_per_layer_input := n\<rparr>) = config_ok N c"
  "config_ok N (c\<lparr>mc_rms_norm_eps := x\<rparr>) = config_ok N c" "config_ok N (c\<lparr>mc_layer_norm_eps := x\<rparr>) = config_ok N c"
  "config_ok N (c\<lparr>mc_type_vocab_size := n\<rparr>) = config_ok N c" "config_ok N (c\<lparr>mc_is_encoder_only := b\<rparr>) = config_ok N c"
  "config_ok N (c\<lparr>mc_mamba_mlp_act := h\<rparr>) = config_ok N c" "config_ok N (c\<lparr>mc_time_step_min := x\<rparr>) = config_ok N c"
  "config_ok N (c\<lparr>mc_time_step_max := x\<rparr>) = config_ok N c" "config_ok N (c\<lparr>mc_routed_scaling_factor := x\<rparr>) = config_ok N c"
  "config_ok N (c\<lparr>mc_norm_topk_prob := b\<rparr>) = config_ok N c"
  by (simp_all add: config_ok_def)

lemma config_ok_upd [simp]:
  "config_ok N c \<Longrightarrow> int_ok n \<Longrightarrow> config_ok N (c\<lparr>mc_num_attention_heads := n\<rparr>)"
  "config_ok N c \<Longrightarrow> int_ok n \<Longrightarrow> config_ok N (c\<lparr>mc_num_key_value_heads := n\<rparr>)"
  "config_ok N c \<Longrightarrow> int_ok n \<Longrightarrow> config_ok N (c\<lparr>mc_head_dim := n\<rparr>)"
  "config_ok N c \<Longrightarrow> int_ok n \<Longrightarrow> config_ok N (c\<lparr>mc_query_pre_attn_scalar := n\<rparr>)"
  "config_ok N c \<Longrightarrow> int_ok n \<Longrightarrow> config_ok N (c\<lparr>mc_sliding_window := n\<rparr>)"
  "config_ok N c \<Longrightarrow> int_ok n \<Longrightarrow> config_ok N (c\<lparr>mc_sliding_window_pattern := n\<rparr>)"
  "config_ok N c \<Longrightarrow> int_ok n \<Longrightarrow> config_ok N (c\<lparr>mc_lfm_conv_kernel := n\<rparr>)"
  "config_ok N c \<Longrightarrow> cfloat_isfinite x \<Longrightarrow> config_ok N (c\<lparr>mc_rope_local_base_freq := x\<rparr>)"
  "config_ok N c \<Longrightarrow> cfloat_isfinite x \<Longrightarrow> config_ok N (c\<lparr>mc_rope_scaling_factor := x\<rparr>)"
  "config_ok N c \<Longrightarrow> length ks = MLXD_MAX_LAYERS \<Longrightarrow> config_ok N (c\<lparr>mc_layer_kinds := ks\<rparr>)"
  by (simp_all add: config_ok_def)

lemma config_okD:
  assumes "config_ok N c"
  shows "int_ok (mc_hidden_size c)" "int_ok (mc_head_dim c)" "int_ok (mc_num_attention_heads c)" "int_ok (mc_sliding_window c)"
    "cfloat_isfinite (mc_rope_theta c)" "length (mc_layer_kinds c) = MLXD_MAX_LAYERS"
  using assms by (simp_all add: config_ok_def)

lemma upd_if_ok: "config_ok N c \<Longrightarrow> (\<And>c. config_ok N c \<Longrightarrow> config_ok N (f c)) \<Longrightarrow> config_ok N (upd_if b f c)"
  by (simp add: upd_if_def)

lemma derive_head_dim_ok: "config_ok N c \<Longrightarrow> config_ok N (derive_head_dim c)"
  by (simp add: derive_head_dim_def int_ok_div config_okD)

lemma derive_query_ok: "config_ok N c \<Longrightarrow> config_ok N (derive_query_scalar o1 c)"
  by (simp add: derive_query_scalar_def config_okD)

lemma default_window_ok: "config_ok N c \<Longrightarrow> config_ok N (default_window b c)"
  by (simp add: default_window_def config_okD)

lemma gemma3_rope_ok: "config_ok N c \<Longrightarrow> config_ok N (gemma3_rope o1 c)"
  by (simp add: gemma3_rope_def Let_def)

lemma terminators_ok: "config_ok N c \<Longrightarrow> config_ok N (ensure_gemma_terminators c)"
  using add_eos_ok [OF add_eos_ok, of "mc_eos_token_ids c" 106 1] by (simp add: ensure_gemma_terminators_def config_ok_def)

lemmas family_ok = upd_if_ok derive_head_dim_ok derive_query_ok default_window_ok gemma3_rope_ok terminators_ok

lemma hidden_act_keeps: "keeps (config_ok N) (apply_hidden_act_string o1)"
  by (rule keepsI) (auto simp: apply_hidden_act_string_def split: option.splits if_splits)

lemma llama_keeps: "keeps (config_ok N) (set_llama_style_defaults o1)"
proof (rule keepsI)
  fix c c' assume c: "config_ok N c" "set_llama_style_defaults o1 c = Some c'"
  have "config_ok N (upd_if (absent o1 ''head_dim'') derive_head_dim
      (c\<lparr>mc_weight_prefix := ''model'', mc_norm_has_offset := False, mc_scale_embeddings := False, mc_has_pre_ff_norm := False,
         mc_has_qk_norm := False, mc_rope_local_base_freq := mc_rope_theta c\<rparr>))"
    using c(1) by (intro family_ok) (simp_all add: config_okD)
  from keepsD [OF hidden_act_keeps this] show "config_ok N c'"
    using c(2) by (auto simp: set_llama_style_defaults_def Let_def intro!: derive_query_ok)
qed

lemma gemma3_keeps: "keeps (config_ok N) (gemma3_defaults o1 has_text key)"
  by (rule keepsI) (auto simp: gemma3_defaults_def Let_def intro!: family_ok)

lemma gemma4_keeps_family: "keeps (config_ok N) (gemma4_defaults o1 key)"
proof (rule keepsI)
  fix c c' assume c: "config_ok N c" "gemma4_defaults o1 key c = Some c'"
  then obtain c1 where c1: "apply_hidden_act_string o1
      (c\<lparr>mc_weight_prefix := ''language_model.model'', mc_hidden_act := HIDDEN_ACT_GELU_APPROX\<rparr>) = Some c1"
    by (auto simp: gemma4_defaults_def split: option.splits)
  have "config_ok N (c\<lparr>mc_weight_prefix := ''language_model.model'', mc_hidden_act := HIDDEN_ACT_GELU_APPROX\<rparr>)"
    using c(1) by simp
  from keepsD [OF hidden_act_keeps this c1] have "config_ok N c1" .
  then show "config_ok N c'"
    using c(2) by (auto simp: gemma4_defaults_def c1 Let_def intro!: family_ok)
qed

lemma qwen3_5_keeps: "keeps (config_ok N) (qwen3_5_defaults o1 has_text)"
proof (rule keepsI)
  fix c c' assume c: "config_ok N c" "qwen3_5_defaults o1 has_text c = Some c'"
  define c1 where "c1 = upd_if (absent o1 ''attn_output_gate'') (mc_attn_output_gate_update (\<lambda>_. True))
     (c\<lparr>mc_weight_prefix := (if has_text then ''language_model.model'' else ''model''), mc_norm_has_offset := False,
        mc_scale_embeddings := False, mc_has_pre_ff_norm := False, mc_has_qk_norm := True, mc_hidden_act := HIDDEN_ACT_SILU,
        mc_has_sliding_window := False\<rparr>)"
  have "config_ok N c1"
    unfolding c1_def using c(1) by (intro family_ok) simp_all
  then have "config_ok N (c1\<lparr>mc_rope_scaling_factor := Fin 1, mc_rope_local_base_freq := mc_rope_theta c1\<rparr>)"
    by (simp add: config_okD)
  then show "config_ok N c'"
    using c(2) unfolding qwen3_5_defaults_def Let_def c1_def [symmetric]
    by (auto intro!: family_ok)
qed

lemma alt_eps_keeps: "keeps (config_ok N) (alt_eps o1 key strict)"
  by (rule keepsI) (auto simp: alt_eps_def Let_def split: if_splits)

lemma lfm2_parts_keep: "keeps (config_ok N) (lfm2_tie o1)" "keeps (config_ok N) (lfm2_kernel o1)" "keeps (config_ok N) (lfm2_layers o1)"
proof -
  show "keeps (config_ok N) (lfm2_tie o1)"
    by (rule keepsI) (auto simp: lfm2_tie_def split: option.splits if_splits)
  show "keeps (config_ok N) (lfm2_kernel o1)"
  proof (rule keepsI)
    fix c c' assume c: "config_ok N c" "lfm2_kernel o1 c = Some c'"
    then obtain n where n: "get_int_nonneg o1 ''conv_L_cache'' (mc_lfm_conv_kernel c) = Some n"
      "c' = (if 0 < n then c\<lparr>mc_lfm_conv_kernel := n\<rparr> else c)"
      by (auto simp: lfm2_kernel_def)
    then have "int_ok n"
      using get_int_ok [of 0] c(1) by (auto simp: get_int_nonneg_def config_ok_def)
    then show "config_ok N c'"
      using n c(1) by simp
  qed
  show "keeps (config_ok N) (lfm2_layers o1)"
    by (rule keepsI) (auto simp: lfm2_layers_def config_okD dest: layer_names_length)
qed

lemma lfm2_keeps: "keeps (config_ok N) (lfm2_defaults o1 has_text)"
proof (rule keepsI)
  fix c c' assume c: "config_ok N c" "lfm2_defaults o1 has_text c = Some c'"
  have fs: "list_all (keeps (config_ok N)) [lfm2_tie o1, alt_eps o1 ''norm_eps'' True,
      nonneg_step o1 ''conv_dim'' mc_lfm_conv_dim_update mc_lfm_conv_dim, lfm2_kernel o1, lfm2_layers o1]"
    unfolding list.pred_inject
    by (intro conjI lfm2_parts_keep alt_eps_keeps keeps_steps TrueI) (auto simp: config_ok_def)
  define c1 where "c1 = upd_if (mc_head_dim c = 0) derive_head_dim
     (c\<lparr>mc_weight_prefix := (if has_text then ''language_model.model'' else ''model''), mc_hidden_act := HIDDEN_ACT_SILU,
                mc_norm_has_offset := False, mc_scale_embeddings := False, mc_has_pre_ff_norm := False, mc_has_qk_norm := True,
                mc_has_sliding_window := False, mc_has_hybrid_layers := True, mc_rope_scaling_factor := Fin 1,
                mc_rope_local_base_freq := mc_rope_theta c\<rparr>)"
  have "config_ok N c1"
    unfolding c1_def using c(1) by (intro family_ok) (simp_all add: config_okD)
  then have "config_ok N (c1\<lparr>mc_query_pre_attn_scalar := mc_head_dim c1, mc_tie_word_embeddings := True\<rparr>)"
    by (simp add: config_okD)
  from keepsD [OF keeps_all [OF fs] this] show "config_ok N c'"
    using c(2) by (simp add: lfm2_defaults_def Let_def c1_def del: all_steps.simps)
qed

lemma nemotron_parts_keep: "keeps (config_ok N) (nemotron_time o1)" "keeps (config_ok N) (nemotron_layers o1)"
proof -
  show "keeps (config_ok N) (nemotron_time o1)"
    by (rule keepsI) (auto simp: nemotron_time_def split: option.splits json.splits list.splits if_splits)
  show "keeps (config_ok N) (nemotron_layers o1)"
    by (rule keepsI) (auto simp: nemotron_layers_def Let_def config_okD split: option.splits)
qed

lemma nemotron_keeps: "keeps (config_ok N) (nemotron_defaults o1)"
proof (rule keepsI)
  fix c c' assume c: "config_ok N c" "nemotron_defaults o1 c = Some c'"
  have fs: "list_all (keeps (config_ok N)) [alt_eps o1 ''layer_norm_epsilon'' False,
           nonneg_step o1 ''mamba_num_heads'' mc_mamba_num_heads_update mc_mamba_num_heads,
           nonneg_step o1 ''mamba_head_dim'' mc_mamba_head_dim_update mc_mamba_head_dim,
           nonneg_step o1 ''n_groups'' mc_mamba_n_groups_update mc_mamba_n_groups,
           nonneg_step o1 ''ssm_state_size'' mc_ssm_state_size_update mc_ssm_state_size,
           nonneg_step o1 ''conv_kernel'' mc_mamba_conv_kernel_update mc_mamba_conv_kernel,
           nonneg_step o1 ''expand'' mc_mamba_expand_update mc_mamba_expand,
           nonneg_step o1 ''chunk_size'' mc_mamba_chunk_size_update mc_mamba_chunk_size,
           nemotron_time o1, nemotron_layers o1]"
    unfolding list.pred_inject
    by (intro conjI nemotron_parts_keep alt_eps_keeps keeps_steps TrueI) (auto simp: config_ok_def)
  have "config_ok N (c\<lparr>mc_weight_prefix := ''backbone'', mc_hidden_act := HIDDEN_ACT_SILU, mc_mamba_mlp_act := HIDDEN_ACT_RELU_SQ,
                mc_norm_has_offset := False, mc_scale_embeddings := False, mc_has_pre_ff_norm := False, mc_has_qk_norm := False,
                mc_has_sliding_window := False, mc_has_hybrid_layers := True, mc_rope_scaling_factor := Fin 1,
                mc_rope_local_base_freq := mc_rope_theta c, mc_query_pre_attn_scalar := mc_head_dim c\<rparr>)"
    using c(1) by (simp add: config_okD)
  from keepsD [OF keeps_all [OF fs] this] show "config_ok N c'"
    using c(2) by (simp add: nemotron_defaults_def Let_def del: all_steps.simps)
qed

lemma deepseek_keeps: "keeps (config_ok N) (deepseek_defaults o1)"
  by (rule keepsI) (auto simp: deepseek_defaults_def intro!: upd_if_ok dest: keepsD [OF llama_keeps])

lemma bert_keeps: "keeps (config_ok N) (bert_defaults o1)"
proof (rule keepsI)
  fix c c' assume c: "config_ok N c" "bert_defaults o1 c = Some c'"
  have fs: "list_all (keeps (config_ok N)) [bert_eps o1, bert_types o1]"
    by (auto simp: bert_eps_def bert_types_def Let_def intro!: keepsI split: if_splits)
  define c1 where "c1 = derive_head_dim (c\<lparr>mc_is_encoder_only := True, mc_weight_prefix := [], mc_hidden_act := HIDDEN_ACT_GELU_APPROX,
                mc_tie_word_embeddings := True, mc_has_sliding_window := False, mc_has_pre_ff_norm := False, mc_has_qk_norm := False,
                mc_scale_embeddings := False, mc_norm_has_offset := False\<rparr>)"
  have "config_ok N c1"
    unfolding c1_def using c(1) by (intro family_ok) simp
  then have "config_ok N (c1\<lparr>mc_num_key_value_heads := mc_num_attention_heads c1, mc_query_pre_attn_scalar := mc_head_dim c1\<rparr>)"
    by (simp add: config_okD)
  from keepsD [OF keeps_all [OF fs] this] show "config_ok N c'"
    using c(2) by (simp add: bert_defaults_def Let_def c1_def del: all_steps.simps)
qed

lemma keeps_map: "keeps P f \<Longrightarrow> (\<And>c. P c \<Longrightarrow> P (g c)) \<Longrightarrow> keeps P (\<lambda>c. map_option g (f c))"
  by (auto simp: keeps_def)

lemma family_keeps: "keeps (config_ok N) (family_defaults fam o1 has_text key)"
  unfolding family_defaults_def
  by (cases fam) (auto intro!: keeps_map upd_if_ok llama_keeps gemma3_keeps gemma4_keeps_family qwen3_5_keeps lfm2_keeps
      nemotron_keeps deepseek_keeps bert_keeps)

lemma apply_family_keeps: "keeps (config_ok N) (apply_family_defaults o1 has_text key)"
  by (rule keepsI) (auto simp: apply_family_defaults_def Let_def dest!: keepsD [OF family_keeps, rotated])

subsection \<open>Loading\<close>

lemma architecture_keeps: "keeps (config_ok N) (architecture_step mem rt)"
  by (rule keepsI) (auto simp: architecture_step_def split: list.splits option.splits)

lemma generation_ok: "config_ok N c \<Longrightarrow> config_ok N (parse_generation_config mem rd dir c)"
proof -
  have t: "gen_ok g \<Longrightarrow> gen_ok (gen_temperature_of v g)" and p: "gen_ok g \<Longrightarrow> gen_ok (gen_top_p_of v g)"
    and k: "gen_ok g \<Longrightarrow> gen_ok (gen_top_k_of v g)" for v g
    by (auto simp: gen_ok_def gen_temperature_of_def gen_top_p_of_def gen_top_k_of_def Let_def)
  show "config_ok N c \<Longrightarrow> config_ok N (parse_generation_config mem rd dir c)"
    using parse_eos_ok [of "mc_eos_token_ids c"]
    by (simp add: parse_generation_config_def Let_def config_ok_def t p k)
qed

lemma defaults_ok: "config_ok INT_MAX config_defaults"
  by (simp add: config_ok_def config_defaults_def gen_ok_def INT_MAX_def)

lemma early_keeps: "keeps (config_ok INT_MAX) (all_steps (architecture_step mem rt # core_steps o1 @ moe_steps o1 @ attention_steps o1 @ [experts_step o1]))"
  by (intro keeps_all) (simp add: architecture_keeps core_keeps moe_keeps attention_keeps experts_keeps)

lemma late_keeps: "keeps (config_ok N) (all_steps (
     [window_step o1, rope_scaling_step mem o1, rope_parameters_step o1, layer_types_step o1] @
     gemma4_steps o1 @
     [bool_step rt ''tie_word_embeddings'' mc_tie_word_embeddings_update (\<lambda>_. False)] @
     (if has_text then [tie_step o1, position_step rt] else []) @
     [quant_step rt, eos_step (yyjson_obj_get rt ''eos_token_id'')] @
     (if has_text then [eos_step (yyjson_obj_get o1 ''eos_token_id'')] else []) @
     [apply_family_defaults o1 has_text key]))"
  by (intro keeps_all)
    (simp add: window_keeps rope_scaling_keeps rope_parameters_keeps layer_types_keeps gemma4_keeps tie_keeps position_keeps
      quant_keeps eos_keeps apply_family_keeps keeps_bool)

lemma load_split: "architecture_step mem rt # load_steps mem rt o1 has_text =
    (architecture_step mem rt # core_steps o1 @ moe_steps o1 @ attention_steps o1 @ [experts_step o1]) @ layers_step #
    ([window_step o1, rope_scaling_step mem o1, rope_parameters_step o1, layer_types_step o1] @
     gemma4_steps o1 @
     [bool_step rt ''tie_word_embeddings'' mc_tie_word_embeddings_update (\<lambda>_. False)] @
     (if has_text then [tie_step o1, position_step rt] else []) @
     [quant_step rt, eos_step (yyjson_obj_get rt ''eos_token_id'')] @
     (if has_text then [eos_step (yyjson_obj_get o1 ''eos_token_id'')] else []) @
     [apply_family_defaults o1 has_text (yyjson_obj_get o1 ''sliding_window'' \<noteq> None)])"
  by (simp add: load_steps_def)

lemma steps_ok:
  assumes "config_ok INT_MAX c" "all_steps (architecture_step mem rt # load_steps mem rt o1 has_text) c = Some c'"
  shows "config_ok (int MLXD_MAX_LAYERS) c'"
proof -
  from assms(2) obtain c1 c2 where
    c1: "all_steps (architecture_step mem rt # core_steps o1 @ moe_steps o1 @ attention_steps o1 @ [experts_step o1]) c = Some c1"
    and c2: "layers_step c1 = Some c2"
    and c': "all_steps ([window_step o1, rope_scaling_step mem o1, rope_parameters_step o1, layer_types_step o1] @
     gemma4_steps o1 @
     [bool_step rt ''tie_word_embeddings'' mc_tie_word_embeddings_update (\<lambda>_. False)] @
     (if has_text then [tie_step o1, position_step rt] else []) @
     [quant_step rt, eos_step (yyjson_obj_get rt ''eos_token_id'')] @
     (if has_text then [eos_step (yyjson_obj_get o1 ''eos_token_id'')] else []) @
     [apply_family_defaults o1 has_text (yyjson_obj_get o1 ''sliding_window'' \<noteq> None)]) c2 = Some c'"
    unfolding load_split all_steps_append all_steps.simps(2) [of layers_step]
    by (auto simp: bind_eq_Some_conv simp del: all_steps.simps append.simps split: option.splits)
  show ?thesis
    using keepsD [OF late_keeps layers_bound [OF keepsD [OF early_keeps assms(1) c1] c2] c'] .
qed

lemma config_of_ok: "config_of mem rt = Some c \<Longrightarrow> config_ok (int MLXD_MAX_LAYERS) c"
proof -
  assume c: "config_of mem rt = Some c"
  then obtain ty where ty: "Option.bind (yyjson_get_str (yyjson_obj_get rt ''model_type'')) (c_strdup mem) = Some ty"
    by (auto simp: config_of_def split: if_splits option.splits)
  have "config_ok INT_MAX (config_defaults\<lparr>mc_model_type := ty\<rparr>)"
    using defaults_ok by simp
  from steps_ok [OF this] show ?thesis
    using c unfolding config_of_def ty Let_def option.case by (metis option.distinct(1))
qed

text \<open>C39. Whatever a model directory holds: a configuration that loads has at most 128 layers, sizes and head counts that are
  natural numbers of an \<open>int\<close>, finite rotary frequencies, full tables of layer kinds, at most eight different end tokens
  and sampling defaults within their ranges.\<close>

theorem model_config_load_ok:
  assumes "model_config_load mem rd model_dir = Some c"
  shows "config_ok (int MLXD_MAX_LAYERS) c"
  using assms generation_ok config_of_ok by (auto simp: model_config_load_def split: option.splits)

definition sample_read :: read_json where
  "sample_read path = (if path = ''m/config.json''
     then Some (JObj [(''model_type'', JStr ''qwen2''), (''num_hidden_layers'', JInt 2), (''hidden_size'', JInt 64)]) else None)"

lemma sample_config_loads: "\<exists>c. model_config_load (\<lambda>_. True) sample_read (Some ''m'') = Some c"
proof -
  have "\<exists>c. config_of (\<lambda>_. True) (sample_read ''m/config.json'') = Some c"
    apply (simp add: config_of_def sample_read_def c_strdup_def)
    apply (simp add: load_steps_def core_steps_def moe_steps_def attention_steps_def gemma4_steps_def architecture_step_def
      experts_step_def dim_step_def nonneg_step_def f32_step_def bool_step_def get_dim_int_def get_int_nonneg_def get_int_from_def
      get_f32_def get_bool_def)
    apply (simp add: INT_MAX_def upd_if_def layers_step_def MLXD_MAX_LAYERS_def window_step_def rope_scaling_step_def
      rope_parameters_step_def layer_types_step_def layer_names_def quant_step_def eos_step_def parse_eos_value_def
      apply_family_defaults_def c_str_def model_family_from_type_def family_defaults_def set_llama_style_defaults_def
      apply_hidden_act_string_def)
    apply (simp add: Let_def)
    done
  then show ?thesis
    by (simp add: model_config_load_def read_in_def config_path_def)
qed

theorem model_config_load_ok_witness:
  "\<exists>c. model_config_load (\<lambda>_. True) sample_read (Some ''m'') = Some c \<and> config_ok (int MLXD_MAX_LAYERS) c"
  using model_config_load_ok sample_config_loads by blast

subsection \<open>Two members the families treat in their own way\<close>

text \<open>A null \<open>head_dim\<close> reads as 0 and is not derived; a tie that the file forbids is made all the same.\<close>

lemma null_head_dim:
  assumes "yyjson_obj_get o1 ''head_dim'' = Some JNull" "set_llama_style_defaults o1 c = Some c'"
  shows "get_dim_int o1 ''head_dim'' 0 = Some 0" "mc_head_dim c' = mc_head_dim c"
proof -
  show "get_dim_int o1 ''head_dim'' 0 = Some 0"
    using assms(1) by (simp add: get_dim_int_def get_int_from_def)
  have "apply_hidden_act_string o1 d = Some d' \<Longrightarrow> mc_head_dim d' = mc_head_dim d" for d d'
    by (auto simp: apply_hidden_act_string_def split: option.splits if_splits)
  then show "mc_head_dim c' = mc_head_dim c"
    using assms by (auto simp: set_llama_style_defaults_def absent_def upd_if_def derive_query_scalar_def Let_def)
qed

lemma tie_kept:
  "mc_tie_word_embeddings (ensure_gemma_terminators c) = mc_tie_word_embeddings c"
  "mc_tie_word_embeddings (derive_query_scalar o1 c) = mc_tie_word_embeddings c"
  "mc_tie_word_embeddings (gemma3_rope o1 c) = mc_tie_word_embeddings c"
  "mc_tie_word_embeddings (default_window key c) = mc_tie_word_embeddings c"
  "mc_tie_word_embeddings (upd_if b (mc_sliding_window_pattern_update f) c) = mc_tie_word_embeddings c"
  by (simp_all add: ensure_gemma_terminators_def derive_query_scalar_def gemma3_rope_def upd_if_def default_window_def Let_def)

lemma tie_overwritten: "gemma3_defaults o1 has_text key c = Some c' \<Longrightarrow> mc_tie_word_embeddings c'"
  unfolding gemma3_defaults_def Let_def option.inject by (drule sym) (simp add: tie_kept)

subsection \<open>Layers that share keys and values\<close>

lemma last_layer_bounds: "- 1 \<le> last_layer cfg global i \<and> last_layer cfg global i < int i"
  by (induction i) auto

lemma last_layer_kind: "0 \<le> last_layer cfg global i \<Longrightarrow> model_layer_is_global cfg (last_layer cfg global i) = global"
  by (induction i) (auto split: if_splits)

lemma last_layer_greatest: "0 \<le> k \<Longrightarrow> k < int i \<Longrightarrow> model_layer_is_global cfg k = global \<Longrightarrow> k \<le> last_layer cfg global i"
proof (induction i)
  case (Suc i)
  show ?case
  proof (cases "k = int i")
    case False
    then show ?thesis
      using Suc by simp
  qed (use Suc.prems in simp)
qed simp

text \<open>C40. A layer that shares keys and values takes them from the last layer of its own kind before the shared layers, and
  from none (-1) exactly when there is no such layer.\<close>

theorem model_kv_source_layer_correct:
  assumes "model_layer_kv_shared (Some c) layer" "src = model_kv_source_layer (Some c) layer"
  shows "(src = - 1 \<and> (\<forall>k\<in>{0..<mc_num_hidden_layers c - mc_num_kv_shared_layers c}.
        model_layer_is_global (Some c) k \<noteq> model_layer_is_global (Some c) layer)) \<or>
    (0 \<le> src \<and> src < layer \<and> \<not> model_layer_kv_shared (Some c) src \<and>
      model_layer_is_global (Some c) src = model_layer_is_global (Some c) layer \<and>
      (\<forall>k\<in>{src<..<mc_num_hidden_layers c - mc_num_kv_shared_layers c}.
        model_layer_is_global (Some c) k \<noteq> model_layer_is_global (Some c) layer))"
proof -
  let ?b = "mc_num_hidden_layers c - mc_num_kv_shared_layers c" and ?g = "model_layer_is_global (Some c) layer"
  have b: "0 < mc_num_kv_shared_layers c" "?b \<le> layer"
    using assms(1) by (auto simp: model_layer_kv_shared_def split: if_splits)
  then have src: "src = last_layer (Some c) ?g (nat ?b)"
    using assms(2) by (simp add: model_kv_source_layer_def Let_def)
  have great: "k \<le> src" if "0 \<le> k" "k < ?b" "model_layer_is_global (Some c) k = ?g" for k
    using last_layer_greatest [of k "nat ?b" "Some c" ?g] that src by simp
  show ?thesis
  proof (cases "src = - 1")
    case True
    then show ?thesis
      using great by force
  next
    case False
    then have src_bounds: "0 \<le> src" "src < ?b"
      using last_layer_bounds [of "Some c" ?g "nat ?b"] unfolding src [symmetric] by (simp_all split: if_splits)
    then have "model_layer_is_global (Some c) src = ?g"
      using last_layer_kind [of "Some c" ?g "nat ?b"] unfolding src [symmetric] by simp
    moreover have "\<forall>k\<in>{src<..<?b}. model_layer_is_global (Some c) k \<noteq> ?g"
    proof
      fix k assume "k \<in> {src<..<?b}"
      then show "model_layer_is_global (Some c) k \<noteq> ?g"
        using great [of k] src_bounds by auto
    qed
    ultimately show ?thesis
      using src_bounds b by (simp add: model_layer_kv_shared_def)
  qed
qed

definition sample_config :: model_config where
  "sample_config = config_defaults\<lparr>mc_num_hidden_layers := 6, mc_num_kv_shared_layers := 2, mc_has_sliding_window := True,
     mc_sliding_window_pattern := 3\<rparr>"

theorem model_kv_source_layer_correct_witness: "model_kv_source_layer (Some sample_config) 4 = 3 \<and> model_layer_kv_shared (Some sample_config) 4
    \<and> \<not> model_layer_kv_shared (Some sample_config) 3"
proof -
  have "model_layer_kv_shared (Some sample_config) 4" "model_kv_source_layer (Some sample_config) 4 = 3"
    by (simp_all add: model_layer_kv_shared_def model_kv_source_layer_def sample_config_def model_layer_is_global_def
        config_defaults_def c_rem_def numeral_nat)
  with model_kv_source_layer_correct [of sample_config 4 3] show ?thesis
    by simp
qed

end
