(* ===== verification/Spec2Isabelle.thy ===== *)
theory Spec2Isabelle
  imports Prelude CoreTypes Json OpenAIParse OpenAISerialize Base64 Sampler TokMap StreamChan Generate Engine TokRoundtrip Detok HttpWire HttpConn HttpRouter HttpDrain TokLoadSafe KvCache Discover ModelConfigSafe
begin

text \<open>
  A verification development of \<open>mlxd\<close>, a server for language models on the MLX array library that
  speaks the OpenAI HTTP interface. This theory only collects the others; each theory opens with a
  description of what it holds. Paths below are relative to \<open>src/src\<close>.

  \<^bold>\<open>The program.\<close> One thread runs the libuv loop with the HTTP server (\<open>http/server.c\<close>): it feeds the
  bytes of each connection to a request parser (\<open>http/conn.c\<close>, the grammar is llhttp), looks the
  request up in a route table (\<open>http/router.c\<close>) and calls a handler (\<open>http/handler.c\<close>). A handler
  parses the body (\<open>core/openai.c\<close>), builds the prompt (\<open>http/gen.c\<close>, \<open>chat/chat.c\<close>, \<open>model/tokenizer.c\<close>)
  and either answers (\<open>http/response.c\<close>) or starts a generation request (\<open>http/gen_request.c\<close>). A second
  thread is the engine (\<open>engine/engine.c\<close>): it takes commands from a mailbox, loads models and runs
  generations on the key/value cache (\<open>engine/kvcache.c\<close>), and sends the chunks of a generation through
  a ring buffer to its request, which turns ids into text (\<open>model/detok.c\<close>) and writes events
  (\<open>http/sse.c\<close>). Models are found, resolved and downloaded by \<open>registry/\<close>, and described by the
  configuration \<open>model/model.c\<close> reads.

  \<^bold>\<open>Conventions.\<close> Definitions carry the names of the C functions. A struct is a \<open>record\<close>, an enum a
  \<open>datatype\<close>, a pointer that may be \<open>NULL\<close> an \<open>option\<close>; a C string in a buffer is cut at its first NUL
  by \<open>c_str\<close>. Words of fixed width are used where wrapping is reachable (hashes, table counts, base64,
  codepoints); an \<open>int\<close> or \<open>size_t\<close> whose overflow the code excludes is an \<open>int\<close> or \<open>nat\<close> with the
  C check written out, and conversions to a narrower type go through \<open>c_int\<close> and its relatives. Doubles
  and floats are finite rationals with explicit rounding, infinities and NaN (\<open>Prelude\<close>). Texts of the
  tokenizer are lists of bytes, texts of JSON and HTTP are strings. Every early return of the code is
  a branch: an option, a sum with the message, or the status code the function returns. Dereferencing
  \<open>NULL\<close>, using freed memory and storing outside a buffer are the value \<open>None\<close> of the operations where
  the code can be driven there, and the theorems say exactly when that happens or that it does not.

  The allocator is an argument: \<open>mem n\<close> tells whether a request of \<open>n\<close> bytes is served, so a theorem
  over \<open>mem\<close> covers every failure that depends on the size of the request; where two failures of
  equal size must be told apart the calls take allocators of their own. Other code that is not part of
  the repository's own sources is a parameter too: yyjson's reader and writer (\<open>Json\<close>), the Unicode
  normaliser of CoreFoundation, jinja, llhttp, the calls of libuv and their failures, curl and the file
  system, the environment, \<open>pow\<close> and the parsing of decimal numbers, and the operations of MLX. Laws of
  such code appear as hypotheses (\<open>mlx_laws\<close> for the arrays of the cache, \<open>parser_advances\<close> for llhttp),
  each with an instance that satisfies it.

  \<^bold>\<open>Theories and sources.\<close>

  \<^item> \<open>Prelude\<close>, \<open>GrowBuf\<close>: machine types, C strings, floats, the allocator; the contract of the growable
    buffers as a locale, interpreted on the buffers of the tokenizer and the server.
  \<^item> \<open>CoreTypes\<close>: \<open>core/types.c\<close>. \<open>Json\<close>: the accessors of yyjson the sources use.
  \<^item> \<open>OpenAIParse\<close>, \<open>OpenAISerialize\<close>, \<open>Base64\<close>: \<open>core/openai.c\<close>. An accepted request is well formed
    (C1), the template input loses nothing of the messages (C2), base64 is lossless (C15, C16).
  \<^item> \<open>TokMap\<close>: \<open>model/tok_map.c\<close>, both hash tables as one open-addressing table with the hash as a
    parameter; refinement to a map and termination of the probe loops (C3 to C5) hold for every table
    the operations can produce, because a table always keeps an empty slot.
  \<^item> \<open>Unicode\<close>, \<open>UnicodeTables\<close>: \<open>model/tok_unicode.c\<close> and its generated tables: the codec, the validity
    scan, the classes, the byte table of GPT-2 (C17 to C20).
  \<^item> \<open>Pretok\<close>, \<open>BpeHeap\<close>, \<open>Bpe\<close>, \<open>BpeCorrect\<close>, \<open>TokEncode\<close>, \<open>TokScan\<close>, \<open>TokDecode\<close>, \<open>TokRoundtrip\<close>,
    \<open>TokLoad\<close>, \<open>TokLoadSafe\<close>: \<open>model/tokenizer.c\<close> and \<open>model/tok_bpe.h\<close>. Pre-tokenization is a partition
    (C21), the merge over a binary heap with stale candidates is the greedy merge (C22, C23), the scan
    for added tokens is the plain leftmost-longest one (C24), byte-level coding is a round trip up to
    normalization (C25), and what the loaders accept is well formed (C34). \<open>Detok\<close>:
    \<open>model/detok.c\<close>, streaming equals batch decoding (C26).
  \<^item> \<open>Sampler\<close>: the precedence of sampling knobs of \<open>engine/sampler.c\<close> (C6).
  \<^item> \<open>StreamChan\<close>, \<open>Generate\<close>, \<open>Engine\<close>: \<open>engine/engine.c\<close>: the ring buffer (C9, C10), the generation loop
    against an arbitrary consumer (C7, C8), the mailbox as a linked list in a heap under every
    interleaving of posts and takes (C11, C12), loads (C13, C14).
  \<^item> \<open>KvCache\<close>: \<open>engine/kvcache.c\<close>, the exact effect of an update, element types included (C35).
  \<^item> \<open>HttpWire\<close>: \<open>http/response.c\<close> and \<open>http/sse.c\<close>, read back by a client (C27, C28). \<open>HttpConn\<close>:
    \<open>http/conn.c\<close>, the limits for any grammar (C29). \<open>HttpRouter\<close>: \<open>http/router.c\<close>. \<open>ChatRender\<close>:
    \<open>chat/chat.c\<close>. \<open>HttpGen\<close>: \<open>http/gen.c\<close>. \<open>HttpHandler\<close>: \<open>http/handler.c\<close> (C31).
  \<^item> \<open>GenRequest\<close>, \<open>GenRequestSafe\<close>: \<open>http/gen_request.c\<close>, a state machine over the events of the loop
    and the engine; a connection is ended exactly once (C30). \<open>HttpServer\<close>, \<open>HttpServerSafe\<close>,
    \<open>HttpDrain\<close>: \<open>http/server.c\<close>: the read loop with its two exact exceptions (C32) and the graceful
    shutdown over every sequence of callbacks (C33).
  \<^item> \<open>Registry\<close>, \<open>RegistrySafe\<close>, \<open>Discover\<close>: \<open>registry/registry.c\<close>, \<open>registry/hub_client.c\<close>,
    \<open>registry/discover.c\<close>: a pull stays in its cache directory whatever the server answers (C36), the
    grammar of specifications (C37), the listing of cached models (C38).
  \<^item> \<open>ModelConfig\<close>, \<open>ModelConfigSafe\<close>: \<open>model/model.c\<close>: what a loaded configuration guarantees (C39) and
    the layer that provides shared keys and values (C40).

  \<^bold>\<open>Interfaces.\<close> Contracts between components are locales, each interpreted on the model of the code:
  the hash table as a map (\<open>kv_store\<close>), the candidate heap as a multiset with a least element
  (\<open>priority_queue\<close>), the growable buffers (\<open>grow_buffer\<close>), the stream as a bounded queue
  (\<open>bounded_queue\<close>), the command list as a queue of heap nodes (\<open>mailbox\<close>).

  \<^bold>\<open>Loops and fuel.\<close> Loops over data are structural recursions or carry a termination proof. A loop
  whose end depends on a table, a heap, another thread or a third-party parser returns an option, with
  \<open>None\<close> for not returning, and the end is proved: the probe loops by the free slot (C4); the merge loop
  with the fuel \<open>bpe_work\<close>, which every step decreases (C22); the scan for added tokens with the length of
  the text, as each round takes a byte (C24); the drain of the mailbox with one more than its nodes
  (C11); the read loop with the number of bytes, as each completed request takes one (C32);
  the generation loop under a consumer that acts, and not otherwise (C8).

  \<^bold>\<open>Simplifications.\<close> The engine thread and the loop thread interleave at the accesses of the stream, the
  mailbox and the load state, each of which holds a lock in the code; the callback \<open>gen_on_async\<close> is
  one step with respect to the engine. Ring positions are natural numbers, since the capacity bounds
  them. The builder calls of yyjson that make the template input do not fail in the model: the
  code turns any failure of theirs into the failure of the whole, which the allocator argument of the
  serializer also covers. Releasing memory that nothing refers to any more, logging and the reference
  counts of MLX arrays are left out.

  \<^bold>\<open>Not modelled.\<close> The filters of the sampler and the sampling itself, which are calls of MLX on device
  arrays; weights (\<open>model/weights.c\<close>) and the
  forward pass (\<open>engine/forward.c\<close>, \<open>engine/emodel.c\<close>); the command line and \<open>main.c\<close>, logging and system
  information, which are input and output around the parts above; the C++ bridge to MLX, which only
  forwards calls; set-up of sockets; the vendored libraries, the tools, scripts and tests.
\<close>

end
